(* ===== verification/Prelude.thy ===== *)
theory Prelude
  imports Main Complex_Main "HOL-Library.Product_Lexorder" "HOL-Library.List_Lexorder"
    "HOL-Library.Char_ord" "HOL-Library.Sublist" "HOL-Library.Multiset"
begin

text \<open>
  What the components share: the result type of fallible code, the shape of a JSON value,
  keyed lists (a Python \<open>dict\<close> in insertion order), and the generic facts on lists the
  component proofs use.  The collections declared here are filled by the components:
  \<open>py_text\<close> (string functions), \<open>plan_simps\<close> (unfolding of the plan operations) and
  \<open>frame\<close> (fields an operation leaves alone).
\<close>

named_theorems py_text \<open>facts on the Python string functions\<close>
named_theorems plan_simps \<open>definitions of the plan operations that proofs unfold\<close>
named_theorems frame \<open>fields an operation leaves alone\<close>

type_synonym ident = string
type_synonym timestamp = rat

section \<open>Results: a raised error or a value\<close>

text \<open>A call that may raise is a sum: \<open>Inl\<close> the exception, \<open>Inr\<close> the returned value.
  \<open>bindR\<close> runs the rest of the body only when the call returned.\<close>

fun bindR :: "'e + 'a \<Rightarrow> ('a \<Rightarrow> 'e + 'b) \<Rightarrow> 'e + 'b" where
  "bindR (Inl e) f = Inl e"
| "bindR (Inr x) f = f x"

definition check :: "bool \<Rightarrow> 'e \<Rightarrow> 'e + unit" where
  "check ok e = (if ok then Inr () else Inl e)"

fun foldR :: "('s \<Rightarrow> 'a \<Rightarrow> 'e + 's) \<Rightarrow> 's \<Rightarrow> 'a list \<Rightarrow> 'e + 's" where
  "foldR f s [] = Inr s"
| "foldR f s (x # xs) = bindR (f s x) (\<lambda>s'. foldR f s' xs)"

lemma bindR_Inr_iff [simp]: "bindR m f = Inr y \<longleftrightarrow> (\<exists>x. m = Inr x \<and> f x = Inr y)"
  by (cases m) auto

lemma bindR_Inl_iff: "bindR m f = Inl e \<longleftrightarrow> m = Inl e \<or> (\<exists>x. m = Inr x \<and> f x = Inl e)"
  by (cases m) auto

lemma bindR_assoc: "bindR (bindR m f) g = bindR m (\<lambda>x. bindR (f x) g)"
  by (cases m) auto

lemma check_Inr_iff [simp]: "check ok e = Inr u \<longleftrightarrow> ok"
  by (simp add: check_def)

lemma check_Inl_iff [simp]: "check ok e = Inl e' \<longleftrightarrow> \<not> ok \<and> e' = e"
  by (auto simp: check_def)

lemma not_isl_Inr: "\<not> isl m \<Longrightarrow> \<exists>a b. m = Inr (a, b)"
  by (cases m) auto

lemma foldR_append: "foldR f s (xs @ ys) = bindR (foldR f s xs) (\<lambda>s'. foldR f s' ys)"
  by (induction xs arbitrary: s) (auto simp: bindR_assoc)

lemma foldR_invariant:
  assumes "foldR f s xs = Inr t" and "P s"
    and "\<And>s x s'. x \<in> set xs \<Longrightarrow> P s \<Longrightarrow> f s x = Inr s' \<Longrightarrow> P s'"
  shows "P t"
  using assms by (induction xs arbitrary: s) auto

section \<open>JSON values\<close>

text \<open>A value \<open>json.loads\<close> returns.  Stored JSON text is represented by the value it
  encodes: \<open>json.dumps\<close> and \<open>json.loads\<close> are inverse on these values.\<close>

datatype json =
    JNull
  | JBool bool
  | JNum rat
  | JStr string
  | JList "json list"
  | JObj "(string \<times> json) list"

section \<open>Keyed lists\<close>

text \<open>A \<open>dict\<close> as the list of its items in insertion order.  \<open>dict_set\<close> is
  \<open>d[k] = v\<close>: an existing key keeps its place.\<close>

fun dict_set :: "'k \<Rightarrow> 'v \<Rightarrow> ('k \<times> 'v) list \<Rightarrow> ('k \<times> 'v) list" where
  "dict_set k v [] = [(k, v)]"
| "dict_set k v ((k', v') # d) = (if k' = k then (k, v) # d else (k', v') # dict_set k v d)"

lemma map_of_dict_set [simp]: "map_of (dict_set k v d) = (map_of d)(k \<mapsto> v)"
  by (induction d) auto

lemma keys_dict_set [simp]: "fst ` set (dict_set k v d) = insert k (fst ` set d)"
  by (induction k v d rule: dict_set.induct) (simp_all add: insert_commute)

lemma distinct_dict_set:
  "distinct (map fst d) \<Longrightarrow> distinct (map fst (dict_set k v d))"
proof (induction d)
  case (Cons p d)
  have "fst ` set (dict_set k v d) = insert k (fst ` set d)" by simp
  with Cons show ?case by (cases p) auto
qed simp

lemma map_of_foldl_dict_set:
  "map_of (foldl (\<lambda>u m. dict_set (f m) m u) d ms) = map_of d ++ map_of (rev (map (\<lambda>m. (f m, m)) ms))"
  by (induction ms rule: rev_induct) (auto simp: map_add_def fun_eq_iff)

lemma distinct_foldl_dict_set:
  "distinct (map fst d) \<Longrightarrow> distinct (map fst (foldl (\<lambda>u m. dict_set (f m) m u) d ms))"
  by (induction ms arbitrary: d) (auto intro: distinct_dict_set)

lemma set_dict_set: "set (dict_set k v d) \<subseteq> insert (k, v) (set d)"
  by (induction d rule: dict_set.induct) auto

lemma keyed_foldl_dict_set:
  "\<forall>kv\<in>set d. fst kv = f (snd kv) \<Longrightarrow>
    \<forall>kv\<in>set (foldl (\<lambda>u m. dict_set (f m) m u) d ms). fst kv = f (snd kv)"
proof (induction ms arbitrary: d)
  case (Cons m ms)
  have "\<forall>kv\<in>set (dict_set (f m) m d). fst kv = f (snd kv)"
    using Cons.prems set_dict_set[of "f m" m d] by auto
  then show ?case using Cons.IH by simp
qed simp

section \<open>Lists\<close>

lemma find_SomeD: "find P xs = Some x \<Longrightarrow> x \<in> set xs \<and> P x"
  by (induction xs) (auto split: if_splits)

lemma find_None_iff': "find P xs = None \<longleftrightarrow> (\<forall>x\<in>set xs. \<not> P x)"
  by (induction xs) auto

lemma find_append: "find P (xs @ ys) = (case find P xs of None \<Rightarrow> find P ys | Some x \<Rightarrow> Some x)"
  by (induction xs) auto

lemma notin_imageD: "y \<notin> f ` A \<Longrightarrow> x \<in> A \<Longrightarrow> f x \<noteq> y"
  by blast

lemma find_unique:
  assumes "distinct (map f xs)" and "x \<in> set xs"
  shows "find (\<lambda>y. f y = f x) xs = Some x"
  using assms by (induction xs) (auto simp: image_iff)

lemma find_map_update:
  assumes "\<And>x. f (g x) = f x"
  shows "find (\<lambda>x. f x = k) (map g xs) = map_option g (find (\<lambda>x. f x = k) xs)"
  using assms by (induction xs) auto

lemma distinct_map_filterI: "distinct (map f xs) \<Longrightarrow> distinct (map f (filter P xs))"
  by (induction xs) auto

lemma distinct_concat_map:
  assumes "distinct xs" and "\<And>x. x \<in> set xs \<Longrightarrow> distinct (f x)"
    and "\<And>x y. x \<in> set xs \<Longrightarrow> y \<in> set xs \<Longrightarrow> x \<noteq> y \<Longrightarrow> set (f x) \<inter> set (f y) = {}"
  shows "distinct (concat (map f xs))"
  using assms
proof (induction xs)
  case (Cons x xs)
  then have "set (f x) \<inter> set (f y) = {}" if "y \<in> set xs" for y using that by auto
  with Cons show ?case by auto
qed simp

lemma distinct_singleton: "distinct xs \<Longrightarrow> set xs = {x} \<Longrightarrow> xs = [x]"
  by (cases xs; cases "tl xs") auto

lemma mset_take_out:
  "distinct xs \<Longrightarrow> x \<in> set xs \<Longrightarrow> mset xs = add_mset x (mset (filter (\<lambda>y. y \<noteq> x) xs))"
proof (induction xs)
  case (Cons y ys)
  have "filter (\<lambda>z. z \<noteq> x) ys = ys" if "x \<notin> set ys" using that by (auto simp: filter_id_conv)
  with Cons show ?case by (cases "y = x") (auto simp del: mset_filter)
qed simp

lemma mset_insert_at: "mset (take k xs @ x # drop k xs) = add_mset x (mset xs)"
  using mset_append[of "take k xs" "drop k xs"] by simp

lemma sort_key_distinct_map:
  "distinct (map f (sort_key g xs)) = distinct (map f xs)"
proof -
  have "mset (map f (sort_key g xs)) = mset (map f xs)" by simp
  then show ?thesis by (metis mset_eq_imp_distinct_iff)
qed

lemma sort_key_unique:
  assumes "set xs = set ys" and "distinct xs" and "distinct ys" and "sorted (map f ys)" and "inj_on f (set ys)"
  shows "sort_key f xs = ys"
  by (rule sort_key_inj_key_eq) (use assms set_eq_iff_mset_eq_distinct[OF assms(2,3)] in auto)

end
