(* ===== verification/PyText.thy ===== *)
theory PyText
  imports Prelude
begin

text \<open>
  The Python string methods the plan code uses, on strings of code points below 256 (one HOL
  \<open>char\<close> each).  On that range they are what CPython computes: white space is what
  \<open>str.isspace\<close> accepts, \<open>splitlines\<close> breaks at every line boundary CPython knows, and
  \<open>casefold\<close> folds the Latin-1 letters (the micro sign, which CPython folds to a letter
  outside the range, is left alone: no other code point below 256 folds to that letter, so
  comparisons of folded strings are unchanged).
\<close>

section \<open>Character classes\<close>

abbreviation ord :: "char \<Rightarrow> nat" where "ord c \<equiv> of_char c"

definition is_space :: "char \<Rightarrow> bool" where
  "is_space c = (9 \<le> ord c \<and> ord c \<le> 13 \<or> 28 \<le> ord c \<and> ord c \<le> 32
     \<or> ord c = 133 \<or> ord c = 160)"

definition is_line_break :: "char \<Rightarrow> bool" where
  "is_line_break c = (10 \<le> ord c \<and> ord c \<le> 13 \<or> 28 \<le> ord c \<and> ord c \<le> 30 \<or> ord c = 133)"

text \<open>\<open>re\<close>'s \<open>\d\<close>, and \<open>str.isdigit\<close> of one character, which also takes the three
  superscript digits.\<close>

definition is_decimal :: "char \<Rightarrow> bool" where
  "is_decimal c = (48 \<le> ord c \<and> ord c \<le> 57)"

definition is_digit :: "char \<Rightarrow> bool" where
  "is_digit c = (is_decimal c \<or> ord c = 178 \<or> ord c = 179 \<or> ord c = 185)"

definition is_upper_ascii :: "char \<Rightarrow> bool" where
  "is_upper_ascii c = (65 \<le> ord c \<and> ord c \<le> 90)"

text \<open>\<open>re\<close>'s \<open>\w\<close>: \<open>str.isalnum\<close> or an underscore.\<close>

definition is_word :: "char \<Rightarrow> bool" where
  "is_word c = (let n = ord c in is_decimal c \<or> is_upper_ascii c \<or> 97 \<le> n \<and> n \<le> 122 \<or> n = 95
     \<or> n = 170 \<or> n = 178 \<or> n = 179 \<or> n = 181 \<or> n = 185 \<or> n = 186 \<or> 188 \<le> n \<and> n \<le> 190
     \<or> 192 \<le> n \<and> n \<le> 214 \<or> 216 \<le> n \<and> n \<le> 246 \<or> 248 \<le> n)"

definition fold_char :: "char \<Rightarrow> string" where
  "fold_char c = (let n = ord c in
     if is_upper_ascii c \<or> 192 \<le> n \<and> n \<le> 222 \<and> n \<noteq> 215 then [char_of (n + 32)]
     else if n = 223 then ''ss'' else [c])"

definition casefold :: "string \<Rightarrow> string" where
  "casefold s = concat (map fold_char s)"

section \<open>Stripping, splitting, joining\<close>

definition lstrip_by :: "(char \<Rightarrow> bool) \<Rightarrow> string \<Rightarrow> string" where
  "lstrip_by p s = dropWhile p s"

definition rstrip_by :: "(char \<Rightarrow> bool) \<Rightarrow> string \<Rightarrow> string" where
  "rstrip_by p s = rev (dropWhile p (rev s))"

definition strip_by :: "(char \<Rightarrow> bool) \<Rightarrow> string \<Rightarrow> string" where
  "strip_by p s = rstrip_by p (lstrip_by p s)"

abbreviation strip :: "string \<Rightarrow> string" where "strip \<equiv> strip_by is_space"
abbreviation lstrip :: "string \<Rightarrow> string" where "lstrip \<equiv> lstrip_by is_space"

definition blank :: "string \<Rightarrow> bool" where
  "blank s = (strip s = [])"

lemma dropWhile_length_le: "length (dropWhile p xs) \<le> length xs"
  by (induction xs) auto

text \<open>\<open>s.split()\<close>: the maximal runs of non-white characters.\<close>

function split_ws :: "string \<Rightarrow> string list" where
  "split_ws s = (case dropWhile is_space s of [] \<Rightarrow> []
     | t \<Rightarrow> takeWhile (\<lambda>c. \<not> is_space c) t # split_ws (dropWhile (\<lambda>c. \<not> is_space c) t))"
  by pat_completeness auto

termination
proof (relation "measure length")
  fix s x y
  assume eq: "dropWhile is_space s = x # y"
  have "\<not> is_space x" using eq hd_dropWhile[of is_space s] by simp
  then have "length (dropWhile (\<lambda>c. \<not> is_space c) (x # y)) \<le> length y"
    by (simp add: dropWhile_length_le)
  moreover have "length (x # y) \<le> length s" using eq dropWhile_length_le[of is_space s] by simp
  ultimately show "(dropWhile (\<lambda>c. \<not> is_space c) (x # y), s) \<in> measure length" by simp
qed simp

declare split_ws.simps [simp del]

fun join :: "string \<Rightarrow> string list \<Rightarrow> string" where
  "join sep [] = []"
| "join sep [x] = x"
| "join sep (x # y # zs) = x @ sep @ join sep (y # zs)"

definition squash :: "string \<Rightarrow> string" where
  "squash s = join '' '' (split_ws s)"

text \<open>\<open>s.split(c)\<close> for a one-character separator: never empty.\<close>

fun split_on :: "char \<Rightarrow> string \<Rightarrow> string list" where
  "split_on c [] = [[]]"
| "split_on c (x # xs) = (if x = c then [] # split_on c xs
     else (case split_on c xs of [] \<Rightarrow> [[x]] | l # ls \<Rightarrow> (x # l) # ls))"

text \<open>\<open>s.splitlines()\<close>: a trailing line boundary opens no further line, and CR LF is one
  boundary.\<close>

fun splitlines :: "string \<Rightarrow> string list" where
  "splitlines [] = []"
| "splitlines (x # xs) =
     (if ord x = 13 \<and> xs \<noteq> [] \<and> ord (hd xs) = 10 then [] # splitlines (tl xs)
      else if is_line_break x then [] # splitlines xs
      else (case splitlines xs of [] \<Rightarrow> [[x]] | l # ls \<Rightarrow> (x # l) # ls))"

definition starts_with :: "string \<Rightarrow> string \<Rightarrow> bool" where
  "starts_with p s = (take (length p) s = p)"

section \<open>Numbers as text\<close>

definition digit_char :: "nat \<Rightarrow> char" where
  "digit_char n = char_of (48 + n)"

fun nat_str :: "nat \<Rightarrow> string" where
  "nat_str n = (if n < 10 then [digit_char n] else nat_str (n div 10) @ [digit_char (n mod 10)])"

declare nat_str.simps [simp del]

text \<open>\<open>str\<close> of an \<open>int\<close>.\<close>

definition int_str :: "int \<Rightarrow> string" where
  "int_str z = (if z < 0 then CHR ''-'' # nat_str (nat (- z)) else nat_str (nat z))"

end
