(* ===== verification/PlanModel.thy ===== *)
theory PlanModel
  imports PyText
begin

text \<open>
  The shapes of a plan and its nodes: \<open>plans/model.py\<close>, with the clarification records of
  \<open>engine/planning.py\<close> a node carries.  A plan's nodes are a list; \<open>children\<close> and
  \<open>descendants\<close> read the tree out of their \<open>parent_id\<close> fields.  Digests (SHA-256 of the
  canonical JSON text) are taken through a function parameter on the JSON value.
\<close>

section \<open>Enumerations\<close>

datatype level = Initiative | Epic | Task
datatype node_state = Draft | Proposed | Approved | Published
datatype origin = Person | Planner | FromForge
datatype task_kind = CodeTask | WorkloadTask
datatype forge_state = ForgeOpen | ForgeClosed
datatype plan_status = PlanDraft | PlanPublished | PlanArchived
datatype advance = Manual | Auto
datatype verdict = VerdictApprove | VerdictEscalate
datatype drift_change = DTitle | DSections | DState | DAdopted | DMoved | DDetached | DReattached
  | DMarkerRemoved | DChecklistMangled | DOther json
datatype replan_action = RAdd | RModify | RSuggestClose | ROther json
datatype clar_status = AwaitingAnswers | Answered | Skipped | Withdrawn

fun child_level :: "level \<Rightarrow> level option" where
  "child_level Initiative = Some Epic"
| "child_level Epic = Some Task"
| "child_level Task = None"

fun level_name :: "level \<Rightarrow> string" where
  "level_name Initiative = ''initiative''"
| "level_name Epic = ''epic''"
| "level_name Task = ''task''"

fun kind_name :: "task_kind \<Rightarrow> string" where
  "kind_name CodeTask = ''code''"
| "kind_name WorkloadTask = ''workload''"

fun verdict_name :: "verdict \<Rightarrow> string" where
  "verdict_name VerdictApprove = ''approve''"
| "verdict_name VerdictEscalate = ''escalate''"

text \<open>A drift's change and an entry's action are read back from storage without a check; a
  value outside the literal type is kept as it is (\<open>DOther\<close>, \<open>ROther\<close>).\<close>

fun drift_name :: "drift_change \<Rightarrow> json" where
  "drift_name DTitle = JStr ''title''"
| "drift_name DSections = JStr ''sections''"
| "drift_name DState = JStr ''state''"
| "drift_name DAdopted = JStr ''adopted''"
| "drift_name DMoved = JStr ''moved''"
| "drift_name DDetached = JStr ''detached''"
| "drift_name DReattached = JStr ''reattached''"
| "drift_name DMarkerRemoved = JStr ''marker_removed''"
| "drift_name DChecklistMangled = JStr ''checklist_mangled''"
| "drift_name (DOther j) = j"

definition drift_changes :: "drift_change list" where
  "drift_changes = [DTitle, DSections, DState, DAdopted, DMoved, DDetached, DReattached,
     DMarkerRemoved, DChecklistMangled]"

definition drift_of_name :: "json \<Rightarrow> drift_change" where
  "drift_of_name j = (case find (\<lambda>c. drift_name c = j) drift_changes of
     Some c \<Rightarrow> c | None \<Rightarrow> DOther j)"

fun action_name :: "replan_action \<Rightarrow> json" where
  "action_name RAdd = JStr ''add''"
| "action_name RModify = JStr ''modify''"
| "action_name RSuggestClose = JStr ''suggest_close''"
| "action_name (ROther j) = j"

definition action_of_name :: "json \<Rightarrow> replan_action" where
  "action_of_name j = (case find (\<lambda>c. action_name c = j) [RAdd, RModify, RSuggestClose] of
     Some c \<Rightarrow> c | None \<Rightarrow> ROther j)"

section \<open>Records\<close>

record forge_ref =
  f_number :: int
  f_url :: string
  f_state :: "forge_state option"
  f_updated_at :: "string option"
  f_detached :: "string option"
  f_marker_missing :: bool
  f_checklist_error :: "string option"

record drift =
  d_change :: drift_change
  d_at :: timestamp
  d_before :: "(string \<times> json) list"
  d_after :: "(string \<times> json) list"
  d_reason :: "string option"

record replan_entry =
  e_id :: ident
  e_action :: replan_action
  e_node_id :: ident
  e_sections :: "(string \<times> json) list"
  e_before :: "(string \<times> json) list"
  e_rationale :: string
  e_error :: "string option"
  e_forge_version :: "string option"

record replan =
  r_id :: ident
  r_run_id :: "ident option"
  r_proposed_at :: timestamp
  r_entries :: "replan_entry list"
  r_proposed_by :: "ident option"

record plan_review =
  v_run_id :: ident
  v_verdict :: verdict
  v_digest :: string
  v_reasons :: "string list"
  v_reviewed_by :: "ident option"
  v_at :: timestamp

record question_choice =
  c_value :: string
  c_label :: string
  c_description :: "string option"

record plan_question =
  q_id :: ident
  q_prompt :: string
  q_choices :: "question_choice list"
  q_allow_free_text :: bool

record plan_answer =
  a_value :: "string option"
  a_text :: string

record clarification =
  k_run_id :: ident
  k_questions :: "plan_question list"
  k_answers :: "(ident \<times> plan_answer) list"
  k_status :: clar_status
  k_asked_at :: timestamp
  k_answered_at :: "timestamp option"
  k_answered_by :: "string option"
  k_posts :: "(string \<times> ident) list"

record plan_node =
  n_id :: ident
  n_plan_id :: ident
  n_parent_id :: "ident option"
  n_position :: int
  n_level :: level
  n_repository :: string
  n_state :: node_state
  n_origin :: origin
  n_title :: string
  n_goal :: string
  n_context :: string
  n_acceptance_criteria :: "string list"
  n_kind :: "task_kind option"
  n_workload_profile :: "string option"
  n_verify_commands :: "string list"
  n_depends_on :: "ident list"
  n_non_goals :: string
  n_constraints :: string
  n_forge :: "forge_ref option"
  n_created_at :: timestamp
  n_updated_at :: timestamp
  n_drift :: "drift list"
  n_generation :: "clarification option"
  n_replan :: "replan option"
  n_proposed_by :: "ident option"
  n_approved_by :: "ident option"
  n_published_by :: "ident option"
  n_review :: "plan_review option"

record plan =
  p_id :: ident
  p_workspace_id :: ident
  p_root_id :: ident
  p_archived :: bool
  p_created_by :: "ident option"
  p_created_by_display :: "string option"
  p_created_at :: timestamp
  p_updated_at :: timestamp
  p_revision :: int
  p_nodes :: "plan_node list"
  p_reconciled_at :: "timestamp option"
  p_reconcile_error :: "string option"
  p_input :: "(string \<times> json) list"
  p_advance :: advance
  p_goal_id :: "ident option"

section \<open>Reading a plan\<close>

text \<open>A detached reason counts when it is a non-empty string, as Python's truth of it does.\<close>

definition truthy :: "string option \<Rightarrow> bool" where
  "truthy s = (case s of None \<Rightarrow> False | Some t \<Rightarrow> t \<noteq> [])"

definition detached :: "plan_node \<Rightarrow> bool" where
  "detached n = (case n_forge n of None \<Rightarrow> False | Some f \<Rightarrow> truthy (f_detached f))"

definition followed :: "plan_node \<Rightarrow> bool" where
  "followed n = (n_state n = Published \<and> n_forge n \<noteq> None \<and> \<not> detached n)"

definition plan_node_of :: "plan \<Rightarrow> ident \<Rightarrow> plan_node option" where
  "plan_node_of p i = find (\<lambda>n. n_id n = i) (p_nodes p)"

text \<open>\<open>Plan.root\<close> raises \<open>StopIteration\<close> on a plan that lost its root row.\<close>

definition root :: "plan \<Rightarrow> plan_node option" where
  "root p = plan_node_of p (p_root_id p)"

definition generation_pending :: "plan \<Rightarrow> bool" where
  "generation_pending p = (p_input p \<noteq> [] \<and> (case root p of None \<Rightarrow> False
     | Some r \<Rightarrow> n_origin r = Person \<and> n_state r \<noteq> Published))"

definition plan_state :: "plan \<Rightarrow> plan_status" where
  "plan_state p = (if p_archived p then PlanArchived
     else if (\<exists>n \<in> set (p_nodes p). n_state n = Published) then PlanPublished else PlanDraft)"

definition by_position :: "plan_node list \<Rightarrow> plan_node list" where
  "by_position ns = sort_key (\<lambda>n. (n_position n, n_id n)) ns"

definition children_in :: "plan_node list \<Rightarrow> ident \<Rightarrow> plan_node list" where
  "children_in ns i = by_position (filter (\<lambda>n. n_parent_id n = Some i) ns)"

definition children :: "plan \<Rightarrow> ident \<Rightarrow> plan_node list" where
  "children p i = children_in (p_nodes p) i"

text \<open>\<open>Plan.descendants\<close> recurses without a bound.  The fuel is one more than the number
  of nodes; a plan whose parents form a tree never spends it (\<open>descendants_fuel_enough\<close> in
  \<open>PlanTree\<close>).\<close>

fun descendants_fuel :: "nat \<Rightarrow> plan_node list \<Rightarrow> ident \<Rightarrow> plan_node list" where
  "descendants_fuel 0 ns i = []"
| "descendants_fuel (Suc k) ns i =
     concat (map (\<lambda>c. c # descendants_fuel k ns (n_id c)) (children_in ns i))"

definition descendants :: "plan \<Rightarrow> ident \<Rightarrow> plan_node list" where
  "descendants p i = descendants_fuel (Suc (length (p_nodes p))) (p_nodes p) i"

definition replan_entry_of :: "replan \<Rightarrow> ident \<Rightarrow> replan_entry option" where
  "replan_entry_of r i = find (\<lambda>e. e_id e = i) (r_entries r)"

section \<open>Content, digests and reviews\<close>

abbreviation jstrs :: "string list \<Rightarrow> json" where "jstrs xs \<equiv> JList (map JStr xs)"

definition jopt :: "('a \<Rightarrow> json) \<Rightarrow> 'a option \<Rightarrow> json" where
  "jopt f x = (case x of None \<Rightarrow> JNull | Some v \<Rightarrow> f v)"

definition content :: "plan_node \<Rightarrow> (string \<times> json) list" where
  "content n =
     [(''title'', JStr (n_title n)), (''goal'', JStr (n_goal n)), (''context'', JStr (n_context n)),
      (''acceptance_criteria'', jstrs (n_acceptance_criteria n)),
      (''kind'', jopt (\<lambda>k. JStr (kind_name k)) (n_kind n)),
      (''workload_profile'', jopt JStr (n_workload_profile n)),
      (''verify_commands'', jstrs (n_verify_commands n)),
      (''depends_on'', jstrs (n_depends_on n)),
      (''non_goals'', JStr (n_non_goals n)), (''constraints'', JStr (n_constraints n))]"

definition content_version :: "(json \<Rightarrow> string) \<Rightarrow> plan_node \<Rightarrow> string" where
  "content_version digest n = ''c1-'' @ digest (JObj (content n))"

definition reviewed :: "plan_node \<Rightarrow> json" where
  "reviewed n = JObj ([(''id'', JStr (n_id n)), (''level'', JStr (level_name (n_level n))),
      (''repository'', JStr (n_repository n)), (''position'', JNum (of_int (n_position n)))]
      @ content n)"

definition covered :: "plan \<Rightarrow> plan_node \<Rightarrow> bool \<Rightarrow> json" where
  "covered p n include_node = JObj
     [(''node'', if include_node then reviewed n else JNull),
      (''children'', JList (map reviewed (children p (n_id n))))]"

definition review_digest :: "(json \<Rightarrow> string) \<Rightarrow> plan \<Rightarrow> plan_node \<Rightarrow> bool \<Rightarrow> string" where
  "review_digest digest p n include_node = ''r1-'' @ digest (covered p n include_node)"

definition review_is_current ::
  "(json \<Rightarrow> string) \<Rightarrow> plan \<Rightarrow> plan_node \<Rightarrow> bool option \<Rightarrow> bool" where
  "review_is_current digest p n include_node =
     (case n_review n of None \<Rightarrow> False
      | Some r \<Rightarrow>
          (let wanted = (case include_node of None \<Rightarrow> [False, True] | Some b \<Rightarrow> [b])
           in list_ex (\<lambda>scope. v_digest r = review_digest digest p n scope) wanted))"

section \<open>JSON shapes of a node's parts\<close>

definition drift_as_dict :: "drift \<Rightarrow> json" where
  "drift_as_dict d = JObj [(''change'', drift_name (d_change d)), (''at'', JNum (d_at d)),
     (''before'', JObj (d_before d)), (''after'', JObj (d_after d)),
     (''reason'', jopt JStr (d_reason d))]"

definition entry_as_dict :: "replan_entry \<Rightarrow> json" where
  "entry_as_dict e = JObj [(''id'', JStr (e_id e)), (''action'', action_name (e_action e)),
     (''node_id'', JStr (e_node_id e)), (''sections'', JObj (e_sections e)),
     (''before'', JObj (e_before e)), (''rationale'', JStr (e_rationale e)),
     (''error'', jopt JStr (e_error e)), (''forge_version'', jopt JStr (e_forge_version e))]"

definition replan_as_dict :: "replan \<Rightarrow> json" where
  "replan_as_dict r = JObj [(''id'', JStr (r_id r)), (''run_id'', jopt JStr (r_run_id r)),
     (''proposed_at'', JNum (r_proposed_at r)), (''entries'', JList (map entry_as_dict (r_entries r))),
     (''proposed_by'', jopt JStr (r_proposed_by r))]"

definition review_as_dict :: "plan_review \<Rightarrow> json" where
  "review_as_dict v = JObj [(''run_id'', JStr (v_run_id v)),
     (''verdict'', JStr (verdict_name (v_verdict v))), (''reasons'', jstrs (v_reasons v)),
     (''digest'', JStr (v_digest v)), (''reviewed_by'', jopt JStr (v_reviewed_by v)),
     (''at'', JNum (v_at v))]"

definition jget :: "(string \<times> json) list \<Rightarrow> string \<Rightarrow> json" where
  "jget d k = (case map_of d k of None \<Rightarrow> JNull | Some v \<Rightarrow> v)"

definition verdict_of :: "json \<Rightarrow> verdict option" where
  "verdict_of j = (if j = JStr ''approve'' then Some VerdictApprove
     else if j = JStr ''escalate'' then Some VerdictEscalate else None)"

fun jstr_list :: "json list \<Rightarrow> string list option" where
  "jstr_list [] = Some []"
| "jstr_list (JStr s # js) = map_option ((#) s) (jstr_list js)"
| "jstr_list (_ # js) = None"

text \<open>\<open>PlanReview.from_dict\<close>: any field of another type means no review.\<close>

definition review_from_dict :: "json \<Rightarrow> plan_review option" where
  "review_from_dict data = (case data of JObj d \<Rightarrow>
     (case (verdict_of (jget d ''verdict''), jget d ''digest'') of
        (Some verdict, JStr digest) \<Rightarrow>
          if digest = [] then None else
          (case (case map_of d ''reasons'' of None \<Rightarrow> Some []
                 | Some (JList js) \<Rightarrow> jstr_list js | Some _ \<Rightarrow> None) of
             None \<Rightarrow> None
           | Some reasons \<Rightarrow>
               (case (case map_of d ''at'' of None \<Rightarrow> JNum 0 | Some v \<Rightarrow> v) of
                  JNum tm \<Rightarrow>
                    (case (jget d ''run_id'', jget d ''reviewed_by'') of
                       (JStr run_id, JNull) \<Rightarrow> if run_id = [] then None else
                          Some \<lparr>v_run_id = run_id, v_verdict = verdict, v_digest = digest,
                            v_reasons = reasons, v_reviewed_by = None, v_at = tm\<rparr>
                     | (JStr run_id, JStr who) \<Rightarrow> if run_id = [] then None else
                          Some \<lparr>v_run_id = run_id, v_verdict = verdict, v_digest = digest,
                            v_reasons = reasons, v_reviewed_by = Some who, v_at = tm\<rparr>
                     | _ \<Rightarrow> None)
                | _ \<Rightarrow> None))
      | _ \<Rightarrow> None)
    | _ \<Rightarrow> None)"

section \<open>Facts\<close>

lemma by_position_set [simp]: "set (by_position ns) = set ns"
  by (simp add: by_position_def)

lemma by_position_length [simp]: "length (by_position ns) = length ns"
  by (simp add: by_position_def)

lemma by_position_distinct [simp]: "distinct (map n_id (by_position ns)) = distinct (map n_id ns)"
  by (simp add: by_position_def sort_key_distinct_map)

lemma in_children_in [simp]:
  "n \<in> set (children_in ns i) \<longleftrightarrow> n \<in> set ns \<and> n_parent_id n = Some i"
  by (auto simp: children_in_def)

lemma children_in_Nil_iff:
  "children_in ns i = [] \<longleftrightarrow> (\<forall>n\<in>set ns. n_parent_id n \<noteq> Some i)"
  by (metis in_children_in list.set_intros(1) neq_Nil_conv empty_iff list.set(1))

lemma in_children [simp]: "n \<in> set (children p i) \<longleftrightarrow> n \<in> set (p_nodes p) \<and> n_parent_id n = Some i"
  by (simp add: children_def)

lemma children_in_distinct:
  "distinct (map n_id ns) \<Longrightarrow> distinct (map n_id (children_in ns i))"
  by (simp add: children_in_def distinct_map_filterI)

lemma plan_node_of_SomeD:
  "plan_node_of p i = Some n \<Longrightarrow> n \<in> set (p_nodes p) \<and> n_id n = i"
  unfolding plan_node_of_def by (drule find_SomeD) simp

lemma plan_node_of_unique:
  "distinct (map n_id (p_nodes p)) \<Longrightarrow> n \<in> set (p_nodes p) \<Longrightarrow> plan_node_of p (n_id n) = Some n"
  unfolding plan_node_of_def by (rule find_unique)

lemma jstr_list_map [simp]: "jstr_list (map JStr xs) = Some xs"
  by (induction xs) auto

lemma drift_of_drift_name: "(\<forall>j. c \<noteq> DOther j) \<Longrightarrow> drift_of_name (drift_name c) = c"
  by (cases c) (auto simp: drift_of_name_def drift_changes_def)

lemma action_of_action_name: "(\<forall>j. a \<noteq> ROther j) \<Longrightarrow> action_of_name (action_name a) = a"
  by (cases a) (auto simp: action_of_name_def)

lemma verdict_of_name [simp]: "verdict_of (JStr (verdict_name v)) = Some v"
  by (cases v) (auto simp: verdict_of_def)

lemma review_round_trip:
  assumes "v_run_id v \<noteq> []" and "v_digest v \<noteq> []"
  shows "review_from_dict (review_as_dict v) = Some v"
  using assms
  by (cases v; cases "v_reviewed_by v")
     (auto simp: review_from_dict_def review_as_dict_def jget_def jopt_def)

end
