(* ===== verification/PlanTree.thy ===== *)
theory PlanTree
  imports PlanModel
begin

text \<open>
  The tree invariant of a plan, what \<open>children\<close> and \<open>descendants\<close> compute on it, the
  dependency graph among siblings, and the rules every node keeps (\<open>node_ok\<close>, the rules of
  \<open>_with_sections\<close>).  \<open>wf_plan\<close> is the invariant every operation of the plan service
  preserves.
\<close>

section \<open>The tree\<close>

fun rank :: "level \<Rightarrow> nat" where
  "rank Task = 0"
| "rank Epic = 1"
| "rank Initiative = 2"

definition parent_ok :: "ident \<Rightarrow> plan_node list \<Rightarrow> plan_node \<Rightarrow> bool" where
  "parent_ok r ns n = (case n_parent_id n of
     None \<Rightarrow> n_id n = r \<and> n_level n \<noteq> Task
   | Some q \<Rightarrow> n_id n \<noteq> r \<and> (\<exists>m\<in>set ns. n_id m = q \<and> child_level (n_level m) = Some (n_level n)))"

definition tree_ok :: "ident \<Rightarrow> plan_node list \<Rightarrow> bool" where
  "tree_ok r ns = (distinct (map n_id ns) \<and> r \<in> set (map n_id ns) \<and> (\<forall>n\<in>set ns. parent_ok r ns n))"

inductive below :: "plan_node list \<Rightarrow> ident \<Rightarrow> plan_node \<Rightarrow> bool" for ns i where
  child: "n \<in> set ns \<Longrightarrow> n_parent_id n = Some i \<Longrightarrow> below ns i n"
| deeper: "below ns i m \<Longrightarrow> n \<in> set ns \<Longrightarrow> n_parent_id n = Some (n_id m) \<Longrightarrow> below ns i n"

lemma below_in: "below ns i n \<Longrightarrow> n \<in> set ns"
  by (induction rule: below.induct) auto

lemma same_id_same_node:
  assumes "distinct (map n_id ns)" and "n \<in> set ns" and "m \<in> set ns" and "n_id n = n_id m"
  shows "n = m"
  using assms by (metis find_unique option.inject)

lemma child_level_rank: "child_level l = Some l' \<Longrightarrow> rank l = Suc (rank l')"
  by (cases l) auto

lemma child_rank:
  assumes "tree_ok r ns" and "m \<in> set ns" and "n \<in> set ns" and "n_parent_id n = Some (n_id m)"
  shows "rank (n_level m) = Suc (rank (n_level n))"
proof -
  from assms obtain m' where "m' \<in> set ns" "n_id m' = n_id m"
    and l: "child_level (n_level m') = Some (n_level n)"
    by (auto simp: tree_ok_def parent_ok_def split: option.splits)
  with assms have "m' = m" by (auto simp: tree_ok_def intro: same_id_same_node)
  with l show ?thesis by (auto dest: child_level_rank)
qed

lemma no_children_outside:
  assumes "tree_ok r ns" and "i \<notin> set (map n_id ns)"
  shows "children_in ns i = []"
proof -
  have "n_parent_id n \<noteq> Some i" if "n \<in> set ns" for n
    using assms that by (fastforce simp: tree_ok_def parent_ok_def split: option.splits)
  then show ?thesis by (simp add: children_in_Nil_iff)
qed

lemma descendants_fuel_stable:
  assumes "tree_ok r ns" and "m \<in> set ns" and "rank (n_level m) \<le> k"
  shows "descendants_fuel (Suc k) ns (n_id m) = descendants_fuel k ns (n_id m)"
  using assms(2,3)
proof (induction k arbitrary: m)
  case 0
  have "n_parent_id n \<noteq> Some (n_id m)" if "n \<in> set ns" for n
    using child_rank[OF assms(1) 0(1) that] 0(2) by auto
  then have "children_in ns (n_id m) = []" by (simp add: children_in_Nil_iff)
  then show ?case by simp
next
  case (Suc k)
  have "descendants_fuel (Suc k) ns (n_id c) = descendants_fuel k ns (n_id c)"
    if "c \<in> set (children_in ns (n_id m))" for c
  proof (rule Suc.IH)
    show "c \<in> set ns" using that by simp
    show "rank (n_level c) \<le> k"
      using child_rank[OF assms(1) Suc.prems(1), of c] that Suc.prems(2) by simp
  qed
  then show ?case
    unfolding descendants_fuel.simps(2)[of "Suc k"] descendants_fuel.simps(2)[of k]
    by (intro arg_cong[of _ _ concat] map_cong) auto
qed

text \<open>More fuel than one more than the number of nodes changes nothing: the recursion of
  \<open>Plan.descendants\<close> ends on a tree, and the model returns what it returns.\<close>

lemma descendants_fuel_enough:
  assumes "tree_ok (p_root_id p) (p_nodes p)" and "Suc (length (p_nodes p)) \<le> k"
  shows "descendants_fuel k (p_nodes p) i = descendants p i"
proof (cases "i \<in> set (map n_id (p_nodes p))")
  case True
  then obtain m where m: "m \<in> set (p_nodes p)" "n_id m = i" by auto
  have "rank (n_level m) \<le> 2" by (cases "n_level m") auto
  moreover have "1 \<le> length (p_nodes p)" using m by (cases "p_nodes p") auto
  ultimately have base: "rank (n_level m) \<le> Suc (length (p_nodes p))" by linarith
  have "descendants_fuel (Suc (length (p_nodes p)) + d) (p_nodes p) i = descendants p i" for d
  proof (induction d)
    case (Suc d)
    then show ?case
      using descendants_fuel_stable[OF assms(1) m(1), of "Suc (length (p_nodes p)) + d"] base m(2)
      by simp
  qed (simp add: descendants_def)
  from this[of "k - Suc (length (p_nodes p))"] show ?thesis using assms(2) by simp
next
  case False
  note none = no_children_outside[OF assms(1) False]
  from assms(2) obtain j where "k = Suc j" by (cases k) auto
  with none show ?thesis by (simp add: descendants_def)
qed

lemma descendants_fuel_below: "n \<in> set (descendants_fuel k ns i) \<Longrightarrow> below ns i n"
proof (induction k arbitrary: i n)
  case (Suc k)
  then obtain c where c: "c \<in> set ns" "n_parent_id c = Some i"
    and n: "n = c \<or> n \<in> set (descendants_fuel k ns (n_id c))" by auto
  from c have bc: "below ns i c" by (rule below.child)
  show ?case
  proof (cases "n = c")
    case False
    with n have "below ns (n_id c) n" by (auto intro: Suc.IH)
    then show ?thesis
      by (induction rule: below.induct) (auto intro: below.deeper bc)
  qed (simp add: bc)
qed simp

lemma below_top:
  "below ns i n \<Longrightarrow> \<exists>c\<in>set ns. n_parent_id c = Some i \<and> (n = c \<or> below ns (n_id c) n)"
  by (induction rule: below.induct) (blast intro: below.intros)+

lemma below_descendants_fuel:
  assumes "tree_ok r ns"
  shows "m \<in> set ns \<Longrightarrow> rank (n_level m) \<le> k \<Longrightarrow> below ns (n_id m) n \<Longrightarrow>
    n \<in> set (descendants_fuel k ns (n_id m))"
proof (induction k arbitrary: m)
  case 0
  from below_top[OF 0(3)] obtain c where "c \<in> set ns" "n_parent_id c = Some (n_id m)" by blast
  with child_rank[OF assms 0(1)] 0(2) show ?case by simp
next
  case (Suc k)
  from below_top[OF Suc.prems(3)] obtain c where c: "c \<in> set ns" "n_parent_id c = Some (n_id m)"
    and n: "n = c \<or> below ns (n_id c) n" by blast
  have "rank (n_level c) \<le> k" using child_rank[OF assms Suc.prems(1) c] Suc.prems(2) by simp
  with n c(1) have "n = c \<or> n \<in> set (descendants_fuel k ns (n_id c))" by (auto intro: Suc.IH)
  with c show ?case by auto
qed

lemma rank_fuel:
  assumes "m \<in> set ns"
  shows "rank (n_level m) \<le> Suc (length ns)"
proof -
  have "rank (n_level m) \<le> 2" by (cases "n_level m") auto
  moreover have "1 \<le> length ns" using assms by (cases ns) auto
  ultimately show ?thesis by linarith
qed

lemma set_descendants:
  assumes "tree_ok (p_root_id p) (p_nodes p)"
  shows "set (descendants p i) = {n. below (p_nodes p) i n}"
proof (intro equalityI subsetI)
  fix n assume "n \<in> {n. below (p_nodes p) i n}"
  then have b: "below (p_nodes p) i n" by simp
  then obtain c where "c \<in> set (p_nodes p)" "n_parent_id c = Some i" using below_top by blast
  then have "children_in (p_nodes p) i \<noteq> []" by (auto simp: children_in_Nil_iff)
  then obtain m where m: "m \<in> set (p_nodes p)" "n_id m = i"
    using no_children_outside[OF assms, of i] by auto
  from below_descendants_fuel[OF assms m(1) rank_fuel[OF m(1)]] b m(2)
  show "n \<in> set (descendants p i)" by (simp add: descendants_def)
qed (auto simp del: descendants_fuel.simps simp: descendants_def dest: descendants_fuel_below)

section \<open>Dependencies among siblings\<close>

definition sibling_ids :: "plan_node list \<Rightarrow> plan_node \<Rightarrow> ident set" where
  "sibling_ids ns n = n_id ` {s \<in> set ns. n_parent_id s = n_parent_id n \<and> n_parent_id n \<noteq> None
     \<and> n_id s \<noteq> n_id n}"

definition dep_edges :: "plan_node list \<Rightarrow> (ident \<times> ident) set" where
  "dep_edges ns = {(n_id n, d) | n d. n \<in> set ns \<and> d \<in> set (n_depends_on n)}"

definition deps_ok :: "plan_node list \<Rightarrow> bool" where
  "deps_ok ns = ((\<forall>n\<in>set ns. set (n_depends_on n) \<subseteq> sibling_ids ns n) \<and> acyclic (dep_edges ns))"

section \<open>What every node keeps\<close>

definition node_ok :: "plan_node \<Rightarrow> bool" where
  "node_ok n = (
     \<not> blank (n_title n)
     \<and> (n_level n \<noteq> Task \<longrightarrow> n_kind n = None \<and> n_workload_profile n = None
          \<and> n_verify_commands n = [] \<and> n_depends_on n = [])
     \<and> (n_kind n \<noteq> Some WorkloadTask \<longrightarrow> \<not> truthy (n_workload_profile n))
     \<and> (n_kind n = Some WorkloadTask \<longrightarrow> n_verify_commands n = [])
     \<and> (n_approved_by n \<noteq> None \<longrightarrow> n_state n = Approved \<or> n_state n = Published)
     \<and> (n_state n = Published \<longrightarrow> n_forge n \<noteq> None))"

definition wf_nodes :: "ident \<Rightarrow> ident \<Rightarrow> plan_node list \<Rightarrow> bool" where
  "wf_nodes i r ns = (tree_ok r ns \<and> (\<forall>n\<in>set ns. n_plan_id n = i) \<and> (\<forall>n\<in>set ns. node_ok n)
     \<and> deps_ok ns)"

definition wf_plan :: "plan \<Rightarrow> bool" where
  "wf_plan p = wf_nodes (p_id p) (p_root_id p) (p_nodes p)"

lemma tree_ok_cong:
  assumes "set ns = set ms" and "distinct (map n_id ns)" and "distinct (map n_id ms)"
  shows "tree_ok r ns = tree_ok r ms"
proof -
  have "parent_ok r ns = parent_ok r ms" unfolding parent_ok_def assms(1) by (rule refl)
  with assms show ?thesis by (simp add: tree_ok_def)
qed

lemma wf_nodes_cong:
  assumes "set ns = set ms" and "distinct (map n_id ns)" and "distinct (map n_id ms)"
  shows "wf_nodes i r ns = wf_nodes i r ms"
  using assms tree_ok_cong[OF assms]
  by (simp add: wf_nodes_def deps_ok_def sibling_ids_def dep_edges_def)

lemma wf_nodesD:
  assumes "wf_nodes i r ns"
  shows "tree_ok r ns" and "distinct (map n_id ns)" and "deps_ok ns"
    and "\<And>n. n \<in> set ns \<Longrightarrow> node_ok n" and "\<And>n. n \<in> set ns \<Longrightarrow> n_plan_id n = i"
  using assms by (auto simp: wf_nodes_def tree_ok_def)

lemma wf_planD:
  assumes "wf_plan p"
  shows "tree_ok (p_root_id p) (p_nodes p)" and "distinct (map n_id (p_nodes p))"
    and "deps_ok (p_nodes p)" and "\<And>n. n \<in> set (p_nodes p) \<Longrightarrow> node_ok n"
    and "\<And>n. n \<in> set (p_nodes p) \<Longrightarrow> n_plan_id n = p_id p"
  using wf_nodesD[of "p_id p" "p_root_id p" "p_nodes p"] assms by (auto simp: wf_plan_def)

text \<open>Two ancestors of one node at the same height are the same node.\<close>

lemma below_rank:
  assumes "tree_ok r ns" and "m \<in> set ns" and "below ns (n_id m) n"
  shows "rank (n_level n) < rank (n_level m)"
  using assms(3)
proof (induction rule: below.induct)
  case (child n)
  then show ?case using child_rank[OF assms(1,2)] by simp
next
  case (deeper c n)
  then show ?case using child_rank[OF assms(1) below_in[OF deeper(1)]] by fastforce
qed

lemma below_unique:
  assumes t: "tree_ok r ns" and a: "a \<in> set ns" and b: "b \<in> set ns"
    and "rank (n_level a) = rank (n_level b)"
    and "below ns (n_id a) n" and "below ns (n_id b) n"
  shows "a = b"
proof -
  have d: "distinct (map n_id ns)" using t by (simp add: tree_ok_def)
  have top: "n_id x = n_id y"
    if "x \<in> set ns" "y \<in> set ns" "rank (n_level y) \<le> rank (n_level x)"
      "n_parent_id n = Some (n_id x)" "below ns (n_id y) n" for x y n
    using that(5)
  proof (cases rule: below.cases)
    case child then show ?thesis using that(4) by simp
  next
    case (deeper c)
    then have "c = x" using that(1,4) same_id_same_node[OF d] by (auto dest: below_in)
    with below_rank[OF t that(2), of c] deeper that(3) show ?thesis by simp
  qed
  show ?thesis using assms(5,6)
  proof (induction rule: below.induct)
    case (child n)
    then have "n_id a = n_id b" using top[OF a b] assms(4) by simp
    then show ?case by (rule same_id_same_node[OF d a b])
  next
    case (deeper c n)
    from deeper.prems show ?case
    proof (cases rule: below.cases)
      case child
      have "n_id b = n_id a"
        by (rule top[OF b a _ child(2)]) (use assms(4) deeper.hyps in \<open>auto intro: below.deeper\<close>)
      then show ?thesis using same_id_same_node[OF d a b] by simp
    next
      case (deeper c')
      then have "c' = c"
        using \<open>below ns (n_id a) c\<close> \<open>n_parent_id n = Some (n_id c)\<close> same_id_same_node[OF d]
        by (auto dest: below_in)
      with deeper(1) \<open>below ns (n_id b) c \<Longrightarrow> a = b\<close> show ?thesis by simp
    qed
  qed
qed

lemma tree_root:
  assumes "tree_ok (p_root_id p) (p_nodes p)"
  obtains r where "root p = Some r" "r \<in> set (p_nodes p)" "n_id r = p_root_id p"
    "n_parent_id r = None"
proof -
  from assms obtain r where r: "r \<in> set (p_nodes p)" "n_id r = p_root_id p"
    by (auto simp: tree_ok_def)
  have "root p = Some r" unfolding root_def
    using plan_node_of_unique[of p r] r assms by (simp add: tree_ok_def)
  moreover have "n_parent_id r = None"
    using r assms by (auto simp: tree_ok_def parent_ok_def split: option.splits)
  ultimately show thesis using that r by blast
qed

lemma root_iff:
  assumes "tree_ok r ns" and "n \<in> set ns"
  shows "n_parent_id n = None \<longleftrightarrow> n_id n = r"
  using assms by (auto simp: tree_ok_def parent_ok_def split: option.splits)

end
