(* ===== verification/PlanStore.thy ===== *)
theory PlanStore
  imports PlanTree
begin

text \<open>
  Plans and their nodes in the daemon's store: \<open>plans/store.py\<close>.  A table is the list of its
  rows in insertion order; a JSON column holds the value its text encodes.  Every write is one
  transaction: it returns the whole new database or raises and leaves the old one.  The
  interface \<open>revisioned\<close> states what the plan service relies on (a write against a stale
  revision is refused, a write that lands moves the revision by one and touches no other
  plan), and its clients' facts are proved once from it.
\<close>

section \<open>Rows\<close>

record plan_row =
  w_plan_id :: ident
  w_workspace_id :: ident
  w_root_node_id :: ident
  w_state :: string
  w_created_by :: "ident option"
  w_created_by_display :: "string option"
  w_created_at :: timestamp
  w_updated_at :: timestamp
  w_revision :: int
  w_reconciled_at :: "timestamp option"
  w_reconcile_error :: "string option"
  w_input_json :: "(string \<times> json) list"
  w_advance :: string
  w_goal_id :: "ident option"

text \<open>\<open>generation_json\<close> and \<open>review_json\<close> may hold text this build cannot read, which is
  \<open>Some None\<close>; \<open>None\<close> is a NULL column.\<close>

record node_row =
  x_node_id :: ident
  x_plan_id :: ident
  x_parent_id :: "ident option"
  x_position :: int
  x_level :: level
  x_repository :: string
  x_state :: node_state
  x_origin :: origin
  x_title :: string
  x_goal :: string
  x_context :: string
  x_acceptance_criteria_json :: "string list"
  x_kind :: "task_kind option"
  x_workload_profile :: "string option"
  x_verify_commands_json :: "string list"
  x_depends_on_json :: "ident list"
  x_non_goals :: string
  x_constraints :: string
  x_forge_number :: "int option"
  x_forge_url :: "string option"
  x_forge_state :: "forge_state option"
  x_forge_updated_at :: "string option"
  x_forge_detached :: "string option"
  x_forge_marker_missing :: int
  x_forge_checklist_error :: "string option"
  x_drift_json :: "json option"
  x_replan_json :: "json option"
  x_created_at :: timestamp
  x_updated_at :: timestamp
  x_generation_json :: "clarification option option"
  x_proposed_by :: "ident option"
  x_approved_by :: "ident option"
  x_published_by :: "ident option"
  x_review_json :: "json option option"

record plan_event =
  ev_type :: string
  ev_data :: "(string \<times> json) list"
  ev_run_id :: "ident option"
  ev_item_id :: "ident option"
  ev_channel_id :: "ident option"

record event_row =
  er_recorded_at :: timestamp
  er_occurred_at :: timestamp
  er_event :: plan_event
  er_actor :: "(string \<times> json) list option"

record db =
  db_plans :: "plan_row list"
  db_nodes :: "node_row list"
  db_events :: "event_row list"

record reconciled =
  rc_at :: "timestamp option"
  rc_error :: "string option"

datatype store_error = PlanGone | StaleRevision int | IntegrityError

section \<open>Columns\<close>

fun jtext :: "json \<Rightarrow> string" where
  "jtext (JStr s) = s"
| "jtext _ = []"

fun jdict :: "json \<Rightarrow> (string \<times> json) list" where
  "jdict (JObj d) = d"
| "jdict _ = []"

fun jnum :: "json \<Rightarrow> rat" where
  "jnum (JNum r) = r"
| "jnum _ = 0"

fun jstr_opt :: "json \<Rightarrow> string option" where
  "jstr_opt (JStr s) = Some s"
| "jstr_opt _ = None"

fun jitems :: "json \<Rightarrow> json list" where
  "jitems (JList js) = js"
| "jitems _ = []"

fun is_dict :: "json \<Rightarrow> bool" where
  "is_dict (JObj d) = True"
| "is_dict _ = False"

definition drift_of :: "json option \<Rightarrow> drift list" where
  "drift_of raw = map (\<lambda>entry. let e = jdict entry in
      \<lparr>d_change = drift_of_name (jget e ''change''), d_at = jnum (jget e ''at''),
       d_before = jdict (jget e ''before''), d_after = jdict (jget e ''after''),
       d_reason = jstr_opt (jget e ''reason'')\<rparr>)
    (filter is_dict (case raw of None \<Rightarrow> [] | Some j \<Rightarrow> jitems j))"

definition replan_of :: "json option \<Rightarrow> replan option" where
  "replan_of raw = (case raw of Some (JObj data) \<Rightarrow>
     Some \<lparr>r_id = jtext (jget data ''id''), r_run_id = jstr_opt (jget data ''run_id''),
       r_proposed_at = jnum (jget data ''proposed_at''),
       r_entries = map (\<lambda>entry. let e = jdict entry in
         \<lparr>e_id = jtext (jget e ''id''), e_action = action_of_name (jget e ''action''),
          e_node_id = jtext (jget e ''node_id''), e_sections = jdict (jget e ''sections''),
          e_before = jdict (jget e ''before''), e_rationale = jtext (jget e ''rationale''),
          e_error = jstr_opt (jget e ''error''), e_forge_version = jstr_opt (jget e ''forge_version'')\<rparr>)
         (filter is_dict (jitems (jget data ''entries''))),
       r_proposed_by = jstr_opt (jget data ''proposed_by'')\<rparr>
   | _ \<Rightarrow> None)"

definition review_of :: "json option option \<Rightarrow> plan_review option" where
  "review_of raw = (case raw of Some (Some j) \<Rightarrow> review_from_dict j | _ \<Rightarrow> None)"

definition generation_of :: "clarification option option \<Rightarrow> clarification option" where
  "generation_of raw = (case raw of Some (Some c) \<Rightarrow> Some c | _ \<Rightarrow> None)"

definition advance_of :: "string \<Rightarrow> advance" where
  "advance_of raw = (if raw = ''auto'' then Auto else Manual)"

definition advance_column :: "advance \<Rightarrow> string" where
  "advance_column a = (case a of Manual \<Rightarrow> ''manual'' | Auto \<Rightarrow> ''auto'')"

definition node_of :: "node_row \<Rightarrow> plan_node" where
  "node_of row = \<lparr>
     n_id = x_node_id row, n_plan_id = x_plan_id row, n_parent_id = x_parent_id row,
     n_position = x_position row, n_level = x_level row, n_repository = x_repository row,
     n_state = x_state row, n_origin = x_origin row, n_title = x_title row, n_goal = x_goal row,
     n_context = x_context row, n_acceptance_criteria = x_acceptance_criteria_json row,
     n_kind = x_kind row, n_workload_profile = x_workload_profile row,
     n_verify_commands = x_verify_commands_json row, n_depends_on = x_depends_on_json row,
     n_non_goals = x_non_goals row, n_constraints = x_constraints row,
     n_forge = (case x_forge_number row of None \<Rightarrow> None
       | Some number \<Rightarrow> Some \<lparr>f_number = number,
           f_url = (case x_forge_url row of None \<Rightarrow> [] | Some u \<Rightarrow> u),
           f_state = x_forge_state row, f_updated_at = x_forge_updated_at row,
           f_detached = x_forge_detached row, f_marker_missing = (x_forge_marker_missing row \<noteq> 0),
           f_checklist_error = x_forge_checklist_error row\<rparr>),
     n_created_at = x_created_at row, n_updated_at = x_updated_at row,
     n_drift = drift_of (x_drift_json row), n_generation = generation_of (x_generation_json row),
     n_replan = replan_of (x_replan_json row), n_proposed_by = x_proposed_by row,
     n_approved_by = x_approved_by row, n_published_by = x_published_by row,
     n_review = review_of (x_review_json row)\<rparr>"

definition columns :: "plan_node \<Rightarrow> node_row" where
  "columns n = \<lparr>
     x_node_id = n_id n, x_plan_id = n_plan_id n, x_parent_id = n_parent_id n,
     x_position = n_position n, x_level = n_level n, x_repository = n_repository n,
     x_state = n_state n, x_origin = n_origin n, x_title = n_title n, x_goal = n_goal n,
     x_context = n_context n, x_acceptance_criteria_json = n_acceptance_criteria n,
     x_kind = n_kind n, x_workload_profile = n_workload_profile n,
     x_verify_commands_json = n_verify_commands n, x_depends_on_json = n_depends_on n,
     x_non_goals = n_non_goals n, x_constraints = n_constraints n,
     x_forge_number = map_option f_number (n_forge n),
     x_forge_url = map_option f_url (n_forge n),
     x_forge_state = Option.bind (n_forge n) f_state,
     x_forge_updated_at = Option.bind (n_forge n) f_updated_at,
     x_forge_detached = Option.bind (n_forge n) f_detached,
     x_forge_marker_missing = (case n_forge n of None \<Rightarrow> 0
        | Some f \<Rightarrow> if f_marker_missing f then 1 else 0),
     x_forge_checklist_error = Option.bind (n_forge n) f_checklist_error,
     x_drift_json = Some (JList (map drift_as_dict (n_drift n))),
     x_replan_json = map_option replan_as_dict (n_replan n),
     x_created_at = n_created_at n, x_updated_at = n_updated_at n,
     x_generation_json = map_option Some (n_generation n),
     x_proposed_by = n_proposed_by n, x_approved_by = n_approved_by n,
     x_published_by = n_published_by n,
     x_review_json = map_option (\<lambda>v. Some (review_as_dict v)) (n_review n)\<rparr>"

section \<open>The tree as it is listed\<close>

fun walk_fuel :: "nat \<Rightarrow> plan_node list \<Rightarrow> plan_node \<Rightarrow> plan_node list" where
  "walk_fuel 0 ns n = []"
| "walk_fuel (Suc k) ns n = n # concat (map (walk_fuel k ns) (children_in ns (n_id n)))"

definition ordered :: "ident \<Rightarrow> plan_node list \<Rightarrow> plan_node list" where
  "ordered root_id ns = concat (map (walk_fuel (Suc (Suc (length ns))) ns)
     (filter (\<lambda>n. n_id n = root_id) (by_position (filter (\<lambda>n. n_parent_id n = None) ns))))"

definition plan_of :: "plan_row \<Rightarrow> node_row list \<Rightarrow> plan" where
  "plan_of row nodes = \<lparr>
     p_id = w_plan_id row, p_workspace_id = w_workspace_id row, p_root_id = w_root_node_id row,
     p_archived = (w_state row = ''archived''), p_created_by = w_created_by row,
     p_created_by_display = w_created_by_display row, p_created_at = w_created_at row,
     p_updated_at = w_updated_at row, p_revision = w_revision row,
     p_nodes = ordered (w_root_node_id row) (map node_of nodes),
     p_reconciled_at = w_reconciled_at row, p_reconcile_error = w_reconcile_error row,
     p_input = w_input_json row, p_advance = advance_of (w_advance row), p_goal_id = w_goal_id row\<rparr>"

definition event_row_of ::
  "timestamp \<Rightarrow> (string \<times> json) list option \<Rightarrow> plan_event \<Rightarrow> event_row" where
  "event_row_of now actor e = \<lparr>er_recorded_at = now, er_occurred_at = now, er_event = e,
     er_actor = actor\<rparr>"

definition actor_id :: "(string \<times> json) list option \<Rightarrow> ident option" where
  "actor_id actor = (case actor of None \<Rightarrow> None
     | Some a \<Rightarrow> (let s = jtext (jget a ''id'') in if s = [] then None else Some s))"

section \<open>Reads\<close>

definition plan_row_of :: "db \<Rightarrow> ident \<Rightarrow> plan_row option" where
  "plan_row_of d i = find (\<lambda>r. w_plan_id r = i) (db_plans d)"

definition rows_of :: "db \<Rightarrow> ident \<Rightarrow> node_row list" where
  "rows_of d i = filter (\<lambda>r. x_plan_id r = i) (db_nodes d)"

definition store_get :: "db \<Rightarrow> ident \<Rightarrow> plan option" where
  "store_get d i = map_option (\<lambda>row. plan_of row (rows_of d i)) (plan_row_of d i)"

definition store_all :: "db \<Rightarrow> plan list" where
  "store_all d = map (\<lambda>row. plan_of row (rows_of d (w_plan_id row)))
     (sort_key (\<lambda>row. (- w_updated_at row, w_plan_id row)) (db_plans d))"

definition published_at :: "db \<Rightarrow> string \<Rightarrow> int \<Rightarrow> (ident \<times> plan_node) list" where
  "published_at d repo number = map (\<lambda>r. (x_plan_id r, node_of r))
     (filter (\<lambda>r. x_forge_number r = Some number \<and> casefold (x_repository r) = casefold repo)
       (db_nodes d))"

section \<open>Writes\<close>

definition plan_row_for :: "plan \<Rightarrow> plan_row" where
  "plan_row_for p = \<lparr>w_plan_id = p_id p, w_workspace_id = p_workspace_id p,
     w_root_node_id = p_root_id p, w_state = (if p_archived p then ''archived'' else ''active''),
     w_created_by = p_created_by p, w_created_by_display = p_created_by_display p,
     w_created_at = p_created_at p, w_updated_at = p_updated_at p, w_revision = p_revision p,
     w_reconciled_at = None, w_reconcile_error = None, w_input_json = p_input p,
     w_advance = advance_column (p_advance p), w_goal_id = p_goal_id p\<rparr>"

text \<open>Inserting a row whose primary key is taken raises \<open>IntegrityError\<close>.\<close>

definition store_create ::
  "db \<Rightarrow> plan \<Rightarrow> plan_event list \<Rightarrow> (string \<times> json) list option \<Rightarrow> store_error + db \<times> plan" where
  "store_create d p events actor =
     (if plan_row_of d (p_id p) \<noteq> None
         \<or> \<not> distinct (map n_id (p_nodes p))
         \<or> (\<exists>r\<in>set (db_nodes d). x_node_id r \<in> set (map n_id (p_nodes p))) then Inl IntegrityError
      else let d' = d\<lparr>db_plans := db_plans d @ [plan_row_for p],
                      db_nodes := db_nodes d @ map columns (p_nodes p),
                      db_events := db_events d @ map (event_row_of (p_created_at p) actor) events\<rparr>
           in (case store_get d' (p_id p) of None \<Rightarrow> Inl PlanGone | Some q \<Rightarrow> Inr (d', q)))"

record change =
  ch_upsert :: "plan_node list"
  ch_remove :: "ident list"
  ch_archived :: "bool option"
  ch_events :: "plan_event list"
  ch_actor :: "(string \<times> json) list option"
  ch_reconciled :: "reconciled option"
  ch_input :: "(string \<times> json) list option"
  ch_advance :: "advance option"

definition no_change :: change where
  "no_change = \<lparr>ch_upsert = [], ch_remove = [], ch_archived = None, ch_events = [], ch_actor = None,
     ch_reconciled = None, ch_input = None, ch_advance = None\<rparr>"

definition stamp :: "reconciled \<Rightarrow> plan_row \<Rightarrow> plan_row" where
  "stamp rc row = (let row' = (case rc_at rc of None \<Rightarrow> row | Some t \<Rightarrow> row\<lparr>w_reconciled_at := Some t\<rparr>)
     in row'\<lparr>w_reconcile_error := rc_error rc\<rparr>)"

fun upsert_row :: "node_row list \<Rightarrow> node_row \<Rightarrow> node_row list" where
  "upsert_row [] row = [row]"
| "upsert_row (r # rs) row = (if x_node_id r = x_node_id row then row # rs else r # upsert_row rs row)"

definition write_nodes :: "ident \<Rightarrow> change \<Rightarrow> node_row list \<Rightarrow> node_row list" where
  "write_nodes i c rows = foldl upsert_row
     (filter (\<lambda>r. \<not> (x_plan_id r = i \<and> x_node_id r \<in> set (ch_remove c))) rows)
     (map columns (ch_upsert c))"

definition write_plan_row :: "timestamp \<Rightarrow> change \<Rightarrow> plan_row \<Rightarrow> plan_row" where
  "write_plan_row now c row =
     (let row1 = (case ch_archived c of None \<Rightarrow> row
                  | Some b \<Rightarrow> row\<lparr>w_state := if b then ''archived'' else ''active''\<rparr>);
          row2 = (case ch_input c of None \<Rightarrow> row1 | Some v \<Rightarrow> row1\<lparr>w_input_json := v\<rparr>);
          row3 = (case ch_advance c of None \<Rightarrow> row2 | Some a \<Rightarrow> row2\<lparr>w_advance := advance_column a\<rparr>);
          row4 = (case ch_reconciled c of None \<Rightarrow> row3 | Some rc \<Rightarrow> stamp rc row3)
      in row4\<lparr>w_revision := w_revision row4 + 1, w_updated_at := now\<rparr>)"

definition set_plan_row :: "ident \<Rightarrow> (plan_row \<Rightarrow> plan_row) \<Rightarrow> plan_row list \<Rightarrow> plan_row list" where
  "set_plan_row i f rows = map (\<lambda>r. if w_plan_id r = i then f r else r) rows"

definition store_apply ::
  "db \<Rightarrow> ident \<Rightarrow> int \<Rightarrow> timestamp \<Rightarrow> change \<Rightarrow> store_error + db \<times> plan" where
  "store_apply d i expected now c =
     (case plan_row_of d i of
        None \<Rightarrow> Inl PlanGone
      | Some row \<Rightarrow>
          if w_revision row \<noteq> expected then Inl (StaleRevision (w_revision row))
          else let d' = d\<lparr>db_nodes := write_nodes i c (db_nodes d),
                          db_plans := set_plan_row i (write_plan_row now c) (db_plans d),
                          db_events := db_events d @ map (event_row_of now (ch_actor c)) (ch_events c)\<rparr>
               in (case store_get d' i of None \<Rightarrow> Inl PlanGone | Some p \<Rightarrow> Inr (d', p)))"

definition mark_reconciled :: "db \<Rightarrow> ident \<Rightarrow> reconciled \<Rightarrow> store_error + db \<times> plan" where
  "mark_reconciled d i rc =
     (case plan_row_of d i of None \<Rightarrow> Inl PlanGone
      | Some row \<Rightarrow>
          let d' = d\<lparr>db_plans := set_plan_row i (stamp rc) (db_plans d)\<rparr>
          in (case store_get d' i of None \<Rightarrow> Inl PlanGone | Some p \<Rightarrow> Inr (d', p)))"

definition store_note ::
  "db \<Rightarrow> ident \<Rightarrow> timestamp \<Rightarrow> plan_event list \<Rightarrow> (string \<times> json) list option \<Rightarrow> store_error + db" where
  "store_note d i now events actor =
     (if plan_row_of d i = None then Inl PlanGone
      else Inr (d\<lparr>db_events := db_events d @ map (event_row_of now actor) events\<rparr>))"

definition store_record ::
  "db \<Rightarrow> plan_event list \<Rightarrow> timestamp \<Rightarrow> (string \<times> json) list option \<Rightarrow> db" where
  "store_record d events now actor =
     d\<lparr>db_events := db_events d @ map (event_row_of now actor) events\<rparr>"

definition store_delete ::
  "db \<Rightarrow> ident \<Rightarrow> int \<Rightarrow> timestamp \<Rightarrow> plan_event list \<Rightarrow> (string \<times> json) list option
     \<Rightarrow> store_error + db" where
  "store_delete d i expected now events actor =
     (case plan_row_of d i of
        None \<Rightarrow> Inl PlanGone
      | Some row \<Rightarrow>
          if w_revision row \<noteq> expected then Inl (StaleRevision (w_revision row))
          else Inr (d\<lparr>db_nodes := filter (\<lambda>r. x_plan_id r \<noteq> i) (db_nodes d),
                      db_plans := filter (\<lambda>r. w_plan_id r \<noteq> i) (db_plans d),
                      db_events := db_events d @ map (event_row_of now actor) events\<rparr>))"

section \<open>Trying again when another write won\<close>

text \<open>\<open>retry_stale\<close> runs an attempt up to \<open>tries\<close> times.  \<open>env k\<close> is what other writers
  did to the database before try \<open>k\<close>; an attempt returns the database it leaves and its
  value, or raises.  A stale revision is tried again, any other error propagates; the last
  stale revision is raised when every try lost.  The code asserts that \<open>tries\<close> is positive.\<close>

datatype 'e attempt_error = Stale int | Raised 'e | AssertionError

fun retry_from :: "nat \<Rightarrow> nat \<Rightarrow> (nat \<Rightarrow> 'd \<Rightarrow> 'd) \<Rightarrow> ('d \<Rightarrow> 'e attempt_error + 'd \<times> 'a) \<Rightarrow>
    int option \<Rightarrow> 'd \<Rightarrow> 'e attempt_error + 'd \<times> 'a" where
  "retry_from k 0 env attempt lost d =
     Inl (case lost of None \<Rightarrow> AssertionError | Some r \<Rightarrow> Stale r)"
| "retry_from k (Suc n) env attempt lost d =
     (let d' = env k d in
      case attempt d' of
        Inr r \<Rightarrow> Inr r
      | Inl (Stale r) \<Rightarrow> retry_from (Suc k) n env attempt (Some r) d'
      | Inl e \<Rightarrow> Inl e)"

definition tries :: nat where "tries = 3"

definition retry_stale ::
  "nat \<Rightarrow> (nat \<Rightarrow> 'd \<Rightarrow> 'd) \<Rightarrow> ('d \<Rightarrow> 'e attempt_error + 'd \<times> 'a) \<Rightarrow> 'd \<Rightarrow> 'e attempt_error + 'd \<times> 'a"
  where "retry_stale n env attempt d = retry_from 0 n env attempt None d"

section \<open>A node survives its row\<close>

text \<open>What the code can write: drift changes and entry actions of their literal types, and a
  review that names its run and its digest.\<close>

definition storable :: "plan_node \<Rightarrow> bool" where
  "storable n = ((\<forall>d\<in>set (n_drift n). drift_of_name (drift_name (d_change d)) = d_change d)
     \<and> (case n_replan n of None \<Rightarrow> True | Some r \<Rightarrow>
          (\<forall>e\<in>set (r_entries r). action_of_name (action_name (e_action e)) = e_action e))
     \<and> (case n_review n of None \<Rightarrow> True | Some v \<Rightarrow> v_run_id v \<noteq> [] \<and> v_digest v \<noteq> []))"

lemma jstr_opt_jopt [simp]: "jstr_opt (jopt JStr x) = x"
  by (cases x) (auto simp: jopt_def)

lemma jget_Cons [simp]: "jget ((k, v) # d) k' = (if k = k' then v else jget d k')"
  by (simp add: jget_def)

lemma drift_round_trip:
  assumes "\<forall>d\<in>set ds. drift_of_name (drift_name (d_change d)) = d_change d"
  shows "drift_of (Some (JList (map drift_as_dict ds))) = ds"
  using assms by (induction ds) (auto simp: drift_of_def drift_as_dict_def)

lemma entry_round_trip:
  assumes "\<forall>e\<in>set es. action_of_name (action_name (e_action e)) = e_action e"
  shows "map (\<lambda>entry. let e = jdict entry in
         \<lparr>e_id = jtext (jget e ''id''), e_action = action_of_name (jget e ''action''),
          e_node_id = jtext (jget e ''node_id''), e_sections = jdict (jget e ''sections''),
          e_before = jdict (jget e ''before''), e_rationale = jtext (jget e ''rationale''),
          e_error = jstr_opt (jget e ''error''), e_forge_version = jstr_opt (jget e ''forge_version'')\<rparr>)
         (filter is_dict (map entry_as_dict es)) = es"
  using assms by (induction es) (auto simp: entry_as_dict_def)

lemma replan_round_trip:
  assumes "\<forall>e\<in>set (r_entries r). action_of_name (action_name (e_action e)) = e_action e"
  shows "replan_of (Some (replan_as_dict r)) = Some r"
  using entry_round_trip[OF assms] by (simp add: replan_of_def replan_as_dict_def)

lemma node_round_trip:
  assumes "storable n"
  shows "node_of (columns n) = n"
proof -
  have "drift_of (x_drift_json (columns n)) = n_drift n"
    using assms drift_round_trip[of "n_drift n"] by (simp add: columns_def storable_def)
  moreover have "replan_of (x_replan_json (columns n)) = n_replan n"
    using assms replan_round_trip
    by (cases "n_replan n") (simp_all add: columns_def storable_def replan_of_def)
  moreover have "review_of (x_review_json (columns n)) = n_review n"
    using assms review_round_trip
    by (cases "n_review n") (simp_all add: columns_def storable_def review_of_def)
  moreover have "generation_of (x_generation_json (columns n)) = n_generation n"
    by (cases "n_generation n") (simp_all add: columns_def generation_of_def)
  ultimately show ?thesis
    by (cases "n_forge n") (simp_all add: node_of_def columns_def)
qed

lemma node_of_id [simp]: "n_id (node_of r) = x_node_id r"
  by (simp add: node_of_def)

lemma node_of_plan_id [simp]: "n_plan_id (node_of r) = x_plan_id r"
  by (simp add: node_of_def)

lemma columns_key [simp]: "x_node_id (columns n) = n_id n" "x_plan_id (columns n) = n_plan_id n"
  by (simp_all add: columns_def)

lemma map_n_id_node_of [simp]: "map n_id (map node_of rs) = map x_node_id rs"
  by simp

section \<open>The listed tree holds every node once\<close>

lemma walk_descendants: "walk_fuel (Suc k) ns n = n # descendants_fuel k ns (n_id n)"
proof (induction k arbitrary: n)
  case (Suc k)
  then have "map (walk_fuel (Suc k) ns) (children_in ns (n_id n))
      = map (\<lambda>c. c # descendants_fuel k ns (n_id c)) (children_in ns (n_id n))"
    by (intro map_cong) auto
  then show ?case by (simp only: walk_fuel.simps(2)[of "Suc k"] descendants_fuel.simps(2))
qed simp

lemma tree_below_root:
  assumes "tree_ok r ns" and "n \<in> set ns" and "n_id n \<noteq> r"
  shows "below ns r n"
  using assms(2,3)
proof (induction "2 - rank (n_level n)" arbitrary: n rule: less_induct)
  case less
  from less.prems assms(1) obtain m where m: "m \<in> set ns" "n_parent_id n = Some (n_id m)"
    by (auto simp: tree_ok_def parent_ok_def split: option.splits)
  show ?case
  proof (cases "n_id m = r")
    case True with m less.prems show ?thesis by (auto intro: below.child)
  next
    case False
    have "rank (n_level m) \<le> 2" by (cases "n_level m") auto
    with child_rank[OF assms(1) m(1) less.prems(1) m(2)]
    have "2 - rank (n_level m) < 2 - rank (n_level n)" by linarith
    from less.hyps[OF this m(1) False] show ?thesis
      using less.prems(1) m(2) by (rule below.deeper)
  qed
qed

lemma distinct_descendants_fuel:
  assumes "tree_ok r ns"
  shows "m \<in> set ns \<Longrightarrow> distinct (map n_id (descendants_fuel k ns (n_id m)))"
proof (induction k arbitrary: m)
  case (Suc k)
  have d: "distinct (map n_id ns)" using assms by (simp add: tree_ok_def)
  define f where "f = (\<lambda>c. map n_id (c # descendants_fuel k ns (n_id c)))"
  have one: "distinct (f c)" if "c \<in> set (children_in ns (n_id m))" for c
  proof -
    have "\<not> below ns (n_id c) c" using below_rank[OF assms, of c c] that by auto
    then have "n_id c \<notin> n_id ` set (descendants_fuel k ns (n_id c))"
      using descendants_fuel_below same_id_same_node[OF d] that
      by (auto dest!: descendants_fuel_below) (metis below_in)
    with Suc.IH[of c] that show ?thesis by (simp add: f_def)
  qed
  have two: "set (f a) \<inter> set (f b) = {}"
    if "a \<in> set (children_in ns (n_id m))" "b \<in> set (children_in ns (n_id m))" "a \<noteq> b" for a b
  proof (rule ccontr)
    assume "set (f a) \<inter> set (f b) \<noteq> {}"
    then obtain x y where "n_id x = n_id y" "x \<in> set (a # descendants_fuel k ns (n_id a))"
      "y \<in> set (b # descendants_fuel k ns (n_id b))"
      unfolding f_def set_map by blast
    then have xy: "n_id x = n_id y" "x = a \<or> below ns (n_id a) x" "y = b \<or> below ns (n_id b) y"
      by (auto dest: descendants_fuel_below)
    have mem: "a \<in> set ns" "b \<in> set ns" using that by auto
    with xy have "x = y" using same_id_same_node[OF d] by (auto dest: below_in)
    have ra: "rank (n_level a) = rank (n_level b)"
      using child_rank[OF assms Suc.prems, of a] child_rank[OF assms Suc.prems, of b] that by simp
    show False
      using xy \<open>x = y\<close> below_unique[OF assms mem ra] below_rank[OF assms] mem ra that(3)
      by (metis less_irrefl)
  qed
  have cd: "distinct (children_in ns (n_id m))"
    using children_in_distinct[OF d] distinct_map by blast
  have "distinct (concat (map f (children_in ns (n_id m))))"
    by (rule distinct_concat_map[OF cd one two])
  moreover have "map n_id (descendants_fuel (Suc k) ns (n_id m))
      = concat (map f (children_in ns (n_id m)))"
    by (simp add: map_concat f_def comp_def)
  ultimately show ?case by simp
qed simp

lemma ordered_tree:
  assumes "tree_ok r ns"
  shows "set (ordered r ns) = set ns" and "distinct (map n_id (ordered r ns))"
proof -
  from assms obtain m where m: "m \<in> set ns" "n_id m = r" by (auto simp: tree_ok_def)
  have d: "distinct (map n_id ns)" using assms by (simp add: tree_ok_def)
  have "n_parent_id m = None" using root_iff[OF assms m(1)] m(2) by simp
  then have "filter (\<lambda>n. n_id n = r) (by_position (filter (\<lambda>n. n_parent_id n = None) ns)) = [m]"
  proof -
    let ?xs = "filter (\<lambda>n. n_id n = r) (by_position (filter (\<lambda>n. n_parent_id n = None) ns))"
    have "set ?xs = {m}" using m \<open>n_parent_id m = None\<close> same_id_same_node[OF d] by auto
    moreover have "distinct (map n_id (by_position (filter (\<lambda>n. n_parent_id n = None) ns)))"
      using d by (simp add: distinct_map_filterI)
    then have "distinct ?xs" using distinct_map distinct_map_filterI by blast
    ultimately show ?thesis by (rule distinct_singleton[rotated])
  qed
  then have ord: "ordered r ns = m # descendants_fuel (Suc (length ns)) ns r"
    using m(2) by (simp add: ordered_def walk_descendants del: walk_fuel.simps descendants_fuel.simps)
  have sub: "n \<in> set (descendants_fuel (Suc (length ns)) ns r) \<longleftrightarrow> below ns r n" for n
    using below_descendants_fuel[OF assms m(1) rank_fuel[OF m(1)]] descendants_fuel_below m(2)
    by blast
  show "set (ordered r ns) = set ns"
  proof
    show "set (ordered r ns) \<subseteq> set ns"
      using m(1) sub below_in by (auto simp: ord simp del: descendants_fuel.simps)
    show "set ns \<subseteq> set (ordered r ns)"
      using m tree_below_root[OF assms] sub same_id_same_node[OF d]
      by (auto simp: ord simp del: descendants_fuel.simps)
  qed
  have "n_id m \<notin> n_id ` set (descendants_fuel (Suc (length ns)) ns r)"
  proof
    assume "n_id m \<in> n_id ` set (descendants_fuel (Suc (length ns)) ns r)"
    then obtain y where y: "below ns r y" "n_id m = n_id y"
      by (auto simp del: descendants_fuel.simps simp: sub)
    then have "y = m" using same_id_same_node[OF d m(1)] by (auto dest: below_in)
    with y(1) below_rank[OF assms m(1)] m(2) show False by auto
  qed
  then show "distinct (map n_id (ordered r ns))"
    using distinct_descendants_fuel[OF assms m(1), of "Suc (length ns)"] m(2)
    by (simp add: ord del: descendants_fuel.simps)
qed

section \<open>What a write leaves\<close>

text \<open>The node table as a map from its primary key.\<close>

abbreviation table :: "node_row list \<Rightarrow> ident \<rightharpoonup> node_row" where
  "table rows \<equiv> map_of (map (\<lambda>r. (x_node_id r, r)) rows)"

lemma table_upsert_row [simp]: "table (upsert_row rows row) = (table rows)(x_node_id row \<mapsto> row)"
  by (induction rows) auto

lemma keys_upsert_row [simp]:
  "x_node_id ` set (upsert_row rows row) = insert (x_node_id row) (x_node_id ` set rows)"
  by (induction rows) (auto simp: insert_commute)

lemma distinct_upsert_row:
  "distinct (map x_node_id rows) \<Longrightarrow> distinct (map x_node_id (upsert_row rows row))"
proof (induction rows)
  case (Cons r rows)
  have "x_node_id ` set (upsert_row rows row) = insert (x_node_id row) (x_node_id ` set rows)" by simp
  with Cons show ?case by auto
qed simp

lemma in_upsert_row:
  assumes "distinct (map x_node_id rows)"
  shows "r \<in> set (upsert_row rows row) \<longleftrightarrow> r = row \<or> (r \<in> set rows \<and> x_node_id r \<noteq> x_node_id row)"
  using assms by (induction rows) (auto simp: image_iff)

lemma in_fold_upsert:
  assumes "distinct (map x_node_id rows)" and "distinct (map x_node_id us)"
  shows "r \<in> set (foldl upsert_row rows us) \<longleftrightarrow>
    r \<in> set us \<or> (r \<in> set rows \<and> x_node_id r \<notin> set (map x_node_id us))"
  using assms
proof (induction us arbitrary: rows)
  case (Cons u us)
  then show ?case
    by (simp add: distinct_upsert_row in_upsert_row) blast
qed simp

lemma distinct_fold_upsert:
  "distinct (map x_node_id rows) \<Longrightarrow> distinct (map x_node_id (foldl upsert_row rows us))"
  by (induction us arbitrary: rows) (auto intro: distinct_upsert_row)

lemma filter_upsert_row:
  assumes "\<not> P row" and "\<forall>r\<in>set rows. x_node_id r = x_node_id row \<longrightarrow> \<not> P r"
  shows "filter P (upsert_row rows row) = filter P rows"
  using assms by (induction rows) auto

lemma filter_fold_upsert:
  assumes "\<forall>u\<in>set us. \<not> P u" and "\<forall>u\<in>set us. \<forall>r\<in>set rows. x_node_id r = x_node_id u \<longrightarrow> \<not> P r"
    and "distinct (map x_node_id rows)"
  shows "filter P (foldl upsert_row rows us) = filter P rows"
  using assms
proof (induction us arbitrary: rows)
  case (Cons u us)
  then have "filter P (foldl upsert_row (upsert_row rows u) us) = filter P (upsert_row rows u)"
    by (intro Cons.IH) (auto simp: in_upsert_row distinct_upsert_row)
  also have "\<dots> = filter P rows" using Cons.prems by (intro filter_upsert_row) auto
  finally show ?case by simp
qed simp

definition db_keys :: "db \<Rightarrow> bool" where
  "db_keys d = (distinct (map w_plan_id (db_plans d)) \<and> distinct (map x_node_id (db_nodes d)))"

text \<open>The invariant of the database: primary keys are unique, every plan's stored nodes are
  well formed, and every node row belongs to a stored plan.\<close>

definition raw_nodes :: "db \<Rightarrow> ident \<Rightarrow> plan_node list" where
  "raw_nodes d i = map node_of (rows_of d i)"

definition db_wf :: "db \<Rightarrow> bool" where
  "db_wf d = (db_keys d \<and> (\<forall>row\<in>set (db_plans d).
     wf_nodes (w_plan_id row) (w_root_node_id row) (raw_nodes d (w_plan_id row)))
     \<and> x_plan_id ` set (db_nodes d) \<subseteq> w_plan_id ` set (db_plans d))"

text \<open>A change fits a plan when its nodes are that plan's, each once, storable, and take no id
  of another plan's node.\<close>

definition fits :: "db \<Rightarrow> ident \<Rightarrow> change \<Rightarrow> bool" where
  "fits d i c = (distinct (map n_id (ch_upsert c))
     \<and> (\<forall>n\<in>set (ch_upsert c). n_plan_id n = i \<and> storable n
          \<and> (\<forall>r\<in>set (db_nodes d). x_node_id r = n_id n \<longrightarrow> x_plan_id r = i)))"

definition merge_nodes :: "plan_node list \<Rightarrow> change \<Rightarrow> plan_node list" where
  "merge_nodes ns c = filter (\<lambda>n. n_id n \<notin> set (ch_remove c) \<union> n_id ` set (ch_upsert c)) ns
     @ ch_upsert c"

lemma distinct_rows_of:
  assumes "db_keys d"
  shows "distinct (map x_node_id (rows_of d i))"
  using assms by (simp add: db_keys_def rows_of_def distinct_map_filterI)

lemma plan_row_of_Some:
  assumes "db_keys d"
  shows "plan_row_of d i = Some row \<longleftrightarrow> row \<in> set (db_plans d) \<and> w_plan_id row = i"
  using assms find_unique[of w_plan_id "db_plans d" row]
  by (auto simp: plan_row_of_def db_keys_def dest: find_SomeD)

lemma distinct_merge_nodes:
  "distinct (map n_id ns) \<Longrightarrow> distinct (map n_id (ch_upsert c)) \<Longrightarrow> distinct (map n_id (merge_nodes ns c))"
  by (auto simp: merge_nodes_def distinct_map_filterI)

lemma stamp_frame [frame]:
  "w_plan_id (stamp rc row) = w_plan_id row" "w_root_node_id (stamp rc row) = w_root_node_id row"
  "w_revision (stamp rc row) = w_revision row" "w_state (stamp rc row) = w_state row"
  by (auto simp: stamp_def Let_def split: option.splits)

lemma write_plan_row_frame [frame]:
  "w_plan_id (write_plan_row now c row) = w_plan_id row"
  "w_root_node_id (write_plan_row now c row) = w_root_node_id row"
  "w_revision (write_plan_row now c row) = w_revision row + 1"
  by (auto simp: write_plan_row_def Let_def frame split: option.splits)

lemma set_plan_row_keys:
  assumes "\<And>r. w_plan_id (f r) = w_plan_id r"
  shows "map w_plan_id (set_plan_row i f rows) = map w_plan_id rows"
  using assms by (simp add: set_plan_row_def)

lemma plan_row_of_set:
  assumes "\<And>r. w_plan_id (f r) = w_plan_id r"
  shows "find (\<lambda>r. w_plan_id r = j) (set_plan_row i f rows)
    = map_option (\<lambda>r. if j = i then f r else r) (find (\<lambda>r. w_plan_id r = j) rows)"
  using assms by (induction rows) (auto simp: set_plan_row_def)

text \<open>The rows of the written plan are the merge of the rows it had with the change, and the
  rows of every other plan are the ones they were.\<close>

lemma in_write_nodes:
  assumes "distinct (map x_node_id rows)" and "distinct (map n_id (ch_upsert c))"
  shows "r \<in> set (write_nodes i c rows) \<longleftrightarrow> r \<in> columns ` set (ch_upsert c) \<or>
    (r \<in> set rows \<and> \<not> (x_plan_id r = i \<and> x_node_id r \<in> set (ch_remove c))
      \<and> x_node_id r \<notin> n_id ` set (ch_upsert c))"
  using assms
  by (auto simp: write_nodes_def in_fold_upsert distinct_map_filterI comp_def)

lemma set_rows_written:
  assumes "db_keys d" and "fits d i c"
  shows "set (map node_of (filter (\<lambda>r. x_plan_id r = i) (write_nodes i c (db_nodes d))))
    = set (merge_nodes (raw_nodes d i) c)"
proof -
  have "distinct (map x_node_id (db_nodes d))" "distinct (map n_id (ch_upsert c))"
    using assms by (simp_all add: db_keys_def fits_def)
  note rows = in_write_nodes[OF this]
  have up: "node_of (columns n) = n" "n_plan_id n = i" if "n \<in> set (ch_upsert c)" for n
    using assms(2) that by (auto simp: fits_def intro: node_round_trip)
  let ?new = "{r \<in> set (write_nodes i c (db_nodes d)). x_plan_id r = i}"
  let ?old = "{r \<in> set (db_nodes d). x_plan_id r = i \<and> x_node_id r \<notin> set (ch_remove c)
      \<and> x_node_id r \<notin> n_id ` set (ch_upsert c)}"
  have "?new = columns ` set (ch_upsert c) \<union> ?old" using up(2) by (auto simp: rows)
  then have "node_of ` ?new = (\<lambda>n. node_of (columns n)) ` set (ch_upsert c) \<union> node_of ` ?old"
    by (simp add: image_Un image_image)
  also have "(\<lambda>n. node_of (columns n)) ` set (ch_upsert c) = set (ch_upsert c)"
    using up(1) by force
  also have "node_of ` ?old = {n \<in> set (raw_nodes d i). n_id n \<notin> set (ch_remove c) \<union> n_id ` set (ch_upsert c)}"
    by (auto simp: raw_nodes_def rows_of_def)
  finally show ?thesis by (auto simp: merge_nodes_def)
qed

lemma other_rows_written:
  assumes "db_keys d" and "fits d i c" and "j \<noteq> i"
  shows "filter (\<lambda>r. x_plan_id r = j) (write_nodes i c (db_nodes d)) = rows_of d j"
proof -
  let ?kept = "filter (\<lambda>r. \<not> (x_plan_id r = i \<and> x_node_id r \<in> set (ch_remove c))) (db_nodes d)"
  have "filter (\<lambda>r. x_plan_id r = j) (foldl upsert_row ?kept (map columns (ch_upsert c)))
      = filter (\<lambda>r. x_plan_id r = j) ?kept"
    using assms by (intro filter_fold_upsert)
      (auto simp: fits_def db_keys_def distinct_map_filterI)
  also have "\<dots> = rows_of d j" using assms(3) by (auto simp: rows_of_def intro: filter_cong)
  finally show ?thesis by (simp add: write_nodes_def)
qed

lemma distinct_write_nodes:
  "distinct (map x_node_id rows) \<Longrightarrow> distinct (map x_node_id (write_nodes i c rows))"
  by (simp add: write_nodes_def distinct_fold_upsert distinct_map_filterI)

section \<open>Reads of a well-formed database\<close>

lemma store_get_Some:
  assumes "store_get d i = Some p"
  obtains row where "plan_row_of d i = Some row" "p = plan_of row (rows_of d i)"
    "p_id p = w_plan_id row" "p_root_id p = w_root_node_id row" "p_revision p = w_revision row"
    "w_plan_id row = i"
proof -
  from assms obtain row where row: "plan_row_of d i = Some row" "p = plan_of row (rows_of d i)"
    by (auto simp: store_get_def)
  then have "w_plan_id row = i" by (auto simp: plan_row_of_def dest: find_SomeD)
  with row show thesis by (intro that) (simp_all add: plan_of_def)
qed

lemma store_get_None [simp]: "store_get d i = None \<longleftrightarrow> plan_row_of d i = None"
  by (simp add: store_get_def)

lemma db_wf_keys: "db_wf d \<Longrightarrow> db_keys d"
  by (simp add: db_wf_def)

lemma store_get_nodes:
  assumes "db_wf d" and "store_get d i = Some p"
  shows "set (p_nodes p) = set (raw_nodes d i)" and "wf_plan p" and "p_id p = i"
proof -
  from assms(2) obtain row where row: "plan_row_of d i = Some row" "p = plan_of row (rows_of d i)"
    "p_id p = w_plan_id row" "p_root_id p = w_root_node_id row" "w_plan_id row = i"
    by (rule store_get_Some)
  have raw: "wf_nodes i (w_root_node_id row) (raw_nodes d i)"
    using row assms(1) plan_row_of_Some[OF db_wf_keys[OF assms(1)]] by (auto simp: db_wf_def)
  have nodes: "p_nodes p = ordered (w_root_node_id row) (raw_nodes d i)"
    using row by (simp add: plan_of_def raw_nodes_def)
  note t = ordered_tree[OF wf_nodesD(1)[OF raw]]
  show "set (p_nodes p) = set (raw_nodes d i)" by (simp add: nodes t(1))
  show "p_id p = i" using row by simp
  show "wf_plan p"
    unfolding wf_plan_def nodes row(3,4,5)
    using raw wf_nodes_cong[OF t(1) t(2) wf_nodesD(2)[OF raw]] by simp
qed

section \<open>A write against a revision\<close>

lemma store_apply_stale:
  assumes "store_get d i = Some p" and "p_revision p \<noteq> expected"
  shows "store_apply d i expected now c = Inl (StaleRevision (p_revision p))"
  using assms(1)
proof (rule store_get_Some)
  fix row assume "plan_row_of d i = Some row" "p_revision p = w_revision row"
  with assms(2) show ?thesis by (simp add: store_apply_def)
qed

lemma store_apply_gone: "store_get d i = None \<Longrightarrow> store_apply d i expected now c = Inl PlanGone"
  by (simp add: store_apply_def)

text \<open>The database a write leaves.\<close>

definition written :: "db \<Rightarrow> ident \<Rightarrow> timestamp \<Rightarrow> change \<Rightarrow> db" where
  "written d i now c = d\<lparr>db_nodes := write_nodes i c (db_nodes d),
     db_plans := set_plan_row i (write_plan_row now c) (db_plans d),
     db_events := db_events d @ map (event_row_of now (ch_actor c)) (ch_events c)\<rparr>"

lemma plan_row_written:
  "plan_row_of (written d i now c) j
    = map_option (\<lambda>r. if j = i then write_plan_row now c r else r) (plan_row_of d j)"
  by (simp add: written_def plan_row_of_def plan_row_of_set frame)

lemma store_apply_ok:
  assumes "store_get d i = Some p" and "p_revision p = expected"
  shows "\<exists>q. store_apply d i expected now c = Inr (written d i now c, q)
    \<and> store_get (written d i now c) i = Some q \<and> p_revision q = expected + 1
    \<and> p_root_id q = p_root_id p"
  using assms(1)
proof (rule store_get_Some)
  fix row assume row: "plan_row_of d i = Some row" "p = plan_of row (rows_of d i)"
    "p_root_id p = w_root_node_id row" "p_revision p = w_revision row"
  let ?q = "plan_of (write_plan_row now c row) (rows_of (written d i now c) i)"
  have get: "store_get (written d i now c) i = Some ?q"
    using row(1) by (simp add: store_get_def plan_row_written)
  moreover have "store_apply d i expected now c = Inr (written d i now c, ?q)"
    using row assms(2) get by (simp add: store_apply_def written_def Let_def)
  moreover have "p_revision ?q = expected + 1" "p_root_id ?q = p_root_id p"
    using row assms(2) by (simp_all add: plan_of_def frame)
  ultimately show ?thesis by blast
qed

lemma store_apply_Inr:
  assumes "store_apply d i expected now c = Inr (d', q)"
  obtains p where "store_get d i = Some p" "p_revision p = expected" "d' = written d i now c"
    "store_get d' i = Some q" "p_revision q = expected + 1" "p_root_id q = p_root_id p"
proof (cases "store_get d i")
  case None
  with assms show thesis by (simp add: store_apply_gone)
next
  case (Some p)
  have rev: "p_revision p = expected"
    using assms store_apply_stale[OF Some] by (cases "p_revision p = expected") auto
  from store_apply_ok[OF Some rev, of now c] assms show thesis
    by (auto intro: that[OF Some rev])
qed

lemma other_plan_written:
  assumes "db_keys d" and "fits d i c" and "j \<noteq> i"
  shows "store_get (written d i now c) j = store_get d j"
  using other_rows_written[OF assms] assms(3) plan_row_written[of d i now c j]
  by (simp add: store_get_def option.map_ident rows_of_def written_def)

lemma db_keys_written:
  assumes "db_keys d"
  shows "db_keys (written d i now c)"
  using assms by (simp add: db_keys_def written_def distinct_write_nodes set_plan_row_keys frame)

text \<open>A write keeps the database well formed when the merged nodes of its plan are.\<close>

lemma db_wf_written:
  assumes "db_wf d" and "fits d i c" and "store_get d i = Some p"
    and "wf_nodes i (p_root_id p) (merge_nodes (p_nodes p) c)"
  shows "db_wf (written d i now c)" and "set (raw_nodes (written d i now c) i) = set (merge_nodes (p_nodes p) c)"
proof -
  note k = db_wf_keys[OF assms(1)]
  note k' = db_keys_written[OF k]
  have raws: "raw_nodes (written d i now c) i
      = map node_of (filter (\<lambda>r. x_plan_id r = i) (write_nodes i c (db_nodes d)))"
    by (simp add: raw_nodes_def rows_of_def written_def)
  have "set (merge_nodes (raw_nodes d i) c) = set (merge_nodes (p_nodes p) c)"
    using store_get_nodes(1)[OF assms(1,3)] by (auto simp: merge_nodes_def)
  then show sets: "set (raw_nodes (written d i now c) i) = set (merge_nodes (p_nodes p) c)"
    using set_rows_written[OF k assms(2)] raws by simp
  have dr: "distinct (map n_id (raw_nodes (written d i now c) i))"
    using distinct_rows_of[OF k'] by (simp add: raw_nodes_def comp_def)
  have wfi: "wf_nodes i (p_root_id p) (raw_nodes (written d i now c) i)"
    using assms(4) wf_nodes_cong[OF sets dr wf_nodesD(2)[OF assms(4)]] by simp
  from assms(3) obtain row where row: "plan_row_of d i = Some row" "p_root_id p = w_root_node_id row"
    "w_plan_id row = i" by (rule store_get_Some)
  have "wf_nodes (w_plan_id r) (w_root_node_id r) (raw_nodes (written d i now c) (w_plan_id r))"
    if r: "r \<in> set (db_plans (written d i now c))" for r
  proof (cases "w_plan_id r = i")
    case True
    have "plan_row_of (written d i now c) i = Some r" using r True plan_row_of_Some[OF k'] by simp
    then have "w_root_node_id r = p_root_id p" using row by (auto simp: plan_row_written frame)
    with True wfi show ?thesis by simp
  next
    case False
    then have "r \<in> set (db_plans d)"
      using r by (auto simp: written_def set_plan_row_def frame split: if_splits)
    moreover have "raw_nodes (written d i now c) (w_plan_id r) = raw_nodes d (w_plan_id r)"
      using other_rows_written[OF k assms(2) False] by (simp add: raw_nodes_def rows_of_def written_def)
    ultimately show ?thesis using assms(1) by (simp add: db_wf_def)
  qed
  moreover have "x_plan_id ` set (db_nodes (written d i now c)) \<subseteq> w_plan_id ` set (db_plans (written d i now c))"
  proof -
    have plans: "w_plan_id ` set (db_plans (written d i now c)) = w_plan_id ` set (db_plans d)"
      unfolding set_map[symmetric] by (simp add: written_def set_plan_row_keys frame)
    have "i \<in> w_plan_id ` set (db_plans d)" using row by (auto simp: plan_row_of_Some[OF k])
    moreover have "x_plan_id ` set (db_nodes (written d i now c)) \<subseteq> insert i (x_plan_id ` set (db_nodes d))"
      using assms(2) k by (auto simp: written_def db_keys_def fits_def in_write_nodes)
    moreover have "x_plan_id ` set (db_nodes d) \<subseteq> w_plan_id ` set (db_plans d)"
      using assms(1) by (simp add: db_wf_def)
    ultimately show ?thesis unfolding plans by blast
  qed
  ultimately show "db_wf (written d i now c)" using k' by (simp add: db_wf_def)
qed

section \<open>The interface: a store of revisioned records\<close>

locale revisioned =
  fixes read :: "'d \<Rightarrow> ident \<Rightarrow> 'p option"
    and rev_of :: "'p \<Rightarrow> int"
    and put :: "'d \<Rightarrow> ident \<Rightarrow> int \<Rightarrow> 'u \<Rightarrow> store_error + 'd \<times> 'p"
  assumes gone: "read d i = None \<Longrightarrow> put d i e u = Inl PlanGone"
    and stale: "read d i = Some p \<Longrightarrow> rev_of p \<noteq> e \<Longrightarrow> put d i e u = Inl (StaleRevision (rev_of p))"
    and lands: "read d i = Some p \<Longrightarrow> rev_of p = e \<Longrightarrow>
      \<exists>d' q. put d i e u = Inr (d', q) \<and> read d' i = Some q \<and> rev_of q = e + 1"
begin

lemma write_Inr:
  assumes "put d i e u = Inr (d', q)"
  shows "read d' i = Some q \<and> rev_of q = e + 1 \<and> (\<exists>p. read d i = Some p \<and> rev_of p = e)"
proof (cases "read d i")
  case None
  with gone[OF None, of e u] assms show ?thesis by simp
next
  case (Some p)
  show ?thesis
  proof (cases "rev_of p = e")
    case True
    from lands[OF Some True, of u] assms True Some show ?thesis by auto
  next
    case False
    with stale[OF Some False, of u] assms show ?thesis by simp
  qed
qed

text \<open>Two writers that read the same revision: the second to write is refused, and told the
  revision the first one made.\<close>

lemma no_lost_update:
  assumes "put d i e u = Inr (d', q)"
  shows "put d' i e v = Inl (StaleRevision (e + 1))"
proof -
  from write_Inr[OF assms] have q: "read d' i = Some q" "rev_of q = e + 1" by auto
  then show ?thesis using stale[OF q(1), of e v] by simp
qed

text \<open>A chain of writes, each naming the revision the one before it left, lands whole.\<close>

fun write_all :: "'d \<Rightarrow> ident \<Rightarrow> int \<Rightarrow> 'u list \<Rightarrow> store_error + 'd" where
  "write_all d i e [] = Inr d"
| "write_all d i e (u # us) = bindR (put d i e u) (\<lambda>(d', q). write_all d' i (rev_of q) us)"

lemma chain_lands:
  assumes "read d i = Some p"
  shows "\<exists>d' q. write_all d i (rev_of p) us = Inr d' \<and> read d' i = Some q
    \<and> rev_of q = rev_of p + int (length us)"
  using assms
proof (induction us arbitrary: d p)
  case (Cons u us)
  from lands[OF Cons.prems refl, of u] obtain d' q
    where w: "put d i (rev_of p) u = Inr (d', q)" "read d' i = Some q" "rev_of q = rev_of p + 1"
    by blast
  from Cons.IH[OF w(2)] w show ?case by auto
qed simp

end

text \<open>The plan store is such a store: a write is a change with the time it is made at.\<close>

interpretation plans: revisioned store_get p_revision
  "\<lambda>d i e (u :: timestamp \<times> change). store_apply d i e (fst u) (snd u)"
proof unfold_locales
  fix d i p e and u :: "timestamp \<times> change"
  assume "store_get d i = Some p" "p_revision p = e"
  from store_apply_ok[OF this, of "fst u" "snd u"]
  show "\<exists>d' q. store_apply d i e (fst u) (snd u) = Inr (d', q) \<and> store_get d' i = Some q
      \<and> p_revision q = e + 1" by blast
qed (simp_all add: store_apply_gone store_apply_stale)

section \<open>Retrying\<close>

lemma retry_stale_first:
  assumes "attempt (env 0 d) = Inr r" and "0 < n"
  shows "retry_stale n env attempt d = Inr r"
  using assms by (cases n) (auto simp: retry_stale_def Let_def)

lemma retry_from_Inr:
  "retry_from k n env attempt lost d = Inr r \<Longrightarrow> \<exists>d'. attempt d' = Inr r"
  by (induction k n env attempt lost d rule: retry_from.induct)
     (auto simp: Let_def split: sum.splits attempt_error.splits option.splits)

lemma retry_from_Stale:
  assumes "\<And>d'. \<exists>r. attempt d' = Inl (Stale r)"
  shows "\<exists>r. retry_from k (Suc n) env attempt lost d = Inl (Stale r)"
proof (induction n arbitrary: k lost d)
  case 0
  obtain r where "attempt (env k d) = Inl (Stale r)" using assms by blast
  then show ?case by (simp add: Let_def)
next
  case (Suc n)
  obtain r where "attempt (env k d) = Inl (Stale r)" using assms by blast
  then show ?case using Suc[of "Suc k" "Some r" "env k d"] by (simp add: Let_def)
qed

end
