(* ===== verification/PlanConfig.thy ===== *)
theory PlanConfig
  imports PlanModel
begin

text \<open>
  What the plan service reads of the configuration (\<open>config.py\<close>): the declared repositories,
  how one is found by name, its effective \<open>[planning]\<close> settings, and which forge holds it; and
  how a forge holds a plan (\<open>plans/hierarchy.py\<close>, with the static \<open>sub_issues\<close> answers of
  the two backends).  Human-readable reasons are left out: a reason is only its presence.
\<close>

datatype vcs_kind = GitHub | GitLab | Gitea

record planning_config =
  pc_enabled :: bool
  pc_max_epics_per_initiative :: int
  pc_max_tasks_per_epic :: int
  pc_max_questions :: int
  pc_close_completed :: bool
  pc_reconcile_interval_s :: int

record planning_override =
  po_enabled :: "bool option"
  po_max_epics_per_initiative :: "int option"
  po_max_tasks_per_epic :: "int option"
  po_max_questions :: "int option"
  po_close_completed :: "bool option"
  po_reconcile_interval_s :: "int option"

record repo_config =
  rp_repo :: string
  rp_kind :: "vcs_kind option"
  rp_planning :: planning_override
  rp_enabled :: bool

record config =
  cf_repos :: "repo_config list"
  cf_vcs_kind :: vcs_kind
  cf_planning :: planning_config
  cf_workloads :: "string list"

definition or_else :: "'a option \<Rightarrow> 'a \<Rightarrow> 'a" where
  "or_else x y = (case x of None \<Rightarrow> y | Some v \<Rightarrow> v)"

definition over :: "planning_override \<Rightarrow> planning_config \<Rightarrow> planning_config" where
  "over ov b = \<lparr>pc_enabled = or_else (po_enabled ov) (pc_enabled b),
     pc_max_epics_per_initiative = or_else (po_max_epics_per_initiative ov) (pc_max_epics_per_initiative b),
     pc_max_tasks_per_epic = or_else (po_max_tasks_per_epic ov) (pc_max_tasks_per_epic b),
     pc_max_questions = or_else (po_max_questions ov) (pc_max_questions b),
     pc_close_completed = or_else (po_close_completed ov) (pc_close_completed b),
     pc_reconcile_interval_s = or_else (po_reconcile_interval_s ov) (pc_reconcile_interval_s b)\<rparr>"

text \<open>\<open>RepoConfig.name\<close>: what follows the last slash.  A declared repository has one; without
  it the code raises \<open>IndexError\<close>, and the model answers the whole text.\<close>

definition repo_name :: "repo_config \<Rightarrow> string" where
  "repo_name r = rev (takeWhile (\<lambda>c. c \<noteq> CHR ''/'') (rev (rp_repo r)))"

definition default_repo :: "config \<Rightarrow> repo_config option" where
  "default_repo cfg = (case filter rp_enabled (cf_repos cfg) of [r] \<Rightarrow> Some r | _ \<Rightarrow> None)"

definition find_repo :: "config \<Rightarrow> string \<Rightarrow> repo_config option" where
  "find_repo cfg selector =
     (let want = casefold (strip selector) in
      if want = [] then default_repo cfg
      else (case find (\<lambda>r. casefold (rp_repo r) = want) (cf_repos cfg) of
              Some r \<Rightarrow> Some r
            | None \<Rightarrow> (case filter (\<lambda>r. casefold (repo_name r) = want) (cf_repos cfg) of
                         [r] \<Rightarrow> Some r | _ \<Rightarrow> None)))"

definition vcs_kind_for :: "config \<Rightarrow> string \<Rightarrow> vcs_kind" where
  "vcs_kind_for cfg repo = (case find_repo cfg repo of None \<Rightarrow> cf_vcs_kind cfg
     | Some r \<Rightarrow> or_else (rp_kind r) (cf_vcs_kind cfg))"

text \<open>\<open>effective_repo\<close> of a named repository is \<open>find_repo\<close> with delivery defaults folded
  in, which leave its planning override alone.\<close>

definition planning_for :: "config \<Rightarrow> string \<Rightarrow> planning_config" where
  "planning_for cfg repo = (case find_repo cfg repo of None \<Rightarrow> cf_planning cfg
     | Some r \<Rightarrow> over (rp_planning r) (cf_planning cfg))"

section \<open>How a forge holds a plan\<close>

datatype hierarchy = Native | ChecklistBlock | Unsupported
datatype capability = Supported | NotSupported | Unknown

definition sub_issues_capability :: "vcs_kind \<Rightarrow> capability option" where
  "sub_issues_capability k = (case k of GitHub \<Rightarrow> Some Supported | GitLab \<Rightarrow> Some NotSupported
     | Gitea \<Rightarrow> None)"

definition repository_planning :: "vcs_kind \<Rightarrow> hierarchy" where
  "repository_planning k = (case sub_issues_capability k of
     None \<Rightarrow> Unsupported
   | Some Supported \<Rightarrow> Native
   | Some NotSupported \<Rightarrow> ChecklistBlock
   | Some Unknown \<Rightarrow> Unsupported)"

definition repository_planning_for :: "config \<Rightarrow> string \<Rightarrow> hierarchy" where
  "repository_planning_for cfg repo =
     (if \<not> pc_enabled (planning_for cfg repo) then Unsupported
      else repository_planning (vcs_kind_for cfg repo))"

definition planning_available :: "config \<Rightarrow> bool" where
  "planning_available cfg = (if cf_repos cfg = []
     then pc_enabled (cf_planning cfg) \<and> repository_planning (cf_vcs_kind cfg) \<noteq> Unsupported
     else list_ex (\<lambda>r. repository_planning_for cfg (rp_repo r) \<noteq> Unsupported) (cf_repos cfg))"

section \<open>Facts\<close>

lemma filter_singletonD: "filter P xs = [x] \<Longrightarrow> x \<in> set xs \<and> P x"
  by (metis filter_is_subset list.set_intros(1) subsetD filter_eq_Cons_iff)

lemma find_repo_in: "find_repo cfg s = Some r \<Longrightarrow> r \<in> set (cf_repos cfg)"
  by (auto simp: find_repo_def default_repo_def Let_def dest: find_SomeD filter_singletonD
      split: if_splits option.splits list.splits)

text \<open>A repository named in full wins over one that shares its bare name.\<close>

lemma find_repo_full_name:
  assumes "r \<in> set (cf_repos cfg)" and "casefold (strip s) = casefold (rp_repo r)"
    and "casefold (rp_repo r) \<noteq> []"
  shows "\<exists>r'. find_repo cfg s = Some r' \<and> casefold (rp_repo r') = casefold (rp_repo r)"
proof -
  have "find (\<lambda>q. casefold (rp_repo q) = casefold (strip s)) (cf_repos cfg) \<noteq> None"
    using assms(1,2) by (auto simp: find_None_iff')
  then show ?thesis
    using assms(2,3) by (auto simp: find_repo_def Let_def dest: find_SomeD)
qed

end
