(* ===== verification/PlanBase.thy ===== *)
theory PlanBase
  imports PlanStore PlanConfig
begin

text \<open>
  What every part of the plan service stands on: \<open>plans/service_base.py\<close>.  A refusal keeps
  its HTTP status, its code and the machine-readable extras the route renders; the sentence a
  person reads is left out.  Ids that the code draws at random (\<open>new_id\<close>) are arguments.
\<close>

section \<open>Refusals\<close>

record refusal =
  rf_status :: nat
  rf_code :: string
  rf_extra :: "(string \<times> json) list"

text \<open>What a service call raises: a refusal, or a store error no handler catches.\<close>

datatype service_error = Refused refusal | StoreRaised store_error

definition refuse_with :: "nat \<Rightarrow> string \<Rightarrow> (string \<times> json) list \<Rightarrow> service_error" where
  "refuse_with status code extra = Refused \<lparr>rf_status = status, rf_code = code, rf_extra = extra\<rparr>"

abbreviation refuse :: "nat \<Rightarrow> string \<Rightarrow> service_error" where
  "refuse status code \<equiv> refuse_with status code []"

definition not_found :: service_error where
  "not_found = refuse 404 ''not_found''"

definition stale :: "int \<Rightarrow> service_error" where
  "stale current = refuse_with 409 ''stale_revision'' [(''current_revision'', JNum (of_int current))]"

abbreviation invalid_argument :: service_error where
  "invalid_argument \<equiv> refuse 422 ''invalid_argument''"

section \<open>The sections a person sets\<close>

text \<open>One entry of the \<open>sections\<close> mapping: the section named and its value, \<open>None\<close> for an
  explicit null.  The API's schema fixes each section's type; a name outside \<open>SECTIONS\<close> is
  \<open>SUnknown\<close>.  A mapping is a list with each section at most once.\<close>

datatype section_edit =
    STitle "string option"
  | SGoal "string option"
  | SContext "string option"
  | SCriteria "string list option"
  | SKind "task_kind option"
  | SProfile "string option"
  | SVerify "string list option"
  | SDepends "ident list option"
  | SNonGoals "string option"
  | SConstraints "string option"
  | SUnknown string

fun unknown_section :: "section_edit \<Rightarrow> bool" where
  "unknown_section (SUnknown s) = True"
| "unknown_section _ = False"

text \<open>A task section with a value that is not null: only a task carries one.\<close>

fun misplaced :: "section_edit \<Rightarrow> bool" where
  "misplaced (SKind v) = (v \<noteq> None)"
| "misplaced (SProfile v) = (v \<noteq> None)"
| "misplaced (SVerify v) = (v \<noteq> None)"
| "misplaced (SDepends v) = (v \<noteq> None)"
| "misplaced _ = False"

fun names_depends :: "section_edit \<Rightarrow> bool" where
  "names_depends (SDepends v) = True"
| "names_depends _ = False"

definition or_empty :: "'a list option \<Rightarrow> 'a list" where
  "or_empty v = (case v of None \<Rightarrow> [] | Some x \<Rightarrow> x)"

fun set_section :: "plan_node \<Rightarrow> section_edit \<Rightarrow> plan_node" where
  "set_section n (STitle v) = n\<lparr>n_title := or_empty v\<rparr>"
| "set_section n (SGoal v) = n\<lparr>n_goal := or_empty v\<rparr>"
| "set_section n (SContext v) = n\<lparr>n_context := or_empty v\<rparr>"
| "set_section n (SCriteria v) = n\<lparr>n_acceptance_criteria := or_empty v\<rparr>"
| "set_section n (SKind v) = n\<lparr>n_kind := v\<rparr>"
| "set_section n (SProfile v) = n\<lparr>n_workload_profile := (if truthy v then v else None)\<rparr>"
| "set_section n (SVerify v) = n\<lparr>n_verify_commands := or_empty v\<rparr>"
| "set_section n (SDepends v) = n\<lparr>n_depends_on := or_empty v\<rparr>"
| "set_section n (SNonGoals v) = n\<lparr>n_non_goals := or_empty v\<rparr>"
| "set_section n (SConstraints v) = n\<lparr>n_constraints := or_empty v\<rparr>"
| "set_section n (SUnknown s) = n"

definition apply_sections :: "plan_node \<Rightarrow> section_edit list \<Rightarrow> plan_node" where
  "apply_sections n ss = foldl set_section n ss"

section \<open>Dependencies make no cycle\<close>

text \<open>The search of \<open>_check_dependencies\<close>: \<open>stack\<close> has its top first.  \<open>False\<close> is the
  refusal "those dependencies make a cycle".\<close>

type_synonym graph = "(ident \<times> ident list) list"

definition successors :: "graph \<Rightarrow> ident \<Rightarrow> ident list" where
  "successors g i = (case map_of g i of None \<Rightarrow> [] | Some ds \<Rightarrow> ds)"

function search :: "graph \<Rightarrow> ident \<Rightarrow> ident list \<Rightarrow> ident list \<Rightarrow> bool" where
  "search g t seen [] = True"
| "search g t seen (current # stack) =
     (if current = t then False
      else if current \<in> set seen then search g t seen stack
      else search g t (current # seen) (rev (successors g current) @ stack))"
  by pat_completeness auto
termination
proof (relation "measures [\<lambda>(g, t, seen, stack). card (fst ` set g - set seen),
    \<lambda>(g, t, seen, stack). length stack]", goal_cases)
  case (3 g t seen current stack)
  show ?case
  proof (cases "current \<in> fst ` set g")
    case True
    then have "card (fst ` set g - set (current # seen)) < card (fst ` set g - set seen)"
      using 3 by (intro psubset_card_mono) auto
    then show ?thesis by simp
  next
    case False
    then have "map_of g current = None" by (simp add: map_of_eq_None_iff)
    moreover have "fst ` set g - set (current # seen) = fst ` set g - set seen" using False by auto
    ultimately show ?thesis by (simp add: successors_def)
  qed
qed auto

definition dependency_graph :: "plan_node \<Rightarrow> plan_node list \<Rightarrow> graph" where
  "dependency_graph n siblings = (n_id n, n_depends_on n) # map (\<lambda>s. (n_id s, n_depends_on s)) siblings"

definition check_dependencies :: "plan_node \<Rightarrow> plan_node list \<Rightarrow> service_error + unit" where
  "check_dependencies n siblings =
     bindR (check (list_all (\<lambda>dep. dep \<noteq> n_id n \<and> dep \<in> n_id ` set siblings) (n_depends_on n))
              invalid_argument) (\<lambda>_.
     check (search (dependency_graph n siblings) (n_id n) [] (rev (n_depends_on n))) invalid_argument)"

definition with_sections ::
  "config \<Rightarrow> plan_node \<Rightarrow> section_edit list \<Rightarrow> plan_node list \<Rightarrow> service_error + plan_node" where
  "with_sections cfg n ss siblings =
     bindR (check (\<not> list_ex unknown_section ss) invalid_argument) (\<lambda>_.
     bindR (check (\<not> (list_ex misplaced ss \<and> n_level n \<noteq> Task)) invalid_argument) (\<lambda>_.
     let edited = apply_sections n ss in
     bindR (check (\<not> blank (n_title edited)) invalid_argument) (\<lambda>_.
     bindR (check (\<not> (n_kind edited \<noteq> Some WorkloadTask \<and> truthy (n_workload_profile edited)))
              invalid_argument) (\<lambda>_.
     bindR (check (\<not> (n_kind edited = Some WorkloadTask \<and> n_verify_commands edited \<noteq> []))
              invalid_argument) (\<lambda>_.
     bindR (check (case n_workload_profile edited of None \<Rightarrow> True
              | Some prof \<Rightarrow> prof = [] \<or> prof \<in> set (cf_workloads cfg)) invalid_argument) (\<lambda>_.
     bindR (if list_ex names_depends ss then check_dependencies edited siblings else Inr ()) (\<lambda>_.
     Inr edited)))))))"

section \<open>Places under the cap\<close>

definition stays :: "plan \<Rightarrow> plan_node \<Rightarrow> bool" where
  "stays p child = (if n_state child \<noteq> Proposed then True
     else list_ex (\<lambda>n. n_state n \<noteq> Proposed) (descendants p (n_id child)))"

definition kept :: "plan \<Rightarrow> plan_node \<Rightarrow> plan_node list" where
  "kept p n = filter (stays p) (children p (n_id n))"

definition occupied :: "plan \<Rightarrow> plan_node \<Rightarrow> plan_node list" where
  "occupied p n = filter (\<lambda>c. \<not> detached c) (kept p n)"

definition cap :: "config \<Rightarrow> plan_node \<Rightarrow> int" where
  "cap cfg n = (let planning = planning_for cfg (n_repository n) in
     if n_level n = Initiative then pc_max_epics_per_initiative planning
     else pc_max_tasks_per_epic planning)"

definition room :: "config \<Rightarrow> plan \<Rightarrow> plan_node \<Rightarrow> int" where
  "room cfg p n = cap cfg n - int (length (occupied p n))"

definition check_room :: "config \<Rightarrow> plan \<Rightarrow> plan_node \<Rightarrow> service_error + unit" where
  "check_room cfg p parent =
     (let held = int (length (occupied p parent)) in
      check (\<not> held + 1 > cap cfg parent) (refuse_with 409 ''too_many_children''
        [(''cap'', JNum (of_int (cap cfg parent))), (''children'', JNum (of_int held))]))"

definition check_cap ::
  "config \<Rightarrow> plan \<Rightarrow> plan_node \<Rightarrow> plan_node list \<Rightarrow> service_error + unit" where
  "check_cap cfg p n targets =
     (let going = filter (\<lambda>i. i \<noteq> n_id n) (map n_id targets);
          total = int (length (remdups (map n_id (occupied p n) @ going)))
      in check (\<not> total > cap cfg n) (refuse_with 409 ''too_many_children''
        [(''cap'', JNum (of_int (cap cfg n))), (''children'', JNum (of_int total))]))"

definition replanned :: "plan \<Rightarrow> plan_node \<Rightarrow> bool" where
  "replanned p n = (n_state n = Published \<and> list_ex followed (children p (n_id n)))"

definition changeable :: "plan_node \<Rightarrow> bool" where
  "changeable n = (followed n \<and> (case n_forge n of None \<Rightarrow> False
     | Some f \<Rightarrow> f_state f \<noteq> Some ForgeClosed))"

section \<open>Checks each write runs\<close>

definition service_get :: "db \<Rightarrow> ident \<Rightarrow> service_error + plan" where
  "service_get d i = (case store_get d i of None \<Rightarrow> Inl not_found | Some p \<Rightarrow> Inr p)"

definition node_in :: "plan \<Rightarrow> ident \<Rightarrow> service_error + plan_node" where
  "node_in p i = (case plan_node_of p i of None \<Rightarrow> Inl not_found | Some n \<Rightarrow> Inr n)"

definition check_revision :: "plan \<Rightarrow> int \<Rightarrow> service_error + unit" where
  "check_revision p expected = check (p_revision p = expected) (stale (p_revision p))"

definition not_archived :: "plan \<Rightarrow> service_error + unit" where
  "not_archived p = check (\<not> p_archived p) (refuse 409 ''plan_archived'')"

definition service_write ::
  "db \<Rightarrow> plan \<Rightarrow> int \<Rightarrow> timestamp \<Rightarrow> change \<Rightarrow> service_error + db \<times> plan" where
  "service_write d p expected now c =
     (case store_apply d (p_id p) expected now c of
        Inr r \<Rightarrow> Inr r
      | Inl (StaleRevision current) \<Rightarrow> Inl (stale current)
      | Inl PlanGone \<Rightarrow> Inl not_found
      | Inl e \<Rightarrow> Inl (StoreRaised e))"

definition repository :: "config \<Rightarrow> string \<Rightarrow> service_error + string" where
  "repository cfg name =
     (case find_repo cfg name of
        None \<Rightarrow> Inl (refuse_with 422 ''unknown_repository'' [(''repository'', JStr name)])
      | Some entry \<Rightarrow>
          if repository_planning_for cfg (rp_repo entry) = Unsupported
          then Inl (refuse_with 409 ''planning_unsupported'' [(''repository'', JStr (rp_repo entry))])
          else Inr (rp_repo entry))"

definition child_repository ::
  "config \<Rightarrow> plan_node \<Rightarrow> level \<Rightarrow> string option \<Rightarrow> service_error + string" where
  "child_repository cfg parent level asked =
     (if level = Task
      then (case asked of
              None \<Rightarrow> Inr (n_repository parent)
            | Some a \<Rightarrow> if a \<noteq> [] \<and> casefold a \<noteq> casefold (n_repository parent) then Inl invalid_argument
                        else Inr (n_repository parent))
      else (case asked of
              None \<Rightarrow> Inr (n_repository parent)
            | Some a \<Rightarrow> if a = [] then Inr (n_repository parent) else repository cfg a))"

text \<open>\<open>_reorder\<close>: siblings renumbered from 0, with one moved to a clamped position.  A node
  to move that is not among them raises \<open>StopIteration\<close> in the code; every caller names one
  of them.\<close>

definition clamp_index :: "int \<Rightarrow> nat \<Rightarrow> nat" where
  "clamp_index position n = nat (max 0 (min position (int n)))"

definition renumber :: "plan_node list \<Rightarrow> plan_node list" where
  "renumber ns = map (\<lambda>(index, n). n\<lparr>n_position := int index\<rparr>) (enumerate 0 ns)"

definition reorder :: "plan_node list \<Rightarrow> ident \<Rightarrow> int option \<Rightarrow> plan_node list" where
  "reorder siblings i position =
     (let sorted = by_position siblings;
          moved = (case position of None \<Rightarrow> sorted
            | Some pos \<Rightarrow> (case find (\<lambda>n. n_id n = i) sorted of
                None \<Rightarrow> sorted
              | Some moving \<Rightarrow>
                  let rest = filter (\<lambda>n. n_id n \<noteq> i) sorted;
                      k = clamp_index pos (length rest)
                  in take k rest @ moving # drop k rest))
      in renumber moved)"

definition followed_node :: "plan \<Rightarrow> ident \<Rightarrow> service_error + plan_node" where
  "followed_node p i =
     bindR (node_in p i) (\<lambda>n.
     if n_state n \<noteq> Published \<or> n_forge n = None
     then Inl (refuse_with 409 ''node_unpublished'' [(''node_id'', JStr (n_id n))])
     else if detached n then Inl (refuse_with 409 ''node_detached'' [(''node_id'', JStr (n_id n))])
     else Inr n)"

definition siblings_of :: "plan \<Rightarrow> plan_node \<Rightarrow> plan_node list" where
  "siblings_of p n = (case n_parent_id n of None \<Rightarrow> []
     | Some q \<Rightarrow> filter (\<lambda>s. n_id s \<noteq> n_id n) (children p q))"

definition check_published_dependencies ::
  "plan \<Rightarrow> plan_node \<Rightarrow> plan_node \<Rightarrow> service_error + unit" where
  "check_published_dependencies p before after =
     (let missing = filter (\<lambda>dep. dep \<notin> set (n_depends_on before)
            \<and> (case plan_node_of p dep of None \<Rightarrow> True | Some s \<Rightarrow> \<not> followed s)) (n_depends_on after)
      in check (missing = []) (refuse_with 409 ''dependency_unpublished'' [(''node_ids'', jstrs missing)]))"

definition check_level :: "plan \<Rightarrow> plan_node \<Rightarrow> service_error + unit" where
  "check_level p n =
     (if n_level n = Task then Inl invalid_argument
      else if n_state n \<noteq> Published \<and> n_parent_id n \<noteq> None
      then Inl (refuse_with 409 ''parent_unpublished'' [(''parent_id'', jopt JStr (n_parent_id n))])
      else if n_state n = Published \<and> \<not> list_ex (\<lambda>c. n_state c = Approved) (children p (n_id n))
      then Inl (refuse 409 ''nothing_to_publish'')
      else Inr ())"

definition check_publishable :: "config \<Rightarrow> string \<Rightarrow> vcs_kind option \<Rightarrow> service_error + unit" where
  "check_publishable cfg repo forge_kind =
     (case find_repo cfg repo of
        None \<Rightarrow> Inl (refuse_with 422 ''unknown_repository'' [(''repository'', JStr repo)])
      | Some entry \<Rightarrow>
          let here = [(''repository'', JStr (rp_repo entry))] in
          if \<not> rp_enabled entry then Inl (refuse_with 409 ''repository_disabled'' here)
          else if repository_planning_for cfg (rp_repo entry) = Unsupported
          then Inl (refuse_with 409 ''planning_unsupported'' here)
          else if forge_kind \<noteq> None \<and> Some (vcs_kind_for cfg (rp_repo entry)) \<noteq> forge_kind
          then Inl (refuse_with 409 ''forge_mismatch'' here)
          else Inr ())"

definition check_dependencies_published ::
  "plan \<Rightarrow> plan_node \<Rightarrow> plan_node list \<Rightarrow> service_error + unit" where
  "check_dependencies_published p n targets =
     (let lacks = (\<lambda>child. list_ex (\<lambda>dep. \<not> (dep \<in> n_id ` set targets
                \<or> (case plan_node_of p dep of None \<Rightarrow> False | Some s \<Rightarrow> n_state s = Published)))
              (n_depends_on child));
          missing = map n_id (filter lacks (filter (\<lambda>c. n_id c \<noteq> n_id n) targets))
      in check (missing = []) (refuse_with 409 ''dependency_unpublished''
           [(''node_ids'', jstrs (sort missing))]))"

definition breakdown_target ::
  "db \<Rightarrow> config \<Rightarrow> ident \<Rightarrow> ident \<Rightarrow> int option \<Rightarrow> service_error + plan \<times> plan_node" where
  "breakdown_target d cfg plan_id node_id expected =
     bindR (service_get d plan_id) (\<lambda>p.
     bindR (case expected of None \<Rightarrow> Inr () | Some r \<Rightarrow> check_revision p r) (\<lambda>_.
     bindR (not_archived p) (\<lambda>_.
     bindR (node_in p node_id) (\<lambda>n.
     case child_level (n_level n) of
       None \<Rightarrow> Inl (refuse_with 422 ''invalid_argument'' [(''node_id'', JStr (n_id n))])
     | Some _ \<Rightarrow>
         if find_repo cfg (n_repository n) = None
         then Inl (refuse_with 409 ''unknown_repository'' [(''repository'', JStr (n_repository n))])
         else if repository_planning_for cfg (n_repository n) = Unsupported
         then Inl (refuse_with 409 ''planning_unsupported'' [(''repository'', JStr (n_repository n))])
         else if \<not> replanned p n \<and> int (length (occupied p n)) \<ge> cap cfg n
                 \<and> \<not> (generation_pending p \<and> n_id n = p_root_id p)
         then Inl (refuse_with 409 ''level_full'' [(''node_id'', JStr (n_id n))])
         else Inr (p, n)))))"

definition node_changed :: "ident \<Rightarrow> ident \<Rightarrow> string \<Rightarrow> plan_event" where
  "node_changed plan_id node_id what = \<lparr>ev_type = ''plan.node.changed'',
     ev_data = [(''plan_id'', JStr plan_id), (''node_id'', JStr node_id), (''change'', JStr what)],
     ev_run_id = None, ev_item_id = None, ev_channel_id = None\<rparr>"

section \<open>The search finds exactly the cycles\<close>

definition graph_edges :: "graph \<Rightarrow> (ident \<times> ident) set" where
  "graph_edges g = {(a, b). b \<in> set (successors g a)}"

lemma search_finds_path:
  "\<not> search g t seen stack \<Longrightarrow> \<exists>x\<in>set stack. (x, t) \<in> (graph_edges g)\<^sup>*"
proof (induction g t seen stack rule: search.induct)
  case (2 g t seen current stack)
  show ?case
  proof (cases "current = t \<or> current \<in> set seen")
    case True with 2 show ?thesis by (cases "current = t") auto
  next
    case False
    then obtain x where "x \<in> set (rev (successors g current) @ stack)" "(x, t) \<in> (graph_edges g)\<^sup>*"
      using 2 by auto
    then show ?thesis
      by (auto simp: graph_edges_def intro: converse_rtrancl_into_rtrancl)
  qed
qed simp

lemma search_no_path:
  assumes "search g t seen stack" and "t \<notin> set seen"
    and "\<forall>s\<in>set seen. \<forall>b. (s, b) \<in> graph_edges g \<longrightarrow> b \<in> set seen \<union> set stack"
    and "x \<in> set seen \<union> set stack"
  shows "(x, t) \<notin> (graph_edges g)\<^sup>*"
  using assms
proof (induction g t seen stack rule: search.induct)
  case (1 g t seen)
  have "y \<in> set seen" if "(x, y) \<in> (graph_edges g)\<^sup>*" for y
    using that 1 by (induction rule: rtrancl_induct) auto
  with 1 show ?case by blast
next
  case (2 g t seen current stack)
  have ne: "current \<noteq> t" using 2(3) by (auto split: if_splits)
  show ?case
  proof (cases "current \<in> set seen")
    case True
    with ne 2 show ?thesis by auto
  next
    case False
    show ?thesis
    proof (rule 2(2)[OF ne False])
      show "search g t (current # seen) (rev (successors g current) @ stack)"
        using 2(3) ne False by simp
    qed (use 2(4-6) ne in \<open>auto simp: graph_edges_def\<close>)
  qed
qed

lemma search_iff:
  "search g t [] stack \<longleftrightarrow> (\<forall>x\<in>set stack. (x, t) \<notin> (graph_edges g)\<^sup>*)"
  using search_finds_path[of g t "[]" stack] search_no_path[of g t "[]" stack] by auto

lemma check_dependencies_iff:
  "check_dependencies n siblings = Inr () \<longleftrightarrow>
     set (n_depends_on n) \<subseteq> n_id ` set siblings - {n_id n}
     \<and> (n_id n, n_id n) \<notin> (graph_edges (dependency_graph n siblings))\<^sup>+"
proof -
  let ?E = "graph_edges (dependency_graph n siblings)"
  have "(n_id n, d) \<in> ?E \<longleftrightarrow> d \<in> set (n_depends_on n)" for d
    by (simp add: graph_edges_def successors_def dependency_graph_def)
  then have "(n_id n, n_id n) \<in> ?E\<^sup>+ \<longleftrightarrow> (\<exists>d\<in>set (n_depends_on n). (d, n_id n) \<in> ?E\<^sup>*)"
    by (auto simp: trancl_unfold_left relcomp_unfold)
  then show ?thesis
    by (auto simp: check_dependencies_def search_iff list_all_iff)
qed

section \<open>Section edits\<close>

text \<open>The fields an edit of sections never touches.\<close>

lemma set_section_frame [frame]:
  "n_id (set_section n s) = n_id n" "n_plan_id (set_section n s) = n_plan_id n"
  "n_parent_id (set_section n s) = n_parent_id n" "n_position (set_section n s) = n_position n"
  "n_level (set_section n s) = n_level n" "n_repository (set_section n s) = n_repository n"
  "n_state (set_section n s) = n_state n" "n_origin (set_section n s) = n_origin n"
  "n_forge (set_section n s) = n_forge n" "n_drift (set_section n s) = n_drift n"
  "n_replan (set_section n s) = n_replan n" "n_review (set_section n s) = n_review n"
  "n_approved_by (set_section n s) = n_approved_by n"
  by (cases s; simp)+

lemma apply_sections_frame [frame]:
  "n_id (apply_sections n ss) = n_id n" "n_plan_id (apply_sections n ss) = n_plan_id n"
  "n_parent_id (apply_sections n ss) = n_parent_id n" "n_position (apply_sections n ss) = n_position n"
  "n_level (apply_sections n ss) = n_level n" "n_repository (apply_sections n ss) = n_repository n"
  "n_state (apply_sections n ss) = n_state n" "n_origin (apply_sections n ss) = n_origin n"
  "n_forge (apply_sections n ss) = n_forge n" "n_drift (apply_sections n ss) = n_drift n"
  "n_replan (apply_sections n ss) = n_replan n" "n_review (apply_sections n ss) = n_review n"
  "n_approved_by (apply_sections n ss) = n_approved_by n"
  unfolding apply_sections_def by (induction ss arbitrary: n; simp add: frame)+

definition task_fields_clear :: "plan_node \<Rightarrow> bool" where
  "task_fields_clear n = (n_kind n = None \<and> n_workload_profile n = None \<and> n_verify_commands n = []
     \<and> n_depends_on n = [])"

lemma set_section_task_fields:
  "task_fields_clear n \<Longrightarrow> \<not> misplaced s \<Longrightarrow> task_fields_clear (set_section n s)"
  by (cases s) (auto simp: task_fields_clear_def or_empty_def truthy_def)

lemma apply_sections_task_fields:
  "task_fields_clear n \<Longrightarrow> \<not> list_ex misplaced ss \<Longrightarrow> task_fields_clear (apply_sections n ss)"
  unfolding apply_sections_def
  by (induction ss arbitrary: n) (auto intro: set_section_task_fields)

lemma set_section_depends: "\<not> names_depends s \<Longrightarrow> n_depends_on (set_section n s) = n_depends_on n"
  by (cases s) auto

lemma apply_sections_depends:
  "\<not> list_ex names_depends ss \<Longrightarrow> n_depends_on (apply_sections n ss) = n_depends_on n"
  unfolding apply_sections_def by (induction ss arbitrary: n) (auto simp: set_section_depends)

lemma with_sections_Inr:
  assumes "with_sections cfg n ss siblings = Inr e"
  shows "e = apply_sections n ss" and "\<not> list_ex unknown_section ss"
    and "n_level n \<noteq> Task \<Longrightarrow> \<not> list_ex misplaced ss"
    and "\<not> blank (n_title e)"
    and "n_kind e \<noteq> Some WorkloadTask \<Longrightarrow> \<not> truthy (n_workload_profile e)"
    and "n_kind e = Some WorkloadTask \<Longrightarrow> n_verify_commands e = []"
    and "list_ex names_depends ss \<Longrightarrow> check_dependencies e siblings = Inr ()"
    and "truthy (n_workload_profile e) \<Longrightarrow> the (n_workload_profile e) \<in> set (cf_workloads cfg)"
  using assms by (auto simp: with_sections_def Let_def truthy_def split: if_splits option.splits)

lemma with_sections_node_ok:
  assumes "with_sections cfg n ss siblings = Inr e"
    and "n_level n \<noteq> Task \<longrightarrow> task_fields_clear n"
    and "n_approved_by n \<noteq> None \<longrightarrow> n_state n = Approved \<or> n_state n = Published"
    and "n_state n = Published \<longrightarrow> n_forge n \<noteq> None"
  shows "node_ok e"
proof -
  note w = with_sections_Inr[OF assms(1)]
  have "task_fields_clear e" if "n_level n \<noteq> Task"
    using assms(2) w(1) w(3)[OF that] that by (auto intro: apply_sections_task_fields)
  then show ?thesis
    using w(4-6) assms(3,4) unfolding w(1)
    by (auto simp: node_ok_def task_fields_clear_def frame)
qed

lemma node_ok_task_fields: "node_ok n \<Longrightarrow> n_level n \<noteq> Task \<longrightarrow> task_fields_clear n"
  by (simp add: node_ok_def task_fields_clear_def)

section \<open>Renumbering\<close>

lemma renumber_nth: "i < length ns \<Longrightarrow> renumber ns ! i = (ns ! i)\<lparr>n_position := int i\<rparr>"
  by (simp add: renumber_def nth_enumerate_eq)

lemma length_renumber [simp]: "length (renumber ns) = length ns"
  by (simp add: renumber_def)

lemma renumber_positions: "map n_position (renumber ns) = map int [0..<length ns]"
  by (rule nth_equalityI) (auto simp: renumber_nth)

lemma renumber_ids [simp]: "map n_id (renumber ns) = map n_id ns"
  by (rule nth_equalityI) (auto simp: renumber_nth)

lemma in_renumber:
  "m \<in> set (renumber ns) \<longleftrightarrow> (\<exists>i < length ns. m = (ns ! i)\<lparr>n_position := int i\<rparr>)"
  by (auto simp: in_set_conv_nth renumber_nth)

lemma renumberE:
  assumes "m \<in> set (renumber ns)"
  obtains n k where "n \<in> set ns" "m = n\<lparr>n_position := k\<rparr>"
proof -
  from assms obtain i where "i < length ns" "m = (ns ! i)\<lparr>n_position := int i\<rparr>"
    by (auto simp: in_renumber)
  then show thesis using that[of "ns ! i" "int i"] by simp
qed

lemma reorder_shape:
  "\<exists>ms. reorder siblings i position = renumber ms \<and> set ms = set siblings
    \<and> length ms = length siblings \<and> distinct (map n_id ms) = distinct (map n_id siblings)"
  if d: "distinct (map n_id siblings)"
proof -
  let ?s = "by_position siblings"
  show ?thesis
  proof (cases "position = None \<or> find (\<lambda>n. n_id n = i) ?s = None")
    case True
    then have "reorder siblings i position = renumber ?s"
      by (auto simp: reorder_def Let_def split: option.splits)
    then show ?thesis by (intro exI[of _ ?s]) simp
  next
    case False
    then obtain pos moving where pm: "position = Some pos" "find (\<lambda>n. n_id n = i) ?s = Some moving"
      by auto
    let ?rest = "filter (\<lambda>n. n_id n \<noteq> i) ?s"
    let ?k = "clamp_index pos (length ?rest)"
    let ?ms = "take ?k ?rest @ moving # drop ?k ?rest"
    have mv: "moving \<in> set ?s" "n_id moving = i" using pm(2) by (auto dest: find_SomeD)
    have ds: "distinct (map n_id ?s)" using d by simp
    have rest: "?rest = filter (\<lambda>n. n \<noteq> moving) ?s"
      using mv same_id_same_node[OF ds] by (intro filter_cong) auto
    have "distinct ?s" using ds distinct_map by blast
    then have m: "mset ?ms = mset ?s"
      using mset_take_out[OF _ mv(1)] by (simp only: mset_insert_at rest)
    have "reorder siblings i position = renumber ?ms" using pm by (simp add: reorder_def Let_def)
    moreover have "set ?ms = set siblings" using mset_eq_setD[OF m] by (simp only: by_position_set)
    moreover have "length ?ms = length siblings" using mset_eq_length[OF m] by (simp only: by_position_length)
    moreover have "distinct (map n_id ?ms)" using ds mset_eq_imp_distinct_iff[of "map n_id ?ms" "map n_id ?s"] m by (simp only: mset_map)
    ultimately show ?thesis using d by blast
  qed
qed

lemma reorder_ids:
  assumes "distinct (map n_id siblings)"
  shows "n_id ` set (reorder siblings i position) = n_id ` set siblings"
    and "distinct (map n_id (reorder siblings i position))"
proof -
  from reorder_shape[OF assms, of i position] obtain ms where ms:
    "reorder siblings i position = renumber ms" "set ms = set siblings" "distinct (map n_id ms)"
    using assms by auto
  show "n_id ` set (reorder siblings i position) = n_id ` set siblings"
    using ms by (metis renumber_ids set_map)
  show "distinct (map n_id (reorder siblings i position))" using ms by simp
qed

lemma reorder_in:
  assumes "distinct (map n_id siblings)" and "m \<in> set (reorder siblings i position)"
  shows "\<exists>n\<in>set siblings. \<exists>k. m = n\<lparr>n_position := k\<rparr>"
proof -
  from reorder_shape[OF assms(1), of i position] obtain ms where
    "reorder siblings i position = renumber ms" "set ms = set siblings" by blast
  with assms(2) show ?thesis by (metis renumberE)
qed

end
