(* ===== verification/PlanMerge.thy ===== *)
theory PlanMerge
  imports PlanBase
begin

text \<open>
  How the well-formedness of a plan's nodes is carried through the three kinds of change a
  write makes: nodes patched in place, a node added under a parent, a subtree removed.  Every
  operation of the plan service is one of these (or two in one write), so its invariant proof
  is an instance of the lemmas here.
\<close>

definition same_shape :: "plan_node \<Rightarrow> plan_node \<Rightarrow> bool" where
  "same_shape n m = (n_id n = n_id m \<and> n_plan_id n = n_plan_id m \<and> n_parent_id n = n_parent_id m
     \<and> n_level n = n_level m)"

definition patched :: "plan_node list \<Rightarrow> plan_node \<Rightarrow> plan_node" where
  "patched us n = (case find (\<lambda>u. n_id u = n_id n) us of Some u \<Rightarrow> u | None \<Rightarrow> n)"

lemma patched_id [simp]: "n_id (patched us n) = n_id n"
  by (auto simp: patched_def dest: find_SomeD split: option.splits)

lemma patched_cases: "patched us n = n \<or> patched us n \<in> set us"
  by (auto simp: patched_def dest: find_SomeD split: option.splits)

lemma patched_hit:
  "distinct (map n_id us) \<Longrightarrow> u \<in> set us \<Longrightarrow> n_id u = n_id n \<Longrightarrow> patched us n = u"
  using find_unique[of n_id us u] by (simp add: patched_def)

lemma patched_miss:
  assumes "n_id n \<notin> n_id ` set us"
  shows "patched us n = n"
proof -
  have "find (\<lambda>u. n_id u = n_id n) us = None"
  proof (cases "find (\<lambda>u. n_id u = n_id n) us")
    case (Some u)
    then have "n_id u = n_id n" "u \<in> set us" by (auto dest: find_SomeD)
    with imageI[of u "set us" n_id] assms show ?thesis by simp
  qed simp
  then show ?thesis by (simp add: patched_def)
qed

lemma set_merge_nodes:
  assumes "distinct (map n_id (ch_upsert c))" and "n_id ` set (ch_upsert c) \<subseteq> n_id ` set ns"
    and "set (ch_remove c) \<inter> n_id ` set (ch_upsert c) = {}"
  shows "set (merge_nodes ns c)
    = patched (ch_upsert c) ` {n \<in> set ns. n_id n \<notin> set (ch_remove c)}"
proof (intro equalityI subsetI)
  fix m assume "m \<in> set (merge_nodes ns c)"
  then consider (old) "m \<in> set ns" "n_id m \<notin> set (ch_remove c)" "n_id m \<notin> n_id ` set (ch_upsert c)"
    | (new) "m \<in> set (ch_upsert c)" by (auto simp: merge_nodes_def)
  then show "m \<in> patched (ch_upsert c) ` {n \<in> set ns. n_id n \<notin> set (ch_remove c)}"
  proof cases
    case old
    then have "m = patched (ch_upsert c) m" by (simp add: patched_miss)
    with old(1,2) show ?thesis by (intro image_eqI[of _ _ m]) auto
  next
    case new
    then have "n_id m \<in> n_id ` set ns" using assms(2) by auto
    then obtain n where n: "n \<in> set ns" "n_id n = n_id m" by auto
    with new have "patched (ch_upsert c) n = m" using assms(1) by (auto intro: patched_hit)
    moreover have "n_id n \<notin> set (ch_remove c)" using new assms(3) n by auto
    ultimately show ?thesis using n by blast
  qed
next
  fix m assume "m \<in> patched (ch_upsert c) ` {n \<in> set ns. n_id n \<notin> set (ch_remove c)}"
  then obtain n where n: "n \<in> set ns" "n_id n \<notin> set (ch_remove c)" "m = patched (ch_upsert c) n"
    by blast
  show "m \<in> set (merge_nodes ns c)"
  proof (cases "n_id n \<in> n_id ` set (ch_upsert c)")
    case True
    then obtain u where "u \<in> set (ch_upsert c)" "n_id u = n_id n" by auto
    with n assms(1) patched_hit show ?thesis by (auto simp: merge_nodes_def)
  next
    case False
    with n show ?thesis by (auto simp: merge_nodes_def patched_miss)
  qed
qed

section \<open>The tree\<close>

lemma tree_ok_map:
  assumes t: "tree_ok r ns" and s: "set ms = g ` {n \<in> set ns. K n}" and d: "distinct (map n_id ms)"
    and g: "\<And>n. n \<in> set ns \<Longrightarrow> K n \<Longrightarrow> same_shape (g n) n"
    and up: "\<And>n m. n \<in> set ns \<Longrightarrow> K n \<Longrightarrow> m \<in> set ns \<Longrightarrow> n_parent_id n = Some (n_id m) \<Longrightarrow> K m"
    and root: "\<And>n. n \<in> set ns \<Longrightarrow> n_id n = r \<Longrightarrow> K n"
  shows "tree_ok r ms"
proof -
  from t obtain rt where rt: "rt \<in> set ns" "n_id rt = r" by (auto simp: tree_ok_def)
  then have "g rt \<in> set ms" "n_id (g rt) = r" using s root g[of rt] by (auto simp: same_shape_def)
  moreover have "parent_ok r ms (g n)" if n: "n \<in> set ns" "K n" for n
  proof -
    have pn: "parent_ok r ns n" using t n by (simp add: tree_ok_def)
    note gn = g[OF n]
    show ?thesis
    proof (cases "n_parent_id n")
      case None
      with pn gn show ?thesis by (simp add: parent_ok_def same_shape_def)
    next
      case (Some q)
      with pn obtain m where m: "m \<in> set ns" "n_id m = q" "child_level (n_level m) = Some (n_level n)"
        by (auto simp: parent_ok_def)
      have Km: "K m" using up[OF n m(1)] Some m(2) by simp
      then have "g m \<in> set ms" using s m(1) by auto
      moreover have "n_id (g m) = q" "n_level (g m) = n_level m"
        using g[OF m(1) Km] m(2) by (auto simp: same_shape_def)
      ultimately show ?thesis using pn gn m(3) Some by (auto simp: parent_ok_def same_shape_def)
    qed
  qed
  ultimately show ?thesis using s d by (force simp: tree_ok_def)
qed

lemma tree_ok_add:
  assumes t: "tree_ok r ns" and s: "set ms = insert e (set ns)" and d: "distinct (map n_id ms)"
    and e: "n_id e \<notin> n_id ` set ns" and q: "q \<in> set ns" "n_parent_id e = Some (n_id q)"
    and l: "child_level (n_level q) = Some (n_level e)"
  shows "tree_ok r ms"
proof -
  have "r \<in> n_id ` set ns" using t by (simp add: tree_ok_def)
  then have "n_id e \<noteq> r" using e by auto
  then have "parent_ok r ms e" using q l s by (auto simp: parent_ok_def)
  moreover have "parent_ok r ms n" if "n \<in> set ns" for n
    using t that s by (auto simp: tree_ok_def parent_ok_def split: option.splits)
  ultimately show ?thesis using s d t by (auto simp: tree_ok_def)
qed

section \<open>The dependencies\<close>

lemma trancl_Un_cases:
  "(x, y) \<in> (A \<union> B)\<^sup>+ \<Longrightarrow> (x, y) \<in> A\<^sup>+ \<or> (\<exists>a b. (a, b) \<in> B \<and> (x, a) \<in> (A \<union> B)\<^sup>* \<and> (b, y) \<in> (A \<union> B)\<^sup>*)"
proof (induction rule: trancl_induct)
  case (step y z)
  show ?case
  proof (cases "(y, z) \<in> B")
    case True
    have "(x, y) \<in> (A \<union> B)\<^sup>*" using step.hyps(1) by (rule trancl_into_rtrancl)
    with True show ?thesis by blast
  next
    case False
    with step.hyps(2) have yz: "(y, z) \<in> A" by blast
    from step.IH show ?thesis
    proof
      assume "(x, y) \<in> A\<^sup>+" with yz show ?thesis by (blast intro: trancl_into_trancl)
    next
      assume "\<exists>a b. (a, b) \<in> B \<and> (x, a) \<in> (A \<union> B)\<^sup>* \<and> (b, y) \<in> (A \<union> B)\<^sup>*"
      with yz show ?thesis by (blast intro: rtrancl_into_rtrancl)
    qed
  qed
qed blast

lemma acyclic_Un_from:
  assumes "acyclic A" and "B \<subseteq> {e} \<times> UNIV" and "(e, e) \<notin> (A \<union> B)\<^sup>+"
  shows "acyclic (A \<union> B)"
proof (rule acyclicI, intro allI notI)
  fix x assume "(x, x) \<in> (A \<union> B)\<^sup>+"
  then consider "(x, x) \<in> A\<^sup>+" | a b where "(a, b) \<in> B" "(x, a) \<in> (A \<union> B)\<^sup>*" "(b, x) \<in> (A \<union> B)\<^sup>*"
    using trancl_Un_cases by metis
  then show False
  proof cases
    case 1 with assms(1) show ?thesis by (auto simp: acyclic_def)
  next
    case 2
    then have "a = e" using assms(2) by auto
    with 2 have "(e, b) \<in> A \<union> B" "(b, e) \<in> (A \<union> B)\<^sup>*" by auto
    then have "(e, e) \<in> (A \<union> B)\<^sup>+" by (rule rtrancl_into_trancl2)
    with assms(3) show ?thesis by simp
  qed
qed

text \<open>Replacing a node by one whose dependencies passed the check.  \<open>sibs\<close> are the other
  children of its parent.\<close>

lemma deps_ok_checked:
  assumes old: "deps_ok ns" and s: "set ms = insert e {m \<in> set ns. n_id m \<noteq> n_id e}"
    and sibs: "set sibs = {m \<in> set ns. n_id m \<noteq> n_id e \<and> n_parent_id m = n_parent_id e}"
    and par: "n_parent_id e \<noteq> None" and dm: "distinct (map n_id ns)" and ds: "distinct (map n_id sibs)"
    and keep: "\<And>m. m \<in> set ns \<Longrightarrow> n_id m \<noteq> n_id e \<Longrightarrow> n_id e \<in> set (n_depends_on m) \<Longrightarrow>
      n_parent_id m = n_parent_id e"
    and chk: "check_dependencies e sibs = Inr ()"
  shows "deps_ok ms"
proof -
  let ?A = "dep_edges (filter (\<lambda>m. n_id m \<noteq> n_id e) ns)" and ?B = "{n_id e} \<times> set (n_depends_on e)"
  let ?G = "graph_edges (dependency_graph e sibs)"
  have edges: "dep_edges ms = ?A \<union> ?B" using s by (auto simp: dep_edges_def)
  note c = chk[unfolded check_dependencies_iff]
  have sib: "sibling_ids ns m - {n_id e} \<subseteq> sibling_ids ms m" for m
    using s by (auto simp: sibling_ids_def)
  have dep: "set (n_depends_on m) \<subseteq> sibling_ids ms m" if "m \<in> set ms" for m
  proof (cases "m = e")
    case True
    with c sibs par s show ?thesis by (auto simp: sibling_ids_def)
  next
    case False
    then have m: "m \<in> set ns" "n_id m \<noteq> n_id e" using that s by auto
    have "set (n_depends_on m) \<subseteq> sibling_ids ns m" using old m(1) by (auto simp: deps_ok_def)
    moreover have "n_id e \<in> sibling_ids ms m" if "n_id e \<in> set (n_depends_on m)"
      using keep[OF m that] par s m(2) by (auto simp: sibling_ids_def)
    ultimately show ?thesis using sib[of m] by blast
  qed
  have node: "successors (dependency_graph e sibs) (n_id x) = n_depends_on x"
    if "x \<in> insert e (set sibs)" for x
  proof (cases "n_id x = n_id e")
    case True then show ?thesis using that sibs by (auto simp: successors_def dependency_graph_def)
  next
    case False
    then have "x \<in> set sibs" using that by auto
    then have "map_of (map (\<lambda>s. (n_id s, n_depends_on s)) sibs) (n_id x) = Some (n_depends_on x)"
      using ds by (intro map_of_is_SomeI) (auto simp: comp_def)
    then show ?thesis using False by (simp add: successors_def dependency_graph_def)
  qed
  have walk: "(n_id e, y) \<in> ?G\<^sup>+ \<and> (\<exists>x \<in> insert e (set sibs). n_id x = y)"
    if "(n_id e, y) \<in> (?A \<union> ?B)\<^sup>+" for y
    using that
  proof (induction rule: trancl_induct)
    case (base y)
    then have "y \<in> set (n_depends_on e)" by (auto simp: dep_edges_def)
    then show ?case using c node[of e] by (auto simp: graph_edges_def)
  next
    case (step y z)
    then obtain x where x: "x \<in> insert e (set sibs)" "n_id x = y" by blast
    have "z \<in> set (n_depends_on x)"
    proof -
      from step.hyps(2) edges have "(y, z) \<in> dep_edges ms" by simp
      then obtain w where w: "w \<in> set ms" "n_id w = y" "z \<in> set (n_depends_on w)"
        by (auto simp: dep_edges_def)
      have "w = x" using w x s sibs same_id_same_node[OF dm] by auto
      with w show ?thesis by simp
    qed
    moreover have xm: "x \<in> set ms" using x s sibs by auto
    ultimately have "z \<in> sibling_ids ms x" using dep by blast
    moreover have "n_parent_id x = n_parent_id e" using x sibs by auto
    ultimately have "\<exists>w \<in> insert e (set sibs). n_id w = z" using s sibs by (auto simp: sibling_ids_def)
    moreover have "(y, z) \<in> ?G" using node[OF x(1)] x(2) \<open>z \<in> set (n_depends_on x)\<close>
      by (simp add: graph_edges_def)
    ultimately show ?case using step.IH by (blast intro: trancl_into_trancl)
  qed
  have "acyclic ?A" using old by (auto simp: deps_ok_def dep_edges_def intro: acyclic_subset)
  then have "acyclic (?A \<union> ?B)" using walk[of "n_id e"] c by (intro acyclic_Un_from[of _ _ "n_id e"]) auto
  with dep edges show ?thesis by (simp add: deps_ok_def)
qed

text \<open>Dropping dependencies and nodes, and changing anything else, keeps the graph acyclic.\<close>

lemma deps_ok_map:
  assumes old: "deps_ok ns" and s: "set ms = g ` {n \<in> set ns. K n}"
    and g: "\<And>n. n \<in> set ns \<Longrightarrow> K n \<Longrightarrow> n_id (g n) = n_id n \<and> n_parent_id (g n) = n_parent_id n
      \<and> set (n_depends_on (g n)) \<subseteq> set (n_depends_on n)"
    and kept: "\<And>n m. n \<in> set ns \<Longrightarrow> K n \<Longrightarrow> m \<in> set ns \<Longrightarrow> n_id m \<in> set (n_depends_on (g n)) \<Longrightarrow> K m"
  shows "deps_ok ms"
proof -
  have "dep_edges ms \<subseteq> dep_edges ns" using s g by (fastforce simp: dep_edges_def)
  moreover have "set (n_depends_on (g n)) \<subseteq> sibling_ids ms (g n)" if n: "n \<in> set ns" "K n" for n
  proof
    fix x assume x: "x \<in> set (n_depends_on (g n))"
    with g[OF n] old n have "x \<in> sibling_ids ns n" by (auto simp: deps_ok_def)
    then obtain m where m: "m \<in> set ns" "n_id m = x" "n_parent_id m = n_parent_id n"
      "n_parent_id n \<noteq> None" "n_id m \<noteq> n_id n" by (auto simp: sibling_ids_def)
    have Km: "K m" using kept[OF n m(1)] x m(2) by simp
    with m g[OF m(1) Km] g[OF n] s
    have "g m \<in> set ms" "n_id (g m) = x" "n_parent_id (g m) = n_parent_id (g n)"
      "n_parent_id (g n) \<noteq> None" "n_id (g m) \<noteq> n_id (g n)" by auto
    then show "x \<in> sibling_ids ms (g n)" by (auto simp: sibling_ids_def)
  qed
  ultimately show ?thesis using old s by (auto simp: deps_ok_def intro: acyclic_subset)
qed

section \<open>Well-formed nodes\<close>

lemma wf_patch:
  assumes wf: "wf_nodes i r ns" and us: "distinct (map n_id us)" "n_id ` set us \<subseteq> n_id ` set ns"
    and shape: "\<And>u n. u \<in> set us \<Longrightarrow> n \<in> set ns \<Longrightarrow> n_id n = n_id u \<Longrightarrow>
      same_shape u n \<and> set (n_depends_on u) \<subseteq> set (n_depends_on n)"
    and ok: "\<And>u. u \<in> set us \<Longrightarrow> node_ok u"
    and c: "ch_upsert c = us" "ch_remove c = []"
  shows "wf_nodes i r (merge_nodes ns c)"
proof -
  note d = wf_nodesD(2)[OF wf]
  have s: "set (merge_nodes ns c) = patched us ` {n \<in> set ns. True}"
    using set_merge_nodes[of c ns] us c by simp
  have dm: "distinct (map n_id (merge_nodes ns c))" using d us(1) c(1) by (simp add: distinct_merge_nodes)
  have g: "same_shape (patched us n) n \<and> set (n_depends_on (patched us n)) \<subseteq> set (n_depends_on n)
      \<and> node_ok (patched us n)" if "n \<in> set ns" for n
    using patched_cases[of us n] shape[OF _ that, of "patched us n"] ok wf_nodesD(4)[OF wf that]
    by (auto simp: same_shape_def)
  have "tree_ok r (merge_nodes ns c)"
    by (rule tree_ok_map[OF wf_nodesD(1)[OF wf] s dm]) (use g in auto)
  moreover have "deps_ok (merge_nodes ns c)"
    by (rule deps_ok_map[OF wf_nodesD(3)[OF wf] s]) (use g in \<open>auto simp: same_shape_def\<close>)
  ultimately show ?thesis
    using g wf_nodesD(5)[OF wf] s by (auto simp: wf_nodes_def same_shape_def)
qed

lemma wf_edit:
  assumes wf: "wf_nodes i r ns" and n: "n \<in> set ns" and e: "same_shape e n" "node_ok e"
    and sibs: "set sibs = {m \<in> set ns. n_id m \<noteq> n_id e \<and> n_parent_id m = n_parent_id e}"
      "distinct (map n_id sibs)"
    and dep: "n_depends_on e = n_depends_on n \<or>
      n_parent_id e \<noteq> None \<and> check_dependencies e sibs = Inr ()"
  shows "wf_nodes i r (map (patched [e]) ns)"
proof -
  note d = wf_nodesD(2)[OF wf]
  have s: "set (map (patched [e]) ns) = patched [e] ` {m \<in> set ns. True}" by simp
  have pe: "patched [e] m = e \<and> m = n \<or> patched [e] m = m \<and> n_id m \<noteq> n_id e" if "m \<in> set ns" for m
    using that n e(1) same_id_same_node[OF d] by (auto simp: patched_def same_shape_def)
  have g: "same_shape (patched [e] m) m \<and> node_ok (patched [e] m)" if "m \<in> set ns" for m
    using pe[OF that] e wf_nodesD(4)[OF wf that] by (auto simp: same_shape_def)
  have "tree_ok r (map (patched [e]) ns)"
    by (rule tree_ok_map[OF wf_nodesD(1)[OF wf] s]) (use g d in \<open>auto simp: comp_def\<close>)
  moreover have "deps_ok (map (patched [e]) ns)"
  proof (cases "n_depends_on e = n_depends_on n")
    case True
    then have "n_depends_on (patched [e] m) = n_depends_on m" if "m \<in> set ns" for m
      using pe[OF that] by auto
    with g show ?thesis
      by (intro deps_ok_map[OF wf_nodesD(3)[OF wf] s]) (auto simp: same_shape_def)
  next
    case False
    with dep have chk: "n_parent_id e \<noteq> None" "check_dependencies e sibs = Inr ()" by auto
    have se: "set (map (patched [e]) ns) = insert e {m \<in> set ns. n_id m \<noteq> n_id e}"
    proof (intro equalityI subsetI)
      fix x assume "x \<in> insert e {m \<in> set ns. n_id m \<noteq> n_id e}"
      then show "x \<in> set (map (patched [e]) ns)"
      proof
        assume "x = e"
        moreover have "patched [e] n = e" using e(1) by (simp add: patched_def same_shape_def)
        ultimately show ?thesis using n by force
      next
        assume "x \<in> {m \<in> set ns. n_id m \<noteq> n_id e}"
        then have "x \<in> set ns" "patched [e] x = x" by (auto intro: patched_miss)
        then show ?thesis by force
      qed
    qed (use pe in fastforce)
    show ?thesis
    proof (rule deps_ok_checked[OF wf_nodesD(3)[OF wf] se sibs(1) chk(1) d sibs(2) _ chk(2)])
      fix m assume m: "m \<in> set ns" "n_id e \<in> set (n_depends_on m)"
      then have "n_id e \<in> sibling_ids ns m" using wf_nodesD(3)[OF wf] by (auto simp: deps_ok_def)
      then obtain k where k: "k \<in> set ns" "n_id k = n_id e" "n_parent_id k = n_parent_id m"
        by (auto simp: sibling_ids_def)
      have "k = n" using same_id_same_node[OF d k(1) n] k(2) e(1) by (simp add: same_shape_def)
      with k(3) e(1) show "n_parent_id m = n_parent_id e" by (simp add: same_shape_def)
    qed
  qed
  ultimately show ?thesis
    using g wf_nodesD(5)[OF wf] by (auto simp: wf_nodes_def same_shape_def)
qed

lemma wf_add:
  assumes wf: "wf_nodes i r ns" and fresh: "n_id e \<notin> n_id ` set ns" and e: "node_ok e" "n_plan_id e = i"
    and q: "q \<in> set ns" "n_parent_id e = Some (n_id q)" "child_level (n_level q) = Some (n_level e)"
    and sibs: "set sibs = {m \<in> set ns. n_parent_id m = n_parent_id e}" "distinct (map n_id sibs)"
    and chk: "check_dependencies e sibs = Inr ()"
  shows "wf_nodes i r (ns @ [e])"
proof -
  note d = wf_nodesD(2)[OF wf]
  have d': "distinct (map n_id (ns @ [e]))" using d fresh by simp
  have other: "n_id m \<noteq> n_id e" if "m \<in> set ns" for m using imageI[OF that, of n_id] fresh by auto
  have "tree_ok r (ns @ [e])"
    by (rule tree_ok_add[OF wf_nodesD(1)[OF wf] _ d' fresh q]) simp
  moreover have "deps_ok (ns @ [e])"
  proof (rule deps_ok_checked[OF wf_nodesD(3)[OF wf] _ _ _ d sibs(2) _ chk])
    show "set (ns @ [e]) = insert e {m \<in> set ns. n_id m \<noteq> n_id e}"
      using other by auto
    show "set sibs = {m \<in> set ns. n_id m \<noteq> n_id e \<and> n_parent_id m = n_parent_id e}"
      using sibs(1) other by auto
    show "n_parent_id e \<noteq> None" using q by simp
    fix m assume "m \<in> set ns" "n_id e \<in> set (n_depends_on m)"
    then have "n_id e \<in> sibling_ids ns m" using wf_nodesD(3)[OF wf] by (auto simp: deps_ok_def)
    then show "n_parent_id m = n_parent_id e" using fresh by (auto simp: sibling_ids_def)
  qed
  ultimately show ?thesis using e wf_nodesD(4,5)[OF wf] by (auto simp: wf_nodes_def)
qed

lemma check_dependencies_none: "n_depends_on e = [] \<Longrightarrow> check_dependencies e sibs = Inr ()"
  by (simp add: check_dependencies_def)

lemma patched_patched:
  assumes "n_id e \<in> n_id ` set us"
  shows "patched us (patched [e] m) = patched us m"
proof (cases "n_id m = n_id e")
  case True
  have "n_id (patched [e] m) = n_id m" by simp
  then have "find (\<lambda>u. n_id u = n_id (patched [e] m)) us = find (\<lambda>u. n_id u = n_id m) us" by simp
  moreover have "find (\<lambda>u. n_id u = n_id m) us \<noteq> None"
    using assms True by (auto simp: find_None_iff')
  ultimately show ?thesis by (auto simp: patched_def)
next
  case False
  then show ?thesis by (simp add: patched_miss)
qed

section \<open>Storability\<close>

lemma drift_of_name_idem: "drift_of_name (drift_name (drift_of_name j)) = drift_of_name j"
proof (cases "find (\<lambda>c. drift_name c = j) drift_changes")
  case None
  then show ?thesis by (simp add: drift_of_name_def)
next
  case (Some c)
  then have "drift_of_name j = c" "drift_name c = j"
    by (auto simp: drift_of_name_def dest: find_SomeD)
  then show ?thesis by simp
qed

lemma action_of_name_idem: "action_of_name (action_name (action_of_name j)) = action_of_name j"
proof (cases "find (\<lambda>c. action_name c = j) [RAdd, RModify, RSuggestClose]")
  case None
  then show ?thesis unfolding action_of_name_def by (simp only: option.case action_name.simps)
next
  case (Some c)
  then have "action_of_name j = c" unfolding action_of_name_def by simp
  moreover have "action_name c = j" using find_SomeD[OF Some] by simp
  ultimately show ?thesis by simp
qed

lemma review_from_dict_named:
  "review_from_dict j = Some v \<Longrightarrow> v_run_id v \<noteq> [] \<and> v_digest v \<noteq> []"
  by (auto simp: review_from_dict_def split: json.splits option.splits if_splits)

text \<open>Whatever is read from the store can be written back to it.\<close>

lemma storable_node_of: "storable (node_of row)"
proof -
  have "review_of (x_review_json row) = Some v \<Longrightarrow> v_run_id v \<noteq> [] \<and> v_digest v \<noteq> []" for v
    by (auto simp: review_of_def dest: review_from_dict_named split: option.splits)
  moreover have "d_change d = drift_of_name (drift_name (d_change d))"
    if "d \<in> set (drift_of (x_drift_json row))" for d
    using that by (auto simp: drift_of_def Let_def drift_of_name_idem)
  moreover have "e_action e = action_of_name (action_name (e_action e))"
    if "replan_of (x_replan_json row) = Some rp" "e \<in> set (r_entries rp)" for rp e
    using that by (auto simp: replan_of_def Let_def action_of_name_idem split: option.splits json.splits)
  ultimately show ?thesis by (auto simp: storable_def node_of_def split: option.splits)
qed

lemma storable_cong:
  "n_drift u = n_drift n \<Longrightarrow> n_replan u = n_replan n \<Longrightarrow> n_review u = n_review n \<Longrightarrow> storable n \<Longrightarrow> storable u"
  by (simp add: storable_def)

lemma plan_nodes_storable:
  assumes "db_wf d" and "store_get d i = Some p" and "n \<in> set (p_nodes p)"
  shows "storable n"
  using assms store_get_nodes(1)[OF assms(1,2)] by (auto simp: raw_nodes_def storable_node_of)

lemma own_ids:
  assumes "db_wf d" and "store_get d i = Some p" and "n \<in> set (p_nodes p)"
    and "r \<in> set (db_nodes d)" and "x_node_id r = n_id n"
  shows "x_plan_id r = i"
proof -
  from assms(3) store_get_nodes(1)[OF assms(1,2)] obtain r' where
    "r' \<in> set (db_nodes d)" "x_plan_id r' = i" "node_of r' = n"
    by (auto simp: raw_nodes_def rows_of_def)
  moreover have "distinct (map x_node_id (db_nodes d))" using assms(1) by (simp add: db_wf_def db_keys_def)
  ultimately have "r' = r" using assms(4,5) by (auto simp: distinct_map inj_on_def)
  then show ?thesis using \<open>x_plan_id r' = i\<close> by simp
qed

lemma fits_existing:
  assumes "db_wf d" and "store_get d i = Some p" and "distinct (map n_id (ch_upsert c))"
    and "\<And>u. u \<in> set (ch_upsert c) \<Longrightarrow> storable u \<and> (\<exists>n\<in>set (p_nodes p). same_shape u n)"
  shows "fits d i c"
  unfolding fits_def
proof (intro conjI ballI impI)
  fix u assume u: "u \<in> set (ch_upsert c)"
  from assms(4)[OF u] obtain n where n: "n \<in> set (p_nodes p)" "same_shape u n" "storable u" by blast
  note g = store_get_nodes[OF assms(1,2)]
  show "n_plan_id u = i" using wf_planD(5)[OF g(2) n(1)] n(2) g(3) by (simp add: same_shape_def)
  show "storable u" by (rule n(3))
  fix r assume "r \<in> set (db_nodes d)" "x_node_id r = n_id u"
  then show "x_plan_id r = i" using own_ids[OF assms(1,2) n(1)] n(2) by (simp add: same_shape_def)
qed (rule assms(3))

section \<open>A write of the service\<close>

lemma service_write_Inr:
  "service_write d p e now c = Inr r \<longleftrightarrow> store_apply d (p_id p) e now c = Inr r"
  by (auto simp: service_write_def split: sum.splits store_error.splits)

text \<open>What a write leaves when the merged nodes are well formed: the database stays well
  formed, the plan read back is the one returned, one revision on, with the merged nodes.\<close>

lemma service_write_ok:
  assumes "db_wf d" and "store_get d i = Some p" and "service_write d p e now c = Inr (d', q)"
    and "fits d i c" and "wf_nodes i (p_root_id p) (merge_nodes (p_nodes p) c)"
  shows "db_wf d'" and "store_get d' i = Some q" and "wf_plan q"
    and "set (p_nodes q) = set (merge_nodes (p_nodes p) c)" and "p_revision q = p_revision p + 1"
    and "d' = written d i now c"
proof -
  have i: "p_id p = i" by (rule store_get_nodes(3)[OF assms(1,2)])
  from assms(3) i have "store_apply d i e now c = Inr (d', q)" by (simp add: service_write_Inr)
  then obtain p' where p': "store_get d i = Some p'" "p_revision p' = e" "d' = written d i now c"
    "store_get d' i = Some q" "p_revision q = e + 1" by (rule store_apply_Inr)
  show d': "d' = written d i now c" by (rule p'(3))
  show wf: "db_wf d'" unfolding d' by (rule db_wf_written(1)[OF assms(1,4,2,5)])
  show q: "store_get d' i = Some q" by (rule p'(4))
  show "p_revision q = p_revision p + 1" using p' assms(2) by simp
  show "wf_plan q" by (rule store_get_nodes(2)[OF wf q])
  show "set (p_nodes q) = set (merge_nodes (p_nodes p) c)"
    using store_get_nodes(1)[OF wf q] db_wf_written(2)[OF assms(1,4,2,5)] d' by simp
qed

lemma service_get_Inr: "service_get d i = Inr p \<longleftrightarrow> store_get d i = Some p"
  by (cases "store_get d i") (simp_all add: service_get_def del: store_get_None)

lemma node_in_Inr: "node_in p i = Inr n \<longleftrightarrow> plan_node_of p i = Some n"
  by (auto simp: node_in_def split: option.splits)

lemma check_revision_Inr: "check_revision p e = Inr u \<longleftrightarrow> p_revision p = e"
  by (simp add: check_revision_def)

lemma not_archived_Inr: "not_archived p = Inr u \<longleftrightarrow> \<not> p_archived p"
  by (simp add: not_archived_def)

lemmas service_reads = service_get_Inr node_in_Inr check_revision_Inr not_archived_Inr

section \<open>The shape of an operation: read, check the revision, decide, write\<close>

text \<open>Every operation that changes a stored plan reads it (404 when it is gone), refuses a
  revision the caller no longer holds, decides what to write or refuses, and makes one write.\<close>

definition guarded_write :: "db \<Rightarrow> ident \<Rightarrow> int \<Rightarrow> timestamp \<Rightarrow> (plan \<Rightarrow> service_error + change) \<Rightarrow>
    service_error + db \<times> plan" where
  "guarded_write d i expected now decide =
     bindR (service_get d i) (\<lambda>p.
     bindR (check_revision p expected) (\<lambda>_.
     bindR (decide p) (\<lambda>c.
     service_write d p expected now c)))"

lemma guarded_write_gone:
  "store_get d i = None \<Longrightarrow> guarded_write d i e now decide = Inl not_found"
  by (simp add: guarded_write_def service_get_def store_get_def)

lemma guarded_write_stale:
  assumes "store_get d i = Some p" and "p_revision p \<noteq> e"
  shows "guarded_write d i e now decide = Inl (stale (p_revision p))"
  using assms by (simp add: guarded_write_def service_get_def check_revision_def check_def)

lemma guarded_write_Inr:
  assumes "guarded_write d i e now decide = Inr (d', q)"
  obtains p c where "store_get d i = Some p" "p_revision p = e" "decide p = Inr c"
    "service_write d p e now c = Inr (d', q)"
  using assms that by (auto simp: guarded_write_def service_reads)

text \<open>The contract of a decision: on a well-formed database the change it makes fits the plan
  and leaves its nodes well formed.  \<open>pre\<close> is what the decision relies on besides (an id it
  was given is fresh).\<close>

locale plan_decision =
  fixes pre :: "db \<Rightarrow> ident \<Rightarrow> bool"
    and decide :: "plan \<Rightarrow> service_error + change"
  assumes sound: "db_wf d \<Longrightarrow> pre d i \<Longrightarrow> store_get d i = Some p \<Longrightarrow> decide p = Inr c \<Longrightarrow>
    fits d i c \<and> wf_nodes i (p_root_id p) (merge_nodes (p_nodes p) c)"
begin

lemma keeps_wf:
  assumes "db_wf d" and "pre d i" and "guarded_write d i e now decide = Inr (d', q)"
  shows "db_wf d' \<and> store_get d' i = Some q \<and> wf_plan q \<and> p_revision q = e + 1"
  using assms(3)
proof (rule guarded_write_Inr)
  fix p c assume pc: "store_get d i = Some p" "p_revision p = e" "decide p = Inr c"
    "service_write d p e now c = Inr (d', q)"
  from sound[OF assms(1,2) pc(1,3)] have s: "fits d i c"
    "wf_nodes i (p_root_id p) (merge_nodes (p_nodes p) c)" by auto
  from service_write_ok[OF assms(1) pc(1,4) s] pc(2) show ?thesis by simp
qed

lemma nodes_after:
  assumes "db_wf d" and "pre d i" and "guarded_write d i e now decide = Inr (d', q)"
    and "store_get d i = Some p"
  shows "\<exists>c. decide p = Inr c \<and> set (p_nodes q) = set (merge_nodes (p_nodes p) c)"
  using assms(3)
proof (rule guarded_write_Inr)
  fix p' c assume pc: "store_get d i = Some p'" "decide p' = Inr c"
    "service_write d p' e now c = Inr (d', q)"
  from sound[OF assms(1,2) pc(1,2)] have s: "fits d i c"
    "wf_nodes i (p_root_id p') (merge_nodes (p_nodes p') c)" by auto
  from service_write_ok(4)[OF assms(1) pc(1,3) s] pc assms(4) show ?thesis by simp
qed

lemma others_untouched:
  assumes "db_wf d" and "pre d i" and "guarded_write d i e now decide = Inr (d', q)" and "j \<noteq> i"
  shows "store_get d' j = store_get d j"
  using assms(3)
proof (rule guarded_write_Inr)
  fix p c assume pc: "store_get d i = Some p" "decide p = Inr c"
    "service_write d p e now c = Inr (d', q)"
  from sound[OF assms(1,2) pc(1,2)] have s: "fits d i c"
    "wf_nodes i (p_root_id p) (merge_nodes (p_nodes p) c)" by auto
  from service_write_ok(6)[OF assms(1) pc(1,3) s]
    other_plan_written[OF db_wf_keys[OF assms(1)] s(1) assms(4)] show ?thesis by simp
qed

lemma step_ok:
  assumes "db_wf d" and "pre d i" and "guarded_write d i e now decide = Inr (d', q)"
  shows "db_wf d' \<and> (\<forall>j. j \<noteq> i \<longrightarrow> store_get d' j = store_get d j)"
  using keeps_wf[OF assms] others_untouched[OF assms] by blast

end

text \<open>A decision that patches nodes in place.\<close>

lemma patch_sound:
  assumes "db_wf d" and "store_get d i = Some p" and "distinct (map n_id (ch_upsert c))"
    and "ch_remove c = []"
    and u: "\<And>u. u \<in> set (ch_upsert c) \<Longrightarrow> \<exists>n\<in>set (p_nodes p). same_shape u n
      \<and> set (n_depends_on u) \<subseteq> set (n_depends_on n) \<and> node_ok u \<and> storable u"
  shows "fits d i c \<and> wf_nodes i (p_root_id p) (merge_nodes (p_nodes p) c)"
proof
  show "fits d i c" by (rule fits_existing[OF assms(1-3)]) (use u in blast)
  note g = store_get_nodes[OF assms(1,2)]
  have wf: "wf_nodes i (p_root_id p) (p_nodes p)" using g(2,3) by (simp add: wf_plan_def)
  show "wf_nodes i (p_root_id p) (merge_nodes (p_nodes p) c)"
  proof (rule wf_patch[OF wf assms(3)])
    show "n_id ` set (ch_upsert c) \<subseteq> n_id ` set (p_nodes p)"
      using u by (fastforce simp: same_shape_def)
    fix v assume v: "v \<in> set (ch_upsert c)"
    then show "node_ok v" using u by blast
    fix n assume n: "n \<in> set (p_nodes p)" "n_id n = n_id v"
    from u[OF v] obtain m where m: "m \<in> set (p_nodes p)" "same_shape v m"
      "set (n_depends_on v) \<subseteq> set (n_depends_on m)" by blast
    have "m = n" using same_id_same_node[OF wf_nodesD(2)[OF wf] m(1) n(1)] m(2) n(2)
      by (simp add: same_shape_def)
    with m show "same_shape v n \<and> set (n_depends_on v) \<subseteq> set (n_depends_on n)" by simp
  qed (use assms(4) in auto)
qed

lemma no_node_sound:
  assumes "db_wf d" and "store_get d i = Some p" and "ch_upsert c = []" and "ch_remove c = []"
  shows "fits d i c \<and> wf_nodes i (p_root_id p) (merge_nodes (p_nodes p) c)"
  by (rule patch_sound[OF assms(1,2)]) (simp_all add: assms(3,4))

end
