(* ===== verification/PlanDrafts.thy ===== *)
theory PlanDrafts
  imports PlanMerge
begin

text \<open>
  A person's drafting: \<open>plans/service_drafts.py\<close>.  Every operation reads the plan, checks the
  revision the person read, applies its rules and makes one write; an operation that raises
  leaves the database as it was.
\<close>

section \<open>The brief of a plan not yet generated\<close>

definition brief_of :: "plan_node \<Rightarrow> (string \<times> json) list" where
  "brief_of n = [(''title'', JStr (n_title n)), (''goal'', JStr (n_goal n)),
     (''context'', JStr (n_context n)), (''acceptance_criteria'', jstrs (n_acceptance_criteria n)),
     (''non_goals'', JStr (n_non_goals n)), (''constraints'', JStr (n_constraints n))]"

fun section_key :: "section_edit \<Rightarrow> string" where
  "section_key (STitle v) = ''title''"
| "section_key (SGoal v) = ''goal''"
| "section_key (SContext v) = ''context''"
| "section_key (SCriteria v) = ''acceptance_criteria''"
| "section_key (SKind v) = ''kind''"
| "section_key (SProfile v) = ''workload_profile''"
| "section_key (SVerify v) = ''verify_commands''"
| "section_key (SDepends v) = ''depends_on''"
| "section_key (SNonGoals v) = ''non_goals''"
| "section_key (SConstraints v) = ''constraints''"
| "section_key (SUnknown s) = s"

text \<open>A stored brief read back as sections.  The code stores one only through \<open>brief_of\<close>.\<close>

definition section_of_input :: "string \<times> json \<Rightarrow> section_edit" where
  "section_of_input kv = (case kv of (k, j) \<Rightarrow>
     if k = ''title'' then STitle (jstr_opt j) else if k = ''goal'' then SGoal (jstr_opt j)
     else if k = ''context'' then SContext (jstr_opt j)
     else if k = ''acceptance_criteria'' then SCriteria (jstr_list (jitems j))
     else if k = ''non_goals'' then SNonGoals (jstr_opt j)
     else if k = ''constraints'' then SConstraints (jstr_opt j) else SUnknown k)"

text \<open>\<open>plan.input | dict(sections)\<close>.\<close>

definition merge_sections :: "section_edit list \<Rightarrow> section_edit list \<Rightarrow> section_edit list" where
  "merge_sections old new =
     map (\<lambda>s. case find (\<lambda>t. section_key t = section_key s) new of Some t \<Rightarrow> t | None \<Rightarrow> s) old
     @ filter (\<lambda>t. section_key t \<notin> section_key ` set old) new"

section \<open>Creating a plan\<close>

definition workspace_id :: ident where "workspace_id = ''local''"

definition new_node :: "ident \<Rightarrow> ident \<Rightarrow> ident option \<Rightarrow> int \<Rightarrow> level \<Rightarrow> string \<Rightarrow> timestamp \<Rightarrow>
    ident option \<Rightarrow> plan_node" where
  "new_node i plan_id parent position level repo now proposed_by = \<lparr>n_id = i, n_plan_id = plan_id,
     n_parent_id = parent, n_position = position, n_level = level, n_repository = repo,
     n_state = Draft, n_origin = Person, n_title = [], n_goal = [], n_context = [],
     n_acceptance_criteria = [], n_kind = None, n_workload_profile = None, n_verify_commands = [],
     n_depends_on = [], n_non_goals = [], n_constraints = [], n_forge = None, n_created_at = now,
     n_updated_at = now, n_drift = [], n_generation = None, n_replan = None,
     n_proposed_by = proposed_by, n_approved_by = None, n_published_by = None, n_review = None\<rparr>"

definition event_of :: "string \<Rightarrow> (string \<times> json) list \<Rightarrow> plan_event" where
  "event_of type data = \<lparr>ev_type = type, ev_data = data, ev_run_id = None, ev_item_id = None,
     ev_channel_id = None\<rparr>"

definition unplanned_title :: "level \<Rightarrow> string" where
  "unplanned_title l = ''Unplanned '' @ level_name l"

definition raise_store :: "store_error + 'a \<Rightarrow> service_error + 'a" where
  "raise_store r = (case r of Inr x \<Rightarrow> Inr x | Inl e \<Rightarrow> Inl (StoreRaised e))"

definition new_plan :: "ident \<Rightarrow> plan_node \<Rightarrow> timestamp \<Rightarrow> (string \<times> json) list \<Rightarrow>
    (string \<times> json) list \<Rightarrow> advance \<Rightarrow> ident option \<Rightarrow> plan" where
  "new_plan plan_id rt now actor brief adv goal_id =
     (let display = jtext (jget actor ''display'') in
      \<lparr>p_id = plan_id, p_workspace_id = workspace_id, p_root_id = n_id rt,
       p_archived = False, p_created_by = actor_id (Some actor),
       p_created_by_display = (if display = [] then None else Some display),
       p_created_at = now, p_updated_at = now, p_revision = 1, p_nodes = [rt],
       p_reconciled_at = None, p_reconcile_error = None, p_input = brief,
       p_advance = adv, p_goal_id = goal_id\<rparr>)"

definition draft_create :: "db \<Rightarrow> config \<Rightarrow> ident \<Rightarrow> ident \<Rightarrow> level \<Rightarrow> string \<Rightarrow> section_edit list \<Rightarrow>
    timestamp \<Rightarrow> (string \<times> json) list \<Rightarrow> advance \<Rightarrow> ident option \<Rightarrow> service_error + db \<times> plan" where
  "draft_create d cfg plan_id root_id level repo sections now actor adv goal_id =
     bindR (check (level \<noteq> Task) invalid_argument) (\<lambda>_.
     bindR (repository cfg repo) (\<lambda>home.
     let root = new_node root_id plan_id None 0 level home now (actor_id (Some actor)) in
     bindR (with_sections cfg root sections []) (\<lambda>requested.
     raise_store (store_create d
       (new_plan plan_id (root\<lparr>n_title := unplanned_title level\<rparr>) now actor (brief_of requested) adv goal_id)
       [event_of ''plan.created'' [(''plan_id'', JStr plan_id), (''level'', JStr (level_name level)),
          (''repository'', JStr home)]] (Some actor)))))"

section \<open>Editing a node\<close>

definition merged_upsert :: "plan_node list \<Rightarrow> plan_node list \<Rightarrow> plan_node list" where
  "merged_upsert base moved = map snd (foldl (\<lambda>u m. dict_set (n_id m) m u)
     (map (\<lambda>n. (n_id n, n)) base) moved)"

definition edited_node :: "config \<Rightarrow> plan \<Rightarrow> plan_node \<Rightarrow> section_edit list \<Rightarrow> timestamp \<Rightarrow>
    service_error + plan_node" where
  "edited_node cfg p n sections now =
     (if sections = [] then Inr n
      else bindR (with_sections cfg n sections (siblings_of p n)) (\<lambda>e.
           let e1 = (if n_state e = Proposed \<or> n_state e = Approved
                     then e\<lparr>n_state := Draft, n_approved_by := None\<rparr> else e)
           in Inr (e1\<lparr>n_updated_at := now\<rparr>)))"

definition node_edit :: "config \<Rightarrow> plan \<Rightarrow> plan_node \<Rightarrow> section_edit list \<Rightarrow> int option \<Rightarrow> timestamp \<Rightarrow>
    service_error + change" where
  "node_edit cfg p n sections position now =
     (if n_id n = p_root_id p \<and> generation_pending p
      then if position \<noteq> None then Inl invalid_argument
           else bindR (with_sections cfg n
                  (merge_sections (map section_of_input (p_input p)) sections) []) (\<lambda>requested.
                Inr (no_change\<lparr>ch_input := Some (brief_of requested),
                  ch_events := [node_changed (p_id p) (n_id n) ''input_updated'']\<rparr>))
      else if n_state n = Published \<and> sections \<noteq> []
      then Inl (refuse_with 409 ''node_published'' [(''node_id'', JStr (n_id n))])
      else bindR (edited_node cfg p n sections now) (\<lambda>edited.
           let base = (if sections = [] then [] else [edited]) in
           bindR (case position of
                    None \<Rightarrow> Inr base
                  | Some pos \<Rightarrow> (case n_parent_id n of
                      None \<Rightarrow> Inl invalid_argument
                    | Some q \<Rightarrow> Inr (merged_upsert base
                        (reorder (map (\<lambda>s. if n_id s = n_id n then edited else s) (children p q))
                           (n_id n) (Some pos))))) (\<lambda>upsert.
           if upsert = [] then Inl invalid_argument
           else Inr (no_change\<lparr>ch_upsert := upsert,
                  ch_events := [node_changed (p_id p) (n_id n) ''updated'']\<rparr>))))"

definition update_change :: "config \<Rightarrow> ident \<Rightarrow> section_edit list \<Rightarrow> int option \<Rightarrow> timestamp \<Rightarrow>
    (string \<times> json) list \<Rightarrow> plan \<Rightarrow> service_error + change" where
  "update_change cfg node_id sections position now actor p =
     bindR (not_archived p) (\<lambda>_.
     bindR (node_in p node_id) (\<lambda>n.
     bindR (node_edit cfg p n sections position now) (\<lambda>c.
     Inr (c\<lparr>ch_actor := Some actor\<rparr>))))"

definition update_node :: "db \<Rightarrow> config \<Rightarrow> ident \<Rightarrow> ident \<Rightarrow> int \<Rightarrow> section_edit list \<Rightarrow> int option \<Rightarrow>
    timestamp \<Rightarrow> (string \<times> json) list \<Rightarrow> service_error + db \<times> plan" where
  "update_node d cfg plan_id node_id expected sections position now actor =
     guarded_write d plan_id expected now (update_change cfg node_id sections position now actor)"

definition switch_change :: "config \<Rightarrow> section_edit list \<Rightarrow> timestamp \<Rightarrow> (string \<times> json) list \<Rightarrow>
    advance \<Rightarrow> plan \<Rightarrow> service_error + change" where
  "switch_change cfg sections now actor adv p =
     bindR (not_archived p) (\<lambda>_.
     bindR (if sections = [] then Inr no_change
            else bindR (node_in p (p_root_id p)) (\<lambda>n. node_edit cfg p n sections None now)) (\<lambda>edit.
     Inr (edit\<lparr>ch_advance := Some adv, ch_actor := Some actor,
       ch_events := ch_events edit @ [event_of ''plan.node.changed''
         [(''plan_id'', JStr (p_id p)), (''node_id'', JNull), (''change'', JStr ''advance''),
          (''advance'', JStr (advance_column adv)),
          (''before'', JStr (advance_column (p_advance p)))]]\<rparr>)))"

definition update_plan :: "db \<Rightarrow> config \<Rightarrow> ident \<Rightarrow> int \<Rightarrow> section_edit list \<Rightarrow> timestamp \<Rightarrow>
    (string \<times> json) list \<Rightarrow> advance option \<Rightarrow> service_error + db \<times> plan" where
  "update_plan d cfg plan_id expected sections now actor adv =
     bindR (service_get d plan_id) (\<lambda>p.
     if adv = None \<or> adv = Some (p_advance p)
     then update_node d cfg plan_id (p_root_id p) expected sections None now actor
     else guarded_write d plan_id expected now (switch_change cfg sections now actor (the adv)))"

section \<open>Adding and removing nodes\<close>

definition add_change :: "config \<Rightarrow> ident \<Rightarrow> ident \<Rightarrow> string option \<Rightarrow> section_edit list \<Rightarrow>
    int option \<Rightarrow> timestamp \<Rightarrow> (string \<times> json) list \<Rightarrow> plan \<Rightarrow> service_error + change" where
  "add_change cfg new_id parent_id repo sections position now actor p =
     bindR (not_archived p) (\<lambda>_.
     bindR (node_in p parent_id) (\<lambda>parent.
     case child_level (n_level parent) of
       None \<Rightarrow> Inl invalid_argument
     | Some level \<Rightarrow>
         bindR (child_repository cfg parent level repo) (\<lambda>home.
         if int (length (occupied p parent)) \<ge> cap cfg parent
         then Inl (refuse_with 409 ''level_full'' [(''node_id'', JStr (n_id parent))])
         else let sibs = children p (n_id parent);
                  blank_node = new_node new_id (p_id p) (Some (n_id parent)) (int (length sibs)) level
                    home now (actor_id (Some actor)) in
              bindR (with_sections cfg blank_node sections sibs) (\<lambda>n.
              Inr (no_change\<lparr>ch_upsert := reorder (sibs @ [n]) (n_id n) position,
                ch_events := [node_changed (p_id p) (n_id n) ''added''], ch_actor := Some actor\<rparr>)))))"

definition add_node :: "db \<Rightarrow> config \<Rightarrow> ident \<Rightarrow> ident \<Rightarrow> int \<Rightarrow> ident \<Rightarrow> string option \<Rightarrow> section_edit list \<Rightarrow>
    int option \<Rightarrow> timestamp \<Rightarrow> (string \<times> json) list \<Rightarrow> service_error + (db \<times> plan) \<times> ident" where
  "add_node d cfg plan_id new_id expected parent_id repo sections position now actor =
     bindR (guarded_write d plan_id expected now
       (add_change cfg new_id parent_id repo sections position now actor)) (\<lambda>r. Inr (r, new_id))"

definition remove_change :: "ident \<Rightarrow> (string \<times> json) list \<Rightarrow> plan \<Rightarrow> service_error + change" where
  "remove_change node_id actor p =
     bindR (not_archived p) (\<lambda>_.
     bindR (node_in p node_id) (\<lambda>n.
     case n_parent_id n of
       None \<Rightarrow> Inl invalid_argument
     | Some q \<Rightarrow>
         let gone = n # descendants p (n_id n) in
         if list_ex (\<lambda>m. n_state m = Published) gone
         then Inl (refuse_with 409 ''node_published'' [(''node_id'', JStr (n_id n))])
         else let removed = map n_id gone;
                  siblings = filter (\<lambda>s. n_id s \<notin> set removed) (children p q)
              in Inr (no_change\<lparr>
                   ch_upsert := map (\<lambda>s. s\<lparr>n_depends_on := filter (\<lambda>dep. dep \<notin> set removed)
                     (n_depends_on s)\<rparr>) (renumber siblings),
                   ch_remove := sort removed,
                   ch_events := [node_changed (p_id p) (n_id n) ''removed''], ch_actor := Some actor\<rparr>)))"

definition remove_node :: "db \<Rightarrow> ident \<Rightarrow> ident \<Rightarrow> int \<Rightarrow> timestamp \<Rightarrow> (string \<times> json) list \<Rightarrow>
    service_error + db \<times> plan" where
  "remove_node d plan_id node_id expected now actor =
     guarded_write d plan_id expected now (remove_change node_id actor)"

datatype deletion = Deleted | ArchivedPlan

definition draft_delete :: "db \<Rightarrow> ident \<Rightarrow> int \<Rightarrow> timestamp \<Rightarrow> (string \<times> json) list \<Rightarrow>
    service_error + db \<times> deletion" where
  "draft_delete d plan_id expected now actor =
     bindR (service_get d plan_id) (\<lambda>p.
     bindR (check_revision p expected) (\<lambda>_.
     if plan_state p = PlanDraft
     then (case store_delete d (p_id p) expected now
             [event_of ''plan.node.changed'' [(''plan_id'', JStr (p_id p)), (''node_id'', JNull),
                (''change'', JStr ''deleted'')]] (Some actor) of
             Inr d' \<Rightarrow> Inr (d', Deleted)
           | Inl (StaleRevision current) \<Rightarrow> Inl (stale current)
           | Inl PlanGone \<Rightarrow> Inl not_found
           | Inl e \<Rightarrow> Inl (StoreRaised e))
     else if \<not> p_archived p
     then bindR (service_write d p expected now (no_change\<lparr>ch_archived := Some True,
            ch_events := [node_changed (p_id p) (p_root_id p) ''archived''], ch_actor := Some actor\<rparr>))
            (\<lambda>r. Inr (fst r, ArchivedPlan))
     else Inr (d, ArchivedPlan)))"

section \<open>Approving a level\<close>

definition approve_change :: "ident \<Rightarrow> ident list option \<Rightarrow> timestamp \<Rightarrow> (string \<times> json) list \<Rightarrow>
    plan \<Rightarrow> service_error + change" where
  "approve_change node_id node_ids now actor p =
     bindR (not_archived p) (\<lambda>_.
     bindR (node_in p node_id) (\<lambda>n.
     let children_n = children p (n_id n);
         unknown = (case node_ids of None \<Rightarrow> []
           | Some ids \<Rightarrow> sort (remdups (filter (\<lambda>i. i \<notin> n_id ` set children_n) ids))) in
     bindR (check (unknown = []) (refuse_with 422 ''invalid_argument'' [(''node_ids'', jstrs unknown)])) (\<lambda>_.
     let chosen = (case node_ids of None \<Rightarrow> children_n
           | Some ids \<Rightarrow> filter (\<lambda>c. n_id c \<in> set ids) children_n);
         approved = map (\<lambda>c. c\<lparr>n_state := Approved, n_approved_by := actor_id (Some actor),
             n_updated_at := now\<rparr>)
           (filter (\<lambda>c. n_state c = Draft \<or> n_state c = Proposed) chosen) in
     if approved = [] then Inl invalid_argument
     else Inr (no_change\<lparr>ch_upsert := approved, ch_actor := Some actor,
            ch_events := [event_of ''plan.node.changed'' [(''plan_id'', JStr (p_id p)),
              (''node_id'', JStr (n_id n)), (''change'', JStr ''approved''),
              (''node_ids'', jstrs (map n_id approved))]]\<rparr>))))"

definition approve :: "db \<Rightarrow> ident \<Rightarrow> ident \<Rightarrow> int \<Rightarrow> ident list option \<Rightarrow> timestamp \<Rightarrow>
    (string \<times> json) list \<Rightarrow> service_error + db \<times> plan" where
  "approve d plan_id node_id expected node_ids now actor =
     guarded_write d plan_id expected now (approve_change node_id node_ids now actor)"

section \<open>Approving keeps the invariant\<close>

definition approvable :: "ident list option \<Rightarrow> plan_node \<Rightarrow> bool" where
  "approvable node_ids c = ((n_state c = Draft \<or> n_state c = Proposed)
     \<and> (case node_ids of None \<Rightarrow> True | Some ids \<Rightarrow> n_id c \<in> set ids))"

definition approved_by_actor :: "(string \<times> json) list \<Rightarrow> timestamp \<Rightarrow> plan_node \<Rightarrow> plan_node" where
  "approved_by_actor actor now c = c\<lparr>n_state := Approved, n_approved_by := actor_id (Some actor),
     n_updated_at := now\<rparr>"

lemma approve_change_Inr:
  assumes "approve_change node_id node_ids now actor p = Inr c"
  shows "ch_upsert c = map (approved_by_actor actor now) (filter (approvable node_ids) (children p node_id))"
    and "ch_remove c = []" and "ch_upsert c \<noteq> []" and "\<not> p_archived p"
proof -
  from assms obtain n where n: "plan_node_of p node_id = Some n" "\<not> p_archived p"
    and c: "ch_upsert c = map (approved_by_actor actor now)
      (filter (\<lambda>c. n_state c = Draft \<or> n_state c = Proposed)
        (case node_ids of None \<Rightarrow> children p (n_id n)
          | Some ids \<Rightarrow> filter (\<lambda>c. n_id c \<in> set ids) (children p (n_id n))))"
    "ch_remove c = []" "ch_upsert c \<noteq> []"
    by (auto simp: approve_change_def service_reads Let_def no_change_def approved_by_actor_def[abs_def]
      split: if_splits)
  have "n_id n = node_id" using n(1) by (auto simp: plan_node_of_def dest: find_SomeD)
  with c(1) show "ch_upsert c
      = map (approved_by_actor actor now) (filter (approvable node_ids) (children p node_id))"
    by (cases node_ids) (auto simp: approvable_def[abs_def] conj_commute)
qed (use assms in \<open>auto simp: approve_change_def service_reads Let_def no_change_def split: if_splits\<close>)

lemma node_ok_approved: "node_ok n \<Longrightarrow> node_ok (approved_by_actor actor now n)"
  by (auto simp: node_ok_def approved_by_actor_def)

lemma approve_sound:
  assumes "db_wf d" and "store_get d i = Some p"
    and "approve_change node_id node_ids now actor p = Inr c"
  shows "fits d i c \<and> wf_nodes i (p_root_id p) (merge_nodes (p_nodes p) c)"
proof -
  note a = approve_change_Inr[OF assms(3)]
  note wf = wf_planD[OF store_get_nodes(2)[OF assms(1,2)]]
  have "map n_id (ch_upsert c) = map n_id (filter (approvable node_ids) (children p node_id))"
    by (simp add: a(1) approved_by_actor_def)
  then have d: "distinct (map n_id (ch_upsert c))"
    using children_in_distinct[OF wf(2)] by (simp add: children_def distinct_map_filterI)
  show ?thesis
  proof (rule patch_sound[OF assms(1,2) d a(2)])
    fix u assume "u \<in> set (ch_upsert c)"
    then obtain n where n: "n \<in> set (p_nodes p)" "u = approved_by_actor actor now n" by (auto simp: a(1))
    moreover have "storable u" using plan_nodes_storable[OF assms(1,2) n(1)] n(2)
      by (auto simp: approved_by_actor_def intro: storable_cong)
    moreover have "node_ok u" using n wf(4) by (simp add: node_ok_approved)
    ultimately show "\<exists>n\<in>set (p_nodes p). same_shape u n \<and> set (n_depends_on u) \<subseteq> set (n_depends_on n)
        \<and> node_ok u \<and> storable u" by (auto simp: same_shape_def approved_by_actor_def)
  qed
qed

interpretation approving: plan_decision "\<lambda>d i. True" "approve_change node_id node_ids now actor"
  for node_id node_ids now actor
  by unfold_locales (rule approve_sound)

section \<open>Editing keeps the invariant\<close>

lemma check_dependencies_cong:
  assumes "n_id a = n_id b" and "n_depends_on a = n_depends_on b"
  shows "check_dependencies a sibs = check_dependencies b sibs"
  using assms by (simp add: check_dependencies_def dependency_graph_def)

lemma set_siblings_of:
  assumes "wf_plan p" and "n \<in> set (p_nodes p)"
  shows "set (siblings_of p n) = {m \<in> set (p_nodes p). n_id m \<noteq> n_id n \<and> n_parent_id m = n_parent_id n}"
    and "distinct (map n_id (siblings_of p n))"
proof -
  note wf = wf_planD[OF assms(1)]
  show "set (siblings_of p n) = {m \<in> set (p_nodes p). n_id m \<noteq> n_id n \<and> n_parent_id m = n_parent_id n}"
  proof (cases "n_parent_id n")
    case None
    have "n_id m = n_id n" if "m \<in> set (p_nodes p)" "n_parent_id m = None" for m
      using root_iff[OF wf(1) that(1)] root_iff[OF wf(1) assms(2)] that(2) None by simp
    with None show ?thesis by (auto simp: siblings_of_def)
  qed (auto simp: siblings_of_def)
  show "distinct (map n_id (siblings_of p n))"
    using children_in_distinct[OF wf(2)]
    by (auto simp: siblings_of_def children_def distinct_map_filterI split: option.splits)
qed

text \<open>What an edited node is: the same place in the tree, its rules kept, a draft unless it was
  published, its dependencies those it had or ones that passed the check.\<close>

lemma edited_node_eq:
  assumes "edited_node cfg p n ss now = Inr e" and "ss \<noteq> []"
  shows "with_sections cfg n ss (siblings_of p n) = Inr (apply_sections n ss)"
    and "e = (if n_state n = Proposed \<or> n_state n = Approved
      then (apply_sections n ss)\<lparr>n_state := Draft, n_approved_by := None\<rparr>
      else apply_sections n ss)\<lparr>n_updated_at := now\<rparr>"
proof -
  from assms obtain w where w: "with_sections cfg n ss (siblings_of p n) = Inr w"
    "e = (if n_state w = Proposed \<or> n_state w = Approved then w\<lparr>n_state := Draft, n_approved_by := None\<rparr>
      else w)\<lparr>n_updated_at := now\<rparr>"
    by (auto simp: edited_node_def Let_def)
  note eq = with_sections_Inr(1)[OF w(1)]
  show "with_sections cfg n ss (siblings_of p n) = Inr (apply_sections n ss)" using w(1) eq by simp
  show "e = (if n_state n = Proposed \<or> n_state n = Approved
      then (apply_sections n ss)\<lparr>n_state := Draft, n_approved_by := None\<rparr>
      else apply_sections n ss)\<lparr>n_updated_at := now\<rparr>"
    using w(2) unfolding eq by (simp add: frame)
qed

lemma edited_node_frame:
  assumes "edited_node cfg p n ss now = Inr e"
  shows "same_shape e n" and "storable n \<Longrightarrow> storable e"
proof -
  have "n_id e = n_id n \<and> n_plan_id e = n_plan_id n \<and> n_parent_id e = n_parent_id n
    \<and> n_level e = n_level n \<and> n_drift e = n_drift n \<and> n_replan e = n_replan n \<and> n_review e = n_review n"
  proof (cases "ss = []")
    case True with assms show ?thesis by (simp add: edited_node_def)
  next
    case False
    show ?thesis by (subst edited_node_eq(2)[OF assms False])+ (simp add: frame)
  qed
  then show "same_shape e n" "storable n \<Longrightarrow> storable e" by (auto simp: same_shape_def intro: storable_cong)
qed

lemma edited_node_ok:
  assumes "edited_node cfg p n ss now = Inr e" and ok: "node_ok n"
  shows "node_ok e"
proof (cases "ss = []")
  case True
  with assms show ?thesis by (simp add: edited_node_def)
next
  case False
  have "node_ok (apply_sections n ss)"
    by (rule with_sections_node_ok[OF edited_node_eq(1)[OF assms(1) False] node_ok_task_fields[OF ok]])
       (use ok in \<open>auto simp: node_ok_def\<close>)
  then show ?thesis by (subst edited_node_eq(2)[OF assms(1) False]) (auto simp: node_ok_def)
qed

lemma edited_node_draft:
  assumes "edited_node cfg p n ss now = Inr e" and "ss \<noteq> []" and "node_ok n" and "n_state n \<noteq> Published"
  shows "n_state e = Draft" and "n_approved_by e = None"
  using assms(3,4) unfolding edited_node_eq(2)[OF assms(1,2)]
  by (cases "n_state n"; simp add: frame node_ok_def)+

lemma edited_node_depends:
  assumes "edited_node cfg p n ss now = Inr e" and "node_ok n" and "n_parent_id n = None \<Longrightarrow> n_level n \<noteq> Task"
  shows "n_depends_on e = n_depends_on n
    \<or> n_parent_id e \<noteq> None \<and> check_dependencies e (siblings_of p n) = Inr ()"
proof -
  have shape: "n_level e = n_level n" "n_parent_id e = n_parent_id n" "n_id e = n_id n"
    using edited_node_frame(1)[OF assms(1)] by (auto simp: same_shape_def)
  show ?thesis
  proof (cases "n_parent_id n = None \<or> ss = []")
    case True
    then show ?thesis
    proof
      assume "n_parent_id n = None"
      then have "n_depends_on e = []" "n_depends_on n = []"
        using assms(2,3) edited_node_ok[OF assms(1,2)] shape(1) by (simp_all add: node_ok_def)
      then show ?thesis by simp
    next
      assume "ss = []" with assms(1) show ?thesis by (simp add: edited_node_def)
    qed
  next
    case False
    then have ne: "ss \<noteq> []" by simp
    note eq = edited_node_eq[OF assms(1) ne]
    have dep: "n_depends_on e = n_depends_on (apply_sections n ss)" unfolding eq(2) by simp
    show ?thesis
    proof (cases "list_ex names_depends ss")
      case True
      have "check_dependencies e (siblings_of p n) = Inr ()"
        using with_sections_Inr(7)[OF eq(1) True] check_dependencies_cong[OF _ dep] shape(3)
        by (simp add: frame)
      with False shape show ?thesis by simp
    next
      case False
      with dep show ?thesis by (simp add: apply_sections_depends)
    qed
  qed
qed

text \<open>An edited node, patched together with siblings that move.\<close>

lemma edit_sound:
  assumes wf: "db_wf d" "store_get d i = Some p" and n: "n \<in> set (p_nodes p)"
    and e: "edited_node cfg p n ss now = Inr e" and us: "distinct (map n_id (ch_upsert c))"
    and has: "n_id e \<in> n_id ` set (ch_upsert c)" and r: "ch_remove c = []"
    and u: "\<And>u. u \<in> set (ch_upsert c) \<Longrightarrow>
      \<exists>m\<in>set (p_nodes p). \<exists>k. u = (patched [e] m)\<lparr>n_position := k\<rparr>"
  shows "fits d i c \<and> wf_nodes i (p_root_id p) (merge_nodes (p_nodes p) c)"
proof -
  let ?ns = "p_nodes p" and ?ns1 = "map (patched [e]) (p_nodes p)"
  note g = store_get_nodes[OF wf]
  note w = wf_planD[OF g(2)]
  have wfn: "wf_nodes i (p_root_id p) ?ns" using g by (simp add: wf_plan_def)
  note shape = edited_node_frame(1)[OF e]
  have nt: "n_parent_id n = None \<Longrightarrow> n_level n \<noteq> Task" using w(1) n by (auto simp: tree_ok_def parent_ok_def)
  have sib: "set (siblings_of p n) = {m \<in> set ?ns. n_id m \<noteq> n_id e \<and> n_parent_id m = n_parent_id e}"
    using set_siblings_of(1)[OF g(2) n] shape by (simp add: same_shape_def)
  have wf1: "wf_nodes i (p_root_id p) ?ns1"
    by (rule wf_edit[OF wfn n shape edited_node_ok[OF e w(4)[OF n]] sib set_siblings_of(2)[OF g(2) n]
          edited_node_depends[OF e w(4)[OF n] nt]])
  have pm: "same_shape (patched [e] m) m \<and> node_ok (patched [e] m) \<and> storable (patched [e] m)"
    if m: "m \<in> set ?ns" for m
  proof -
    have "node_ok (patched [e] m)" using wf_nodesD(4)[OF wf1] m by simp
    moreover have "patched [e] m = m \<or> patched [e] m = e \<and> m = n"
      using shape m n same_id_same_node[OF w(2) m n] by (auto simp: patched_def same_shape_def)
    ultimately show ?thesis
      using shape plan_nodes_storable[OF wf] m n edited_node_frame(2)[OF e] by (auto simp: same_shape_def)
  qed
  have s: "same_shape u m \<and> storable u \<and> node_ok u" if "m \<in> set ?ns" "u = (patched [e] m)\<lparr>n_position := k\<rparr>" for u m k
    using pm[OF that(1)] that(2) by (auto simp: same_shape_def node_ok_def intro: storable_cong)
  have ids: "n_id ` set (ch_upsert c) \<subseteq> n_id ` set ?ns"
  proof (intro subsetI, elim imageE)
    fix x v assume v: "x = n_id v" "v \<in> set (ch_upsert c)"
    from u[OF v(2)] obtain m k where "m \<in> set ?ns" "v = (patched [e] m)\<lparr>n_position := k\<rparr>" by blast
    with v(1) show "x \<in> n_id ` set ?ns" by simp
  qed
  have "fits d i c" by (rule fits_existing[OF wf us]) (use u s in blast)
  moreover have "wf_nodes i (p_root_id p) (merge_nodes ?ns1 c)"
  proof (rule wf_patch[OF wf1 us])
    show "n_id ` set (ch_upsert c) \<subseteq> n_id ` set ?ns1" using ids by (simp add: image_image)
    fix v assume v: "v \<in> set (ch_upsert c)"
    then show "node_ok v" using u s by blast
    fix m1 assume m1: "m1 \<in> set ?ns1" "n_id m1 = n_id v"
    from u[OF v] obtain m k where m: "m \<in> set ?ns" "v = (patched [e] m)\<lparr>n_position := k\<rparr>" by blast
    have "patched [e] m = m1"
      by (rule same_id_same_node[OF wf_nodesD(2)[OF wf1]]) (use m m1 in simp_all)
    with m(2) show "same_shape v m1 \<and> set (n_depends_on v) \<subseteq> set (n_depends_on m1)"
      by (auto simp: same_shape_def)
  qed (simp_all add: r)
  moreover have "set (merge_nodes ?ns1 c) = set (merge_nodes ?ns c)"
  proof -
    have "set (merge_nodes ?ns1 c) = patched (ch_upsert c) ` set ?ns1"
      using set_merge_nodes[OF us, of ?ns1] ids r by (simp add: image_image)
    also have "\<dots> = patched (ch_upsert c) ` set ?ns" using patched_patched[OF has] by (simp add: image_image)
    also have "\<dots> = set (merge_nodes ?ns c)" using set_merge_nodes[OF us ids] r by simp
    finally show ?thesis .
  qed
  ultimately show ?thesis
    using wf_nodes_cong[of "merge_nodes ?ns1 c" "merge_nodes ?ns c"] distinct_merge_nodes[OF w(2) us]
      distinct_merge_nodes[OF wf_nodesD(2)[OF wf1] us] by simp
qed

text \<open>Moved siblings written over the edited node in one \<open>dict\<close>: every id once, with its last
  value.\<close>

lemma merged_upsert:
  assumes "distinct (map n_id base)" and "distinct (map n_id moved)" and "n_id ` set base \<subseteq> n_id ` set moved"
  shows "set (merged_upsert base moved) = set moved" and "distinct (map n_id (merged_upsert base moved))"
proof -
  let ?b = "map (\<lambda>n. (n_id n, n)) base" and ?r = "rev (map (\<lambda>n. (n_id n, n)) moved)"
  let ?D = "foldl (\<lambda>u m. dict_set (n_id m) m u) ?b moved"
  have "map fst ?b = map n_id base" by simp
  with assms(1) have dk: "distinct (map fst ?D)" by (intro distinct_foldl_dict_set) (simp only:)
  have "map fst ?D = map n_id (map snd ?D)"
    using keyed_foldl_dict_set[of ?b n_id moved] by auto
  then show "distinct (map n_id (merged_upsert base moved))" using dk by (simp only: merged_upsert_def)
  have "map fst ?r = rev (map n_id moved)" by (simp add: rev_map[symmetric])
  with assms(2) have dr: "distinct (map fst ?r)" by (simp only: distinct_rev)
  have "dom (map_of ?b) \<subseteq> dom (map_of ?r)" using assms(3) by (auto simp: dom_map_of_conv_image_fst image_image)
  then have "map_of ?D = map_of ?r" by (simp add: map_of_foldl_dict_set map_add_subsumed1)
      (auto simp: map_add_def dom_def fun_eq_iff split: option.splits)
  then have "snd ` set ?D = snd ` set ?r" using ran_distinct[OF dk] ran_distinct[OF dr] by simp
  then show "set (merged_upsert base moved) = set moved" by (simp add: merged_upsert_def image_image)
qed

lemma node_edit_cases:
  assumes "node_edit cfg p n ss position now = Inr c"
  obtains (input) "ch_upsert c = []" "ch_remove c = []"
  | (edit) e where "edited_node cfg p n ss now = Inr e" "ss \<noteq> []" "ch_upsert c = [e]" "ch_remove c = []"
      "n_state n \<noteq> Published"
  | (move) e q k where "edited_node cfg p n ss now = Inr e" "n_parent_id n = Some q" "ch_remove c = []"
      "ch_upsert c = merged_upsert (if ss = [] then [] else [e])
         (reorder (map (\<lambda>s. if n_id s = n_id n then e else s) (children p q)) (n_id n) (Some k))"
proof (cases "n_id n = p_root_id p \<and> generation_pending p")
  case True
  with assms show thesis by (intro input) (auto simp: node_edit_def no_change_def split: if_splits)
next
  case False
  with assms obtain e where e: "edited_node cfg p n ss now = Inr e" "n_state n = Published \<longrightarrow> ss = []"
    and c: "bindR (case position of None \<Rightarrow> Inr (if ss = [] then [] else [e])
        | Some pos \<Rightarrow> (case n_parent_id n of None \<Rightarrow> Inl invalid_argument
          | Some q \<Rightarrow> Inr (merged_upsert (if ss = [] then [] else [e])
              (reorder (map (\<lambda>s. if n_id s = n_id n then e else s) (children p q)) (n_id n) (Some pos)))))
        (\<lambda>upsert. if upsert = [] then Inl invalid_argument
           else Inr (no_change\<lparr>ch_upsert := upsert,
             ch_events := [node_changed (p_id p) (n_id n) ''updated'']\<rparr>)) = Inr c"
    by (auto simp: node_edit_def Let_def split: if_splits)
  show thesis
  proof (cases position)
    case None
    with c e show thesis by (intro edit[OF e(1)]) (auto simp: no_change_def split: if_splits)
  next
    case (Some k)
    with c e show thesis by (auto simp: no_change_def split: if_splits option.splits intro: move[OF e(1)])
  qed
qed

lemma node_edit_sound:
  assumes wf: "db_wf d" "store_get d i = Some p" and n: "n \<in> set (p_nodes p)"
    and "node_edit cfg p n ss position now = Inr c"
  shows "fits d i c \<and> wf_nodes i (p_root_id p) (merge_nodes (p_nodes p) c)"
  using assms(4)
proof (cases rule: node_edit_cases)
  case input
  then show ?thesis by (intro patch_sound[OF wf]) auto
next
  case (edit e)
  have id: "n_id e = n_id n" using edited_node_frame(1)[OF edit(1)] by (simp add: same_shape_def)
  have "e = (patched [e] n)\<lparr>n_position := n_position e\<rparr>" using id by (simp add: patched_def)
  with edit n show ?thesis by (intro edit_sound[OF wf n edit(1)]) auto
next
  case (move e q k)
  have id: "n_id e = n_id n" using edited_node_frame(1)[OF move(1)] by (simp add: same_shape_def)
  let ?sibs = "map (\<lambda>s. if n_id s = n_id n then e else s) (children p q)"
  let ?moved = "reorder ?sibs (n_id n) (Some k)"
  have patched: "(if n_id s = n_id n then e else s) = patched [e] s" for s
    using id by (simp add: patched_def)
  have nsib: "n \<in> set (children p q)" using n move(2) by simp
  have "map n_id ?sibs = map n_id (children p q)" using id by auto
  then have ds: "distinct (map n_id ?sibs)"
    using children_in_distinct[OF wf_planD(2)[OF store_get_nodes(2)[OF wf]], of q] by (simp only: children_def)
  have "n_id ` set ?moved = n_id ` set ?sibs" by (rule reorder_ids[OF ds])
  moreover have "e \<in> set ?sibs" using nsib by (auto intro: image_eqI[of e _ n])
  ultimately have has: "n_id e \<in> n_id ` set ?moved" by simp
  have mu: "set (ch_upsert c) = set ?moved" "distinct (map n_id (ch_upsert c))"
    unfolding move(4) using has by (auto intro!: merged_upsert[OF _ reorder_ids(2)[OF ds]])
  show ?thesis
  proof (rule edit_sound[OF wf n move(1) mu(2) _ move(3)])
    show "n_id e \<in> n_id ` set (ch_upsert c)" using has mu(1) by simp
    fix u assume "u \<in> set (ch_upsert c)"
    then obtain s l where "s \<in> set ?sibs" "u = s\<lparr>n_position := l\<rparr>" using reorder_in[OF ds] mu(1) by blast
    then show "\<exists>m\<in>set (p_nodes p). \<exists>k. u = (patched [e] m)\<lparr>n_position := k\<rparr>"
      by (auto simp: patched)
  qed
qed

text \<open>The fields of a change that touch no node.\<close>

lemma sound_frame:
  assumes "ch_upsert c' = ch_upsert c" and "ch_remove c' = ch_remove c"
  shows "fits d i c' = fits d i c" and "merge_nodes ns c' = merge_nodes ns c"
  using assms by (simp_all add: fits_def merge_nodes_def)

lemma update_sound:
  assumes "db_wf d" and "store_get d i = Some p" and "update_change cfg node_id ss position now actor p = Inr c"
  shows "fits d i c \<and> wf_nodes i (p_root_id p) (merge_nodes (p_nodes p) c)"
proof -
  from assms(3) obtain n c0 where n: "plan_node_of p node_id = Some n"
    and c0: "node_edit cfg p n ss position now = Inr c0" "c = c0\<lparr>ch_actor := Some actor\<rparr>"
    by (auto simp: update_change_def service_reads)
  have "n \<in> set (p_nodes p)" using n by (auto simp: plan_node_of_def dest: find_SomeD)
  from node_edit_sound[OF assms(1,2) this c0(1)] c0(2) sound_frame[of c c0] show ?thesis by simp
qed

lemma switch_sound:
  assumes "db_wf d" and "store_get d i = Some p" and "switch_change cfg ss now actor adv p = Inr c"
  shows "fits d i c \<and> wf_nodes i (p_root_id p) (merge_nodes (p_nodes p) c)"
proof -
  from assms(3) obtain c0 where c0: "(if ss = [] then Inr no_change
      else bindR (node_in p (p_root_id p)) (\<lambda>n. node_edit cfg p n ss None now)) = Inr c0"
    "ch_upsert c = ch_upsert c0" "ch_remove c = ch_remove c0"
    by (auto simp: switch_change_def)
  have "fits d i c0 \<and> wf_nodes i (p_root_id p) (merge_nodes (p_nodes p) c0)"
  proof (cases "ss = []")
    case True
    with c0(1) show ?thesis by (intro patch_sound[OF assms(1,2)]) (auto simp: no_change_def)
  next
    case False
    with c0(1) obtain n where n: "plan_node_of p (p_root_id p) = Some n" "node_edit cfg p n ss None now = Inr c0"
      by (auto simp: node_in_Inr)
    have "n \<in> set (p_nodes p)" using n(1) by (auto simp: plan_node_of_def dest: find_SomeD)
    then show ?thesis by (rule node_edit_sound[OF assms(1,2) _ n(2)])
  qed
  with sound_frame[OF c0(2,3)] show ?thesis by simp
qed

interpretation updating: plan_decision "\<lambda>d i. True" "update_change cfg node_id ss position now actor"
  for cfg node_id ss position now actor
  by unfold_locales (rule update_sound)

interpretation switching: plan_decision "\<lambda>d i. True" "switch_change cfg ss now actor adv"
  for cfg ss now actor adv
  by unfold_locales (rule switch_sound)

section \<open>Adding keeps the invariant\<close>

lemma add_change_Inr:
  assumes "add_change cfg new_id parent_id repo ss position now actor p = Inr c"
  obtains parent level home n where "plan_node_of p parent_id = Some parent"
    "child_level (n_level parent) = Some level" "child_repository cfg parent level repo = Inr home"
    "int (length (occupied p parent)) < cap cfg parent"
    "with_sections cfg (new_node new_id (p_id p) (Some (n_id parent))
       (int (length (children p (n_id parent)))) level home now (actor_id (Some actor))) ss
       (children p (n_id parent)) = Inr n"
    "ch_upsert c = reorder (children p (n_id parent) @ [n]) (n_id n) position" "ch_remove c = []"
  using assms
  by (auto simp: add_change_def service_reads Let_def no_change_def split: option.splits if_splits)

text \<open>What the sections leave of a new node.\<close>

lemma new_node_sections:
  assumes "with_sections cfg (new_node new_id i parent position level home now by) ss sibs = Inr n"
  shows "n_id n = new_id" "n_plan_id n = i" "n_parent_id n = parent" "n_level n = level"
    "n_state n = Draft" "n_repository n = home" "node_ok n" "storable n" "check_dependencies n sibs = Inr ()"
proof -
  let ?b = "new_node new_id i parent position level home now by"
  note w = with_sections_Inr[OF assms]
  show "n_id n = new_id" "n_plan_id n = i" "n_parent_id n = parent" "n_level n = level"
    "n_state n = Draft" "n_repository n = home" unfolding w(1) by (simp_all add: frame new_node_def)
  show "node_ok n" by (rule with_sections_node_ok[OF assms]) (simp_all add: new_node_def task_fields_clear_def)
  show "storable n" unfolding w(1) by (simp add: storable_def frame) (simp add: new_node_def)
  show "check_dependencies n sibs = Inr ()"
  proof (cases "list_ex names_depends ss")
    case False
    then have "n_depends_on n = []" using w(1) by (simp add: apply_sections_depends new_node_def)
    then show ?thesis by (rule check_dependencies_none)
  qed (rule w(7))
qed

lemma fresh_node_id:
  assumes "db_wf d" and "store_get d i = Some p" and "new_id \<notin> x_node_id ` set (db_nodes d)"
  shows "new_id \<notin> n_id ` set (p_nodes p)"
  using assms(3) store_get_nodes(1)[OF assms(1,2)] by (auto simp: raw_nodes_def rows_of_def)

lemma add_sound:
  assumes wf: "db_wf d" "store_get d i = Some p" and fresh: "new_id \<notin> x_node_id ` set (db_nodes d)"
    and "add_change cfg new_id parent_id repo ss position now actor p = Inr c"
  shows "fits d i c \<and> wf_nodes i (p_root_id p) (merge_nodes (p_nodes p) c)"
  using assms(4)
proof (rule add_change_Inr)
  fix parent n :: plan_node and level home
  let ?sibs = "children p (n_id parent)" and ?ns = "p_nodes p"
  assume a: "plan_node_of p parent_id = Some parent" "child_level (n_level parent) = Some level"
    "with_sections cfg (new_node new_id (p_id p) (Some (n_id parent))
       (int (length ?sibs)) level home now (actor_id (Some actor))) ss ?sibs = Inr n"
    "ch_upsert c = reorder (?sibs @ [n]) (n_id n) position" "ch_remove c = []"
  note s = new_node_sections[OF a(3)] and g = store_get_nodes[OF wf]
  have wfn: "wf_nodes i (p_root_id p) ?ns" using g by (simp add: wf_plan_def)
  note w = wf_nodesD[OF wfn]
  have par: "parent \<in> set ?ns" using a(1) by (auto simp: plan_node_of_def dest: find_SomeD)
  have new: "n_id n \<notin> n_id ` set ?ns" using fresh_node_id[OF wf fresh] s(1) by simp
  have dsib: "distinct (map n_id ?sibs)" using children_in_distinct[OF w(2)] by (simp add: children_def)
  have wf1: "wf_nodes i (p_root_id p) (?ns @ [n])"
    by (rule wf_add[OF wfn new s(7) _ par _ _ _ dsib s(9)]) (use s a(2) g(3) in auto)
  have ds: "distinct (map n_id (?sibs @ [n]))" using dsib new by auto
  note us = reorder_ids[OF ds, of "n_id n" position, folded a(4)]
  have u: "\<exists>m\<in>set (?ns @ [n]). \<exists>k. v = m\<lparr>n_position := k\<rparr>" if "v \<in> set (ch_upsert c)" for v
    using reorder_in[OF ds, of v "n_id n" position] that a(4) by auto
  have "wf_nodes i (p_root_id p) (merge_nodes (?ns @ [n]) c)"
  proof (rule wf_patch[OF wf1 us(2)])
    show "n_id ` set (ch_upsert c) \<subseteq> n_id ` set (?ns @ [n])" using us(1) by auto
    fix v assume v: "v \<in> set (ch_upsert c)"
    from u[OF v] obtain m k where m: "m \<in> set (?ns @ [n])" "v = m\<lparr>n_position := k\<rparr>" by blast
    show "node_ok v" using wf_nodesD(4)[OF wf1 m(1)] m(2) by (simp add: node_ok_def)
    fix m1 assume m1: "m1 \<in> set (?ns @ [n])" "n_id m1 = n_id v"
    have "m1 = m" by (rule same_id_same_node[OF wf_nodesD(2)[OF wf1] m1(1) m(1)]) (use m1 m in simp)
    with m(2) show "same_shape v m1 \<and> set (n_depends_on v) \<subseteq> set (n_depends_on m1)"
      by (simp add: same_shape_def)
  qed (simp_all add: a)
  moreover have "n_id n \<in> n_id ` set (ch_upsert c)" using us(1) by auto
  then have "merge_nodes (?ns @ [n]) c = merge_nodes ?ns c" by (simp add: merge_nodes_def)
  moreover have "fits d i c"
    unfolding fits_def
  proof (intro conjI ballI impI)
    fix v assume "v \<in> set (ch_upsert c)"
    from u[OF this] obtain m k where m: "m \<in> set (?ns @ [n])" "v = m\<lparr>n_position := k\<rparr>" by blast
    show "n_plan_id v = i" using wf_nodesD(5)[OF wf1 m(1)] m(2) by simp
    have "storable m" using m(1) s(8) plan_nodes_storable[OF wf] by auto
    then show "storable v" using m(2) by (auto intro: storable_cong)
    fix r assume r: "r \<in> set (db_nodes d)" "x_node_id r = n_id v"
    have "m \<noteq> n" using fresh imageI[OF r(1), of x_node_id] r(2) m(2) s(1) by auto
    then show "x_plan_id r = i" using own_ids[OF wf _ r(1), of m] m r(2) by simp
  qed (rule us(2))
  ultimately show ?thesis by simp
qed

interpretation adding: plan_decision "\<lambda>d i. new_id \<notin> x_node_id ` set (db_nodes d)"
    "add_change cfg new_id parent_id repo ss position now actor"
  for cfg new_id parent_id repo ss position now actor
  by unfold_locales (rule add_sound)

section \<open>Removing keeps the invariant\<close>

definition subtree_ids :: "plan \<Rightarrow> plan_node \<Rightarrow> ident set" where
  "subtree_ids p n = insert (n_id n) (n_id ` set (descendants p (n_id n)))"

lemma remove_change_Inr:
  assumes "remove_change node_id actor p = Inr c"
  obtains n q where "plan_node_of p node_id = Some n" "n_parent_id n = Some q" "\<not> p_archived p"
    "n_state n \<noteq> Published" "\<forall>m\<in>set (descendants p (n_id n)). n_state m \<noteq> Published"
    "set (ch_remove c) = subtree_ids p n"
    "ch_upsert c = map (\<lambda>s. s\<lparr>n_depends_on := filter (\<lambda>dep. dep \<notin> subtree_ids p n) (n_depends_on s)\<rparr>)
       (renumber (filter (\<lambda>s. n_id s \<notin> subtree_ids p n) (children p q)))"
proof -
  from assms obtain n where n: "\<not> p_archived p" "plan_node_of p node_id = Some n"
    by (auto simp: remove_change_def service_reads)
  with assms obtain q where q: "n_parent_id n = Some q"
    by (cases "n_parent_id n") (auto simp: remove_change_def service_reads)
  with assms n have "\<not> list_ex (\<lambda>m. n_state m = Published) (n # descendants p (n_id n))"
    by (auto simp: remove_change_def service_reads Let_def list_ex_iff split: if_splits)
  moreover have "set (map n_id (n # descendants p (n_id n))) = subtree_ids p n"
    by (simp add: subtree_ids_def)
  ultimately show thesis
    using assms n q that[OF n(2) q n(1)]
    by (simp add: remove_change_def service_reads Let_def no_change_def list_ex_iff)
       (auto simp: subtree_ids_def set_insort_key)
qed

lemma in_subtree:
  assumes "wf_plan p" and "n \<in> set (p_nodes p)" and "m \<in> set (p_nodes p)"
  shows "n_id m \<in> subtree_ids p n \<longleftrightarrow> m = n \<or> below (p_nodes p) (n_id n) m"
proof -
  note wf = wf_planD[OF assms(1)]
  have eq: "n_id m = n_id k \<longleftrightarrow> m = k" if "k \<in> set (p_nodes p)" for k
    using same_id_same_node[OF wf(2) assms(3) that] by auto
  have "n_id m \<in> n_id ` {k. below (p_nodes p) (n_id n) k} \<longleftrightarrow> below (p_nodes p) (n_id n) m"
    using eq below_in by blast
  then show ?thesis using eq[OF assms(2)] by (simp add: subtree_ids_def set_descendants[OF wf(1)])
qed

lemma child_of_subtree:
  assumes "wf_plan p" and "n \<in> set (p_nodes p)" and "k \<in> set (p_nodes p)" and "m \<in> set (p_nodes p)"
    and "n_parent_id m = Some (n_id k)" and "n_id k \<in> subtree_ids p n"
  shows "n_id m \<in> subtree_ids p n"
  using assms(4-6) unfolding in_subtree[OF assms(1,2,3)] in_subtree[OF assms(1,2,4)]
  by (auto intro: below.intros)

lemma subtree_parent:
  assumes "wf_plan p" and "n \<in> set (p_nodes p)" and "k \<in> set (p_nodes p)"
    and "n_id k \<in> subtree_ids p n" and "k \<noteq> n"
  obtains j where "j \<in> set (p_nodes p)" "n_parent_id k = Some (n_id j)" "n_id j \<in> subtree_ids p n"
proof -
  have "below (p_nodes p) (n_id n) k" using assms(4,5) in_subtree[OF assms(1,2,3)] by simp
  then show thesis
  proof cases
    case child
    then show thesis by (intro that[OF assms(2)]) (auto simp: subtree_ids_def)
  next
    case (deeper m)
    then have "m \<in> set (p_nodes p)" by (auto dest: below_in)
    with deeper that[of m] in_subtree[OF assms(1,2), of m] show thesis by simp
  qed
qed

lemma remove_sound:
  assumes wf: "db_wf d" "store_get d i = Some p" and "remove_change node_id actor p = Inr c"
  shows "fits d i c \<and> wf_nodes i (p_root_id p) (merge_nodes (p_nodes p) c)"
  using assms(3)
proof (rule remove_change_Inr)
  fix n :: plan_node and q
  let ?R = "subtree_ids p n" and ?ns = "p_nodes p"
  let ?f = "\<lambda>s. s\<lparr>n_depends_on := filter (\<lambda>dep. dep \<notin> ?R) (n_depends_on s)\<rparr>"
  let ?sibs = "filter (\<lambda>s. n_id s \<notin> ?R) (children p q)"
  assume a: "plan_node_of p node_id = Some n" "n_parent_id n = Some q" "set (ch_remove c) = ?R"
    "ch_upsert c = map ?f (renumber ?sibs)"
  note g = store_get_nodes[OF wf]
  note w = wf_planD[OF g(2)]
  have n: "n \<in> set ?ns" using a(1) by (auto simp: plan_node_of_def dest: find_SomeD)
  have "map n_id (ch_upsert c) = map n_id (renumber ?sibs)" unfolding a(4) map_map by (rule map_cong) auto
  then have ids: "map n_id (ch_upsert c) = map n_id ?sibs" by simp
  then have us: "distinct (map n_id (ch_upsert c))"
    using children_in_distinct[OF w(2), of q] by (simp add: children_def distinct_map_filterI)
  have sub: "n_id ` set (ch_upsert c) = n_id ` set ?sibs" using ids by (metis set_map)
  have u: "\<exists>m\<in>set ?sibs. \<exists>k. v = ?f (m\<lparr>n_position := k\<rparr>)" if "v \<in> set (ch_upsert c)" for v
  proof -
    from that obtain s where "s \<in> set (renumber ?sibs)" "v = ?f s" unfolding a(4) by auto
    then obtain m k where "m \<in> set ?sibs" "v = ?f (m\<lparr>n_position := k\<rparr>)" by (auto elim!: renumberE)
    then show ?thesis by blast
  qed
  define gg where "gg = patched (ch_upsert c)"
  have gm: "(\<exists>k. gg m = ?f (m\<lparr>n_position := k\<rparr>)) \<and> n_parent_id m = Some q \<or> gg m = m \<and> n_parent_id m \<noteq> Some q"
    if m: "m \<in> set ?ns" "n_id m \<notin> ?R" for m
  proof (cases "n_parent_id m = Some q")
    case True
    then have "n_id m \<in> n_id ` set (ch_upsert c)" unfolding sub using m by auto
    then obtain v where v: "v \<in> set (ch_upsert c)" "n_id v = n_id m" by auto
    from u[OF v(1)] obtain m' k where m': "m' \<in> set ?sibs" "v = ?f (m'\<lparr>n_position := k\<rparr>)" by blast
    have "m' = m" by (rule same_id_same_node[OF w(2)]) (use m m' v in auto)
    with m'(2) patched_hit[OF us v(1) v(2)] True show ?thesis by (auto simp: gg_def)
  next
    case False
    have "n_id m \<notin> n_id ` set (ch_upsert c)"
    proof
      assume "n_id m \<in> n_id ` set (ch_upsert c)"
      then obtain s where s: "s \<in> set ?sibs" "n_id m = n_id s" unfolding sub by auto
      have "m = s" by (rule same_id_same_node[OF w(2)]) (use m s in auto)
      with s False show False by simp
    qed
    with False show ?thesis by (simp add: gg_def patched_miss)
  qed
  have shape: "same_shape (gg m) m \<and> set (n_depends_on (gg m)) \<subseteq> set (n_depends_on m) \<and> node_ok (gg m)
      \<and> storable (gg m)" if m: "m \<in> set ?ns" "n_id m \<notin> ?R" for m
  proof -
    consider k where "gg m = ?f (m\<lparr>n_position := k\<rparr>)" | "gg m = m" using gm[OF m] by blast
    then show ?thesis
      using w(4)[OF m(1)] plan_nodes_storable[OF wf m(1)]
      by cases (auto simp: same_shape_def node_ok_def storable_def)
  qed
  have s: "set (merge_nodes ?ns c) = gg ` {m \<in> set ?ns. n_id m \<notin> ?R}"
    unfolding gg_def by (subst set_merge_nodes[OF us]) (auto simp: sub a(3))
  have dm: "distinct (map n_id (merge_nodes ?ns c))" by (rule distinct_merge_nodes[OF w(2) us])
  have "tree_ok (p_root_id p) (merge_nodes ?ns c)"
  proof (rule tree_ok_map[OF w(1) s dm])
    fix m k assume "m \<in> set ?ns" "n_id m \<notin> ?R" "k \<in> set ?ns" "n_parent_id m = Some (n_id k)"
    then show "n_id k \<notin> ?R" using child_of_subtree[OF g(2) n] by blast
  next
    fix m assume m: "m \<in> set ?ns" "n_id m = p_root_id p"
    then have pm: "n_parent_id m = None" using root_iff[OF w(1) m(1)] by simp
    then have "m \<noteq> n" using a(2) by auto
    then show "n_id m \<notin> ?R" using pm subtree_parent[OF g(2) n m(1)] by force
  qed (use shape in blast)
  moreover have "deps_ok (merge_nodes ?ns c)"
  proof (rule deps_ok_map[OF w(3) s])
    fix m k assume m: "m \<in> set ?ns" "n_id m \<notin> ?R" and k: "k \<in> set ?ns" "n_id k \<in> set (n_depends_on (gg m))"
    show "n_id k \<notin> ?R"
    proof
      assume kR: "n_id k \<in> ?R"
      with gm[OF m] k(2) have np: "n_parent_id m \<noteq> Some q" "gg m = m" by auto
      then have "n_id k \<in> sibling_ids ?ns m" using w(3) m k(2) by (auto simp: deps_ok_def)
      then have pk: "n_parent_id k = n_parent_id m" using same_id_same_node[OF w(2) k(1)]
        by (auto simp: sibling_ids_def)
      have "k \<noteq> n" using pk np a(2) by auto
      with subtree_parent[OF g(2) n k(1) kR] obtain j where "j \<in> set ?ns" "n_parent_id k = Some (n_id j)" "n_id j \<in> ?R"
        by blast
      with child_of_subtree[OF g(2) n _ m(1)] pk m(2) show False by metis
    qed
  qed (use shape in \<open>auto simp: same_shape_def\<close>)
  moreover have "n_plan_id m = i" if "m \<in> set (merge_nodes ?ns c)" for m
    using that s shape w(5) g(3) by (force simp: same_shape_def)
  moreover have "node_ok m" if "m \<in> set (merge_nodes ?ns c)" for m using that s shape by auto
  moreover have "fits d i c"
  proof (rule fits_existing[OF wf us])
    fix v assume v: "v \<in> set (ch_upsert c)"
    from u[OF v] obtain m k where m: "m \<in> set ?sibs" "v = ?f (m\<lparr>n_position := k\<rparr>)" by blast
    then show "storable v \<and> (\<exists>n\<in>set ?ns. same_shape v n)"
      using plan_nodes_storable[OF wf, of m] by (auto simp: storable_def same_shape_def)
  qed
  ultimately show ?thesis by (simp add: wf_nodes_def)
qed

interpretation removing: plan_decision "\<lambda>d i. True" "remove_change node_id actor"
  for node_id actor
  by unfold_locales (rule remove_sound)

section \<open>Creating and deleting keep the invariant\<close>

lemma unplanned_title_shown: "\<not> blank (unplanned_title l)"
  by (cases l) (simp; code_simp)+

lemma single_root_wf:
  assumes "n_parent_id n = None" and "n_level n \<noteq> Task" and "n_depends_on n = []" and "node_ok n"
  shows "wf_nodes (n_plan_id n) (n_id n) [n]"
  using assms by (simp add: wf_nodes_def tree_ok_def parent_ok_def deps_ok_def dep_edges_def acyclic_def)

lemma store_create_ok:
  assumes "db_wf d" and "store_create d p events actor = Inr (d', q)"
    and "wf_plan p" and "\<forall>n\<in>set (p_nodes p). storable n"
  shows "db_wf d'" and "store_get d' (p_id p) = Some q" and "set (p_nodes q) = set (p_nodes p)"
    and "p_revision q = p_revision p" and "\<And>j. j \<noteq> p_id p \<Longrightarrow> store_get d' j = store_get d j"
proof -
  note k = db_wf_keys[OF assms(1)] and w = wf_planD[OF assms(3)]
  from assms(2) have new: "plan_row_of d (p_id p) = None" "x_node_id ` set (db_nodes d) \<inter> n_id ` set (p_nodes p) = {}"
    and d': "d' = d\<lparr>db_plans := db_plans d @ [plan_row_for p], db_nodes := db_nodes d @ map columns (p_nodes p),
      db_events := db_events d @ map (event_row_of (p_created_at p) actor) events\<rparr>"
    and get: "store_get d' (p_id p) = Some q"
    by (auto simp: store_create_def Let_def simp del: store_get_None split: if_splits option.splits)
  show "store_get d' (p_id p) = Some q" by (rule get)
  have absent: "p_id p \<notin> w_plan_id ` set (db_plans d)"
    using new(1) by (auto simp: plan_row_of_def find_None_iff')
  have none: "rows_of d (p_id p) = []"
  proof -
    have "x_plan_id ` set (db_nodes d) \<subseteq> w_plan_id ` set (db_plans d)" using assms(1) by (simp add: db_wf_def)
    then have "p_id p \<notin> x_plan_id ` set (db_nodes d)" using absent by blast
    then have "x_plan_id r \<noteq> p_id p" if "r \<in> set (db_nodes d)" for r
      using imageI[OF that, of x_plan_id] by auto
    then show ?thesis by (simp add: rows_of_def filter_empty_conv)
  qed
  have own: "filter (\<lambda>r. x_plan_id r = p_id p) (map columns (p_nodes p)) = map columns (p_nodes p)"
    using w(5) by (auto simp: filter_id_conv)
  have rows: "rows_of d' (p_id p) = map columns (p_nodes p)"
    using none own by (simp add: rows_of_def d')
  have raw: "raw_nodes d' (p_id p) = p_nodes p"
    using assms(4) unfolding raw_nodes_def rows map_map by (intro map_idI) (simp add: node_round_trip)
  have other: "rows_of d' j = rows_of d j" if "j \<noteq> p_id p" for j
    using that w(5) by (auto simp: rows_of_def d' filter_empty_conv)
  have row: "plan_row_of d' (p_id p) = Some (plan_row_for p)"
    using new(1) by (simp add: plan_row_of_def d' find_append plan_row_for_def)
  show "store_get d' j = store_get d j" if "j \<noteq> p_id p" for j
    using that other[OF that] by (cases "plan_row_of d j")
      (simp_all add: store_get_def plan_row_of_def d' find_append plan_row_for_def)
  show "p_revision q = p_revision p"
    using get row by (auto simp: store_get_def plan_of_def plan_row_for_def)
  have ids: "x_node_id ` set (map columns (p_nodes p)) = n_id ` set (p_nodes p)" by (auto simp: image_image)
  have "distinct (map x_node_id (map columns (p_nodes p)))" using w(2) by (simp add: comp_def)
  then have keys: "db_keys d'"
    using k new(2) absent ids by (auto simp: d' db_keys_def plan_row_for_def image_image)
  have "wf_nodes (w_plan_id r) (w_root_node_id r) (raw_nodes d' (w_plan_id r))" if "r \<in> set (db_plans d')" for r
  proof (cases "r = plan_row_for p")
    case True
    then show ?thesis using raw assms(3) by (simp add: plan_row_for_def wf_plan_def)
  next
    case False
    then have r: "r \<in> set (db_plans d)" using that by (simp add: d')
    then have "w_plan_id r \<noteq> p_id p" using absent by force
    with r other assms(1) show ?thesis by (simp add: raw_nodes_def db_wf_def)
  qed
  moreover have "x_plan_id ` set (db_nodes d') \<subseteq> w_plan_id ` set (db_plans d')"
  proof -
    have "x_plan_id ` set (db_nodes d) \<subseteq> w_plan_id ` set (db_plans d)" using assms(1) by (simp add: db_wf_def)
    then show ?thesis using w(5) by (auto simp: d' plan_row_for_def)
  qed
  ultimately show wf': "db_wf d'" using keys by (simp add: db_wf_def)
  show "set (p_nodes q) = set (p_nodes p)" using store_get_nodes(1)[OF wf' get] raw by simp
qed

lemma store_delete_ok:
  assumes "db_wf d" and "store_delete d i e now events actor = Inr d'"
  shows "db_wf d'" and "store_get d' i = None" and "\<And>j. j \<noteq> i \<Longrightarrow> store_get d' j = store_get d j"
    and "i \<notin> x_plan_id ` set (db_nodes d')"
proof -
  from assms(2) have d': "d' = d\<lparr>db_nodes := filter (\<lambda>r. x_plan_id r \<noteq> i) (db_nodes d),
      db_plans := filter (\<lambda>r. w_plan_id r \<noteq> i) (db_plans d),
      db_events := db_events d @ map (event_row_of now actor) events\<rparr>"
    by (auto simp: store_delete_def split: option.splits if_splits)
  show "i \<notin> x_plan_id ` set (db_nodes d')" by (auto simp: d')
  have rows: "rows_of d' j = rows_of d j" if "j \<noteq> i" for j
    using that by (auto simp: rows_of_def d' intro!: filter_cong)
  have plans: "plan_row_of d' j = plan_row_of d j" if "j \<noteq> i" for j
  proof -
    have "find (\<lambda>r. w_plan_id r = j) (filter (\<lambda>r. w_plan_id r \<noteq> i) xs) = find (\<lambda>r. w_plan_id r = j) xs" for xs
      using that by (induction xs) auto
    then show ?thesis by (simp add: plan_row_of_def d')
  qed
  show "store_get d' i = None" by (simp add: plan_row_of_def d' find_None_iff')
  show "store_get d' j = store_get d j" if "j \<noteq> i" for j
    using rows[OF that] plans[OF that] by (simp add: store_get_def)
  show "db_wf d'"
    using assms(1) rows by (auto simp: db_wf_def d' raw_nodes_def db_keys_def distinct_map_filterI)
qed

lemma raise_store_Inr: "raise_store m = Inr x \<longleftrightarrow> m = Inr x"
  by (cases m) (simp_all add: raise_store_def)

lemma draft_create_ok:
  assumes "db_wf d" and "draft_create d cfg plan_id root_id level repo ss now actor adv goal_id = Inr (d', q)"
  shows "db_wf d'" and "store_get d' plan_id = Some q" and "p_revision q = 1" and "wf_plan q"
    and "\<exists>n. p_nodes q = [n] \<and> n_id n = root_id \<and> n_state n = Draft \<and> n_level n = level \<and> n_parent_id n = None"
    and "\<And>j. j \<noteq> plan_id \<Longrightarrow> store_get d' j = store_get d j"
proof -
  define rt where "rt home =
    (new_node root_id plan_id None 0 level home now (actor_id (Some actor)))\<lparr>n_title := unplanned_title level\<rparr>"
    for home
  from assms(2) obtain home requested events where l: "level \<noteq> Task"
    and c1: "store_create d (new_plan plan_id (rt home) now actor (brief_of requested) adv goal_id)
      events (Some actor) = Inr (d', q)"
    unfolding rt_def by (auto simp: draft_create_def Let_def raise_store_Inr)
  define p where "p = new_plan plan_id (rt home) now actor (brief_of requested) adv goal_id"
  define n where "n = rt home"
  note c1[folded p_def]
  moreover have p: "p_nodes p = [n]" "p_root_id p = n_id n" "p_revision p = 1" "p_id p = plan_id"
    by (simp_all add: p_def n_def new_plan_def Let_def)
  ultimately have c: "store_create d p events (Some actor) = Inr (d', q)" "p_id p = plan_id" by simp_all
  have ok: "n_id n = root_id" "n_plan_id n = plan_id" "n_parent_id n = None" "n_level n = level"
    "n_state n = Draft" "n_depends_on n = []" "node_ok n" "storable n"
    using unplanned_title_shown by (auto simp: n_def rt_def new_node_def node_ok_def storable_def truthy_def)
  have wf: "wf_plan p"
    using single_root_wf[OF ok(3) _ ok(6,7)] l ok p c(2) by (simp add: wf_plan_def)
  note r = store_create_ok[OF assms(1) c(1) wf]
  show wf': "db_wf d'" and get: "store_get d' plan_id = Some q" using r(1,2) p(1) ok(8) c(2) by auto
  show "p_revision q = 1" using r(4) p ok(8) by simp
  show wq: "wf_plan q" by (rule store_get_nodes(2)[OF wf' get])
  have "set (p_nodes q) = {n}" using r(3) p ok(8) by simp
  moreover have "distinct (p_nodes q)" using wf_planD(2)[OF wq] by (simp add: distinct_map)
  ultimately have "p_nodes q = [n]"
    by (metis distinct.simps(2) empty_set insert_iff list.set(2) neq_Nil_conv singletonD set_empty2 insert_not_empty)
  with ok show "\<exists>n. p_nodes q = [n] \<and> n_id n = root_id \<and> n_state n = Draft \<and> n_level n = level \<and> n_parent_id n = None"
    by simp
  show "store_get d' j = store_get d j" if "j \<noteq> plan_id" for j using r(5) p ok(8) c(2) that by simp
qed

end
