(* ===== verification/PlanSteps.thy ===== *)
theory PlanSteps
  imports PlanDrafts
begin

text \<open>
  The plan database as a state machine: one step per operation of the service that returned,
  whatever its arguments.  An operation that raises leaves the database alone, so it is no
  step.  An id drawn at random is one no row has; that is the only thing a step assumes.
\<close>

definition empty_db :: db where
  "empty_db = \<lparr>db_plans = [], db_nodes = [], db_events = []\<rparr>"

inductive plan_step :: "db \<Rightarrow> ident \<Rightarrow> db \<Rightarrow> bool" where
  step_create: "draft_create d cfg i root_id level repo ss now actor adv goal_id = Inr (d', q)
    \<Longrightarrow> plan_step d i d'"
| step_update: "update_plan d cfg i e ss now actor adv = Inr (d', q) \<Longrightarrow> plan_step d i d'"
| step_update_node: "update_node d cfg i node_id e ss position now actor = Inr (d', q)
    \<Longrightarrow> plan_step d i d'"
| step_add: "add_node d cfg i new_id e parent_id repo ss position now actor = Inr ((d', q), made)
    \<Longrightarrow> new_id \<notin> x_node_id ` set (db_nodes d) \<Longrightarrow> plan_step d i d'"
| step_remove: "remove_node d i node_id e now actor = Inr (d', q) \<Longrightarrow> plan_step d i d'"
| step_delete: "draft_delete d i e now actor = Inr (d', result) \<Longrightarrow> plan_step d i d'"
| step_approve: "approve d i node_id e node_ids now actor = Inr (d', q) \<Longrightarrow> plan_step d i d'"

inductive reachable :: "db \<Rightarrow> bool" where
  init: "reachable empty_db"
| step: "reachable d \<Longrightarrow> plan_step d i d' \<Longrightarrow> reachable d'"

lemma empty_db_wf: "db_wf empty_db"
  by (simp add: db_wf_def empty_db_def db_keys_def)

text \<open>Archiving changes no node.\<close>

definition archive_change :: "(string \<times> json) list \<Rightarrow> plan \<Rightarrow> service_error + change" where
  "archive_change actor p = Inr (no_change\<lparr>ch_archived := Some True,
     ch_events := [node_changed (p_id p) (p_root_id p) ''archived''], ch_actor := Some actor\<rparr>)"

interpretation archiving: plan_decision "\<lambda>d i. True" "archive_change actor" for actor
proof unfold_locales
  fix d i p c
  assume "db_wf d" "store_get d i = Some p" "archive_change actor p = Inr c"
  then show "fits d i c \<and> wf_nodes i (p_root_id p) (merge_nodes (p_nodes p) c)"
    by (intro no_node_sound) (auto simp: archive_change_def no_change_def)
qed

lemma draft_delete_cases:
  assumes "draft_delete d i e now actor = Inr (d', result)"
  obtains (deleted) events where "store_delete d i e now events (Some actor) = Inr d'" "result = Deleted"
  | (archived) q where "guarded_write d i e now (archive_change actor) = Inr (d', q)" "result = ArchivedPlan"
  | (already) "d' = d" "result = ArchivedPlan"
proof -
  from assms obtain p where p: "store_get d i = Some p" "p_revision p = e"
    by (auto simp: draft_delete_def service_reads)
  from p(1) have i: "p_id p = i" by (rule store_get_Some) auto
  show thesis
  proof (cases "plan_state p = PlanDraft")
    case True
    with assms p i show thesis
      by (auto simp: draft_delete_def service_get_def check_revision_def check_def
        split: sum.splits store_error.splits intro: deleted)
  next
    case False
    show thesis
    proof (cases "p_archived p")
      case True
      with assms p False show thesis
        by (intro already) (auto simp: draft_delete_def service_get_def check_revision_def check_def)
    next
      case na: False
      with assms p False show thesis
        by (auto simp: draft_delete_def service_get_def check_revision_def check_def guarded_write_def
          archive_change_def intro: archived)
    qed
  qed
qed

lemma update_plan_cases:
  assumes "update_plan d cfg i e ss now actor adv = Inr (d', q)"
  obtains (sections) node_id where "update_node d cfg i node_id e ss None now actor = Inr (d', q)"
  | (switched) a where "guarded_write d i e now (switch_change cfg ss now actor a) = Inr (d', q)"
  using assms by (auto simp: update_plan_def split: if_splits)

text \<open>One step: the database stays well formed, and no other plan changes.\<close>

lemma plan_step_sound:
  assumes "plan_step d i d'" and "db_wf d"
  shows "db_wf d'" and "\<And>j. j \<noteq> i \<Longrightarrow> store_get d' j = store_get d j"
proof -
  have "db_wf d' \<and> (\<forall>j. j \<noteq> i \<longrightarrow> store_get d' j = store_get d j)"
    using assms
  proof (induction rule: plan_step.induct)
    case (step_create d cfg i root_id level repo ss now actor adv goal_id d' q)
    from draft_create_ok(1,6)[OF step_create(2,1)] show ?case by blast
  next
    case (step_update d cfg i e ss now actor adv d' q)
    show ?case using step_update(1)
    proof (cases rule: update_plan_cases)
      case (sections node_id)
      then show ?thesis by (intro updating.step_ok[OF step_update(2)]) (auto simp: update_node_def)
    next
      case (switched a)
      then show ?thesis by (intro switching.step_ok[OF step_update(2)]) auto
    qed
  next
    case (step_update_node d cfg i node_id e ss position now actor d' q)
    then show ?case by (intro updating.step_ok) (auto simp: update_node_def)
  next
    case (step_add d cfg i new_id e parent_id repo ss position now actor d' q made)
    then show ?case by (intro adding.step_ok) (auto simp: add_node_def)
  next
    case (step_remove d i node_id e now actor d' q)
    then show ?case by (intro removing.step_ok) (auto simp: remove_node_def)
  next
    case (step_delete d i e now actor d' result)
    show ?case using step_delete(1)
    proof (cases rule: draft_delete_cases)
      case (deleted events)
      then show ?thesis using store_delete_ok(1,3)[OF step_delete(2)] by blast
    next
      case (archived q)
      then show ?thesis by (intro archiving.step_ok[OF step_delete(2)]) auto
    qed (use step_delete(2) in simp)
  next
    case (step_approve d i node_id e node_ids now actor d' q)
    then show ?case by (intro approving.step_ok) (auto simp: approve_def)
  qed
  then show "db_wf d'" and "\<And>j. j \<noteq> i \<Longrightarrow> store_get d' j = store_get d j" by auto
qed

lemma reachable_wf: "reachable d \<Longrightarrow> db_wf d"
  by (induction rule: reachable.induct) (auto intro: empty_db_wf plan_step_sound(1))

end
