(* ===== verification/PlanEffects.thy ===== *)
theory PlanEffects
  imports PlanSteps
begin

text \<open>
  What each drafting operation leaves: the nodes of the plan read back after an operation that
  returned, as a function of the nodes before it.
\<close>

lemma ids_merge_nodes:
  "n_id ` set (merge_nodes ns c) = (n_id ` set ns - set (ch_remove c)) \<union> n_id ` set (ch_upsert c)"
  by (auto simp: merge_nodes_def)

section \<open>Approving\<close>

definition approval :: "ident \<Rightarrow> ident list option \<Rightarrow> (string \<times> json) list \<Rightarrow> timestamp \<Rightarrow> plan_node \<Rightarrow> plan_node"
  where "approval node_id node_ids actor now n =
    (if n_parent_id n = Some node_id \<and> approvable node_ids n then approved_by_actor actor now n else n)"

lemma approve_nodes:
  assumes wf: "db_wf d" and get: "store_get d i = Some p"
    and ap: "approve d i node_id e node_ids now actor = Inr (d', q)"
  shows "set (p_nodes q) = approval node_id node_ids actor now ` set (p_nodes p)"
proof -
  note w = wf_planD[OF store_get_nodes(2)[OF wf get]]
  from approving.nodes_after[OF wf _ ap[unfolded approve_def] get] obtain c
    where c: "approve_change node_id node_ids now actor p = Inr c"
      and q: "set (p_nodes q) = set (merge_nodes (p_nodes p) c)" by blast
  note a = approve_change_Inr[OF c]
  let ?us = "ch_upsert c"
  have ids: "map n_id ?us = map n_id (filter (approvable node_ids) (children p node_id))"
    by (simp add: a(1) approved_by_actor_def)
  have us: "distinct (map n_id ?us)"
    using children_in_distinct[OF w(2)] unfolding ids by (simp add: children_def distinct_map_filterI)
  have "patched ?us n = approval node_id node_ids actor now n" if n: "n \<in> set (p_nodes p)" for n
  proof (cases "n_parent_id n = Some node_id \<and> approvable node_ids n")
    case True
    then have "approved_by_actor actor now n \<in> set ?us" using n by (auto simp: a(1))
    from patched_hit[OF us this] True show ?thesis by (simp add: approval_def approved_by_actor_def)
  next
    case False
    have "n_id n \<notin> n_id ` set ?us"
    proof
      assume "n_id n \<in> n_id ` set ?us"
      then obtain m where m: "m \<in> set (p_nodes p)" "n_parent_id m = Some node_id" "approvable node_ids m" "n_id n = n_id m"
        by (auto simp: a(1) approved_by_actor_def)
      have "n = m" by (rule same_id_same_node[OF w(2) n m(1) m(4)])
      with m False show False by simp
    qed
    then show ?thesis using False by (auto simp: approval_def patched_miss)
  qed
  moreover have "n_id ` set ?us \<subseteq> n_id ` set (p_nodes p)" by (auto simp: a(1) approved_by_actor_def)
  ultimately show ?thesis using set_merge_nodes[OF us, of "p_nodes p"] a(2) q by simp
qed

section \<open>Editing\<close>

lemma update_sections:
  assumes wf: "db_wf d" and get: "store_get d i = Some p"
    and up: "update_node d cfg i node_id e ss None now actor = Inr (d', q)"
    and n: "plan_node_of p node_id = Some n" and np: "\<not> (node_id = p_root_id p \<and> generation_pending p)"
  shows "\<exists>m. edited_node cfg p n ss now = Inr m \<and> n_state n \<noteq> Published
    \<and> set (p_nodes q) = insert m {k \<in> set (p_nodes p). n_id k \<noteq> node_id}"
proof -
  from updating.nodes_after[OF wf _ up[unfolded update_node_def] get] obtain c
    where c: "update_change cfg node_id ss None now actor p = Inr c"
      and q: "set (p_nodes q) = set (merge_nodes (p_nodes p) c)" by blast
  then obtain c0 where c0: "node_edit cfg p n ss None now = Inr c0" "ch_upsert c = ch_upsert c0" "ch_remove c = ch_remove c0"
    using n by (auto simp: update_change_def service_reads)
  have nid: "n \<in> set (p_nodes p)" "n_id n = node_id" using plan_node_of_SomeD[OF n] by auto
  from c0(1) np nid obtain m where m: "edited_node cfg p n ss now = Inr m" "ch_upsert c0 = [m]" "ch_remove c0 = []"
    "n_state n \<noteq> Published" by (auto simp: node_edit_def Let_def no_change_def split: if_splits)
  have "n_id m = node_id" using edited_node_frame(1)[OF m(1)] nid by (simp add: same_shape_def)
  then show ?thesis using m q c0 by (auto simp: merge_nodes_def)
qed

section \<open>Removing\<close>

lemma remove_nodes:
  assumes wf: "db_wf d" and get: "store_get d i = Some p"
    and rm: "remove_node d i node_id e now actor = Inr (d', q)" and n: "plan_node_of p node_id = Some n"
  shows "n_id ` set (p_nodes q) = n_id ` set (p_nodes p) - subtree_ids p n"
    and "\<And>m. m = n \<or> below (p_nodes p) node_id m \<Longrightarrow> n_state m \<noteq> Published"
proof -
  from removing.nodes_after[OF wf _ rm[unfolded remove_node_def] get] obtain c
    where c: "remove_change node_id actor p = Inr c"
      and q: "set (p_nodes q) = set (merge_nodes (p_nodes p) c)" by blast
  note w = wf_planD[OF store_get_nodes(2)[OF wf get]]
  from c show "n_id ` set (p_nodes q) = n_id ` set (p_nodes p) - subtree_ids p n"
  proof (rule remove_change_Inr)
    fix n' r assume a: "plan_node_of p node_id = Some n'" "set (ch_remove c) = subtree_ids p n'"
      "ch_upsert c = map (\<lambda>s. s\<lparr>n_depends_on := filter (\<lambda>dep. dep \<notin> subtree_ids p n') (n_depends_on s)\<rparr>)
         (renumber (filter (\<lambda>s. n_id s \<notin> subtree_ids p n') (children p r)))"
    have "map n_id (ch_upsert c) = map n_id (renumber (filter (\<lambda>s. n_id s \<notin> subtree_ids p n') (children p r)))"
      unfolding a(3) map_map by (rule map_cong) auto
    then have ids: "n_id ` set (ch_upsert c) = n_id ` {s \<in> set (children p r). n_id s \<notin> subtree_ids p n'}"
      by (metis renumber_ids set_filter set_map)
    have "n' = n" using a(1) n by simp
    moreover have "n_id ` set (ch_upsert c) \<subseteq> n_id ` set (p_nodes p) - subtree_ids p n'" unfolding ids by auto
    ultimately show ?thesis unfolding q ids_merge_nodes a(2) by blast
  qed
  from c show "n_state m \<noteq> Published" if "m = n \<or> below (p_nodes p) node_id m" for m
    using that n set_descendants[OF w(1)] plan_node_of_SomeD[OF n] by (auto elim!: remove_change_Inr)
qed

section \<open>Adding\<close>

lemma add_nodes:
  assumes wf: "db_wf d" and get: "store_get d i = Some p" and fresh: "new_id \<notin> x_node_id ` set (db_nodes d)"
    and add: "add_node d cfg i new_id e parent_id repo ss position now actor = Inr ((d', q), made)"
  shows "made = new_id" and "n_id ` set (p_nodes q) = insert new_id (n_id ` set (p_nodes p))"
    and "\<exists>parent. plan_node_of p parent_id = Some parent \<and> int (length (occupied p parent)) < cap cfg parent"
    and "\<exists>m\<in>set (p_nodes q). n_id m = new_id \<and> n_parent_id m = Some parent_id \<and> n_state m = Draft"
proof -
  from add have gw: "guarded_write d i e now (add_change cfg new_id parent_id repo ss position now actor) = Inr (d', q)"
    and "made = new_id" by (auto simp: add_node_def)
  then show "made = new_id" by simp
  from adding.nodes_after[OF wf fresh gw get] obtain c
    where c: "add_change cfg new_id parent_id repo ss position now actor p = Inr c"
      and q: "set (p_nodes q) = set (merge_nodes (p_nodes p) c)" by blast
  from c obtain parent level home n where a: "plan_node_of p parent_id = Some parent"
    "int (length (occupied p parent)) < cap cfg parent"
    "with_sections cfg (new_node new_id (p_id p) (Some (n_id parent))
       (int (length (children p (n_id parent)))) level home now (actor_id (Some actor))) ss
       (children p (n_id parent)) = Inr n"
    "ch_upsert c = reorder (children p (n_id parent) @ [n]) (n_id n) position" "ch_remove c = []"
    by (rule add_change_Inr)
  then show "\<exists>parent. plan_node_of p parent_id = Some parent \<and> int (length (occupied p parent)) < cap cfg parent"
    by blast
  note s = new_node_sections[OF a(3)]
  note w = wf_planD[OF store_get_nodes(2)[OF wf get]]
  have new: "n_id n \<notin> n_id ` set (p_nodes p)" using fresh_node_id[OF wf get fresh] s(1) by simp
  have ds: "distinct (map n_id (children p (n_id parent) @ [n]))"
    using children_in_distinct[OF w(2)] new by (auto simp: children_def)
  note ids = reorder_ids[OF ds, of "n_id n" position, folded a(4)]
  show "n_id ` set (p_nodes q) = insert new_id (n_id ` set (p_nodes p))"
    unfolding q ids_merge_nodes ids(1) a(5) using s(1) by auto
  have "new_id \<in> n_id ` set (ch_upsert c)" using ids(1) s(1) by auto
  then obtain m where m: "m \<in> set (ch_upsert c)" "n_id m = new_id" by auto
  have "m \<in> set (reorder (children p (n_id parent) @ [n]) (n_id n) position)" using m(1) a(4) by simp
  from reorder_in[OF ds this] obtain k l
    where k: "k \<in> set (children p (n_id parent) @ [n])" "m = k\<lparr>n_position := l\<rparr>" by blast
  have "k = n" by (rule same_id_same_node[OF ds]) (use k m s in auto)
  with k(2) s m q plan_node_of_SomeD[OF a(1)]
  show "\<exists>m\<in>set (p_nodes q). n_id m = new_id \<and> n_parent_id m = Some parent_id \<and> n_state m = Draft"
    by (intro bexI[of _ m]) (auto simp: merge_nodes_def)
qed

section \<open>Ordering\<close>

text \<open>The children read back after all of them were renumbered are the renumbered list.\<close>

lemma children_in_renumbered:
  assumes "distinct (map n_id ns)" and "set (renumber ms) = {n \<in> set ns. n_parent_id n = Some i}"
    and "distinct (map n_id ms)"
  shows "children_in ns i = renumber ms"
  unfolding children_in_def by_position_def
proof (rule sort_key_unique)
  show "set (filter (\<lambda>n. n_parent_id n = Some i) ns) = set (renumber ms)" using assms(2) by simp
  have "distinct ns" using assms(1) by (simp add: distinct_map)
  then show "distinct (filter (\<lambda>n. n_parent_id n = Some i) ns)" by simp
  have d: "distinct (map n_id (renumber ms))" using assms(3) by simp
  then show "distinct (renumber ms)" using distinct_map by blast
  show "sorted (map (\<lambda>n. (n_position n, n_id n)) (renumber ms))"
    by (auto simp: sorted_iff_nth_mono_less renumber_nth less_prod_def less_eq_prod_def)
  show "inj_on (\<lambda>n. (n_position n, n_id n)) (set (renumber ms))"
    using d unfolding distinct_map inj_on_def by blast
qed

definition moved_to :: "ident \<Rightarrow> int \<Rightarrow> ident list \<Rightarrow> ident list" where
  "moved_to i pos ids = (let rest = filter (\<lambda>j. j \<noteq> i) ids; k = clamp_index pos (length rest)
     in take k rest @ i # drop k rest)"

lemma reorder_sorted:
  assumes "sorted (map (\<lambda>n. (n_position n, n_id n)) ns)" and "i \<in> n_id ` set ns" and "distinct (map n_id ns)"
  shows "\<exists>ms. reorder ns i (Some pos) = renumber ms \<and> map n_id ms = moved_to i pos (map n_id ns)"
proof -
  have s: "by_position ns = ns" unfolding by_position_def by (rule sort_key_id_if_sorted[OF assms(1)])
  from assms(2) obtain m where m: "m \<in> set ns" "n_id m = i" by auto
  have f: "find (\<lambda>n. n_id n = i) ns = Some m" using find_unique[OF assms(3) m(1)] m(2) by simp
  let ?rest = "filter (\<lambda>n. n_id n \<noteq> i) ns"
  let ?k = "clamp_index pos (length ?rest)"
  have r: "filter (\<lambda>j. j \<noteq> i) (map n_id ns) = map n_id ?rest" by (simp add: filter_map comp_def)
  have "map n_id (take ?k ?rest @ m # drop ?k ?rest) = moved_to i pos (map n_id ns)"
    unfolding moved_to_def Let_def r by (simp add: take_map drop_map m(2))
  then show ?thesis using s f by (intro exI[of _ "take ?k ?rest @ m # drop ?k ?rest"]) (simp add: reorder_def Let_def)
qed

lemma children_sorted: "sorted (map (\<lambda>n. (n_position n, n_id n)) (children p i))"
  by (simp add: children_def children_in_def by_position_def)

lemma edited_node_position: "edited_node cfg p n ss now = Inr e \<Longrightarrow> n_position e = n_position n"
  by (auto simp: edited_node_def Let_def with_sections_def frame split: if_splits)

lemma move_children:
  assumes wf: "db_wf d" and get: "store_get d i = Some p" and n: "plan_node_of p node_id = Some n"
    and par: "n_parent_id n = Some par"
    and up: "update_node d cfg i node_id e ss (Some pos) now actor = Inr (d', q)"
  shows "map n_id (children q par) = moved_to node_id pos (map n_id (children p par))"
    and "map n_position (children q par) = map int [0..<length (children p par)]"
proof -
  note w = wf_planD[OF store_get_nodes(2)[OF wf get]]
  have wq: "wf_plan q" using updating.keeps_wf[OF wf _ up[unfolded update_node_def]] by simp
  note nid = plan_node_of_SomeD[OF n]
  from updating.nodes_after[OF wf _ up[unfolded update_node_def] get] obtain c
    where c: "update_change cfg node_id ss (Some pos) now actor p = Inr c"
      and q: "set (p_nodes q) = set (merge_nodes (p_nodes p) c)" by blast
  then obtain c0 where c0: "node_edit cfg p n ss (Some pos) now = Inr c0" "ch_upsert c = ch_upsert c0" "ch_remove c = ch_remove c0"
    using n by (auto simp: update_change_def service_reads)
  have nr: "n_id n \<noteq> p_root_id p" using root_iff[OF w(1), of n] nid par by auto
  from c0(1) nr par obtain m where m: "edited_node cfg p n ss now = Inr m"
    and u: "ch_upsert c = merged_upsert (if ss = [] then [] else [m])
       (reorder (map (\<lambda>s. if n_id s = n_id n then m else s) (children p par)) (n_id n) (Some pos))" "ch_remove c = []"
    using c0(2,3) by (auto simp: node_edit_def Let_def no_change_def split: if_splits)
  let ?sibs = "map (\<lambda>s. if n_id s = n_id n then m else s) (children p par)"
  have id: "n_id m = n_id n" "n_parent_id m = n_parent_id n"
    using edited_node_frame(1)[OF m] by (auto simp: same_shape_def)
  have same: "n_position s = n_position n" if "s \<in> set (children p par)" "n_id s = n_id n" for s
    using same_id_same_node[OF w(2), of s n] that nid by auto
  have "map (\<lambda>n. (n_position n, n_id n)) ?sibs = map (\<lambda>n. (n_position n, n_id n)) (children p par)"
    using same id edited_node_position[OF m] by (auto simp: comp_def)
  then have srt: "sorted (map (\<lambda>n. (n_position n, n_id n)) ?sibs)" by (simp only: children_sorted)
  have ids: "map n_id ?sibs = map n_id (children p par)" using id by auto
  then have ds: "distinct (map n_id ?sibs)"
    using children_in_distinct[OF w(2), of par] by (simp only: children_def)
  have "n \<in> set (children p par)" using nid par by simp
  then have "n_id n \<in> set (map n_id (children p par))" by simp
  then have inn: "n_id n \<in> n_id ` set ?sibs" unfolding set_map[symmetric] ids .
  from reorder_sorted[OF srt inn ds, of pos] obtain ms where ms: "reorder ?sibs (n_id n) (Some pos) = renumber ms"
    "map n_id ms = moved_to (n_id n) pos (map n_id (children p par))" unfolding ids by blast
  have mid: "n_id m \<in> n_id ` set (reorder ?sibs (n_id n) (Some pos))" using reorder_ids(1)[OF ds] inn id by simp
  have us: "set (ch_upsert c) = set (renumber ms)"
    unfolding u(1) ms(1)[symmetric] using mid by (intro merged_upsert(1)[OF _ reorder_ids(2)[OF ds]]) auto
  have rids: "n_id ` set (renumber ms) = n_id ` set (children p par)"
    using reorder_ids(1)[OF ds, of "n_id n" "Some pos"] ms(1) ids by (metis set_map)
  have rpar: "n_parent_id v = Some par" if "v \<in> set (renumber ms)" for v
    using reorder_in[OF ds, of v "n_id n" "Some pos"] that ms(1) id par by auto
  have dm: "distinct (map n_id ms)" using reorder_ids(2)[OF ds, of "n_id n" "Some pos"] ms(1) by simp
  have "set (renumber ms) = {k \<in> set (p_nodes q). n_parent_id k = Some par}"
    using q us rpar rids u(2) by (auto simp: merge_nodes_def)
  from children_in_renumbered[OF wf_planD(2)[OF wq] this dm] have ch: "children q par = renumber ms"
    by (simp add: children_def)
  then show "map n_id (children q par) = moved_to node_id pos (map n_id (children p par))"
    using ms(2) nid by simp
  have "length ms = length (children p par)"
    using reorder_shape[OF ds, of "n_id n" "Some pos"] ms(1) by (metis length_map length_renumber)
  then show "map n_position (children q par) = map int [0..<length (children p par)]"
    using ch renumber_positions[of ms] by simp
qed

section \<open>Reviews\<close>

text \<open>An operation that replaces nodes in place, and moves none, keeps the order of children.\<close>

lemma children_map:
  assumes "wf_plan p" and "wf_plan q" and "set (p_nodes q) = g ` set (p_nodes p)"
    and g: "\<And>n. n \<in> set (p_nodes p) \<Longrightarrow> n_id (g n) = n_id n \<and> n_parent_id (g n) = n_parent_id n \<and> n_position (g n) = n_position n"
  shows "children q i = map g (children p i)"
  unfolding children_def[of q] children_in_def by_position_def
proof (rule sort_key_unique)
  let ?ch = "children p i" and ?key = "\<lambda>n. (n_position n, n_id n)"
  show "set (filter (\<lambda>n. n_parent_id n = Some i) (p_nodes q)) = set (map g ?ch)" using assms(3) g by auto
  have "distinct (p_nodes q)" using wf_planD(2)[OF assms(2)] distinct_map by blast
  then show "distinct (filter (\<lambda>n. n_parent_id n = Some i) (p_nodes q))" by simp
  have ids: "map n_id (map g ?ch) = map n_id ?ch" using g by auto
  have "distinct (map n_id ?ch)" using children_in_distinct[OF wf_planD(2)[OF assms(1)]] by (simp add: children_def)
  then have d: "distinct (map n_id (map g ?ch))" unfolding ids .
  then show "distinct (map g ?ch)" using distinct_map by blast
  have "map ?key (map g ?ch) = map ?key ?ch" using g by auto
  then show "sorted (map ?key (map g ?ch))" by (simp only: children_sorted)
  show "inj_on ?key (set (map g ?ch))" using d unfolding distinct_map inj_on_def by blast
qed

lemma reviewed_approval: "reviewed (approval node_id node_ids actor now n) = reviewed n"
  by (simp add: approval_def approved_by_actor_def reviewed_def content_def)

lemma approve_covered:
  assumes "db_wf d" and "store_get d i = Some p" and "approve d i node_id e node_ids now actor = Inr (d', q)"
  shows "covered q (approval node_id node_ids actor now n) b = covered p n b"
proof -
  have wq: "wf_plan q" using approving.keeps_wf[OF assms(1) _ assms(3)[unfolded approve_def]] by simp
  have "children q j = map (approval node_id node_ids actor now) (children p j)" for j
    by (rule children_map[OF store_get_nodes(2)[OF assms(1,2)] wq approve_nodes[OF assms]])
       (simp add: approval_def approved_by_actor_def)
  moreover have "n_id (approval node_id node_ids actor now n) = n_id n"
    by (simp add: approval_def approved_by_actor_def)
  ultimately show ?thesis by (simp add: covered_def reviewed_approval comp_def)
qed

lemma edit_covered:
  assumes wf: "db_wf d" and get: "store_get d i = Some p" and n: "plan_node_of p node_id = Some n"
    and par: "n_parent_id n = Some (n_id k)" and up: "update_node d cfg i node_id e ss None now actor = Inr (d', q)"
    and m: "plan_node_of q node_id = Some m" and eq: "covered q k b = covered p k b"
  shows "content m = content n"
proof -
  note w = wf_planD[OF store_get_nodes(2)[OF wf get]] and nid = plan_node_of_SomeD[OF n]
  have wq: "wf_plan q" using updating.keeps_wf[OF wf _ up[unfolded update_node_def]] by simp
  have "n_id n \<noteq> p_root_id p" using root_iff[OF w(1), of n] nid par by auto
  then have np: "\<not> (node_id = p_root_id p \<and> generation_pending p)" using nid by simp
  from update_sections[OF wf get up n np] obtain m' where m': "edited_node cfg p n ss now = Inr m'"
    and q: "set (p_nodes q) = insert m' {k \<in> set (p_nodes p). n_id k \<noteq> node_id}" by blast
  let ?g = "\<lambda>x. if n_id x = node_id then m' else x"
  have id: "n_id m' = node_id" using edited_node_frame(1)[OF m'] nid by (simp add: same_shape_def)
  have "m = m'" by (rule same_id_same_node[OF wf_planD(2)[OF wq]]) (use plan_node_of_SomeD[OF m] q id in auto)
  have xn: "x = n" if "x \<in> set (p_nodes p)" "n_id x = node_id" for x
    using same_id_same_node[OF w(2), of x n] that nid by auto
  have "children q (n_id k) = map ?g (children p (n_id k))"
  proof (rule children_map[OF store_get_nodes(2)[OF wf get] wq])
    show "set (p_nodes q) = ?g ` set (p_nodes p)" using q nid by (auto intro: image_eqI[of m' ?g n])
    fix x assume x: "x \<in> set (p_nodes p)"
    show "n_id (?g x) = n_id x \<and> n_parent_id (?g x) = n_parent_id x \<and> n_position (?g x) = n_position x"
      using xn[OF x] edited_node_frame(1)[OF m'] edited_node_position[OF m'] by (auto simp: same_shape_def)
  qed
  then have "map reviewed (map ?g (children p (n_id k))) = map reviewed (children p (n_id k))"
    using eq by (simp add: covered_def)
  moreover have "n \<in> set (children p (n_id k))" using nid par by simp
  ultimately have "reviewed (?g n) = reviewed n" by (auto simp: map_eq_conv)
  then show ?thesis using nid \<open>m = m'\<close> by (simp add: reviewed_def)
qed

end
