(* ===== verification/PlanExamples.thy ===== *)
theory PlanExamples
  imports PlanEffects
begin

text \<open>
  A concrete plan the witnesses are evaluated on: an initiative in one GitHub repository, with
  two epics and two tasks under the first, the second task depending on the first.
\<close>

definition sample_override :: planning_override where
  "sample_override = \<lparr>po_enabled = None, po_max_epics_per_initiative = None,
     po_max_tasks_per_epic = Some 2, po_max_questions = None, po_close_completed = None,
     po_reconcile_interval_s = None\<rparr>"

definition sample_repo :: repo_config where
  "sample_repo = \<lparr>rp_repo = ''acme/app'', rp_kind = None, rp_planning = sample_override, rp_enabled = True\<rparr>"

definition sample_config :: config where
  "sample_config = \<lparr>cf_repos = [sample_repo], cf_vcs_kind = GitHub,
     cf_planning = \<lparr>pc_enabled = True, pc_max_epics_per_initiative = 8, pc_max_tasks_per_epic = 10,
       pc_max_questions = 5, pc_close_completed = True, pc_reconcile_interval_s = 300\<rparr>,
     cf_workloads = [''etl'']\<rparr>"

definition sample_actor :: "(string \<times> json) list" where
  "sample_actor = [(''id'', JStr ''u1''), (''display'', JStr ''Ada'')]"

definition sample_node :: "ident \<Rightarrow> ident option \<Rightarrow> int \<Rightarrow> level \<Rightarrow> timestamp \<Rightarrow> string \<Rightarrow> plan_node" where
  "sample_node i parent position level now title =
     (new_node i ''p'' parent position level ''acme/app'' now (Some ''u1''))\<lparr>n_title := title\<rparr>"

definition sample_nodes :: "plan_node list" where
  "sample_nodes = [sample_node ''r'' None 0 Initiative 1 ''Unplanned initiative'',
     sample_node ''a'' (Some ''r'') 1 Epic 2 ''Alpha'', sample_node ''b'' (Some ''r'') 0 Epic 3 ''Beta'',
     sample_node ''t'' (Some ''a'') 0 Task 4 ''Task'',
     (sample_node ''s'' (Some ''a'') 1 Task 5 ''Second'')\<lparr>n_depends_on := [''t'']\<rparr>]"

definition sample_event :: "timestamp \<Rightarrow> ident \<Rightarrow> event_row" where
  "sample_event now i = event_row_of now (Some sample_actor) (node_changed ''p'' i ''added'')"

definition sample_db :: db where
  "sample_db = \<lparr>db_plans = [(plan_row_for (new_plan ''p'' (sample_node ''r'' None 0 Initiative 1 []) 1 sample_actor
       (brief_of (sample_node ''r'' None 0 Initiative 1 ''Ship it'')) Manual None))
       \<lparr>w_revision := 5, w_updated_at := 5\<rparr>],
     db_nodes = map columns sample_nodes,
     db_events = [event_row_of 1 (Some sample_actor) (event_of ''plan.created'' [(''plan_id'', JStr ''p''),
         (''level'', JStr ''initiative''), (''repository'', JStr ''acme/app'')]),
       sample_event 2 ''a'', sample_event 3 ''b'', sample_event 4 ''t'', sample_event 5 ''s'']\<rparr>"

definition sample_plan :: plan where
  "sample_plan = (case store_get sample_db ''p'' of Some p \<Rightarrow> p | None \<Rightarrow> undefined)"

text \<open>The service builds it in five operations, each new id one no node has.\<close>

type_synonym addition = "ident \<times> int \<times> ident \<times> section_edit list \<times> int option"

definition build_add :: "db \<Rightarrow> addition \<Rightarrow> service_error + db" where
  "build_add d = (\<lambda>(i, e, parent, ss, position).
     if i \<in> set (map x_node_id (db_nodes d)) then Inl not_found
     else bindR (add_node d sample_config ''p'' i e parent None ss position (of_int (e + 1)) sample_actor)
       (\<lambda>r. Inr (fst (fst r))))"

definition build_root :: "service_error + db" where
  "build_root = bindR (draft_create empty_db sample_config ''p'' ''r'' Initiative ''App'' [STitle (Some ''Ship it'')]
     1 sample_actor Manual None) (\<lambda>r. Inr (fst r))"

definition build :: "service_error + db" where
  "build = bindR build_root (\<lambda>d. foldR build_add d
     [(''a'', 1, ''r'', [STitle (Some ''Alpha'')], None),
      (''b'', 2, ''r'', [STitle (Some ''Beta'')], Some 0),
      (''t'', 3, ''a'', [STitle (Some ''Task'')], None),
      (''s'', 4, ''a'', [STitle (Some ''Second''), SDepends (Some [''t''])], None)])"

lemma build_root_step: "build_root = Inr d \<Longrightarrow> reachable d"
  by (auto simp: build_root_def intro: reachable.intros step_create)

lemma build_add_step: "build_add d x = Inr d' \<Longrightarrow> reachable d \<Longrightarrow> reachable d'"
  by (auto simp: build_add_def split: prod.splits if_splits intro: reachable.step step_add)

lemma sample_built: "build = Inr sample_db"
  by code_simp

lemma sample_reachable: "reachable sample_db"
proof -
  from sample_built obtain d where "build_root = Inr d" and f: "\<exists>xs. foldR build_add d xs = Inr sample_db"
    unfolding build_def bindR_Inr_iff by blast
  then have "reachable d" by (simp add: build_root_step)
  with f show ?thesis by (blast intro: foldR_invariant[where P = reachable] build_add_step)
qed

lemma sample_wf: "db_wf sample_db"
  by (rule reachable_wf[OF sample_reachable])

lemma sample_get: "store_get sample_db ''p'' = Some sample_plan"
proof -
  have "\<not> Option.is_none (store_get sample_db ''p'')" by code_simp
  then show ?thesis by (cases "store_get sample_db ''p''") (auto simp: sample_plan_def)
qed

lemma sample_plan_wf: "wf_plan sample_plan"
  by (rule store_get_nodes(2)[OF sample_wf sample_get])

end
