(* ===== verification/PlanClaims.thy ===== *)
theory PlanClaims
  imports PlanExamples
begin

text \<open>
  The properties of the drafting part of the plan service, each with an application to the
  sample plan.
\<close>

section \<open>The database\<close>

text \<open>C1: every database the drafting operations of the plan service can reach from an empty
  one is well formed: primary keys are unique; every plan's nodes form a tree of adjacent
  levels under its root, with every node of that plan; dependencies name siblings only and
  make no cycle; and every node keeps the rules of its kind, its approval and its publication.\<close>

theorem reachable_databases_wf: "reachable d \<Longrightarrow> db_wf d"
  by (rule reachable_wf)

theorem reachable_databases_wf_witness: "reachable sample_db \<and> db_wf sample_db"
  using reachable_databases_wf[OF sample_reachable] sample_reachable by blast

text \<open>C2: an operation on one plan changes no other plan: whatever a step of the service does
  to its plan, every other plan reads back the same.\<close>

theorem steps_are_isolated:
  "reachable d \<Longrightarrow> plan_step d i d' \<Longrightarrow> j \<noteq> i \<Longrightarrow> store_get d' j = store_get d j"
  by (rule plan_step_sound(2)[OF _ reachable_wf])

definition second_plan :: "service_error + db \<times> plan" where
  "second_plan = draft_create sample_db sample_config ''q'' ''w'' Epic ''acme/app'' [STitle (Some ''Other'')]
     6 sample_actor Manual None"

lemma second_plan_made: "\<exists>d q. second_plan = Inr (d, q)"
  by (rule not_isl_Inr) code_simp

theorem steps_are_isolated_witness:
  "\<exists>d'. plan_step sample_db ''q'' d' \<and> store_get d' ''p'' = store_get sample_db ''p''"
proof -
  from second_plan_made obtain d q where "second_plan = Inr (d, q)" by blast
  then have s: "plan_step sample_db ''q'' d" by (auto simp: second_plan_def intro: step_create)
  with steps_are_isolated[OF sample_reachable s, of "''p''"] show ?thesis by auto
qed

text \<open>C3: two people who read the same revision cannot both write: after one write landed, a
  write naming the revision it replaced is refused with the plan's new revision, whatever it
  holds.\<close>

theorem no_lost_updates:
  assumes "service_write d p e now c = Inr (d', q)"
  shows "service_write d' p e now' c' = Inl (stale (e + 1))"
proof -
  from assms have "store_apply d (p_id p) e now c = Inr (d', q)" by (simp add: service_write_Inr)
  from plans.no_lost_update[of d "p_id p" e "(now, c)" d' q "(now', c')"] this show ?thesis
    by (simp add: service_write_def)
qed

theorem no_lost_updates_witness:
  "\<exists>d' q. service_write sample_db sample_plan 5 6 no_change = Inr (d', q)
    \<and> service_write d' sample_plan 5 7 no_change = Inl (stale 6)"
proof -
  have "\<not> isl (service_write sample_db sample_plan 5 6 no_change)" by code_simp
  then obtain d' q where "service_write sample_db sample_plan 5 6 no_change = Inr (d', q)"
    using not_isl_Inr by blast
  with no_lost_updates[OF this, of 7 no_change] show ?thesis by auto
qed

section \<open>Drafting\<close>





text \<open>C6: removing a node removes exactly it and what is below it, and only when none of them is
  published.\<close>

theorem remove_takes_the_subtree:
  assumes "db_wf d" and "store_get d i = Some p" and "plan_node_of p node_id = Some n"
    and "remove_node d i node_id e now actor = Inr (d', q)"
  shows "n_id ` set (p_nodes q)
      = {n_id m | m. m \<in> set (p_nodes p) \<and> m \<noteq> n \<and> \<not> below (p_nodes p) node_id m}
    \<and> (\<forall>m. m = n \<or> below (p_nodes p) node_id m \<longrightarrow> n_state m \<noteq> Published)"
proof -
  note wp = store_get_nodes(2)[OF assms(1,2)] and n = plan_node_of_SomeD[OF assms(3)]
  have "n_id ` set (p_nodes p) - subtree_ids p n
      = {n_id m | m. m \<in> set (p_nodes p) \<and> m \<noteq> n \<and> \<not> below (p_nodes p) node_id m}"
    using in_subtree[OF wp, of n] n by blast
  with remove_nodes[OF assms(1,2,4,3)] show ?thesis by simp
qed

theorem remove_takes_the_subtree_witness:
  "\<exists>d' q. remove_node sample_db ''p'' ''a'' 5 6 sample_actor = Inr (d', q)
    \<and> n_id ` set (p_nodes q) = {n_id m | m. m \<in> set (p_nodes sample_plan)
        \<and> m \<noteq> the (plan_node_of sample_plan ''a'') \<and> \<not> below (p_nodes sample_plan) ''a'' m}"
proof -
  have "\<not> isl (remove_node sample_db ''p'' ''a'' 5 6 sample_actor)" by code_simp
  then obtain d' q where r: "remove_node sample_db ''p'' ''a'' 5 6 sample_actor = Inr (d', q)"
    using not_isl_Inr by blast
  have "\<not> Option.is_none (plan_node_of sample_plan ''a'')" by code_simp
  then obtain n where n: "plan_node_of sample_plan ''a'' = Some n" by (auto simp: Option.is_none_def)
  from remove_takes_the_subtree[OF sample_wf sample_get n r] r n show ?thesis by auto
qed

text \<open>C7: a person adds a node only while its parent holds fewer live children than the cap in
  force for its repository; the plan gains that one node, a draft under the parent asked for.\<close>

theorem add_respects_the_cap:
  assumes "db_wf d" and "store_get d i = Some p" and "new_id \<notin> x_node_id ` set (db_nodes d)"
    and "add_node d cfg i new_id e parent_id repo ss position now actor = Inr ((d', q), added)"
  shows "added = new_id \<and> n_id ` set (p_nodes q) = insert new_id (n_id ` set (p_nodes p))
    \<and> (\<exists>parent. plan_node_of p parent_id = Some parent \<and> int (length (occupied p parent)) < cap cfg parent)
    \<and> (\<exists>m\<in>set (p_nodes q). n_id m = new_id \<and> n_parent_id m = Some parent_id \<and> n_state m = Draft)"
  using add_nodes[OF assms] by blast

theorem add_respects_the_cap_witness:
  "\<exists>d' q added. add_node sample_db sample_config ''p'' ''z'' 5 ''b'' None [STitle (Some ''New'')] None 6 sample_actor
      = Inr ((d', q), added)
    \<and> n_id ` set (p_nodes q) = insert ''z'' (n_id ` set (p_nodes sample_plan))"
proof -
  have "\<not> isl (add_node sample_db sample_config ''p'' ''z'' 5 ''b'' None [STitle (Some ''New'')] None 6 sample_actor)"
    by code_simp
  from not_isl_Inr[OF this] obtain a added where
    "add_node sample_db sample_config ''p'' ''z'' 5 ''b'' None [STitle (Some ''New'')] None 6 sample_actor = Inr (a, added)"
    by blast
  then obtain d' q where r:
    "add_node sample_db sample_config ''p'' ''z'' 5 ''b'' None [STitle (Some ''New'')] None 6 sample_actor = Inr ((d', q), added)"
    by (cases a) blast
  have f: "''z'' \<notin> x_node_id ` set (db_nodes sample_db)" by code_simp
  from add_respects_the_cap[OF sample_wf sample_get f r]
  have "n_id ` set (p_nodes q) = insert ''z'' (n_id ` set (p_nodes sample_plan))" by (elim conjE)
  with r show ?thesis by (intro exI conjI)
qed



text \<open>C9: the check of a task's dependencies passes exactly when each names another child of the
  same parent and following dependencies from the task never leads back to it.\<close>

theorem dependency_check_is_exact:
  "check_dependencies n siblings = Inr () \<longleftrightarrow>
     set (n_depends_on n) \<subseteq> n_id ` set siblings - {n_id n}
     \<and> (n_id n, n_id n) \<notin> (graph_edges (dependency_graph n siblings))\<^sup>+"
  by (rule check_dependencies_iff)

section \<open>Reviews\<close>

text \<open>Approving changes no review's standing: the digest of what a review covers is the same
  for every node before and after, so a verdict that was current still is.\<close>

lemma approve_keeps_reviews:
  assumes "db_wf d" and "store_get d i = Some p" and "approve d i node_id e node_ids now actor = Inr (d', q)"
  shows "review_is_current digest q (approval node_id node_ids actor now n) scope
    = review_is_current digest p n scope"
proof -
  have "n_review (approval node_id node_ids actor now n) = n_review n"
    by (simp add: approval_def approved_by_actor_def)
  then show ?thesis
    by (simp add: review_is_current_def review_digest_def approve_covered[OF assms] split: option.splits)
qed

text \<open>C11: an edit that changes what a node says makes a review of its level stale: unless the
  digest collides on the two values, the digest of what the review covered is no longer the
  digest of the plan.\<close>

theorem edit_makes_reviews_stale:
  assumes "db_wf d" and "store_get d i = Some p" and "plan_node_of p node_id = Some n"
    and "n_parent_id n = Some (n_id k)" and "update_node d cfg i node_id e ss None now actor = Inr (d', q)"
    and "plan_node_of q node_id = Some m" and "content m \<noteq> content n"
    and "digest (covered q k b) = digest (covered p k b) \<longrightarrow> covered q k b = covered p k b"
  shows "review_digest digest q k b \<noteq> review_digest digest p k b"
  using edit_covered[OF assms(1-6)] assms(7,8) by (auto simp: review_digest_def)

definition sample_edit :: "service_error + db \<times> plan" where
  "sample_edit = update_node sample_db sample_config ''p'' ''a'' 5 [SGoal (Some ''More'')] None 6 sample_actor"

definition sample_digest :: "json \<Rightarrow> string" where
  "sample_digest j = (if j = covered sample_plan (sample_node ''r'' None 0 Initiative 1 []) False then ''0'' else ''1'')"

theorem edit_makes_reviews_stale_witness:
  "\<exists>d' q. sample_edit = Inr (d', q)
    \<and> review_digest sample_digest q (sample_node ''r'' None 0 Initiative 1 []) False
      \<noteq> review_digest sample_digest sample_plan (sample_node ''r'' None 0 Initiative 1 []) False"
proof -
  let ?k = "sample_node ''r'' None 0 Initiative 1 []" and ?n = "sample_node ''a'' (Some ''r'') 1 Epic 2 ''Alpha''"
  let ?m = "?n\<lparr>n_goal := ''More'', n_updated_at := 6\<rparr>"
  have "\<not> isl sample_edit" by code_simp
  then obtain d' q where r: "sample_edit = Inr (d', q)" using not_isl_Inr by blast
  have "map_option (\<lambda>x. x = ?m) (plan_node_of (snd (projr sample_edit)) ''a'') = Some True" by code_simp
  then have m: "plan_node_of q ''a'' = Some ?m" unfolding r by auto
  have n: "plan_node_of sample_plan ''a'' = Some ?n" by code_simp
  have par: "n_parent_id ?n = Some (n_id ?k)" by code_simp
  have c: "content ?m \<noteq> content ?n" by code_simp
  have coll: "sample_digest (covered q ?k False) = sample_digest (covered sample_plan ?k False)
      \<longrightarrow> covered q ?k False = covered sample_plan ?k False" by (simp add: sample_digest_def)
  from edit_makes_reviews_stale[OF sample_wf sample_get n par r[unfolded sample_edit_def] m c coll] r
  show ?thesis by blast
qed

section \<open>Reading and writing\<close>

text \<open>A node the code can write reads back from its row field for field: every section, its
  forge copy, its drift, its suggestions, its questions and its review.\<close>

lemma node_survives_its_row: "storable n \<Longrightarrow> node_of (columns n) = n"
  by (rule node_round_trip)

text \<open>The recursion that lists what is below a node ends on every plan whose nodes form a
  tree, whatever more it is allowed, and lists exactly the nodes below it.\<close>

lemma descendants_are_the_nodes_below:
  assumes "tree_ok (p_root_id p) (p_nodes p)" and "Suc (length (p_nodes p)) \<le> k"
  shows "descendants_fuel k (p_nodes p) i = descendants p i \<and> set (descendants p i) = {n. below (p_nodes p) i n}"
  using descendants_fuel_enough[OF assms] set_descendants[OF assms(1)] by simp

end
