(* ===== verification/EpicRun.thy ===== *)
theory EpicRun
  imports PlanMerge
begin

text \<open>
  Epic runs (\<open>plans/epicrun.py\<close>): the shapes, the rules that decide what a task is waiting
  for, and the rows.  A task's reason is kept word for word, since a changed reason is a
  change the driver writes.  A task row is the id of its run with the task's columns.
\<close>

section \<open>States\<close>

datatype run_state = RunRunning | RunPaused | RunCompleted | RunCancelled

datatype task_state = TWaiting | TReady | TQueued | TRunning | TLanded | TClosed | TFailed | TBlocked
  | TSkipped | TCancelled

fun run_state_name :: "run_state \<Rightarrow> string" where
  "run_state_name RunRunning = ''running''"
| "run_state_name RunPaused = ''paused''"
| "run_state_name RunCompleted = ''completed''"
| "run_state_name RunCancelled = ''cancelled''"

fun task_state_name :: "task_state \<Rightarrow> string" where
  "task_state_name TWaiting = ''waiting''"
| "task_state_name TReady = ''ready''"
| "task_state_name TQueued = ''queued''"
| "task_state_name TRunning = ''running''"
| "task_state_name TLanded = ''landed''"
| "task_state_name TClosed = ''closed''"
| "task_state_name TFailed = ''failed''"
| "task_state_name TBlocked = ''blocked''"
| "task_state_name TSkipped = ''skipped''"
| "task_state_name TCancelled = ''cancelled''"

definition done_state :: "task_state \<Rightarrow> bool" where
  "done_state s = (s \<in> {TLanded, TClosed, TSkipped})"

definition settled :: "task_state \<Rightarrow> bool" where
  "settled s = (done_state s \<or> s = TCancelled)"

definition live_run :: "run_state \<Rightarrow> bool" where
  "live_run s = (s \<in> {RunRunning, RunPaused})"

definition stuck :: "task_state \<Rightarrow> bool" where
  "stuck s = (s \<in> {TFailed, TBlocked})"

section \<open>The items of the queue\<close>

datatype item_state = IQueued | IRunning | IDone | IFailed | IBlocked | ICancelled | IGated
  | IAwaitingReview | IPausedReview | IAwaitingAnswers

record work_item =
  wi_item_id :: ident
  wi_source_key :: string
  wi_state :: item_state
  wi_claimed :: bool
  wi_run_id :: "ident option"
  wi_last_error :: "string option"
  wi_repo :: "string option"
  wi_kind :: string
  wi_profile :: "string option"
  wi_origin_agent :: "string option"
  wi_parent_item_id :: "ident option"
  wi_chain_depth :: int
  wi_created_at :: timestamp
  wi_updated_at :: timestamp

definition terminal_item_state :: "item_state \<Rightarrow> bool" where
  "terminal_item_state s = (s \<in> {IDone, IFailed, IBlocked, ICancelled})"

fun from_item_state :: "item_state \<Rightarrow> task_state" where
  "from_item_state IQueued = TQueued"
| "from_item_state IRunning = TRunning"
| "from_item_state IGated = TRunning"
| "from_item_state IAwaitingReview = TRunning"
| "from_item_state IPausedReview = TRunning"
| "from_item_state IDone = TLanded"
| "from_item_state IFailed = TFailed"
| "from_item_state IBlocked = TFailed"
| "from_item_state ICancelled = TFailed"
| "from_item_state IAwaitingAnswers = TRunning"

definition from_item :: "work_item option \<Rightarrow> (task_state \<times> string option) option" where
  "from_item w = (case w of None \<Rightarrow> None
     | Some i \<Rightarrow> let s = from_item_state (wi_state i) in
         Some (s, if s = TFailed then wi_last_error i else None))"

section \<open>Runs and their tasks\<close>

record epic_task =
  t_node_id :: ident
  t_position :: int
  t_state :: task_state
  t_item_id :: "ident option"
  t_run_id :: "ident option"
  t_reason :: "string option"
  t_admitted_at :: "timestamp option"
  t_updated_at :: timestamp

record run_row =
  y_epic_run_id :: ident
  y_plan_id :: ident
  y_node_id :: ident
  y_state :: run_state
  y_started_by :: "ident option"
  y_started_by_display :: "string option"
  y_created_at :: timestamp
  y_updated_at :: timestamp
  y_completed_at :: "timestamp option"

record epic_run = run_row +
  g_tasks :: "epic_task list"

definition run_task :: "epic_run \<Rightarrow> ident \<Rightarrow> epic_task option" where
  "run_task r i = find (\<lambda>t. t_node_id t = i) (g_tasks r)"

definition new_task :: "ident \<Rightarrow> int \<Rightarrow> timestamp \<Rightarrow> epic_task" where
  "new_task i position now = \<lparr>t_node_id = i, t_position = position, t_state = TWaiting, t_item_id = None,
     t_run_id = None, t_reason = None, t_admitted_at = None, t_updated_at = now\<rparr>"

section \<open>What a task waits for\<close>

type_synonym states = "(ident \<times> task_state) list"

fun readiness_from :: "bool \<Rightarrow> ident list \<Rightarrow> states \<Rightarrow> task_state" where
  "readiness_from waiting [] ss = (if waiting then TWaiting else TReady)"
| "readiness_from waiting (dep # deps) ss =
     (case map_of ss dep of
        None \<Rightarrow> readiness_from waiting deps ss
      | Some s \<Rightarrow> if stuck s then TBlocked
                  else readiness_from (waiting \<or> \<not> done_state s) deps ss)"

definition readiness :: "plan_node \<Rightarrow> states \<Rightarrow> task_state" where
  "readiness n ss = readiness_from False (n_depends_on n) ss"

definition blocked_by :: "plan_node \<Rightarrow> states \<Rightarrow> ident list" where
  "blocked_by n ss = filter (\<lambda>dep. case map_of ss dep of None \<Rightarrow> False | Some s \<Rightarrow> stuck s) (n_depends_on n)"

text \<open>\<open>dependents\<close>: one pass of the inner loop adds every task that depends on one held so far,
  and says whether it added any; the passes go on until one adds none.\<close>

definition hold_one :: "ident list \<times> bool \<Rightarrow> plan_node \<Rightarrow> ident list \<times> bool" where
  "hold_one acc n = (case acc of (held, moved) \<Rightarrow>
     if n_id n \<notin> set held \<and> list_ex (\<lambda>d. d \<in> set held) (n_depends_on n)
     then (n_id n # held, True) else (held, moved))"

definition hold_pass :: "plan_node list \<Rightarrow> ident list \<Rightarrow> ident list \<times> bool" where
  "hold_pass ns held = foldl hold_one (held, False) ns"

lemma hold_one_step:
  "n_id n \<notin> set held \<and> list_ex (\<lambda>d. d \<in> set held) (n_depends_on n) \<Longrightarrow> hold_one (held, m) n = (n_id n # held, True)"
  "\<not> (n_id n \<notin> set held \<and> list_ex (\<lambda>d. d \<in> set held) (n_depends_on n)) \<Longrightarrow> hold_one (held, m) n = (held, m)"
  by (auto simp: hold_one_def)

lemma hold_pass_grows:
  "foldl hold_one (held, m) ns = (held', m') \<Longrightarrow> set held \<subseteq> set held' \<and> set held' \<subseteq> set held \<union> n_id ` set ns
    \<and> (m' \<longrightarrow> m \<or> (\<exists>n\<in>set ns. n_id n \<in> set held' \<and> n_id n \<notin> set held))"
proof (induction ns arbitrary: held m)
  case (Cons n ns)
  obtain h1 m1 where s: "hold_one (held, m) n = (h1, m1)" by (cases "hold_one (held, m) n")
  with Cons.prems have "foldl hold_one (h1, m1) ns = (held', m')" by simp
  note ih = Cons.IH[OF this]
  from s show ?case
  proof (cases "n_id n \<notin> set held \<and> list_ex (\<lambda>d. d \<in> set held) (n_depends_on n)")
    case True
    with s have "h1 = n_id n # held" "m1" by (auto simp: hold_one_def)
    with ih True show ?thesis by auto
  next
    case False
    with s have "h1 = held" "m1 = m" by (auto simp: hold_one_def)
    with ih show ?thesis by auto
  qed
qed simp

function hold_all :: "plan_node list \<Rightarrow> ident list \<Rightarrow> ident list" where
  "hold_all ns held = (case hold_pass ns held of (held', moved) \<Rightarrow> if moved then hold_all ns held' else held')"
  by pat_completeness auto
termination
proof (relation "measure (\<lambda>(ns, held). card (n_id ` set ns - set held))", goal_cases)
  case (2 ns held held' moved)
  then have "foldl hold_one (held, False) ns = (held', True)" by (simp add: hold_pass_def)
  from hold_pass_grows[OF this] obtain n where n: "n \<in> set ns" "n_id n \<in> set held'" "n_id n \<notin> set held"
    and sub: "set held \<subseteq> set held'" by auto
  have "n_id ` set ns - set held' \<subset> n_id ` set ns - set held" using n sub by auto
  then have "card (n_id ` set ns - set held') < card (n_id ` set ns - set held)"
    by (intro psubset_card_mono) auto
  then show ?case by simp
qed simp

declare hold_all.simps [simp del]

definition dependents :: "plan_node list \<Rightarrow> ident \<Rightarrow> ident list" where
  "dependents ns i = (let held = hold_all ns [i] in
     map n_id (filter (\<lambda>n. n_id n \<in> set held \<and> n_id n \<noteq> i) ns))"

section \<open>The store of epic runs\<close>

record epic_db =
  eb_runs :: "run_row list"
  eb_tasks :: "(ident \<times> epic_task) list"
  eb_items :: "work_item list"
  eb_events :: "event_row list"

definition run_of :: "run_row \<Rightarrow> epic_task list \<Rightarrow> epic_run" where
  "run_of r ts = run_row.extend r \<lparr>g_tasks = sort_key (\<lambda>t. (t_position t, t_node_id t)) ts\<rparr>"

definition run_row_of :: "epic_db \<Rightarrow> ident \<Rightarrow> run_row option" where
  "run_row_of d i = find (\<lambda>r. y_epic_run_id r = i) (eb_runs d)"

definition tasks_of :: "epic_db \<Rightarrow> ident \<Rightarrow> epic_task list" where
  "tasks_of d i = map snd (filter (\<lambda>r. fst r = i) (eb_tasks d))"

definition run_get :: "epic_db \<Rightarrow> ident \<Rightarrow> epic_run option" where
  "run_get d i = map_option (\<lambda>r. run_of r (tasks_of d i)) (run_row_of d i)"

definition run_ids :: "epic_db \<Rightarrow> (run_row \<Rightarrow> bool) \<Rightarrow> ident list" where
  "run_ids d P = map y_epic_run_id (sort_key (\<lambda>r. (- y_created_at r, y_epic_run_id r)) (filter P (eb_runs d)))"

definition latest_of :: "epic_db \<Rightarrow> ident list \<Rightarrow> epic_run option" where
  "latest_of d ids = (case ids of [] \<Rightarrow> None | i # _ \<Rightarrow> run_get d i)"

definition run_latest :: "epic_db \<Rightarrow> ident \<Rightarrow> ident \<Rightarrow> epic_run option" where
  "run_latest d plan_id node_id = latest_of d (run_ids d (\<lambda>r. y_plan_id r = plan_id \<and> y_node_id r = node_id))"

definition run_for_task :: "epic_db \<Rightarrow> ident \<Rightarrow> ident \<Rightarrow> epic_run option" where
  "run_for_task d plan_id node_id = latest_of d (run_ids d (\<lambda>r. y_plan_id r = plan_id
     \<and> list_ex (\<lambda>t. t_node_id t = node_id) (tasks_of d (y_epic_run_id r))))"

definition runs_active :: "epic_db \<Rightarrow> epic_run list" where
  "runs_active d = List.map_filter (run_get d) (rev (run_ids d (\<lambda>r. live_run (y_state r)
     \<or> y_state r = RunCancelled
       \<and> list_ex (\<lambda>t. t_state t = TQueued \<or> t_state t = TRunning) (tasks_of d (y_epic_run_id r)))))"

definition completed_since :: "epic_db \<Rightarrow> timestamp \<Rightarrow> epic_run list" where
  "completed_since d since = List.map_filter (run_get d) (run_ids d (\<lambda>r. y_state r = RunCompleted
     \<and> (case y_completed_at r of None \<Rightarrow> False | Some t \<Rightarrow> t \<ge> since)))"

definition run_create :: "epic_db \<Rightarrow> epic_run \<Rightarrow> plan_event list \<Rightarrow> (string \<times> json) list \<Rightarrow> epic_db" where
  "run_create d r events actor = d\<lparr>eb_runs := eb_runs d @ [run_row.truncate r],
     eb_tasks := eb_tasks d @ map (Pair (y_epic_run_id r)) (g_tasks r),
     eb_events := eb_events d @ map (event_row_of (y_created_at r) (Some actor)) events\<rparr>"

fun put_task :: "ident \<Rightarrow> epic_task \<Rightarrow> (ident \<times> epic_task) list \<Rightarrow> (ident \<times> epic_task) list" where
  "put_task i t [] = [(i, t)]"
| "put_task i t ((j, u) # rows) = (if j = i \<and> t_node_id u = t_node_id t then (i, t) # rows
     else (j, u) # put_task i t rows)"

definition moved_run :: "run_state option \<Rightarrow> timestamp \<Rightarrow> run_row \<Rightarrow> run_row" where
  "moved_run state now r = (case state of
      None \<Rightarrow> r
    | Some s \<Rightarrow> if s = y_state r then r
                else let r' = r\<lparr>y_state := s\<rparr> in
                     if s = RunCompleted \<or> s = RunCancelled then r'\<lparr>y_completed_at := Some now\<rparr> else r')
   \<lparr>y_updated_at := now\<rparr>"

definition run_save :: "epic_db \<Rightarrow> ident \<Rightarrow> epic_task list \<Rightarrow> timestamp \<Rightarrow> run_state option \<Rightarrow>
    plan_event list \<Rightarrow> (string \<times> json) list option \<Rightarrow> epic_db" where
  "run_save d i tasks now state events actor =
     (if run_row_of d i = None then d
      else d\<lparr>eb_tasks := foldl (\<lambda>rows t. put_task i (t\<lparr>t_updated_at := now\<rparr>) rows) (eb_tasks d) tasks,
             eb_runs := map (\<lambda>r. if y_epic_run_id r = i then moved_run state now r else r) (eb_runs d),
             eb_events := eb_events d @ map (event_row_of now actor) events\<rparr>)"

definition adopt :: "work_item list \<Rightarrow> ident \<Rightarrow> ident \<Rightarrow> string option \<Rightarrow> work_item list \<times> bool" where
  "adopt q item_id run_id prof =
     (let hit = (\<lambda>w. wi_item_id w = item_id \<and> wi_state w = IQueued \<and> \<not> wi_claimed w);
          set_parent = (\<lambda>w. w\<lparr>wi_parent_item_id := Some run_id, wi_origin_agent := None, wi_chain_depth := 0,
             wi_profile := (case prof of None \<Rightarrow> wi_profile w | Some x \<Rightarrow> Some x)\<rparr>)
      in (map (\<lambda>w. if hit w then set_parent w else w) q, list_ex hit q))"

section \<open>What the rules say\<close>

lemma readiness_from_cases:
  "readiness_from w deps ss = (if \<exists>dep\<in>set deps. \<exists>s. map_of ss dep = Some s \<and> stuck s then TBlocked
     else if w \<or> (\<exists>dep\<in>set deps. \<exists>s. map_of ss dep = Some s \<and> \<not> done_state s) then TWaiting else TReady)"
proof (induction w deps ss rule: readiness_from.induct)
  case (2 w dep deps ss)
  show ?case
  proof (cases "map_of ss dep")
    case None
    with 2(1)[OF None] show ?thesis by auto
  next
    case (Some s)
    with 2(2)[OF Some] show ?thesis by (cases "stuck s") auto
  qed
qed simp

lemma stuck_not_done: "stuck s \<Longrightarrow> \<not> done_state s"
  by (auto simp: stuck_def done_state_def)

lemma readiness_blocked: "readiness n ss = TBlocked \<longleftrightarrow> blocked_by n ss \<noteq> []"
  by (auto simp: readiness_def readiness_from_cases blocked_by_def filter_empty_conv split: option.splits)

lemma readiness_ready:
  "readiness n ss = TReady \<longleftrightarrow> (\<forall>dep\<in>set (n_depends_on n). \<forall>s. map_of ss dep = Some s \<longrightarrow> done_state s)"
  by (auto simp: readiness_def readiness_from_cases dest: stuck_not_done)

lemma readiness_range: "readiness n ss \<in> {TWaiting, TReady, TBlocked}"
  by (simp add: readiness_def readiness_from_cases)

lemma readiness_cong:
  "(\<And>dep. dep \<in> set (n_depends_on n) \<Longrightarrow> map_of ss dep = map_of ss' dep) \<Longrightarrow> readiness n ss = readiness n ss'"
  by (simp add: readiness_def readiness_from_cases)

lemma blocked_by_cong:
  "(\<And>dep. dep \<in> set (n_depends_on n) \<Longrightarrow> map_of ss dep = map_of ss' dep) \<Longrightarrow> blocked_by n ss = blocked_by n ss'"
  unfolding blocked_by_def by (rule filter_cong) auto

section \<open>Dependents are the transitive dependents\<close>

lemma hold_pass_sound:
  assumes "foldl hold_one (held, m) ns = (held', m')" and "\<forall>x\<in>set held. (x, i) \<in> (dep_edges ms)\<^sup>*" and "set ns \<subseteq> set ms"
  shows "\<forall>x\<in>set held'. (x, i) \<in> (dep_edges ms)\<^sup>*"
  using assms
proof (induction ns arbitrary: held m)
  case (Cons n ns)
  show ?case
  proof (cases "n_id n \<notin> set held \<and> list_ex (\<lambda>d. d \<in> set held) (n_depends_on n)")
    case True
    then obtain d where d: "d \<in> set (n_depends_on n)" "d \<in> set held" by (auto simp: list_ex_iff)
    then have "(n_id n, d) \<in> dep_edges ms" using Cons.prems(3) by (auto simp: dep_edges_def)
    with d Cons.prems(2) have "(n_id n, i) \<in> (dep_edges ms)\<^sup>*" by (blast intro: converse_rtrancl_into_rtrancl)
    with Cons.prems(2) have "\<forall>x\<in>set (n_id n # held). (x, i) \<in> (dep_edges ms)\<^sup>*" by simp
    from Cons.IH[OF _ this] Cons.prems(1,3) hold_one_step(1)[OF True] show ?thesis by simp
  next
    case False
    from Cons.IH[OF _ Cons.prems(2)] Cons.prems(1,3) hold_one_step(2)[OF False] show ?thesis by simp
  qed
qed simp

lemma hold_pass_keeps_moved: "foldl hold_one (held, True) ns = (held', m') \<Longrightarrow> m'"
  by (induction ns arbitrary: held) (auto simp: hold_one_def split: if_splits)

lemma hold_pass_still:
  "foldl hold_one (held, False) ns = (held', False) \<Longrightarrow>
    held' = held \<and> (\<forall>n\<in>set ns. n_id n \<in> set held \<or> set (n_depends_on n) \<inter> set held = {})"
proof (induction ns)
  case (Cons n ns)
  show ?case
  proof (cases "n_id n \<notin> set held \<and> list_ex (\<lambda>d. d \<in> set held) (n_depends_on n)")
    case True
    then have "foldl hold_one (n_id n # held, True) ns = (held', False)"
      using Cons.prems hold_one_step(1)[OF True] by simp
    then show ?thesis using hold_pass_keeps_moved by blast
  next
    case False
    then have "hold_one (held, False) n = (held, False)" by (auto simp: hold_one_def)
    with Cons False show ?thesis by (auto simp: list_ex_iff)
  qed
qed simp

lemma hold_all_closed:
  assumes "\<forall>x\<in>set held. (x, i) \<in> (dep_edges ns)\<^sup>*"
  shows "(\<forall>x\<in>set (hold_all ns held). (x, i) \<in> (dep_edges ns)\<^sup>*) \<and> set held \<subseteq> set (hold_all ns held)
    \<and> (\<forall>n\<in>set ns. n_id n \<in> set (hold_all ns held) \<or> set (n_depends_on n) \<inter> set (hold_all ns held) = {})"
  using assms
proof (induction ns held rule: hold_all.induct)
  case (1 ns held)
  obtain held' moved where p: "hold_pass ns held = (held', moved)" by (cases "hold_pass ns held")
  then have f: "foldl hold_one (held, False) ns = (held', moved)" by (simp add: hold_pass_def)
  note snd = hold_pass_sound[OF f "1.prems" subset_refl]
  have sub: "set held \<subseteq> set held'" using hold_pass_grows[OF f] by simp
  have eq: "hold_all ns held = (if moved then hold_all ns held' else held')"
    by (subst hold_all.simps) (simp add: p)
  show ?case
  proof (cases moved)
    case True
    from "1.IH"[OF p[symmetric] True snd] sub show ?thesis unfolding eq by (auto simp: True)
  next
    case False
    with f hold_pass_still have "held' = held"
      "\<forall>n\<in>set ns. n_id n \<in> set held \<or> set (n_depends_on n) \<inter> set held = {}" by auto
    with snd eq False show ?thesis by simp
  qed
qed

lemma set_dependents:
  "set (dependents ns i) = {n_id n | n. n \<in> set ns \<and> n_id n \<noteq> i \<and> (n_id n, i) \<in> (dep_edges ns)\<^sup>+}"
proof -
  let ?H = "set (hold_all ns [i])"
  have c: "\<forall>x\<in>?H. (x, i) \<in> (dep_edges ns)\<^sup>*" "i \<in> ?H"
    "\<forall>n\<in>set ns. n_id n \<in> ?H \<or> set (n_depends_on n) \<inter> ?H = {}"
    using hold_all_closed[of "[i]" i ns] by auto
  have in_held: "x \<in> ?H" if "(x, i) \<in> (dep_edges ns)\<^sup>*" for x
    using that
  proof (induction rule: converse_rtrancl_induct)
    case (step x y)
    from step.hyps(1) obtain n where "n \<in> set ns" "n_id n = x" "y \<in> set (n_depends_on n)"
      by (auto simp: dep_edges_def)
    with c(3) step.IH show ?case by blast
  qed (rule c(2))
  have "x \<in> ?H \<and> x \<noteq> i \<longleftrightarrow> x \<noteq> i \<and> (x, i) \<in> (dep_edges ns)\<^sup>+" for x
    using c(1) in_held[of x] by (auto simp: rtrancl_eq_or_trancl)
  then show ?thesis by (auto simp: dependents_def Let_def)
qed

end
