(* ===== verification/EpicDriver.thy ===== *)
theory EpicDriver
  imports EpicRun
begin

text \<open>
  The driver of epic runs: \<open>daemon/epicruns.py\<close>, with the issue admission it goes through
  (\<open>admit_issue\<close> and \<open>upsert\<close> of \<open>daemon/controls/intake.py\<close>).  What it calls outside these
  files is a parameter, the record \<open>daemon\<close>: the source's reading of an issue, the queue's
  \<open>upsert_new\<close>, \<open>retry\<close> and \<open>abandon\<close>, and the look at an epic's completion.  A pass holds a
  lock, so passes and controls follow one another.  A failed assertion abandons the pass: what
  the queue already took stays, nothing else is written.
\<close>

section \<open>The daemon around it\<close>

text \<open>What the source answers when asked to read an issue for admission.\<close>

datatype source_answer =
    SItem work_item
  | SKeyError
  | SNotOpen string
  | SValueError string
  | SNotFound
  | SUnreadable string

record control_error =
  ce_code :: string
  ce_message :: string
  ce_issue_closed :: bool

record daemon =
  ld_config :: config
  ld_admit :: "(string \<Rightarrow> string \<Rightarrow> string \<Rightarrow> source_answer) option"
  ld_upsert_new :: "work_item list \<Rightarrow> work_item \<Rightarrow> string + work_item list"
  ld_retry :: "work_item list \<Rightarrow> ident \<Rightarrow> string \<Rightarrow> string + work_item \<times> work_item list"
  ld_abandon :: "work_item list \<Rightarrow> ident \<Rightarrow> string \<Rightarrow> (work_item list) option"
  ld_complete :: "db \<Rightarrow> epic_db \<Rightarrow> ident \<Rightarrow> ident \<Rightarrow> timestamp \<Rightarrow> db"
  ld_profile_error :: "string \<Rightarrow> string"

definition queue_get :: "work_item list \<Rightarrow> ident \<Rightarrow> work_item option" where
  "queue_get q i = find (\<lambda>w. wi_item_id w = i) q"

definition queue_items :: "work_item list \<Rightarrow> work_item list" where
  "queue_items q = sort_key wi_created_at q"

definition control_error_of :: "string \<Rightarrow> string \<Rightarrow> control_error" where
  "control_error_of code message = \<lparr>ce_code = code, ce_message = message, ce_issue_closed = False\<rparr>"

definition admit_issue :: "daemon \<Rightarrow> string \<Rightarrow> int \<Rightarrow> string \<Rightarrow> control_error + work_item" where
  "admit_issue l repo number kind =
     (case find_repo (ld_config l) repo of
        None \<Rightarrow> Inl (control_error_of ''unknown_target'' (repo @ '' is not a configured repository''))
      | Some entry \<Rightarrow>
          if \<not> rp_enabled entry
          then Inl (control_error_of ''not_eligible'' (rp_repo entry @ '' is configured but not enabled''))
          else (case ld_admit l of
                  None \<Rightarrow> Inl (control_error_of ''source_unavailable''
                    ''this daemon polls no repository, so it cannot admit an issue'')
                | Some source \<Rightarrow> (case source (rp_repo entry) (int_str number) kind of
                    SItem w \<Rightarrow> Inr w
                  | SKeyError \<Rightarrow> Inl (control_error_of ''unknown_target''
                      (rp_repo entry @ '' is not polled by this daemon''))
                  | SNotOpen m \<Rightarrow> Inl \<lparr>ce_code = ''not_eligible'', ce_message = m, ce_issue_closed = True\<rparr>
                  | SValueError m \<Rightarrow> Inl (control_error_of ''not_eligible'' m)
                  | SNotFound \<Rightarrow> Inl (control_error_of ''unknown_target''
                      (rp_repo entry @ ''#'' @ int_str number @ '' was not found''))
                  | SUnreadable m \<Rightarrow> Inl (control_error_of ''source_unavailable''
                      (''the repository could not be read: '' @ m)))))"

definition upsert :: "daemon \<Rightarrow> work_item list \<Rightarrow> work_item \<Rightarrow> control_error + work_item \<times> work_item list" where
  "upsert l q item =
     (case ld_upsert_new l q item of
        Inl e \<Rightarrow> Inl (control_error_of ''not_eligible'' (''queueing failed: '' @ e))
      | Inr q' \<Rightarrow> Inr (case queue_get q' (wi_item_id item) of
          Some stored \<Rightarrow> stored
        | None \<Rightarrow> or_else (find (\<lambda>i. wi_source_key i = wi_source_key item
              \<and> or_empty (wi_repo i) = or_empty (wi_repo item)) (queue_items q')) item, q'))"

definition live_item :: "work_item list \<Rightarrow> string \<Rightarrow> int \<Rightarrow> work_item option" where
  "live_item q repo number = find (\<lambda>w. wi_source_key w = int_str number
     \<and> casefold (or_empty (wi_repo w)) = casefold repo \<and> \<not> terminal_item_state (wi_state w)) (queue_items q)"

section \<open>Words\<close>

definition who :: "(string \<times> json) list \<Rightarrow> string" where
  "who actor = (let display = jtext (jget actor ''display''); i = jtext (jget actor ''id'') in
     if display \<noteq> [] then display else if i \<noteq> [] then i else ''a person'')"

definition title_of :: "plan option \<Rightarrow> ident \<Rightarrow> string" where
  "title_of p i = (case p of None \<Rightarrow> i | Some q \<Rightarrow> (case plan_node_of q i of None \<Rightarrow> i | Some n \<Rightarrow> n_title n))"

definition blocked_reason :: "plan \<Rightarrow> plan_node \<Rightarrow> states \<Rightarrow> string" where
  "blocked_reason p n ss = ''blocked by '' @ join '', '' (map (\<lambda>d. title_of (Some p) d @ '' (''
     @ (case map_of ss d of None \<Rightarrow> [] | Some s \<Rightarrow> task_state_name s) @ '')'') (blocked_by n ss))"

definition run_ids_json :: "run_row \<Rightarrow> (string \<times> json) list" where
  "run_ids_json r = [(''plan_id'', JStr (y_plan_id r)), (''node_id'', JStr (y_node_id r)),
     (''epic_run_id'', JStr (y_epic_run_id r))]"

section \<open>Admitting one task\<close>

definition follow :: "work_item list \<Rightarrow> epic_task \<Rightarrow> epic_task" where
  "follow q t = (case t_item_id t of
      None \<Rightarrow> t
    | Some i \<Rightarrow>
        if settled (t_state t) then t
        else (case queue_get q i of
                None \<Rightarrow> t\<lparr>t_state := TReady, t_item_id := None,
                  t_reason := Some ''its item left the queue; admitting again''\<rparr>
              | Some w \<Rightarrow> (case from_item (Some w) of
                  None \<Rightarrow> t
                | Some (s, reason) \<Rightarrow> t\<lparr>t_state := s, t_reason := reason,
                    t_run_id := (if truthy (wi_run_id w) then wi_run_id w else t_run_id t)\<rparr>)))"

definition admitted_as :: "epic_task \<Rightarrow> work_item \<Rightarrow> timestamp \<Rightarrow> epic_task" where
  "admitted_as t w now = (let s = from_item_state (wi_state w) in
     t\<lparr>t_state := s, t_reason := (if s = TFailed then wi_last_error w else None),
       t_item_id := Some (wi_item_id w), t_run_id := wi_run_id w, t_admitted_at := Some now\<rparr>)"

text \<open>The queue afterwards, and the task as it then stands: \<open>None\<close> when the node is not on the
  forge and the assertion fails.\<close>

definition admit_task :: "daemon \<Rightarrow> work_item list \<Rightarrow> ident \<Rightarrow> plan_node \<Rightarrow> epic_task \<Rightarrow> timestamp \<Rightarrow>
    work_item list \<times> epic_task option" where
  "admit_task l q run_id n t now =
     (case n_forge n of
        None \<Rightarrow> (q, None)
      | Some f \<Rightarrow>
          let kind = (case n_kind n of None \<Rightarrow> ''code'' | Some k \<Rightarrow> kind_name k);
              prof = (if kind = ''workload'' then n_workload_profile n else None) in
          (case (case prof of None \<Rightarrow> None
                 | Some x \<Rightarrow> if x \<in> set (cf_workloads (ld_config l)) then None else Some (ld_profile_error l x)) of
             Some reason \<Rightarrow> (q, Some (t\<lparr>t_state := TFailed, t_reason := Some reason\<rparr>))
           | None \<Rightarrow>
               (case (case live_item q (n_repository n) (f_number f) of
                        Some w \<Rightarrow> Inr (w, q)
                      | None \<Rightarrow> bindR (admit_issue l (n_repository n) (f_number f) kind) (\<lambda>item.
                          upsert l q (item\<lparr>wi_parent_item_id := Some run_id, wi_origin_agent := None,
                            wi_chain_depth := 0,
                            wi_profile := (case prof of None \<Rightarrow> wi_profile item | Some x \<Rightarrow> Some x)\<rparr>))) of
                  Inl e \<Rightarrow> (q, Some (
                    if ce_issue_closed e then t\<lparr>t_state := TClosed, t_reason := None\<rparr>
                    else if ce_code e = ''source_unavailable''
                    then t\<lparr>t_state := TReady, t_reason := Some (ce_message e)\<rparr>
                    else t\<lparr>t_state := TFailed, t_reason := Some (ce_message e)\<rparr>))
                | Inr (w, q1) \<Rightarrow>
                    let q2 = (if wi_parent_item_id w \<noteq> Some run_id
                              then fst (adopt q1 (wi_item_id w) run_id prof) else q1);
                        stored = or_else (queue_get q2 (wi_item_id w)) w
                    in (q2, Some (admitted_as t stored now)))))"

section \<open>Placing the tasks\<close>

type_synonym tasks = "(ident \<times> epic_task) list"

record pass =
  ps_queue :: "work_item list"
  ps_tasks :: tasks
  ps_changed :: tasks
  ps_tried :: "ident list"
  ps_moved :: bool

definition put :: "pass \<Rightarrow> epic_task \<Rightarrow> pass" where
  "put s t = (if map_of (ps_tasks s) (t_node_id t) \<noteq> Some t
     then s\<lparr>ps_tasks := dict_set (t_node_id t) t (ps_tasks s),
            ps_changed := dict_set (t_node_id t) t (ps_changed s)\<rparr>
     else s)"

definition states_of :: "tasks \<Rightarrow> states" where
  "states_of ts = map (\<lambda>(k, t). (k, t_state t)) ts"

text \<open>One node of one round; \<open>Inl\<close> is the queue when the assertion failed.  The order lists
  only nodes that have a task.\<close>

definition place_one :: "daemon \<Rightarrow> ident \<Rightarrow> plan \<Rightarrow> timestamp \<Rightarrow> bool \<Rightarrow> states \<Rightarrow> pass \<Rightarrow> plan_node \<Rightarrow>
    work_item list + pass" where
  "place_one l run_id p now admit ss s n =
     (case map_of (ps_tasks s) (n_id n) of
        None \<Rightarrow> Inr s
      | Some t \<Rightarrow>
          if t_item_id t \<noteq> None \<or> settled (t_state t) \<or> t_state t = TFailed then Inr s
          else if (case n_forge n of None \<Rightarrow> False | Some f \<Rightarrow> f_state f = Some ForgeClosed)
          then Inr ((put s (t\<lparr>t_state := TClosed, t_reason := None\<rparr>))\<lparr>ps_moved := True\<rparr>)
          else let wanted = readiness n ss in
            if wanted = TReady \<and> n_id n \<in> set (ps_tried s) then Inr s
            else if wanted = TReady \<and> admit
            then (case admit_task l (ps_queue s) run_id n t now of
                    (q, None) \<Rightarrow> Inl q
                  | (q, Some t') \<Rightarrow>
                      let s' = put (s\<lparr>ps_queue := q, ps_tried := n_id n # ps_tried s\<rparr>) t'
                      in Inr (s'\<lparr>ps_moved := ps_moved s' \<or> t_state t' \<noteq> t_state t\<rparr>))
            else let reason = (if wanted = TBlocked then Some (blocked_reason p n ss) else None) in
              if (wanted, reason) \<noteq> (t_state t, t_reason t)
              then Inr ((put s (t\<lparr>t_state := wanted, t_reason := reason\<rparr>))\<lparr>ps_moved := True\<rparr>)
              else Inr s)"

definition place_round :: "daemon \<Rightarrow> ident \<Rightarrow> plan \<Rightarrow> timestamp \<Rightarrow> bool \<Rightarrow> plan_node list \<Rightarrow> pass \<Rightarrow>
    work_item list + pass" where
  "place_round l run_id p now admit order s =
     foldR (place_one l run_id p now admit (states_of (ps_tasks s))) (s\<lparr>ps_moved := False\<rparr>) order"

fun place_rounds :: "nat \<Rightarrow> daemon \<Rightarrow> ident \<Rightarrow> plan \<Rightarrow> timestamp \<Rightarrow> bool \<Rightarrow> plan_node list \<Rightarrow> pass \<Rightarrow>
    work_item list + pass" where
  "place_rounds 0 l run_id p now admit order s = Inr s"
| "place_rounds (Suc k) l run_id p now admit order s =
     bindR (place_round l run_id p now admit order s) (\<lambda>s'.
     if ps_moved s' then place_rounds k l run_id p now admit order s' else Inr s')"

definition place :: "daemon \<Rightarrow> ident \<Rightarrow> plan \<Rightarrow> timestamp \<Rightarrow> bool \<Rightarrow> plan_node list \<Rightarrow> pass \<Rightarrow>
    work_item list + pass" where
  "place l run_id p now admit order s = place_rounds (Suc (length order)) l run_id p now admit order s"

section \<open>The events of a pass\<close>

definition task_event :: "run_row \<Rightarrow> epic_task option \<Rightarrow> epic_task \<Rightarrow> (string \<times> json) list \<Rightarrow> plan_event" where
  "task_event r prior t extra =
     (let kind = (if t_item_id t \<noteq> None \<and> t_admitted_at t \<noteq> None
                    \<and> (case prior of None \<Rightarrow> True | Some b \<Rightarrow> t_admitted_at b \<noteq> t_admitted_at t)
                  then ''task_admitted''
                  else if (case prior of None \<Rightarrow> False | Some b \<Rightarrow> t_state b = TFailed)
                    \<and> (t_state t = TQueued \<or> t_state t = TRunning) then ''task_retried''
                  else ''task_'' @ task_state_name (t_state t))
      in \<lparr>ev_type = ''plan.run.'' @ kind, ev_data = run_ids_json r @
            [(''task_node_id'', JStr (t_node_id t)),
             (''from'', jopt (\<lambda>b. JStr (task_state_name (t_state b))) prior),
             (''state'', JStr (task_state_name (t_state t))), (''item_id'', jopt JStr (t_item_id t)),
             (''run_id'', jopt JStr (t_run_id t)), (''reason'', jopt JStr (t_reason t))] @ extra,
          ev_run_id = None, ev_item_id = None, ev_channel_id = None\<rparr>)"

definition failed_event :: "run_row \<Rightarrow> plan_node list \<Rightarrow> states \<Rightarrow> epic_task \<Rightarrow> plan_event" where
  "failed_event r order ss t = \<lparr>ev_type = ''plan.run.paused'', ev_data = run_ids_json r @
     [(''reason'', JStr ''task_failed''), (''state'', JStr (run_state_name (y_state r))),
      (''task_node_id'', JStr (t_node_id t)), (''item_id'', jopt JStr (t_item_id t)),
      (''error'', jopt JStr (t_reason t)),
      (''blocked'', jstrs (filter (\<lambda>k. map_of ss k = Some TBlocked) (dependents order (t_node_id t))))],
     ev_run_id = None, ev_item_id = None, ev_channel_id = None\<rparr>"

definition pass_events :: "run_row \<Rightarrow> plan_node list \<Rightarrow> tasks \<Rightarrow> tasks \<Rightarrow> tasks \<Rightarrow> plan_event list" where
  "pass_events r order before ts changed =
     (let ss = states_of ts;
          moved = filter (\<lambda>(k, t). case map_of before k of None \<Rightarrow> True
              | Some b \<Rightarrow> (t_state b, t_admitted_at b) \<noteq> (t_state t, t_admitted_at t))
            (sort_key (\<lambda>(k, t). (t_position t, k)) changed);
          extra = (\<lambda>k t. if t_state t = TBlocked then (case find (\<lambda>n. n_id n = k) order of None \<Rightarrow> []
              | Some n \<Rightarrow> [(''blocked_by'', jstrs (blocked_by n ss))]) else []);
          failed = filter (\<lambda>(k, t). t_state t = TFailed \<and> (case map_of before k of None \<Rightarrow> True
              | Some b \<Rightarrow> t_state b \<noteq> TFailed)) moved
      in map (\<lambda>(k, t). task_event r (map_of before k) t (extra k t)) moved
         @ (if live_run (y_state r) then map (\<lambda>(k, t). failed_event r order ss t) failed else []))"

section \<open>One pass over a run\<close>

record world =
  wo_plans :: db
  wo_epics :: epic_db
  wo_last_sweep :: "timestamp option"

definition run_event :: "string \<Rightarrow> run_row \<Rightarrow> (string \<times> json) list \<Rightarrow> plan_event" where
  "run_event type r data = \<lparr>ev_type = type, ev_data = run_ids_json r @ data, ev_run_id = None,
     ev_item_id = None, ev_channel_id = None\<rparr>"

definition keys_in :: "task_state \<Rightarrow> tasks \<Rightarrow> json" where
  "keys_in s ts = jstrs (map fst (filter (\<lambda>(k, t). t_state t = s) ts))"

definition keyed_tasks :: "epic_task list \<Rightarrow> tasks" where
  "keyed_tasks ts = foldl (\<lambda>d t. dict_set (t_node_id t) t d) [] ts"

text \<open>Tasks that joined the epic, then what each admitted item now is.\<close>

definition pass_start :: "epic_run \<Rightarrow> plan_node list \<Rightarrow> work_item list \<Rightarrow> pass" where
  "pass_start r kids q =
     (let before = keyed_tasks (g_tasks r);
          s0 = \<lparr>ps_queue = q, ps_tasks = before, ps_changed = [], ps_tried = [], ps_moved = False\<rparr>
      in if live_run (y_state r)
         then foldl (\<lambda>s n. if followed n \<and> n_id n \<notin> fst ` set (ps_tasks s)
                           then put s (new_task (n_id n) (n_position n) 0) else s) s0 kids
         else s0)"

definition pass_follow :: "pass \<Rightarrow> pass" where
  "pass_follow s = foldl (\<lambda>s' t. put s' (follow (ps_queue s) t)) s (map snd (ps_tasks s))"

definition with_queue :: "world \<Rightarrow> work_item list \<Rightarrow> world" where
  "with_queue w q = w\<lparr>wo_epics := (wo_epics w)\<lparr>eb_items := q\<rparr>\<rparr>"

definition look :: "daemon \<Rightarrow> ident \<Rightarrow> ident \<Rightarrow> timestamp \<Rightarrow> world \<Rightarrow> world" where
  "look l plan_id epic_id now w = w\<lparr>wo_plans := ld_complete l (wo_plans w) (wo_epics w) plan_id epic_id now\<rparr>"

text \<open>\<open>False\<close> when the pass raised.\<close>

definition drive :: "daemon \<Rightarrow> ident \<Rightarrow> timestamp \<Rightarrow> world \<Rightarrow> world \<times> bool" where
  "drive l epic_run_id now w =
     (let e = wo_epics w in
      case run_get e epic_run_id of
        None \<Rightarrow> (w, True)
      | Some r \<Rightarrow>
          if y_state r = RunCompleted then (w, True)
          else (case store_get (wo_plans w) (y_plan_id r) of
            None \<Rightarrow> (w, True)
          | Some p \<Rightarrow>
              if plan_node_of p (y_node_id r) = None then (w, True)
              else let kids = children p (y_node_id r);
                       before = keyed_tasks (g_tasks r);
                       s1 = pass_start r kids (eb_items e);
                       order = filter (\<lambda>n. n_id n \<in> fst ` set (ps_tasks s1)) kids;
                       s2 = pass_follow s1;
                       live = live_run (y_state r) in
                (case (if live then place l (y_epic_run_id r) p now (y_state r = RunRunning) order s2
                       else Inr s2) of
                   Inl q \<Rightarrow> (with_queue w q, False)
                 | Inr s3 \<Rightarrow>
                     let ts = ps_tasks s3;
                         finished = live \<and> list_all (\<lambda>(k, t). done_state (t_state t)) ts;
                         events = pass_events (run_row.truncate r) order before ts (ps_changed s3)
                           @ (if finished then [run_event ''plan.run.completed'' (run_row.truncate r)
                                [(''landed'', keys_in TLanded ts), (''closed'', keys_in TClosed ts),
                                 (''skipped'', keys_in TSkipped ts)]] else []);
                         e' = e\<lparr>eb_items := ps_queue s3\<rparr>;
                         w' = w\<lparr>wo_epics := (if ps_changed s3 \<noteq> [] \<or> finished
                           then run_save e' epic_run_id (map snd (ps_changed s3)) now
                                  (if finished then Some RunCompleted else None) events None
                           else e')\<rparr>;
                         closing = list_ex (\<lambda>(k, t). (t_state t = TLanded \<or> t_state t = TClosed)
                           \<and> (case map_of before k of None \<Rightarrow> False | Some b \<Rightarrow> t_state b \<noteq> t_state t))
                           (ps_changed s3)
                     in (if closing \<or> finished then look l (y_plan_id r) (y_node_id r) now w' else w', True))))"

section \<open>Ticks\<close>

definition sweep_s :: timestamp where "sweep_s = 600"
definition sweep_window_s :: timestamp where "sweep_window_s = 14 * 86400"

definition sweep_one :: "daemon \<Rightarrow> timestamp \<Rightarrow> world \<times> (ident \<times> ident) list \<Rightarrow> epic_run \<Rightarrow>
    world \<times> (ident \<times> ident) list" where
  "sweep_one l now acc r = (case acc of (w, seen) \<Rightarrow>
     let key = (y_plan_id r, y_node_id r) in
     if key \<in> set seen then (w, seen)
     else let epic = (case store_get (wo_plans w) (y_plan_id r) of None \<Rightarrow> None
                | Some p \<Rightarrow> plan_node_of p (y_node_id r)) in
       (case epic of
          None \<Rightarrow> (w, key # seen)
        | Some n \<Rightarrow>
            if (case n_forge n of None \<Rightarrow> True | Some f \<Rightarrow> f_state f = Some ForgeClosed)
               \<or> \<not> pc_close_completed (planning_for (ld_config l) (n_repository n))
            then (w, key # seen)
            else (look l (y_plan_id r) (y_node_id r) now w, key # seen)))"

definition sweep :: "daemon \<Rightarrow> timestamp \<Rightarrow> world \<Rightarrow> world" where
  "sweep l now w = fst (foldl (sweep_one l now) (w, []) (completed_since (wo_epics w) (now - sweep_window_s)))"

definition tick :: "daemon \<Rightarrow> timestamp \<Rightarrow> world \<Rightarrow> world" where
  "tick l now w =
     (let w1 = foldl (\<lambda>w' r. fst (drive l (y_epic_run_id r) now w')) w (runs_active (wo_epics w)) in
      if (case wo_last_sweep w1 of None \<Rightarrow> True | Some t \<Rightarrow> now - t \<ge> sweep_s)
      then sweep l now (w1\<lparr>wo_last_sweep := Some now\<rparr>) else w1)"

definition issue_closed :: "daemon \<Rightarrow> string \<Rightarrow> int \<Rightarrow> timestamp \<Rightarrow> world \<Rightarrow> world" where
  "issue_closed l repo number now w =
     foldl (\<lambda>w' (plan_id, n). case n_parent_id n of
         None \<Rightarrow> w'
       | Some q \<Rightarrow> if n_level n \<noteq> Task then w'
                   else (case run_for_task (wo_epics w') plan_id (n_id n) of
                       Some r \<Rightarrow> if live_run (y_state r) then w' else look l plan_id q now w'
                     | None \<Rightarrow> look l plan_id q now w')) w (published_at (wo_plans w) repo number)"

section \<open>Controls\<close>

datatype control_raise = ControlRefused service_error | AssertFailed

type_synonym control_result = "world \<times> (control_raise + epic_run)"

definition control_refusal :: "world \<Rightarrow> service_error \<Rightarrow> control_result" where
  "control_refusal w e = (w, Inl (ControlRefused e))"

definition read_run :: "world \<Rightarrow> ident \<Rightarrow> control_result" where
  "read_run w i = (w, case run_get (wo_epics w) i of None \<Rightarrow> Inl AssertFailed | Some r \<Rightarrow> Inr r)"

definition save_run :: "world \<Rightarrow> ident \<Rightarrow> epic_task list \<Rightarrow> timestamp \<Rightarrow> run_state option \<Rightarrow> plan_event list \<Rightarrow>
    (string \<times> json) list \<Rightarrow> world" where
  "save_run w i tasks now state events actor =
     w\<lparr>wo_epics := run_save (wo_epics w) i tasks now state events (Some actor)\<rparr>"

definition check_start :: "daemon \<Rightarrow> epic_db \<Rightarrow> plan \<Rightarrow> ident \<Rightarrow> int \<Rightarrow> service_error + plan_node \<times> plan_node list" where
  "check_start l e p node_id expected =
     bindR (check (p_revision p = expected) (stale (p_revision p))) (\<lambda>_.
     bindR (check (\<not> p_archived p) (refuse 409 ''plan_archived'')) (\<lambda>_.
     case plan_node_of p node_id of
       None \<Rightarrow> Inl not_found
     | Some epic \<Rightarrow>
         if n_level epic \<noteq> Epic then Inl invalid_argument
         else if n_state epic \<noteq> Published \<or> n_forge epic = None then Inl (refuse 409 ''epic_unpublished'')
         else let tasks = filter followed (children p (n_id epic)) in
           if tasks = [] then Inl (refuse 409 ''nothing_to_run'')
           else (case (case run_latest e (p_id p) (n_id epic) of None \<Rightarrow> None
                       | Some r \<Rightarrow> if live_run (y_state r) then Some r else None) of
                   Some r \<Rightarrow> Inl (refuse_with 409 ''already_running'' [(''epic_run_id'', JStr (y_epic_run_id r))])
                 | None \<Rightarrow>
                     (case find_repo (ld_config l) (n_repository epic) of
                        None \<Rightarrow> Inl (refuse_with 422 ''unknown_repository'' [(''repository'', JStr (n_repository epic))])
                      | Some entry \<Rightarrow>
                          if \<not> rp_enabled entry
                          then Inl (refuse_with 409 ''repository_disabled'' [(''repository'', JStr (rp_repo entry))])
                          else if ld_admit l = None then Inl (refuse 503 ''source_unavailable'')
                          else Inr (epic, tasks)))))"

definition started_run :: "ident \<Rightarrow> plan \<Rightarrow> plan_node \<Rightarrow> plan_node list \<Rightarrow> (string \<times> json) list \<Rightarrow> timestamp \<Rightarrow> epic_run" where
  "started_run run_id p epic tasks actor now = \<lparr>y_epic_run_id = run_id, y_plan_id = p_id p, y_node_id = n_id epic,
     y_state = RunRunning, y_started_by = actor_id (Some actor),
     y_started_by_display = (let s = jtext (jget actor ''display'') in if s = [] then None else Some s),
     y_created_at = now, y_updated_at = now, y_completed_at = None,
     g_tasks = map (\<lambda>(i, n). new_task (n_id n) (int i) now) (enumerate 0 tasks)\<rparr>"

definition start :: "daemon \<Rightarrow> ident \<Rightarrow> ident \<Rightarrow> ident \<Rightarrow> int \<Rightarrow> (string \<times> json) list \<Rightarrow> timestamp \<Rightarrow> world \<Rightarrow> control_result" where
  "start l run_id plan_id node_id expected actor now w =
     (case store_get (wo_plans w) plan_id of
        None \<Rightarrow> control_refusal w not_found
      | Some p \<Rightarrow>
          (case check_start l (wo_epics w) p node_id expected of
             Inl e \<Rightarrow> control_refusal w e
           | Inr (epic, tasks) \<Rightarrow>
               let r = started_run run_id p epic tasks actor now;
                   w1 = w\<lparr>wo_epics := run_create (wo_epics w) r
                     [run_event ''plan.run.started'' (run_row.truncate r) []] actor\<rparr>
               in read_run (fst (drive l run_id now w1)) run_id))"

definition epic_run_for :: "world \<Rightarrow> ident \<Rightarrow> ident \<Rightarrow> service_error + epic_run" where
  "epic_run_for w plan_id node_id =
     (case store_get (wo_plans w) plan_id of
        None \<Rightarrow> Inl not_found
      | Some p \<Rightarrow> (case plan_node_of p node_id of
          None \<Rightarrow> Inl not_found
        | Some n \<Rightarrow> if n_level n \<noteq> Epic then Inl invalid_argument
            else (case run_latest (wo_epics w) plan_id node_id of None \<Rightarrow> Inl not_found | Some r \<Rightarrow> Inr r)))"

definition task_run_for :: "world \<Rightarrow> ident \<Rightarrow> ident \<Rightarrow> service_error + epic_run \<times> plan_node" where
  "task_run_for w plan_id node_id =
     (case store_get (wo_plans w) plan_id of
        None \<Rightarrow> Inl not_found
      | Some p \<Rightarrow> (case plan_node_of p node_id of
          None \<Rightarrow> Inl not_found
        | Some n \<Rightarrow> if n_level n \<noteq> Task then Inl invalid_argument
            else (case run_for_task (wo_epics w) plan_id node_id of None \<Rightarrow> Inl not_found | Some r \<Rightarrow> Inr (r, n))))"

definition refuse_ended :: "epic_run \<Rightarrow> service_error + unit" where
  "refuse_ended r = check (y_state r \<noteq> RunCompleted \<and> y_state r \<noteq> RunCancelled)
     (refuse_with 409 ''run_ended'' [(''epic_run_id'', JStr (y_epic_run_id r)),
        (''state'', JStr (run_state_name (y_state r)))])"

definition pause :: "ident \<Rightarrow> ident \<Rightarrow> (string \<times> json) list \<Rightarrow> timestamp \<Rightarrow> world \<Rightarrow> control_result" where
  "pause plan_id node_id actor now w =
     (case bindR (epic_run_for w plan_id node_id) (\<lambda>r. bindR (refuse_ended r) (\<lambda>_.
        bindR (check (y_state r \<noteq> RunPaused) (refuse_with 409 ''already_paused''
          [(''epic_run_id'', JStr (y_epic_run_id r))])) (\<lambda>_. Inr r))) of
        Inl e \<Rightarrow> control_refusal w e
      | Inr r \<Rightarrow> read_run (save_run w (y_epic_run_id r) [] now (Some RunPaused)
          [run_event ''plan.run.paused'' (run_row.truncate r) [(''reason'', JStr ''person''),
             (''state'', JStr ''paused''), (''by'', JStr (who actor))]] actor) (y_epic_run_id r))"

definition resume :: "daemon \<Rightarrow> ident \<Rightarrow> ident \<Rightarrow> (string \<times> json) list \<Rightarrow> timestamp \<Rightarrow> world \<Rightarrow> control_result" where
  "resume l plan_id node_id actor now w =
     (case bindR (epic_run_for w plan_id node_id) (\<lambda>r. bindR (refuse_ended r) (\<lambda>_.
        bindR (check (y_state r = RunPaused) (refuse_with 409 ''not_paused''
          [(''epic_run_id'', JStr (y_epic_run_id r))])) (\<lambda>_. Inr r))) of
        Inl e \<Rightarrow> control_refusal w e
      | Inr r \<Rightarrow>
          let w1 = save_run w (y_epic_run_id r) [] now (Some RunRunning)
                [run_event ''plan.run.resumed'' (run_row.truncate r) [(''by'', JStr (who actor))]] actor
          in read_run (fst (drive l (y_epic_run_id r) now w1)) (y_epic_run_id r))"

section \<open>Stopping a run\<close>

definition withdraw :: "daemon \<Rightarrow> work_item list \<Rightarrow> ident \<Rightarrow> string \<Rightarrow> work_item list option" where
  "withdraw l q i why = (case queue_get q i of None \<Rightarrow> None
     | Some w \<Rightarrow> if wi_state w \<noteq> IQueued \<or> wi_run_id w \<noteq> None then None else ld_abandon l q i why)"

record stopping =
  so_queue :: "work_item list"
  so_tasks :: tasks
  so_changed :: tasks
  so_withdrawn :: "ident list"
  so_running :: "ident list"

definition stop_one :: "daemon \<Rightarrow> string \<Rightarrow> stopping \<Rightarrow> epic_task \<Rightarrow> stopping" where
  "stop_one l why s t =
     (let t1 = follow (so_queue s) t;
          record_task = (\<lambda>s' t'. if t' \<noteq> t then s'\<lparr>so_tasks := dict_set (t_node_id t) t' (so_tasks s'),
            so_changed := dict_set (t_node_id t) t' (so_changed s')\<rparr> else s') in
      if t_state t1 \<in> {TWaiting, TReady, TBlocked}
      then record_task s (t1\<lparr>t_state := TCancelled, t_reason := Some (''never admitted: '' @ why)\<rparr>)
      else (case (if t_state t1 = TQueued then (case t_item_id t1 of None \<Rightarrow> None
                    | Some i \<Rightarrow> withdraw l (so_queue s) i why) else None) of
              Some q \<Rightarrow> record_task (s\<lparr>so_queue := q, so_withdrawn := so_withdrawn s @ [t_node_id t]\<rparr>)
                (t1\<lparr>t_state := TCancelled, t_reason := Some (''withdrawn: '' @ why)\<rparr>)
            | None \<Rightarrow> record_task (if t_state t1 = TQueued \<or> t_state t1 = TRunning
                then s\<lparr>so_running := so_running s @ [t_node_id t]\<rparr> else s) t1))"

definition cancel :: "daemon \<Rightarrow> ident \<Rightarrow> ident \<Rightarrow> (string \<times> json) list \<Rightarrow> timestamp \<Rightarrow> world \<Rightarrow> control_result" where
  "cancel l plan_id node_id actor now w =
     (case bindR (epic_run_for w plan_id node_id) (\<lambda>r. bindR (refuse_ended r) (\<lambda>_. Inr r)) of
        Inl e \<Rightarrow> control_refusal w e
      | Inr r \<Rightarrow>
          let why = ''the epic run '' @ y_epic_run_id r @ '' was stopped by '' @ who actor;
              order = (case store_get (wo_plans w) (y_plan_id r) of None \<Rightarrow> [] | Some p \<Rightarrow> children p (y_node_id r));
              before = keyed_tasks (g_tasks r);
              s = foldl (stop_one l why) \<lparr>so_queue = eb_items (wo_epics w), so_tasks = before, so_changed = [],
                    so_withdrawn = [], so_running = []\<rparr> (g_tasks r);
              events = pass_events ((run_row.truncate r)\<lparr>y_state := RunCancelled\<rparr>)
                  (filter (\<lambda>n. n_id n \<in> fst ` set (so_tasks s)) order) before (so_tasks s) (so_changed s)
                @ [run_event ''plan.run.cancelled'' (run_row.truncate r) [(''by'', JStr (who actor)),
                    (''withdrawn'', jstrs (so_withdrawn s)), (''running'', jstrs (so_running s))]]
          in read_run (save_run (with_queue w (so_queue s)) (y_epic_run_id r) (map snd (so_changed s)) now
               (Some RunCancelled) events actor) (y_epic_run_id r))"

section \<open>Retrying and skipping a task\<close>

text \<open>Both read the run and the task again after a pass; an assertion that fails in that pass
  propagates.\<close>

definition driven_task :: "daemon \<Rightarrow> ident \<Rightarrow> ident \<Rightarrow> timestamp \<Rightarrow> world \<Rightarrow>
    world \<times> (control_raise + epic_run \<times> plan_node \<times> epic_task)" where
  "driven_task l plan_id node_id now w =
     (case bindR (task_run_for w plan_id node_id) (\<lambda>rn. bindR (refuse_ended (fst rn)) (\<lambda>_. Inr rn)) of
        Inl e \<Rightarrow> (w, Inl (ControlRefused e))
      | Inr (r, n) \<Rightarrow>
          (case drive l (y_epic_run_id r) now w of
             (w1, False) \<Rightarrow> (w1, Inl AssertFailed)
           | (w1, True) \<Rightarrow> (w1, case run_get (wo_epics w1) (y_epic_run_id r) of
               None \<Rightarrow> Inl AssertFailed
             | Some r1 \<Rightarrow> (case run_task r1 (n_id n) of None \<Rightarrow> Inl AssertFailed | Some t \<Rightarrow> Inr (r1, n, t)))))"

definition run_states :: "epic_run \<Rightarrow> states" where
  "run_states r = states_of (keyed_tasks (g_tasks r))"

definition retried_task :: "daemon \<Rightarrow> world \<Rightarrow> epic_run \<Rightarrow> plan_node \<Rightarrow> epic_task \<Rightarrow> (string \<times> json) list \<Rightarrow> timestamp \<Rightarrow>
    work_item list \<times> (control_raise + epic_task \<times> string)" where
  "retried_task l w r n t actor now =
     (let q = eb_items (wo_epics w);
          item = (case t_item_id t of None \<Rightarrow> None | Some i \<Rightarrow> if i = [] then None else queue_get q i) in
      case (case item of None \<Rightarrow> None
            | Some x \<Rightarrow> if wi_state x \<in> {IFailed, IBlocked, ICancelled} then Some x else None) of
        Some x \<Rightarrow> (case ld_retry l q (wi_item_id x) (who actor @ '' (epic run '' @ y_epic_run_id r @ '')'') of
            Inl m \<Rightarrow> (q, Inl (ControlRefused (refuse 409 ''not_eligible'')))
          | Inr (fresh, q') \<Rightarrow> (q', Inr (case from_item (Some fresh) of
              None \<Rightarrow> t | Some (s, reason) \<Rightarrow> t\<lparr>t_state := s, t_reason := reason, t_run_id := wi_run_id fresh\<rparr>,
              ''item'')))
      | None \<Rightarrow> (case admit_task l q (y_epic_run_id r) n (t\<lparr>t_state := TReady, t_item_id := None, t_reason := None\<rparr>) now of
            (q', None) \<Rightarrow> (q', Inl AssertFailed)
          | (q', Some t') \<Rightarrow> (q', Inr (t', ''admission''))))"

definition retry :: "daemon \<Rightarrow> ident \<Rightarrow> ident \<Rightarrow> (string \<times> json) list \<Rightarrow> timestamp \<Rightarrow> world \<Rightarrow> control_result" where
  "retry l plan_id node_id actor now w =
     (case driven_task l plan_id node_id now w of
        (w1, Inl e) \<Rightarrow> (w1, Inl e)
      | (w1, Inr (r, n, t)) \<Rightarrow>
          if t_state t = TBlocked
          then control_refusal w1 (refuse_with 409 ''task_blocked'' [(''blocked_by'', jstrs (blocked_by n (run_states r)))])
          else if t_state t \<noteq> TFailed
          then control_refusal w1 (refuse_with 409 ''task_not_failed'' [(''state'', JStr (task_state_name (t_state t)))])
          else (case retried_task l w1 r n t actor now of
                  (q, Inl e) \<Rightarrow> (with_queue w1 q, Inl e)
                | (q, Inr (t', via)) \<Rightarrow>
                    let row = run_row.truncate r;
                        events = run_event ''plan.run.task_retried'' row [(''task_node_id'', JStr (n_id n)),
                            (''from'', JStr (task_state_name (t_state t))),
                            (''state'', JStr (task_state_name (t_state t'))), (''item_id'', jopt JStr (t_item_id t')),
                            (''via'', JStr via), (''by'', JStr (who actor))]
                          # (if via = ''admission'' then pass_events row [n] [(n_id n, t)] [(n_id n, t')] [(n_id n, t')] else []);
                        w2 = save_run (with_queue w1 q) (y_epic_run_id r) [t'] now None events actor
                    in read_run (fst (drive l (y_epic_run_id r) now w2)) (y_epic_run_id r)))"

definition skip_task :: "daemon \<Rightarrow> ident \<Rightarrow> ident \<Rightarrow> (string \<times> json) list \<Rightarrow> timestamp \<Rightarrow> world \<Rightarrow> control_result" where
  "skip_task l plan_id node_id actor now w =
     (case driven_task l plan_id node_id now w of
        (w1, Inl e) \<Rightarrow> (w1, Inl e)
      | (w1, Inr (r, n, t)) \<Rightarrow>
          if t_state t = TQueued \<or> t_state t = TRunning
          then control_refusal w1 (refuse_with 409 ''task_in_progress'' [(''state'', JStr (task_state_name (t_state t))),
                 (''item_id'', jopt JStr (t_item_id t))])
          else if settled (t_state t)
          then control_refusal w1 (refuse_with 409 ''task_settled'' [(''state'', JStr (task_state_name (t_state t)))])
          else let skipped = t\<lparr>t_state := TSkipped, t_reason := Some (''skipped by '' @ who actor)\<rparr>;
                   w2 = save_run w1 (y_epic_run_id r) [skipped] now None
                     [run_event ''plan.run.task_skipped'' (run_row.truncate r) [(''task_node_id'', JStr (n_id n)),
                        (''from'', JStr (task_state_name (t_state t))), (''state'', JStr ''skipped''),
                        (''item_id'', jopt JStr (t_item_id t)), (''by'', JStr (who actor))]] actor
               in read_run (fst (drive l (y_epic_run_id r) now w2)) (y_epic_run_id r))"

end
