(* ===== verification/EpicPass.thy ===== *)
theory EpicPass
  imports EpicDriver
begin

text \<open>
  What one pass over an epic run does: no task is admitted before its dependencies are done,
  what is settled or admitted stays, and the rounds of \<open>_place\<close> end with every task where its
  dependencies put it.
\<close>

section \<open>The tasks of a pass\<close>

lemma map_of_put [simp]: "map_of (ps_tasks (put s t)) = (map_of (ps_tasks s))(t_node_id t \<mapsto> t)"
  by (auto simp: put_def)

lemma put_frame [simp]:
  "ps_queue (put s t) = ps_queue s" "ps_tried (put s t) = ps_tried s" "ps_moved (put s t) = ps_moved s"
  by (simp_all add: put_def)

lemma map_of_states_of [simp]: "map_of (states_of ts) k = map_option t_state (map_of ts k)"
  by (induction ts) (auto simp: states_of_def)

definition well_keyed :: "pass \<Rightarrow> bool" where
  "well_keyed s = (\<forall>k t. map_of (ps_tasks s) k = Some t \<longrightarrow> t_node_id t = k)"

definition frozen :: "epic_task \<Rightarrow> bool" where
  "frozen t = (t_item_id t \<noteq> None \<or> settled (t_state t) \<or> t_state t = TFailed)"

definition forge_closed :: "plan_node \<Rightarrow> bool" where
  "forge_closed n = (case n_forge n of None \<Rightarrow> False | Some f \<Rightarrow> f_state f = Some ForgeClosed)"

definition placed_reason :: "plan \<Rightarrow> plan_node \<Rightarrow> states \<Rightarrow> string option" where
  "placed_reason p n ss = (if readiness n ss = TBlocked then Some (blocked_reason p n ss) else None)"

text \<open>A node a round leaves alone: its task is admitted, settled or failed, was tried on this
  pass, or already stands where its dependencies put it.\<close>

definition quiet :: "plan \<Rightarrow> bool \<Rightarrow> states \<Rightarrow> pass \<Rightarrow> plan_node \<Rightarrow> bool" where
  "quiet p admit ss s n = (case map_of (ps_tasks s) (n_id n) of
      None \<Rightarrow> True
    | Some t \<Rightarrow> frozen t \<or> \<not> forge_closed n \<and>
        (if readiness n ss = TReady
         then n_id n \<in> set (ps_tried s) \<and> t_state t = TReady
           \<or> \<not> admit \<and> t_state t = TReady \<and> t_reason t = None \<and> n_id n \<notin> set (ps_tried s)
         else t_state t = readiness n ss \<and> t_reason t = placed_reason p n ss))"

lemma settled_simps [simp]:
  "settled TClosed" "\<not> settled TReady" "\<not> settled TWaiting" "\<not> settled TBlocked" "\<not> settled TFailed"
  by (simp_all add: settled_def done_state_def)

lemma admit_task_result:
  assumes "admit_task l q run_id n t now = (q', Some t')"
  shows "t_node_id t' = t_node_id t" and "frozen t' \<or> t_state t' = TReady \<and> t_item_id t' = t_item_id t"
  using assms
  by (auto simp: admit_task_def frozen_def Let_def admitted_as_def split: option.splits if_splits sum.splits prod.splits)

lemma place_one_cases:
  assumes "place_one l run_id p now admit ss s n = Inr s'" and "well_keyed s"
  obtains (quiet) "s' = s" "quiet p admit ss s n \<or> (\<exists>t. map_of (ps_tasks s) (n_id n) = Some t \<and> \<not> frozen t \<and> \<not> forge_closed n
      \<and> readiness n ss = TReady \<and> n_id n \<in> set (ps_tried s))"
  | (moved) t t' where "map_of (ps_tasks s) (n_id n) = Some t" "\<not> frozen t" "ps_queue s' = ps_queue s"
      "map_of (ps_tasks s') = (map_of (ps_tasks s))(n_id n \<mapsto> t')" "ps_moved s'" "ps_tried s' = ps_tried s"
      "t_item_id t' = None" "t_node_id t' = n_id n"
      "forge_closed n \<and> t_state t' = TClosed \<or> \<not> forge_closed n \<and> t_state t' = readiness n ss
        \<and> t_reason t' = placed_reason p n ss \<and> (t_state t', t_reason t') \<noteq> (t_state t, t_reason t) \<and> (readiness n ss = TReady \<longrightarrow> \<not> admit \<and> n_id n \<notin> set (ps_tried s))"
  | (admitted) t t' q where "map_of (ps_tasks s) (n_id n) = Some t" "\<not> frozen t" "admit" "readiness n ss = TReady"
      "n_id n \<notin> set (ps_tried s)" "\<not> forge_closed n" "admit_task l (ps_queue s) run_id n t now = (q, Some t')"
      "map_of (ps_tasks s') = (map_of (ps_tasks s))(n_id n \<mapsto> t')" "ps_queue s' = q"
      "ps_tried s' = n_id n # ps_tried s" "ps_moved s' = (ps_moved s \<or> t_state t' \<noteq> t_state t)"
proof (cases "map_of (ps_tasks s) (n_id n)")
  case None
  with assms(1) show thesis by (intro quiet(1)) (auto simp: place_one_def quiet_def)
next
  case (Some t)
  have key: "t_node_id t = n_id n" using assms(2) Some by (simp add: well_keyed_def)
  show thesis
  proof (cases "frozen t")
    case True
    with Some assms(1) show thesis by (intro quiet(1)) (auto simp: place_one_def frozen_def quiet_def)
  next
    case nf: False
    then have guard: "\<not> (t_item_id t \<noteq> None \<or> settled (t_state t) \<or> t_state t = TFailed)" by (simp add: frozen_def)
    show thesis
    proof (cases "forge_closed n")
      case True
      with Some assms(1) guard key nf show thesis
        by (intro moved[of t "t\<lparr>t_state := TClosed, t_reason := None\<rparr>"])
           (auto simp: place_one_def forge_closed_def)
    next
      case open_: False
      show thesis
      proof (cases "readiness n ss = TReady \<and> (n_id n \<in> set (ps_tried s) \<or> admit)")
        case True
        show thesis
        proof (cases "n_id n \<in> set (ps_tried s)")
          case tried: True
          with True Some assms(1) guard open_ nf show thesis
            by (intro quiet(1)) (auto simp: place_one_def forge_closed_def quiet_def Let_def)
        next
          case untried: False
          with True have ready: "readiness n ss = TReady" "admit" by auto
          obtain q o' where a: "admit_task l (ps_queue s) run_id n t now = (q, o')"
            by (cases "admit_task l (ps_queue s) run_id n t now")
          with Some assms(1) guard open_ ready untried obtain t' where o': "o' = Some t'"
            by (cases o') (auto simp: place_one_def forge_closed_def Let_def)
          note r = admit_task_result[OF a[unfolded o']]
          show thesis
            using Some assms(1) guard open_ ready untried a o' nf key r(1)
            by (intro admitted[of t q t']) (auto simp: place_one_def forge_closed_def Let_def)
        qed
      next
        case other: False
        let ?r = "placed_reason p n ss"
        have wanted: "place_one l run_id p now admit ss s n =
            (if (readiness n ss, ?r) \<noteq> (t_state t, t_reason t)
             then Inr ((put s (t\<lparr>t_state := readiness n ss, t_reason := ?r\<rparr>))\<lparr>ps_moved := True\<rparr>) else Inr s)"
          using Some guard open_ other by (auto simp: place_one_def forge_closed_def Let_def placed_reason_def)
        show thesis
        proof (cases "(readiness n ss, ?r) = (t_state t, t_reason t)")
          case True
          then have "quiet p admit ss s n"
            using Some open_ other by (auto simp: quiet_def placed_reason_def)
          with True assms(1) wanted show thesis by (intro quiet(1)) auto
        next
          case False
          with assms(1) wanted have "s' = (put s (t\<lparr>t_state := readiness n ss, t_reason := ?r\<rparr>))\<lparr>ps_moved := True\<rparr>"
            by auto
          with Some nf key open_ other guard False show thesis
            by (intro moved[of t "t\<lparr>t_state := readiness n ss, t_reason := ?r\<rparr>"]) auto
        qed
      qed
    qed
  qed
qed

section \<open>What a pass keeps\<close>

definition ahead :: "pass \<Rightarrow> pass \<Rightarrow> bool" where
  "ahead s s' = ((\<forall>k t. map_of (ps_tasks s) k = Some t \<and> frozen t \<longrightarrow> map_of (ps_tasks s') k = Some t)
     \<and> dom (map_of (ps_tasks s')) = dom (map_of (ps_tasks s)) \<and> set (ps_tried s) \<subseteq> set (ps_tried s'))"

definition deps_done :: "pass \<Rightarrow> plan_node \<Rightarrow> bool" where
  "deps_done s n = (\<forall>dep\<in>set (n_depends_on n). \<forall>u. map_of (ps_tasks s) dep = Some u \<longrightarrow> done_state (t_state u))"

definition tried_ok :: "plan_node list \<Rightarrow> pass \<Rightarrow> bool" where
  "tried_ok order s = (\<forall>n\<in>set order. n_id n \<in> set (ps_tried s) \<longrightarrow> deps_done s n
     \<and> (\<forall>t. map_of (ps_tasks s) (n_id n) = Some t \<longrightarrow> frozen t \<or> t_state t = TReady))"

text \<open>A task that has an item now and had none at the start of the pass was tried on it.\<close>

definition new_items_tried :: "pass \<Rightarrow> pass \<Rightarrow> bool" where
  "new_items_tried s0 s = (\<forall>k t0 t. map_of (ps_tasks s0) k = Some t0 \<and> t_item_id t0 = None
     \<and> map_of (ps_tasks s) k = Some t \<and> t_item_id t \<noteq> None \<longrightarrow> k \<in> set (ps_tried s))"

lemma ahead_refl [simp]: "ahead s s"
  by (simp add: ahead_def)

lemma ahead_trans: "ahead a b \<Longrightarrow> ahead b c \<Longrightarrow> ahead a c"
  unfolding ahead_def by blast

lemma ready_deps_done: "readiness n (states_of (ps_tasks s)) = TReady \<longleftrightarrow> deps_done s n"
  by (auto simp: readiness_ready deps_done_def)

lemma done_frozen: "done_state (t_state t) \<Longrightarrow> frozen t"
  by (simp add: frozen_def settled_def)

lemma deps_done_ahead: "ahead s s' \<Longrightarrow> deps_done s n \<Longrightarrow> deps_done s' n"
  unfolding deps_done_def
proof (intro ballI allI impI)
  fix dep u
  assume a: "ahead s s'" and d: "\<forall>dep\<in>set (n_depends_on n). \<forall>u. map_of (ps_tasks s) dep = Some u \<longrightarrow> done_state (t_state u)"
    and dep: "dep \<in> set (n_depends_on n)" and u: "map_of (ps_tasks s') dep = Some u"
  have "dep \<in> dom (map_of (ps_tasks s'))" using u by blast
  then have "dep \<in> dom (map_of (ps_tasks s))" using a by (simp add: ahead_def)
  then obtain v where v: "map_of (ps_tasks s) dep = Some v" by blast
  with d dep have dv: "done_state (t_state v)" by blast
  with a v have "map_of (ps_tasks s') dep = Some v" by (auto simp: ahead_def intro: done_frozen)
  with u dv show "done_state (t_state u)" by simp
qed

text \<open>One node: \<open>sr\<close> is the start of the round, \<open>s\<close> where the round has got to.\<close>

lemma place_one_keeps:
  assumes step: "place_one l run_id p now admit (states_of (ps_tasks sr)) s n = Inr s'"
    and n: "n \<in> set order" and d: "distinct (map n_id order)"
    and wk: "well_keyed s" and sr: "ahead sr s"
    and tr: "\<forall>m\<in>set order. n_id m \<in> set (ps_tried s) \<longrightarrow> deps_done sr m" and t: "tried_ok order s" and ni: "new_items_tried s0 s"
  shows "well_keyed s'" and "ahead s s'" and "tried_ok order s'" and "new_items_tried s0 s'"
    and "\<forall>m\<in>set order. n_id m \<in> set (ps_tried s') \<longrightarrow> deps_done sr m"
    and "\<not> admit \<Longrightarrow> ps_queue s' = ps_queue s \<and> ps_tried s' = ps_tried s"
proof -
  have same: "m = n" if "m \<in> set order" "n_id m = n_id n" for m
    using same_id_same_node[OF d that(1) n that(2)] .
  have all: "well_keyed s' \<and> ahead s s' \<and> tried_ok order s' \<and> new_items_tried s0 s'
    \<and> (\<forall>m\<in>set order. n_id m \<in> set (ps_tried s') \<longrightarrow> deps_done sr m) \<and> (\<not> admit \<longrightarrow> ps_queue s' = ps_queue s \<and> ps_tried s' = ps_tried s)"
    using step wk
  proof (cases rule: place_one_cases)
    case quiet
    with wk t ni tr show ?thesis by simp
  next
    case (moved u u')
    have ah: "ahead s s'" using moved(1,2,4,6) by (auto simp: ahead_def)
    have "tried_ok order s'"
      unfolding tried_ok_def
    proof (intro ballI impI)
      fix m assume m: "m \<in> set order" "n_id m \<in> set (ps_tried s')"
      then have tm: "n_id m \<in> set (ps_tried s)" using moved(6) by simp
      with t m have dd: "deps_done s m" "\<forall>v. map_of (ps_tasks s) (n_id m) = Some v \<longrightarrow> frozen v \<or> t_state v = TReady"
        by (auto simp: tried_ok_def)
      have "frozen v \<or> t_state v = TReady" if v: "map_of (ps_tasks s') (n_id m) = Some v" for v
      proof (cases "n_id m = n_id n")
        case True
        then have "m = n" by (rule same[OF m(1)])
        have "v = u'" using v moved(4) True by simp
        show ?thesis
        proof (cases "t_state u' = TClosed")
          case True
          with \<open>v = u'\<close> show ?thesis by (simp add: frozen_def)
        next
          case False
          have "deps_done sr n" using tr m(1) tm \<open>m = n\<close> by simp
          with False moved(9) tm \<open>m = n\<close> show ?thesis by (auto simp: ready_deps_done)
        qed
      next
        case False
        with v moved(4) dd(2) show ?thesis by simp
      qed
      with dd(1) ah show "deps_done s' m \<and> (\<forall>v. map_of (ps_tasks s') (n_id m) = Some v \<longrightarrow> frozen v \<or> t_state v = TReady)"
        by (blast intro: deps_done_ahead)
    qed
    moreover have "well_keyed s'" using wk moved(4,8) by (auto simp: well_keyed_def)
    moreover have "new_items_tried s0 s'" using ni moved(4,6,7) by (auto simp: new_items_tried_def)
    ultimately show ?thesis using ah moved(3,6) tr by simp
  next
    case (admitted u u' q)
    have wkn: "t_node_id u = n_id n" using wk admitted(1) by (simp add: well_keyed_def)
    note r = admit_task_result[OF admitted(7)]
    have ah: "ahead s s'" using admitted(1,2,8,10) by (auto simp: ahead_def)
    have dn: "deps_done s n" using admitted(4) sr by (auto simp: ready_deps_done intro: deps_done_ahead)
    have u': "frozen u' \<or> t_state u' = TReady" using r(2) by auto
    have "tried_ok order s'"
      unfolding tried_ok_def
    proof (intro ballI impI conjI allI)
      fix m assume m: "m \<in> set order" "n_id m \<in> set (ps_tried s')"
      show "deps_done s' m"
      proof (cases "n_id m = n_id n")
        case True
        with same[OF m(1)] dn ah show ?thesis by (blast intro: deps_done_ahead)
      next
        case False
        with m t admitted(10) ah show ?thesis by (auto simp: tried_ok_def intro: deps_done_ahead)
      qed
      fix v assume v: "map_of (ps_tasks s') (n_id m) = Some v"
      show "frozen v \<or> t_state v = TReady"
      proof (cases "n_id m = n_id n")
        case True
        with v admitted(8) u' show ?thesis by simp
      next
        case False
        with v admitted(8,10) m t show ?thesis by (auto simp: tried_ok_def)
      qed
    qed
    moreover have "well_keyed s'" using wk admitted(8) r(1) wkn by (auto simp: well_keyed_def)
    moreover have "new_items_tried s0 s'" using ni admitted(8,10) by (auto simp: new_items_tried_def)
    moreover have "\<forall>m\<in>set order. n_id m \<in> set (ps_tried s') \<longrightarrow> deps_done sr m"
      using tr admitted(4,10) same by (auto simp: ready_deps_done)
    ultimately show ?thesis using ah admitted(3) by simp
  qed
  then show "well_keyed s'" "ahead s s'" "tried_ok order s'" "new_items_tried s0 s'"
    "\<forall>m\<in>set order. n_id m \<in> set (ps_tried s') \<longrightarrow> deps_done sr m"
    "\<not> admit \<Longrightarrow> ps_queue s' = ps_queue s \<and> ps_tried s' = ps_tried s" by auto
qed

section \<open>Rounds\<close>

lemma place_one_others:
  assumes "place_one l run_id p now admit ss s n = Inr s'" and "well_keyed s"
  shows "k \<noteq> n_id n \<Longrightarrow> map_of (ps_tasks s') k = map_of (ps_tasks s) k"
    and "k \<noteq> n_id n \<Longrightarrow> k \<in> set (ps_tried s') \<longleftrightarrow> k \<in> set (ps_tried s)"
    and "ps_moved s \<Longrightarrow> ps_moved s'"
    and "\<not> ps_moved s' \<Longrightarrow> map_option t_state (map_of (ps_tasks s') j) = map_option t_state (map_of (ps_tasks s) j)"
  using assms by (cases rule: place_one_cases; auto)+

lemma quiet_cong:
  assumes "map_of (ps_tasks s') (n_id n) = map_of (ps_tasks s) (n_id n)"
    and "n_id n \<in> set (ps_tried s') \<longleftrightarrow> n_id n \<in> set (ps_tried s)"
    and "\<And>dep. dep \<in> set (n_depends_on n) \<Longrightarrow> map_of ss' dep = map_of ss dep"
  shows "quiet p admit ss' s' n = quiet p admit ss s n"
proof -
  have "readiness n ss' = readiness n ss" by (rule readiness_cong) (rule assms(3))
  moreover have b: "blocked_by n ss' = blocked_by n ss" by (rule blocked_by_cong) (rule assms(3))
  moreover have "map_of ss' d = map_of ss d" if "d \<in> set (blocked_by n ss)" for d
    using that assms(3) by (simp add: blocked_by_def)
  then have "blocked_reason p n ss' = blocked_reason p n ss"
    unfolding blocked_reason_def b by (intro arg_cong2[where f = append] arg_cong[where f = "join '', ''"] map_cong) auto
  ultimately show ?thesis using assms(1,2) by (simp add: quiet_def placed_reason_def split: option.splits)
qed

lemma place_one_quiet_after:
  assumes "place_one l run_id p now admit ss s n = Inr s'" and "well_keyed s" and "tried_ok order s" and "n \<in> set order"
  shows "quiet p admit ss s' n"
  using assms(1,2)
proof (cases rule: place_one_cases)
  case quiet
  from quiet(2) show ?thesis
  proof
    assume "\<exists>t. map_of (ps_tasks s) (n_id n) = Some t \<and> \<not> frozen t \<and> \<not> forge_closed n
      \<and> readiness n ss = TReady \<and> n_id n \<in> set (ps_tried s)"
    with quiet(1) assms(3,4) show ?thesis by (auto simp: quiet_def tried_ok_def)
  qed (simp add: quiet(1))
next
  case (moved t t')
  then show ?thesis by (auto simp: quiet_def frozen_def placed_reason_def)
next
  case (admitted t t' q)
  with admit_task_result(2)[OF admitted(7)] show ?thesis by (auto simp: quiet_def)
qed

lemma place_one_quiet_before:
  assumes "place_one l run_id p now admit ss s n = Inr s'" and "well_keyed s" and "quiet p admit ss s n"
  shows "s' = s"
  using assms(1,2)
proof (cases rule: place_one_cases)
  case (moved t t')
  with assms(3) show ?thesis by (auto simp: quiet_def placed_reason_def split: if_splits)
next
  case (admitted t t' q)
  with assms(3) show ?thesis by (auto simp: quiet_def)
qed simp

text \<open>What the fold over the order of a round keeps.\<close>

definition round_inv :: "plan_node list \<Rightarrow> bool \<Rightarrow> pass \<Rightarrow> pass \<Rightarrow> pass \<Rightarrow> bool" where
  "round_inv order admit s0 sr s = (well_keyed s \<and> ahead sr s \<and> tried_ok order s \<and> new_items_tried s0 s
     \<and> (\<forall>m\<in>set order. n_id m \<in> set (ps_tried s) \<longrightarrow> deps_done sr m)
     \<and> (\<not> admit \<longrightarrow> ps_queue s = ps_queue sr \<and> ps_tried s = ps_tried sr))"

lemma round_inv_step:
  assumes "place_one l run_id p now admit (states_of (ps_tasks sr)) s n = Inr s'"
    and "n \<in> set order" and "distinct (map n_id order)" and "round_inv order admit s0 sr s"
  shows "round_inv order admit s0 sr s'"
proof -
  from assms(4) have i: "well_keyed s" "ahead sr s" "tried_ok order s" "new_items_tried s0 s"
    "\<forall>m\<in>set order. n_id m \<in> set (ps_tried s) \<longrightarrow> deps_done sr m" by (simp_all add: round_inv_def)
  note k = place_one_keeps[OF assms(1,2,3) i(1,2,5,3,4)]
  show ?thesis using k assms(4) ahead_trans[OF i(2) k(2)] by (auto simp: round_inv_def)
qed

lemma fold_quiet:
  assumes "foldR (place_one l run_id p now admit (states_of (ps_tasks sr))) s ns = Inr s'"
    and "set ns \<subseteq> set order" and "distinct (map n_id order)" and "distinct (map n_id ns)"
    and "round_inv order admit s0 sr s"
  shows "round_inv order admit s0 sr s' \<and> (\<forall>n\<in>set ns. quiet p admit (states_of (ps_tasks sr)) s' n)
    \<and> (\<forall>k. k \<notin> n_id ` set ns \<longrightarrow> map_of (ps_tasks s') k = map_of (ps_tasks s) k
          \<and> (k \<in> set (ps_tried s') \<longleftrightarrow> k \<in> set (ps_tried s)))
    \<and> (ps_moved s \<longrightarrow> ps_moved s')
    \<and> (\<not> ps_moved s' \<longrightarrow> (\<forall>j. map_option t_state (map_of (ps_tasks s') j) = map_option t_state (map_of (ps_tasks s) j)))"
  using assms
proof (induction ns arbitrary: s)
  case (Cons n ns)
  from Cons.prems(1) obtain s1 where s1: "place_one l run_id p now admit (states_of (ps_tasks sr)) s n = Inr s1"
    and f: "foldR (place_one l run_id p now admit (states_of (ps_tasks sr))) s1 ns = Inr s'" by auto
  have n: "n \<in> set order" using Cons.prems(2) by simp
  have wk: "well_keyed s" and tk: "tried_ok order s" using Cons.prems(5) by (simp_all add: round_inv_def)
  have ri: "round_inv order admit s0 sr s1" by (rule round_inv_step[OF s1 n Cons.prems(3,5)])
  have dns: "n_id n \<notin> n_id ` set ns" "distinct (map n_id ns)" using Cons.prems(4) by auto
  from Cons.IH[OF f _ Cons.prems(3) dns(2) ri] Cons.prems(2)
  have ih: "round_inv order admit s0 sr s'" "\<forall>n\<in>set ns. quiet p admit (states_of (ps_tasks sr)) s' n"
    "\<And>k. k \<notin> n_id ` set ns \<Longrightarrow> map_of (ps_tasks s') k = map_of (ps_tasks s1) k \<and> (k \<in> set (ps_tried s') \<longleftrightarrow> k \<in> set (ps_tried s1))"
    "ps_moved s1 \<longrightarrow> ps_moved s'"
    "\<not> ps_moved s' \<Longrightarrow> \<forall>j. map_option t_state (map_of (ps_tasks s') j) = map_option t_state (map_of (ps_tasks s1) j)"
    by auto
  note ot = place_one_others[OF s1 wk]
  have "quiet p admit (states_of (ps_tasks sr)) s' n"
    using place_one_quiet_after[OF s1 wk tk n] ih(3)[OF dns(1)] by (subst quiet_cong[of s' n s1]) auto
  moreover have "\<forall>k. k \<notin> n_id ` set (n # ns) \<longrightarrow> map_of (ps_tasks s') k = map_of (ps_tasks s) k
      \<and> (k \<in> set (ps_tried s') \<longleftrightarrow> k \<in> set (ps_tried s))"
    using ih(3) ot(1,2) by auto
  moreover have "map_option t_state (map_of (ps_tasks s') j) = map_option t_state (map_of (ps_tasks s) j)"
    if "\<not> ps_moved s'" for j using ih(4) ih(5)[OF that] ot(4)[of j] that by simp
  ultimately show ?case using ih(1,2,4) ot(3) by simp
qed simp

lemma foldR_place_split:
  assumes "foldR f s (xs @ n # ys) = Inr s'"
  obtains s1 s2 where "foldR f s xs = Inr s1" "f s1 n = Inr s2" "foldR f s2 ys = Inr s'"
  using assms by (auto simp: foldR_append)

definition pass_inv :: "plan_node list \<Rightarrow> pass \<Rightarrow> pass \<Rightarrow> bool" where
  "pass_inv order s0 s = (well_keyed s \<and> tried_ok order s \<and> new_items_tried s0 s)"

lemma round_inv_start:
  assumes "pass_inv order s0 s"
  shows "round_inv order admit s0 s (s\<lparr>ps_moved := False\<rparr>)"
  using assms by (auto simp: round_inv_def pass_inv_def well_keyed_def tried_ok_def new_items_tried_def ahead_def deps_done_def)

lemma place_round_ok:
  assumes r: "place_round l run_id p now admit order s = Inr s'" and inv: "pass_inv order s0 s"
    and d: "distinct (map n_id order)"
  shows "pass_inv order s0 s'" and "ahead s s'" and "\<not> admit \<Longrightarrow> ps_queue s' = ps_queue s \<and> ps_tried s' = ps_tried s"
    and "\<And>n. n \<in> set order \<Longrightarrow> quiet p admit (states_of (ps_tasks s)) s' n"
    and "\<And>k. k \<notin> n_id ` set order \<Longrightarrow> map_of (ps_tasks s') k = map_of (ps_tasks s) k"
    and "\<And>j. \<not> ps_moved s' \<Longrightarrow> map_option t_state (map_of (ps_tasks s') j) = map_option t_state (map_of (ps_tasks s) j)"
    and "\<And>n. n \<in> set order \<Longrightarrow> quiet p admit (states_of (ps_tasks s)) s n \<Longrightarrow>
      map_of (ps_tasks s') (n_id n) = map_of (ps_tasks s) (n_id n)"
proof -
  let ?f = "place_one l run_id p now admit (states_of (ps_tasks s))" and ?s = "s\<lparr>ps_moved := False\<rparr>"
  have f: "foldR ?f ?s order = Inr s'" using r by (simp add: place_round_def)
  note start = round_inv_start[OF inv, of admit]
  note q = fold_quiet[OF f subset_refl d d start]
  show "pass_inv order s0 s'" "ahead s s'" "\<not> admit \<Longrightarrow> ps_queue s' = ps_queue s \<and> ps_tried s' = ps_tried s"
    using q by (auto simp: round_inv_def pass_inv_def)
  show "\<And>n. n \<in> set order \<Longrightarrow> quiet p admit (states_of (ps_tasks s)) s' n"
    "\<And>k. k \<notin> n_id ` set order \<Longrightarrow> map_of (ps_tasks s') k = map_of (ps_tasks s) k"
    "\<And>j. \<not> ps_moved s' \<Longrightarrow> map_option t_state (map_of (ps_tasks s') j) = map_option t_state (map_of (ps_tasks s) j)"
    using q by auto
  fix n assume n: "n \<in> set order" and qs: "quiet p admit (states_of (ps_tasks s)) s n"
  then obtain xs ys where o: "order = xs @ n # ys" by (auto dest: split_list)
  have dx: "distinct (map n_id xs)" "distinct (map n_id ys)" "n_id n \<notin> n_id ` set xs" "n_id n \<notin> n_id ` set ys"
    using d o by auto
  from f obtain s1 s2 where s1: "foldR ?f ?s xs = Inr s1" "?f s1 n = Inr s2" "foldR ?f s2 ys = Inr s'"
    unfolding o by (rule foldR_place_split)
  have sub: "set xs \<subseteq> set order" "set ys \<subseteq> set order" using o by auto
  note q1 = fold_quiet[OF s1(1) sub(1) d dx(1) start]
  have wk: "well_keyed s1" using q1 by (simp add: round_inv_def)
  have same1: "map_of (ps_tasks s1) (n_id n) = map_of (ps_tasks s) (n_id n)"
    "n_id n \<in> set (ps_tried s1) \<longleftrightarrow> n_id n \<in> set (ps_tried s)" using q1 dx(3) by auto
  have "quiet p admit (states_of (ps_tasks s)) s1 n"
    using qs same1 by (subst quiet_cong[of s1 n s]) auto
  from place_one_quiet_before[OF s1(2) wk this] have "s2 = s1" .
  moreover have "round_inv order admit s0 s s1" using q1 by simp
  ultimately have "map_of (ps_tasks s') (n_id n) = map_of (ps_tasks s1) (n_id n)"
    using fold_quiet[OF s1(3) sub(2) d dx(2)] dx(4) by simp
  with same1 show "map_of (ps_tasks s') (n_id n) = map_of (ps_tasks s) (n_id n)" by simp
qed

section \<open>The rounds settle\<close>

definition depth :: "plan_node list \<Rightarrow> ident \<Rightarrow> nat" where
  "depth order x = card {y \<in> n_id ` set order. (x, y) \<in> (dep_edges order)\<^sup>+}"

lemma depth_dep:
  assumes "acyclic (dep_edges order)" and "n \<in> set order" and "dep \<in> set (n_depends_on n)" and "dep \<in> n_id ` set order"
  shows "depth order dep < depth order (n_id n)"
  unfolding depth_def
proof (rule psubset_card_mono)
  have e: "(n_id n, dep) \<in> dep_edges order" using assms(2,3) by (auto simp: dep_edges_def)
  then have "dep \<in> {y \<in> n_id ` set order. (n_id n, y) \<in> (dep_edges order)\<^sup>+}" using assms(4) by auto
  moreover have "dep \<notin> {y \<in> n_id ` set order. (dep, y) \<in> (dep_edges order)\<^sup>+}" using assms(1) by (auto simp: acyclic_def)
  moreover have "{y \<in> n_id ` set order. (dep, y) \<in> (dep_edges order)\<^sup>+} \<subseteq> {y \<in> n_id ` set order. (n_id n, y) \<in> (dep_edges order)\<^sup>+}"
    using e by (auto intro: trancl_into_trancl2)
  ultimately show "{y \<in> n_id ` set order. (dep, y) \<in> (dep_edges order)\<^sup>+} \<subset> {y \<in> n_id ` set order. (n_id n, y) \<in> (dep_edges order)\<^sup>+}"
    by blast
qed simp

lemma depth_bound:
  assumes "acyclic (dep_edges order)" and "n \<in> set order"
  shows "depth order (n_id n) < length order"
proof -
  have "depth order (n_id n) < card (n_id ` set order)"
    unfolding depth_def using assms by (intro psubset_card_mono) (auto simp: acyclic_def)
  also have "\<dots> \<le> length order" by (metis card_length length_map list.set_map)
  finally show ?thesis .
qed

lemma place_rounds_quiet:
  assumes "place_rounds k l run_id p now admit order s = Inr s'" and "pass_inv order s0 s"
    and "distinct (map n_id order)" and "acyclic (dep_edges order)" and "length order \<le> j + k"
    and "\<forall>n\<in>set order. depth order (n_id n) < j \<longrightarrow> quiet p admit (states_of (ps_tasks s)) s n"
  shows "pass_inv order s0 s' \<and> ahead s s' \<and> (\<not> admit \<longrightarrow> ps_queue s' = ps_queue s \<and> ps_tried s' = ps_tried s)
    \<and> (\<forall>k. k \<notin> n_id ` set order \<longrightarrow> map_of (ps_tasks s') k = map_of (ps_tasks s) k)
    \<and> (\<forall>n\<in>set order. quiet p admit (states_of (ps_tasks s')) s' n)"
  using assms(1,2,5,6)
proof (induction k arbitrary: s j)
  case 0
  have "quiet p admit (states_of (ps_tasks s)) s n" if "n \<in> set order" for n
    using 0(3,4) depth_bound[OF assms(4) that] that by auto
  with 0 show ?case by simp
next
  case (Suc k)
  from Suc.prems(1) obtain s1 where r: "place_round l run_id p now admit order s = Inr s1"
    and rest: "(if ps_moved s1 then place_rounds k l run_id p now admit order s1 else Inr s1) = Inr s'" by auto
  note ok = place_round_ok[OF r Suc.prems(2) assms(3)]
  show ?case
  proof (cases "ps_moved s1")
    case True
    have "quiet p admit (states_of (ps_tasks s1)) s1 n" if n: "n \<in> set order" "depth order (n_id n) < Suc j" for n
    proof -
      have dep: "map_of (ps_tasks s1) dep = map_of (ps_tasks s) dep" if "dep \<in> set (n_depends_on n)" for dep
      proof (cases "dep \<in> n_id ` set order")
        case True
        then obtain m where m: "m \<in> set order" "n_id m = dep" by auto
        have "depth order dep < j" using depth_dep[OF assms(4) n(1) that True] n(2) by simp
        with ok(7)[OF m(1)] Suc.prems(4) m show ?thesis by simp
      qed (rule ok(5))
      show ?thesis using ok(4)[OF n(1)] dep by (subst quiet_cong[of s1 n s1]) auto
    qed
    with Suc.IH[of s1 "Suc j"] rest True ok(1) Suc.prems(3)
    have ih: "pass_inv order s0 s' \<and> ahead s1 s' \<and> (\<not> admit \<longrightarrow> ps_queue s' = ps_queue s1 \<and> ps_tried s' = ps_tried s1)
      \<and> (\<forall>k. k \<notin> n_id ` set order \<longrightarrow> map_of (ps_tasks s') k = map_of (ps_tasks s1) k)
      \<and> (\<forall>n\<in>set order. quiet p admit (states_of (ps_tasks s')) s' n)" by simp
    with ok(2,3,5) show ?thesis by (auto intro: ahead_trans)
  next
    case False
    with rest have "s' = s1" by simp
    have "quiet p admit (states_of (ps_tasks s1)) s1 n" if n: "n \<in> set order" for n
      using ok(4)[OF n] ok(6)[OF False] by (subst quiet_cong[of s1 n s1]) auto
    with \<open>s' = s1\<close> ok(1,2,3,5) show ?thesis by simp
  qed
qed

lemma place_ok:
  assumes "place l run_id p now admit order s = Inr s'" and "pass_inv order s s"
    and "distinct (map n_id order)" and "acyclic (dep_edges order)"
  shows "pass_inv order s s'" and "ahead s s'" and "\<not> admit \<Longrightarrow> ps_queue s' = ps_queue s \<and> ps_tried s' = ps_tried s"
    and "\<And>n. n \<in> set order \<Longrightarrow> quiet p admit (states_of (ps_tasks s')) s' n"
    and "\<And>k. k \<notin> n_id ` set order \<Longrightarrow> map_of (ps_tasks s') k = map_of (ps_tasks s) k"
  using place_rounds_quiet[OF assms(1)[unfolded place_def] assms(2,3,4), of 0] by auto

end
