(* ===== verification/EpicState.thy ===== *)
theory EpicState
  imports EpicPass
begin

text \<open>
  A pass over an epic run as the tables see it: the rows a task has before and after, what the
  pass writes of its changes, and what it keeps.
\<close>

section \<open>Task rows\<close>

definition task_at :: "epic_db \<Rightarrow> ident \<Rightarrow> ident \<Rightarrow> epic_task option" where
  "task_at d i k = map_option snd (find (\<lambda>(j, t). j = i \<and> t_node_id t = k) (eb_tasks d))"

definition epic_wf :: "epic_db \<Rightarrow> bool" where
  "epic_wf d = (distinct (map y_epic_run_id (eb_runs d)) \<and> distinct (map (\<lambda>(i, t). (i, t_node_id t)) (eb_tasks d))
     \<and> fst ` set (eb_tasks d) \<subseteq> y_epic_run_id ` set (eb_runs d))"

lemma find_put_task:
  "find (\<lambda>(j, u). j = a \<and> t_node_id u = k) (put_task i t rows) =
     (if a = i \<and> k = t_node_id t then Some (i, t) else find (\<lambda>(j, u). j = a \<and> t_node_id u = k) rows)"
  by (induction i t rows rule: put_task.induct) auto

lemma keys_put_task:
  "set (map (\<lambda>(i, t). (i, t_node_id t)) (put_task i t rows)) = insert (i, t_node_id t) (set (map (\<lambda>(i, t). (i, t_node_id t)) rows))"
  by (induction i t rows rule: put_task.induct) auto

lemma distinct_put_task:
  "distinct (map (\<lambda>(i, t). (i, t_node_id t)) rows) \<Longrightarrow> distinct (map (\<lambda>(i, t). (i, t_node_id t)) (put_task i t rows))"
proof (induction i t rows rule: put_task.induct)
  case (2 i t j u rows)
  then show ?case using keys_put_task[of i t rows] by auto
qed simp

lemma find_put_tasks:
  "find (\<lambda>(j, u). j = a \<and> t_node_id u = k) (foldl (\<lambda>rows t. put_task i (f t) rows) rows ts) =
     (case if a = i then find (\<lambda>t. t_node_id (f t) = k) (rev ts) else None of
        Some t \<Rightarrow> Some (i, f t) | None \<Rightarrow> find (\<lambda>(j, u). j = a \<and> t_node_id u = k) rows)"
  by (induction ts rule: rev_induct) (auto simp: find_put_task split: option.splits)

lemma distinct_put_tasks:
  "distinct (map (\<lambda>(i, t). (i, t_node_id t)) rows) \<Longrightarrow>
    distinct (map (\<lambda>(i, t). (i, t_node_id t)) (foldl (\<lambda>rows t. put_task i (f t) rows) rows ts))"
  by (induction ts arbitrary: rows) (auto intro: distinct_put_task)

lemma moved_run_id [simp]: "y_epic_run_id (moved_run s now r) = y_epic_run_id r"
  by (simp add: moved_run_def Let_def split: option.splits)

lemma moved_run_frame [simp]:
  "y_plan_id (moved_run s now r) = y_plan_id r" "y_node_id (moved_run s now r) = y_node_id r"
  "y_created_at (moved_run s now r) = y_created_at r"
  by (simp_all add: moved_run_def Let_def split: option.splits)

lemma moved_run_state: "y_state (moved_run s now r) = (case s of None \<Rightarrow> y_state r | Some x \<Rightarrow> x)"
  by (simp add: moved_run_def Let_def split: option.splits)

lemma run_row_of_save:
  "run_row_of (run_save d i ts now st ev a) j =
     (if j = i then map_option (moved_run st now) (run_row_of d i) else run_row_of d j)"
proof -
  let ?g = "\<lambda>r. if y_epic_run_id r = i then moved_run st now r else r"
  have "find (\<lambda>r. y_epic_run_id r = j) (map ?g rs) = map_option ?g (find (\<lambda>r. y_epic_run_id r = j) rs)" for rs
    by (rule find_map_update) simp
  moreover have "y_epic_run_id r = j" if "find (\<lambda>r. y_epic_run_id r = j) rs = Some r" for r rs
    using find_SomeD[OF that] by simp
  ultimately show ?thesis
    by (cases "find (\<lambda>r. y_epic_run_id r = j) (eb_runs d)") (auto simp: run_save_def run_row_of_def)
qed

lemma task_at_save:
  "task_at (run_save d i ts now st ev a) j k =
     (case if j = i \<and> run_row_of d i \<noteq> None then find (\<lambda>t. t_node_id t = k) (rev ts) else None of
        Some t \<Rightarrow> Some (t\<lparr>t_updated_at := now\<rparr>) | None \<Rightarrow> task_at d j k)"
  by (auto simp: run_save_def task_at_def find_put_tasks[where f = "\<lambda>t. t\<lparr>t_updated_at := now\<rparr>"] split: option.splits)

lemma run_save_frame [simp]:
  "eb_items (run_save d i ts now st ev a) = eb_items d"
  by (simp add: run_save_def)

lemma runs_put_task: "fst ` set (put_task i t rows) \<subseteq> insert i (fst ` set rows)"
  by (induction i t rows rule: put_task.induct) auto

lemma runs_put_tasks: "fst ` set (foldl (\<lambda>rows t. put_task i (f t) rows) rows ts) \<subseteq> insert i (fst ` set rows)"
proof (induction ts rule: rev_induct)
  case (snoc t ts)
  show ?case
    using order_trans[OF runs_put_task[of i "f t"] insert_mono[OF snoc]] by simp
qed auto

lemma run_save_ids: "map y_epic_run_id (eb_runs (run_save d i ts now st ev a)) = map y_epic_run_id (eb_runs d)"
  by (simp add: run_save_def)

lemma run_save_wf:
  assumes "epic_wf d"
  shows "epic_wf (run_save d i ts now st ev a)"
proof (cases "run_row_of d i")
  case (Some r)
  let ?rows = "foldl (\<lambda>rows t. put_task i (t\<lparr>t_updated_at := now\<rparr>) rows) (eb_tasks d) ts"
  from Some have "i \<in> y_epic_run_id ` set (eb_runs d)" by (auto simp: run_row_of_def dest: find_SomeD)
  then have "fst ` set ?rows \<subseteq> y_epic_run_id ` set (eb_runs d)"
    using runs_put_tasks[of i "\<lambda>t. t\<lparr>t_updated_at := now\<rparr>" "eb_tasks d" ts] assms by (auto simp: epic_wf_def)
  moreover have "eb_tasks (run_save d i ts now st ev a) = ?rows" using Some by (simp add: run_save_def)
  moreover have "y_epic_run_id ` set (eb_runs (run_save d i ts now st ev a)) = y_epic_run_id ` set (eb_runs d)"
    by (metis run_save_ids list.set_map)
  ultimately show ?thesis using assms distinct_put_tasks[of "eb_tasks d" i "\<lambda>t. t\<lparr>t_updated_at := now\<rparr>" ts]
    by (simp add: epic_wf_def run_save_ids)
qed (use assms in \<open>simp add: run_save_def\<close>)

lemma with_items_frame [simp]:
  "run_row_of (d\<lparr>eb_items := q\<rparr>) i = run_row_of d i" "task_at (d\<lparr>eb_items := q\<rparr>) i k = task_at d i k"
  "epic_wf (d\<lparr>eb_items := q\<rparr>) = epic_wf d" "run_get (d\<lparr>eb_items := q\<rparr>) i = run_get d i"
  by (simp_all add: run_row_of_def task_at_def epic_wf_def run_get_def tasks_of_def)

lemma task_at_iff:
  assumes "epic_wf d"
  shows "task_at d i k = Some t \<longleftrightarrow> (i, t) \<in> set (eb_tasks d) \<and> t_node_id t = k"
proof
  assume "task_at d i k = Some t"
  then show "(i, t) \<in> set (eb_tasks d) \<and> t_node_id t = k"
    by (auto simp: task_at_def dest: find_SomeD)
next
  let ?f = "\<lambda>(i :: ident, t :: epic_task). (i, t_node_id t)"
  assume "(i, t) \<in> set (eb_tasks d) \<and> t_node_id t = k"
  then have "find (\<lambda>y. ?f y = (i, k)) (eb_tasks d) = Some (i, t)"
    using find_unique[of ?f "eb_tasks d" "(i, t)"] assms by (auto simp: epic_wf_def)
  moreover have "(\<lambda>y. ?f y = (i, k)) = (\<lambda>(j, t). j = i \<and> t_node_id t = k)" by auto
  ultimately have "find (\<lambda>(j, t). j = i \<and> t_node_id t = k) (eb_tasks d) = Some (i, t)" by simp
  then show "task_at d i k = Some t" by (simp add: task_at_def)
qed

lemma run_get_SomeD:
  assumes "run_get d i = Some r"
  shows "run_row_of d i = Some (run_row.truncate r)" and "y_epic_run_id r = i"
    and "set (g_tasks r) = {t. (i, t) \<in> set (eb_tasks d)}"
    and "epic_wf d \<Longrightarrow> distinct (map t_node_id (g_tasks r))"
proof -
  from assms obtain row where row: "run_row_of d i = Some row" "r = run_of row (tasks_of d i)"
    by (auto simp: run_get_def)
  show "run_row_of d i = Some (run_row.truncate r)" using row by (simp add: run_of_def run_row.defs)
  show "y_epic_run_id r = i" using row by (auto simp: run_row_of_def run_of_def run_row.defs dest: find_SomeD)
  show "set (g_tasks r) = {t. (i, t) \<in> set (eb_tasks d)}"
    using row by (auto simp: run_of_def run_row.defs tasks_of_def image_iff)
  assume "epic_wf d"
  then have "distinct (map (\<lambda>(i, t). (i, t_node_id t)) (filter (\<lambda>r. fst r = i) (eb_tasks d)))"
    by (simp add: epic_wf_def distinct_map_filterI)
  then have "distinct (map t_node_id (tasks_of d i))"
    by (auto simp: tasks_of_def distinct_map inj_on_def)
  then show "distinct (map t_node_id (g_tasks r))"
    using row by (simp add: run_of_def run_row.defs sort_key_distinct_map)
qed

lemma map_of_keyed_tasks:
  assumes "distinct (map t_node_id ts)"
  shows "map_of (keyed_tasks ts) k = Some t \<longleftrightarrow> t \<in> set ts \<and> t_node_id t = k"
proof -
  have d: "distinct (map fst (rev (map (\<lambda>m. (t_node_id m, m)) ts)))" using assms by (simp add: rev_map[symmetric] comp_def)
  show ?thesis unfolding keyed_tasks_def map_of_foldl_dict_set using map_of_eq_Some_iff[OF d, of k t] by auto
qed

lemma keyed_tasks_row:
  assumes "epic_wf d" and "run_get d i = Some r"
  shows "map_of (keyed_tasks (g_tasks r)) k = task_at d i k"
proof -
  have "map_of (keyed_tasks (g_tasks r)) k = Some t \<longleftrightarrow> task_at d i k = Some t" for t
    using map_of_keyed_tasks[OF run_get_SomeD(4)[OF assms(2,1)], of k t] run_get_SomeD(3)[OF assms(2)]
      task_at_iff[OF assms(1), of i k t] by simp
  then show ?thesis by (cases "task_at d i k"; cases "map_of (keyed_tasks (g_tasks r)) k") auto
qed

section \<open>What a pass changes\<close>

text \<open>\<open>changed\<close> holds the difference from the rows the pass began with, each task under its
  own key, and no settled one.\<close>

definition recorded :: "tasks \<Rightarrow> pass \<Rightarrow> bool" where
  "recorded before s = (map_of (ps_tasks s) = map_of before ++ map_of (ps_changed s)
     \<and> distinct (map fst (ps_tasks s)) \<and> distinct (map fst (ps_changed s)) \<and> (\<forall>kt\<in>set (ps_changed s). fst kt = t_node_id (snd kt))
     \<and> (\<forall>k t. map_of before k = Some t \<and> settled (t_state t) \<longrightarrow> k \<notin> dom (map_of (ps_changed s))))"

lemma recorded_put:
  assumes "recorded before s" and "\<And>u. map_of (ps_tasks s) (t_node_id t) = Some u \<Longrightarrow> settled (t_state u) \<Longrightarrow> t = u"
  shows "recorded before (put s t)"
proof (cases "map_of (ps_tasks s) (t_node_id t) = Some t")
  case True
  with assms(1) show ?thesis by (simp add: put_def)
next
  case False
  have "\<not> settled (t_state u)" if "map_of before (t_node_id t) = Some u" for u
  proof
    assume st: "settled (t_state u)"
    with assms(1) that have "map_of (ps_tasks s) (t_node_id t) = Some u"
      by (auto simp: recorded_def map_add_def split: option.splits)
    with st assms(2) False show False by auto
  qed
  with assms(1) False set_dict_set[of "t_node_id t" t "ps_changed s"] show ?thesis
    by (auto simp: recorded_def put_def intro: distinct_dict_set)
qed

lemma recorded_frame [simp]:
  "recorded before (s\<lparr>ps_moved := m\<rparr>) = recorded before s"
  "recorded before (s\<lparr>ps_queue := q, ps_tried := l\<rparr>) = recorded before s"
  by (simp_all add: recorded_def)

lemma recorded_place_one:
  assumes "place_one l run_id p now admit ss s n = Inr s'" and "well_keyed s" and "recorded before s"
  shows "recorded before s'"
proof (cases "map_of (ps_tasks s) (n_id n)")
  case None
  with assms show ?thesis by (simp add: place_one_def)
next
  case (Some t)
  have key: "t_node_id t = n_id n" using assms(2) Some by (simp add: well_keyed_def)
  show ?thesis
  proof (cases "t_item_id t \<noteq> None \<or> settled (t_state t) \<or> t_state t = TFailed")
    case True
    with Some assms show ?thesis by (simp add: place_one_def)
  next
    case False
    have ok: "recorded before (put s t')" if "t_node_id t' = n_id n" for t'
      using recorded_put[OF assms(3), of t'] that Some False by auto
    have ok': "recorded before (put (s\<lparr>ps_queue := q, ps_tried := j\<rparr>) t')" if "t_node_id t' = n_id n" for t' q j
      using recorded_put[of before "s\<lparr>ps_queue := q, ps_tried := j\<rparr>" t'] assms(3) that Some False by auto
    from assms(1,3) Some False key show ?thesis
      by (auto simp: place_one_def Let_def ok ok' admit_task_result(1) split: if_splits prod.splits option.splits)
  qed
qed

lemma well_keyed_place_one:
  assumes "place_one l run_id p now admit ss s n = Inr s'" and "well_keyed s"
  shows "well_keyed s'"
  using assms
proof (cases rule: place_one_cases)
  case (admitted t t' q)
  with assms(2) admit_task_result(1)[OF admitted(7)] show ?thesis by (auto simp: well_keyed_def)
qed (use assms(2) in \<open>auto simp: well_keyed_def\<close>)

lemma recorded_place_rounds:
  assumes "place_rounds k l run_id p now admit order s = Inr s'" and "well_keyed s" and "recorded before s"
  shows "recorded before s'"
  using assms
proof (induction k arbitrary: s)
  case (Suc k)
  from Suc.prems(1) obtain s1 where r: "place_round l run_id p now admit order s = Inr s1"
    and rest: "(if ps_moved s1 then place_rounds k l run_id p now admit order s1 else Inr s1) = Inr s'" by auto
  have wk: "well_keyed (s\<lparr>ps_moved := False\<rparr>)" using Suc.prems(2) by (simp add: well_keyed_def)
  have "well_keyed s1 \<and> recorded before s1"
    by (rule foldR_invariant[where P = "\<lambda>u. well_keyed u \<and> recorded before u", OF r[unfolded place_round_def]])
       (use Suc.prems(3) wk in \<open>auto intro: well_keyed_place_one recorded_place_one\<close>)
  then show ?case using Suc.IH[of s1] rest by (cases "ps_moved s1") auto
qed simp

lemma follow_frame [simp]: "t_node_id (follow q t) = t_node_id t"
  by (simp add: follow_def split: option.splits)

lemma follow_settled [simp]: "settled (t_state t) \<Longrightarrow> follow q t = t"
  by (simp add: follow_def split: option.splits)

lemma follow_item: "t_item_id (follow q t) = Some x \<Longrightarrow> t_item_id t = Some x"
  by (auto simp: follow_def split: option.splits if_splits prod.splits)

lemma follow_all:
  assumes "distinct (map t_node_id ts)" and "\<forall>t\<in>set ts. map_of (ps_tasks s) (t_node_id t) = Some t" and "recorded before s"
    and "s' = foldl (\<lambda>s' t. put s' (follow q t)) s ts"
  shows "recorded before s' \<and> ps_tried s' = ps_tried s \<and> ps_queue s' = ps_queue s
    \<and> (\<forall>k. map_of (ps_tasks s') k = (case find (\<lambda>t. t_node_id t = k) ts of
      Some t \<Rightarrow> Some (follow q t) | None \<Rightarrow> map_of (ps_tasks s) k))"
  using assms
proof (induction ts arbitrary: s)
  case (Cons t ts)
  let ?s = "put s (follow q t)"
  have "recorded before ?s" by (rule recorded_put[OF Cons.prems(3)]) (use Cons.prems(2) in auto)
  moreover have "\<forall>u\<in>set ts. map_of (ps_tasks ?s) (t_node_id u) = Some u"
    using Cons.prems(1,2) by (auto simp: image_iff)
  ultimately have ih: "recorded before s' \<and> ps_tried s' = ps_tried ?s \<and> ps_queue s' = ps_queue ?s
    \<and> (\<forall>k. map_of (ps_tasks s') k = (case find (\<lambda>t. t_node_id t = k) ts of
      Some t \<Rightarrow> Some (follow q t) | None \<Rightarrow> map_of (ps_tasks ?s) k))"
    using Cons.IH[of ?s] Cons.prems(1,4) by simp
  have "find (\<lambda>u. t_node_id u = t_node_id t) ts = None"
    using Cons.prems(1) by (simp add: find_None_iff') (metis imageI)
  with ih show ?case by (auto split: option.splits)
qed simp

text \<open>The state a pass starts with, and after what was admitted has been followed.\<close>

definition start_inv :: "tasks \<Rightarrow> work_item list \<Rightarrow> pass \<Rightarrow> bool" where
  "start_inv before q s = (recorded before s \<and> well_keyed s
     \<and> ps_tried s = [] \<and> ps_queue s = q
     \<and> (\<forall>k t. map_of (ps_tasks s) k = Some t \<longrightarrow> map_of before k = Some t
          \<or> map_of before k = None \<and> t_item_id t = None \<and> t_state t = TWaiting))"

lemma start_inv_at:
  "start_inv before q s \<Longrightarrow> map_of (ps_tasks s) k = Some t \<Longrightarrow> map_of before k = Some t
     \<or> map_of before k = None \<and> t_item_id t = None \<and> t_state t = TWaiting"
  by (simp add: start_inv_def)

lemma start_inv_item:
  "start_inv before q s \<Longrightarrow> map_of (ps_tasks s) k = Some t \<Longrightarrow> t_item_id t = Some x \<Longrightarrow> map_of before k = Some t"
  using start_inv_at[of before q s k t] by simp

lemma start_inv_new:
  assumes "start_inv before q s" and "n_id n \<notin> fst ` set (ps_tasks s)"
  shows "start_inv before q (put s (new_task (n_id n) (n_position n) now))"
proof -
  have none: "map_of (ps_tasks s) (n_id n) = None" using assms(2) by (simp add: map_of_eq_None_iff)
  have "recorded before (put s (new_task (n_id n) (n_position n) now))"
    by (rule recorded_put) (use assms(1) none in \<open>auto simp: start_inv_def new_task_def\<close>)
  moreover have "map_of before (n_id n) = None"
    using none assms(1) by (auto simp: start_inv_def recorded_def)
  ultimately show ?thesis using assms(1) by (auto simp: start_inv_def well_keyed_def new_task_def)
qed

lemma pass_start_inv:
  assumes "distinct (map t_node_id (g_tasks r))"
  shows "start_inv (keyed_tasks (g_tasks r)) q (pass_start r kids q)"
proof -
  let ?b = "keyed_tasks (g_tasks r)"
  let ?s = "\<lparr>ps_queue = q, ps_tasks = ?b, ps_changed = [], ps_tried = [], ps_moved = False\<rparr>"
  have "start_inv ?b q ?s"
    using map_of_keyed_tasks[OF assms] distinct_foldl_dict_set[of "[]" t_node_id "g_tasks r"]
    by (auto simp: start_inv_def recorded_def well_keyed_def keyed_tasks_def)
  moreover have "start_inv ?b q (foldl (\<lambda>s n. if followed n \<and> n_id n \<notin> fst ` set (ps_tasks s)
      then put s (new_task (n_id n) (n_position n) 0) else s) s kids)" if "start_inv ?b q s" for s
    using that by (induction kids arbitrary: s) (auto intro: start_inv_new)
  ultimately show ?thesis by (simp add: pass_start_def Let_def)
qed

lemma pass_follow_ok:
  assumes "start_inv before q s"
  shows "recorded before (pass_follow s)" and "well_keyed (pass_follow s)" and "ps_tried (pass_follow s) = []"
    and "ps_queue (pass_follow s) = q"
    and "map_of (ps_tasks (pass_follow s)) k = map_option (follow q) (map_of (ps_tasks s) k)"
proof -
  let ?ts = "map snd (ps_tasks s)"
  have d: "distinct (map fst (ps_tasks s))" and wk: "well_keyed s" using assms by (simp_all add: start_inv_def recorded_def)
  have keys: "t_node_id t = k" if "(k, t) \<in> set (ps_tasks s)" for k t
    using map_of_is_SomeI[OF d that] wk by (simp add: well_keyed_def)
  have m: "map t_node_id ?ts = map fst (ps_tasks s)" using keys by auto
  have dts: "distinct (map t_node_id ?ts)" using d unfolding m .
  have own: "\<forall>t\<in>set ?ts. map_of (ps_tasks s) (t_node_id t) = Some t"
    using map_of_is_SomeI[OF d] keys by auto
  have found: "find (\<lambda>t. t_node_id t = k) ?ts = map_of (ps_tasks s) k" for k
  proof (cases "map_of (ps_tasks s) k")
    case None
    then have "k \<notin> t_node_id ` set ?ts" using m by (metis list.set_map map_of_eq_None_iff)
    with None show ?thesis by (auto simp: find_None_iff')
  next
    case (Some t)
    then have "(k, t) \<in> set (ps_tasks s)" by (rule map_of_SomeD)
    then have "t \<in> set ?ts" "t_node_id t = k" using keys by force+
    with find_unique[OF dts] Some show ?thesis by metis
  qed
  note f = follow_all[OF dts own, of before "pass_follow s" q]
  have all: "recorded before (pass_follow s) \<and> ps_tried (pass_follow s) = ps_tried s \<and> ps_queue (pass_follow s) = ps_queue s
    \<and> (\<forall>k. map_of (ps_tasks (pass_follow s)) k = (case map_of (ps_tasks s) k of
      Some t \<Rightarrow> Some (follow q t) | None \<Rightarrow> map_of (ps_tasks s) k))"
    using f assms by (simp add: found pass_follow_def start_inv_def)
  then show "recorded before (pass_follow s)" "ps_tried (pass_follow s) = []" "ps_queue (pass_follow s) = q"
    using assms by (auto simp: start_inv_def)
  show at: "map_of (ps_tasks (pass_follow s)) k = map_option (follow q) (map_of (ps_tasks s) k)" for k
    using all by (auto split: option.splits)
  show "well_keyed (pass_follow s)" using wk by (auto simp: well_keyed_def at)
qed

section \<open>The pass of a run\<close>

definition pass_order :: "epic_run \<Rightarrow> plan \<Rightarrow> work_item list \<Rightarrow> plan_node list" where
  "pass_order r p q = filter (\<lambda>n. n_id n \<in> fst ` set (ps_tasks (pass_start r (children p (y_node_id r)) q)))
     (children p (y_node_id r))"

definition followed_pass :: "epic_run \<Rightarrow> plan \<Rightarrow> work_item list \<Rightarrow> pass" where
  "followed_pass r p q = pass_follow (pass_start r (children p (y_node_id r)) q)"

definition pass_of :: "daemon \<Rightarrow> epic_run \<Rightarrow> plan \<Rightarrow> timestamp \<Rightarrow> work_item list \<Rightarrow> work_item list + pass" where
  "pass_of l r p now q = (if live_run (y_state r)
     then place l (y_epic_run_id r) p now (y_state r = RunRunning) (pass_order r p q) (followed_pass r p q)
     else Inr (followed_pass r p q))"

definition pass_finished :: "epic_run \<Rightarrow> pass \<Rightarrow> bool" where
  "pass_finished r s = (live_run (y_state r) \<and> list_all (\<lambda>(k, t). done_state (t_state t)) (ps_tasks s))"

definition pass_written :: "epic_run \<Rightarrow> plan \<Rightarrow> timestamp \<Rightarrow> epic_db \<Rightarrow> pass \<Rightarrow> epic_db" where
  "pass_written r p now e s = (if ps_changed s \<noteq> [] \<or> pass_finished r s
     then run_save (e\<lparr>eb_items := ps_queue s\<rparr>) (y_epic_run_id r) (map snd (ps_changed s)) now
       (if pass_finished r s then Some RunCompleted else None)
       (pass_events (run_row.truncate r) (pass_order r p (eb_items e)) (keyed_tasks (g_tasks r)) (ps_tasks s) (ps_changed s)
         @ (if pass_finished r s then [run_event ''plan.run.completed'' (run_row.truncate r)
             [(''landed'', keys_in TLanded (ps_tasks s)), (''closed'', keys_in TClosed (ps_tasks s)),
              (''skipped'', keys_in TSkipped (ps_tasks s))]] else [])) None
     else e\<lparr>eb_items := ps_queue s\<rparr>)"

lemma drive_pass:
  assumes "run_get (wo_epics w) i = Some r" and "y_state r \<noteq> RunCompleted"
    and "store_get (wo_plans w) (y_plan_id r) = Some p" and "plan_node_of p (y_node_id r) \<noteq> None"
  shows "\<exists>c. drive l i now w = (case pass_of l r p now (eb_items (wo_epics w)) of
      Inl q \<Rightarrow> (with_queue w q, False)
    | Inr s \<Rightarrow> let w' = w\<lparr>wo_epics := pass_written r p now (wo_epics w) s\<rparr>
               in (if c s then look l (y_plan_id r) (y_node_id r) now w' else w', True))"
proof -
  have i: "y_epic_run_id r = i" by (rule run_get_SomeD(2)[OF assms(1)])
  let ?c = "\<lambda>s. list_ex (\<lambda>(k, t). (t_state t = TLanded \<or> t_state t = TClosed)
      \<and> (case map_of (keyed_tasks (g_tasks r)) k of None \<Rightarrow> False | Some b \<Rightarrow> t_state b \<noteq> t_state t)) (ps_changed s)
      \<or> live_run (y_state r) \<and> list_all (\<lambda>(k, t). done_state (t_state t)) (ps_tasks s)"
  show ?thesis
    unfolding drive_def Let_def assms(1,3) option.case if_not_P[OF assms(2)] if_not_P[OF assms(4)]
      pass_of_def pass_order_def followed_pass_def pass_finished_def pass_written_def i
    by (rule exI[of _ ?c]) (rule refl)
qed

lemma drive_cases:
  assumes "drive l i now w = (w', b)"
  obtains (idle) "w' = w" "b"
  | (raised) r p q where "run_get (wo_epics w) i = Some r" "pass_of l r p now (eb_items (wo_epics w)) = Inl q"
      "w' = with_queue w q" "\<not> b"
  | (passed) r p s where "run_get (wo_epics w) i = Some r" "y_state r \<noteq> RunCompleted"
      "store_get (wo_plans w) (y_plan_id r) = Some p" "plan_node_of p (y_node_id r) \<noteq> None"
      "pass_of l r p now (eb_items (wo_epics w)) = Inr s" "b" "wo_epics w' = pass_written r p now (wo_epics w) s"
proof (cases "\<exists>r p. run_get (wo_epics w) i = Some r \<and> y_state r \<noteq> RunCompleted
    \<and> store_get (wo_plans w) (y_plan_id r) = Some p \<and> plan_node_of p (y_node_id r) \<noteq> None")
  case False
  have "drive l i now w = (w, True)"
  proof (cases "run_get (wo_epics w) i")
    case (Some r)
    with False show ?thesis
      unfolding drive_def Let_def by (cases "store_get (wo_plans w) (y_plan_id r)") (auto simp del: store_get_None)
  qed (simp add: drive_def)
  with assms show thesis by (intro idle) auto
next
  case True
  then obtain r p where rp: "run_get (wo_epics w) i = Some r" "y_state r \<noteq> RunCompleted"
    "store_get (wo_plans w) (y_plan_id r) = Some p" "plan_node_of p (y_node_id r) \<noteq> None" by blast
  from drive_pass[OF this, of l now] obtain c where c: "drive l i now w = (case pass_of l r p now (eb_items (wo_epics w)) of
      Inl q \<Rightarrow> (with_queue w q, False)
    | Inr s \<Rightarrow> let w' = w\<lparr>wo_epics := pass_written r p now (wo_epics w) s\<rparr>
               in (if c s then look l (y_plan_id r) (y_node_id r) now w' else w', True))" by blast
  show thesis
  proof (cases "pass_of l r p now (eb_items (wo_epics w))")
    case (Inl q)
    with assms c rp(1) show thesis by (intro raised[of r p q]) auto
  next
    case (Inr s)
    with assms c rp show thesis by (intro passed[of r p s]) (auto simp: look_def Let_def)
  qed
qed

text \<open>What the rows of the run hold after a pass: the tasks of the pass, up to the time of the
  last write.\<close>

lemma find_changed:
  assumes "distinct (map fst ch)" and "\<forall>kt\<in>set ch. fst kt = t_node_id (snd kt)"
  shows "find (\<lambda>t. t_node_id t = k) (rev (map snd ch)) = map_of ch k"
proof (cases "map_of ch k")
  case None
  have "map t_node_id (map snd ch) = map fst ch" using assms(2) by auto
  with None have "k \<notin> t_node_id ` set (map snd ch)" by (metis list.set_map map_of_eq_None_iff)
  with None show ?thesis by (auto simp: find_None_iff')
next
  case (Some t)
  have "map t_node_id (map snd ch) = map fst ch" using assms(2) by auto
  then have dn: "distinct (map t_node_id (rev (map snd ch)))" using assms(1) by (metis distinct_rev rev_map)
  from Some have "(k, t) \<in> set ch" by (rule map_of_SomeD)
  then have "t \<in> set (rev (map snd ch))" "t_node_id t = k" using assms(2) by force+
  with find_unique[OF dn] Some show ?thesis by metis
qed

lemma task_at_passed:
  assumes "recorded before s" and "\<And>k. map_of before k = task_at d i k" and "run_row_of d i \<noteq> None"
    and "e = (if ps_changed s \<noteq> [] \<or> fin then run_save (d\<lparr>eb_items := q\<rparr>) i (map snd (ps_changed s)) now st ev a
      else d\<lparr>eb_items := q\<rparr>)"
  shows "task_at e i k = (case map_of (ps_changed s) k of Some t \<Rightarrow> Some (t\<lparr>t_updated_at := now\<rparr>) | None \<Rightarrow> task_at d i k)"
    and "j \<noteq> i \<Longrightarrow> task_at e j k = task_at d j k"
proof -
  have d: "distinct (map fst (ps_changed s))" and key: "\<forall>kt\<in>set (ps_changed s). fst kt = t_node_id (snd kt)"
    using assms(1) by (simp_all add: recorded_def)
  note find_changed[OF d key, of k]
  then show "task_at e i k = (case map_of (ps_changed s) k of Some t \<Rightarrow> Some (t\<lparr>t_updated_at := now\<rparr>) | None \<Rightarrow> task_at d i k)"
    using assms(3,4) by (auto simp: task_at_save split: option.splits)
  show "j \<noteq> i \<Longrightarrow> task_at e j k = task_at d j k" using assms(4) by (simp add: task_at_save)
qed

lemma task_after:
  assumes "recorded before s" and "\<And>k. map_of before k = task_at d i k" and "run_row_of d i \<noteq> None"
    and "e = (if ps_changed s \<noteq> [] \<or> fin then run_save (d\<lparr>eb_items := q\<rparr>) i (map snd (ps_changed s)) now st ev a
      else d\<lparr>eb_items := q\<rparr>)"
    and "\<And>t. f (t\<lparr>t_updated_at := now\<rparr>) = f t"
  shows "map_option f (task_at e i k) = map_option f (map_of (ps_tasks s) k)"
  using task_at_passed(1)[OF assms(1-4), of k] assms(1,2,5)
  by (auto simp: recorded_def map_add_def split: option.splits)

lemma children_wf:
  assumes "wf_plan p" and "set ns \<subseteq> set (children p i)" and "distinct ns"
  shows "distinct (map n_id ns)" and "acyclic (dep_edges ns)"
proof -
  have sub: "set ns \<subseteq> set (p_nodes p)" using assms(2) by (auto simp: children_def)
  have d: "distinct (map n_id (p_nodes p))" by (rule wf_planD(2)[OF assms(1)])
  then have "inj_on n_id (set (p_nodes p))" by (simp add: distinct_map)
  with sub assms(3) show "distinct (map n_id ns)" by (auto simp: distinct_map intro: inj_on_subset)
  have "dep_edges ns \<subseteq> dep_edges (p_nodes p)" using sub by (auto simp: dep_edges_def)
  with wf_planD(3)[OF assms(1)] show "acyclic (dep_edges ns)" by (auto simp: deps_ok_def intro: acyclic_subset)
qed

lemma pass_order_wf:
  assumes "wf_plan p"
  shows "distinct (map n_id (pass_order r p q))" and "acyclic (dep_edges (pass_order r p q))"
proof -
  have "distinct (map n_id (children p (y_node_id r)))"
    using wf_planD(2)[OF assms] by (simp add: children_def children_in_def distinct_map_filterI)
  then have d: "distinct (children p (y_node_id r))" by (simp add: distinct_map)
  have "set (pass_order r p q) \<subseteq> set (children p (y_node_id r))" "distinct (pass_order r p q)"
    using d by (auto simp: pass_order_def)
  from children_wf[OF assms this] show "distinct (map n_id (pass_order r p q))"
    "acyclic (dep_edges (pass_order r p q))" by auto
qed

lemma followed_pass_ok:
  assumes "epic_wf d" and "run_get d i = Some r"
  shows "pass_inv order (followed_pass r p q) (followed_pass r p q)"
    and "recorded (keyed_tasks (g_tasks r)) (followed_pass r p q)" and "ps_queue (followed_pass r p q) = q"
    and "ps_tried (followed_pass r p q) = []"
    and "map_of (ps_tasks (followed_pass r p q)) k =
      map_option (follow q) (map_of (ps_tasks (pass_start r (children p (y_node_id r)) q)) k)"
    and "task_at d i k = Some t \<Longrightarrow> map_of (ps_tasks (followed_pass r p q)) k = Some (follow q t)"
    and "map_of (ps_tasks (followed_pass r p q)) k = Some t \<Longrightarrow> t_item_id t = Some x \<Longrightarrow>
      \<exists>u. task_at d i k = Some u \<and> t_item_id u = Some x"
proof -
  let ?s1 = "pass_start r (children p (y_node_id r)) q" and ?s = "followed_pass r p q"
  note row = keyed_tasks_row[OF assms]
  have si: "start_inv (keyed_tasks (g_tasks r)) q ?s1"
    by (rule pass_start_inv) (rule run_get_SomeD(4)[OF assms(2,1)])
  note pf = pass_follow_ok[OF si, folded followed_pass_def]
  show "pass_inv order ?s ?s" using pf(2,3) by (auto simp: pass_inv_def tried_ok_def new_items_tried_def)
  show "recorded (keyed_tasks (g_tasks r)) ?s" "ps_queue ?s = q" "ps_tried ?s = []" using pf(1,4,3) .
  show at: "map_of (ps_tasks ?s) k = map_option (follow q) (map_of (ps_tasks ?s1) k)" for k by (rule pf(5))
  show "map_of (ps_tasks ?s) k = Some (follow q t)" if "task_at d i k = Some t"
  proof -
    have "map_of (ps_tasks ?s1) k \<noteq> None" using si that row[of k]
      by (auto simp: start_inv_def recorded_def)
    then obtain u where u: "map_of (ps_tasks ?s1) k = Some u" by blast
    with start_inv_at[OF si this] that row[of k] have "u = t" by (simp del: map_of_eq_None_iff)
    with u at show ?thesis by simp
  qed
  assume t: "map_of (ps_tasks ?s) k = Some t" "t_item_id t = Some x"
  from t(1) obtain u where u: "map_of (ps_tasks ?s1) k = Some u" "t = follow q u" unfolding at map_option_eq_Some by blast
  have "t_item_id u = Some x" by (rule follow_item[OF t(2)[unfolded u(2)]])
  moreover have "map_of (keyed_tasks (g_tasks r)) k = Some u"
    by (rule start_inv_item[OF si u(1) calculation])
  ultimately show "\<exists>u. task_at d i k = Some u \<and> t_item_id u = Some x" using row[of k] by simp
qed

lemma pass_recorded:
  assumes "epic_wf d" and "run_get d i = Some r" and "pass_of l r p now q = Inr s"
  shows "recorded (keyed_tasks (g_tasks r)) s"
proof (cases "live_run (y_state r)")
  case True
  note f = followed_pass_ok[OF assms(1,2)]
  have "well_keyed (followed_pass r p q)" using f(1) by (simp add: pass_inv_def)
  with True assms(3) f(2) show ?thesis
    by (auto simp: pass_of_def place_def simp del: place_rounds.simps intro: recorded_place_rounds)
next
  case False
  with assms(3) followed_pass_ok(2)[OF assms(1,2)] show ?thesis by (auto simp: pass_of_def)
qed

lemma pass_of_ok:
  assumes "epic_wf d" and "run_get d i = Some r" and "wf_plan p" and "pass_of l r p now q = Inr s"
  shows "recorded (keyed_tasks (g_tasks r)) s"
    and "live_run (y_state r) \<Longrightarrow> pass_inv (pass_order r p q) (followed_pass r p q) s"
    and "live_run (y_state r) \<Longrightarrow> n \<in> set (pass_order r p q) \<Longrightarrow>
      quiet p (y_state r = RunRunning) (states_of (ps_tasks s)) s n"
    and "ahead (followed_pass r p q) s" and "y_state r \<noteq> RunRunning \<Longrightarrow> ps_queue s = q \<and> ps_tried s = []"
    and "k \<notin> n_id ` set (pass_order r p q) \<or> \<not> live_run (y_state r) \<Longrightarrow>
      map_of (ps_tasks s) k = map_of (ps_tasks (followed_pass r p q)) k"
proof -
  let ?s2 = "followed_pass r p q"
  note f = followed_pass_ok[OF assms(1,2)] and o = pass_order_wf[OF assms(3), of r q]
  have "recorded (keyed_tasks (g_tasks r)) s \<and> (live_run (y_state r) \<longrightarrow> pass_inv (pass_order r p q) ?s2 s
      \<and> (\<forall>n\<in>set (pass_order r p q). quiet p (y_state r = RunRunning) (states_of (ps_tasks s)) s n))
    \<and> ahead ?s2 s \<and> (y_state r \<noteq> RunRunning \<longrightarrow> ps_queue s = q \<and> ps_tried s = [])
    \<and> (\<forall>k. k \<notin> n_id ` set (pass_order r p q) \<or> \<not> live_run (y_state r) \<longrightarrow> map_of (ps_tasks s) k = map_of (ps_tasks ?s2) k)"
  proof (cases "live_run (y_state r)")
    case True
    with assms(4) have pl: "place l (y_epic_run_id r) p now (y_state r = RunRunning) (pass_order r p q) ?s2 = Inr s"
      by (simp add: pass_of_def)
    note ok = place_ok[OF pl f(1) o]
    have "recorded (keyed_tasks (g_tasks r)) s" by (rule pass_recorded[OF assms(1,2,4)])
    with ok f(3,4) True show ?thesis by auto
  next
    case False
    with assms(4) have "s = ?s2" by (simp add: pass_of_def)
    with False f show ?thesis by simp
  qed
  then show "recorded (keyed_tasks (g_tasks r)) s"
    "live_run (y_state r) \<Longrightarrow> pass_inv (pass_order r p q) ?s2 s"
    "live_run (y_state r) \<Longrightarrow> n \<in> set (pass_order r p q) \<Longrightarrow> quiet p (y_state r = RunRunning) (states_of (ps_tasks s)) s n"
    "ahead ?s2 s" "y_state r \<noteq> RunRunning \<Longrightarrow> ps_queue s = q \<and> ps_tried s = []"
    "k \<notin> n_id ` set (pass_order r p q) \<or> \<not> live_run (y_state r) \<Longrightarrow> map_of (ps_tasks s) k = map_of (ps_tasks ?s2) k"
    by blast+
qed

section \<open>What a pass leaves in the tables\<close>

lemma run_states_at:
  assumes "epic_wf d" and "run_get d i = Some r"
  shows "map_of (run_states r) k = map_option t_state (task_at d i k)"
  by (simp add: run_states_def keyed_tasks_row[OF assms])

lemma pass_written_wf: "epic_wf e \<Longrightarrow> epic_wf (pass_written r p now e s)"
  by (simp add: pass_written_def run_save_wf)

lemma drive_wf:
  assumes "drive l i now w = (w', b)" and "epic_wf (wo_epics w)"
  shows "epic_wf (wo_epics w')"
  using assms(1) by (cases rule: drive_cases) (use assms(2) in \<open>simp_all add: with_queue_def pass_written_wf\<close>)

text \<open>The tasks of a run whose pass ended, as the pass left them.\<close>

lemma passed_tasks:
  assumes "epic_wf d" and "run_get d i = Some r" and "pass_of l r p now (eb_items d) = Inr s"
    and "\<And>t. f (t\<lparr>t_updated_at := now\<rparr>) = f t"
  shows "map_option f (task_at (pass_written r p now d s) i k) = map_option f (map_of (ps_tasks s) k)"
proof -
  have i: "y_epic_run_id r = i" by (rule run_get_SomeD(2)[OF assms(2)])
  show ?thesis
  proof (rule task_after[where before = "keyed_tasks (g_tasks r)" and d = d, OF _ _ _ pass_written_def[of r p now d s, unfolded i]])
    show "recorded (keyed_tasks (g_tasks r)) s" by (rule pass_recorded[OF assms(1-3)])
    show "map_of (keyed_tasks (g_tasks r)) k = task_at d i k" for k by (rule keyed_tasks_row[OF assms(1,2)])
    show "run_row_of d i \<noteq> None" using run_get_SomeD(1)[OF assms(2)] by simp
  qed (rule assms(4))
qed

lemma task_passed:
  assumes "epic_wf d" and "run_get d i = Some r" and "pass_of l r p now (eb_items d) = Inr s"
    and "task_at (pass_written r p now d s) i k = Some t"
  obtains v where "map_of (ps_tasks s) k = Some v" "t_item_id v = t_item_id t" "t_state v = t_state t"
proof -
  have "map_option (\<lambda>t. (t_item_id t, t_state t)) (map_of (ps_tasks s) k) = Some (t_item_id t, t_state t)"
    by (subst passed_tasks[OF assms(1-3), symmetric]) (simp_all add: assms(4))
  with that show thesis by (auto simp: map_option_eq_Some)
qed

lemma drive_live:
  assumes "drive l i now w = (w', True)" and "run_get (wo_epics w) i = Some r" and "y_state r \<noteq> RunCompleted"
    and "store_get (wo_plans w) (y_plan_id r) = Some p" and "plan_node_of p (y_node_id r) \<noteq> None"
  obtains s where "pass_of l r p now (eb_items (wo_epics w)) = Inr s" "wo_epics w' = pass_written r p now (wo_epics w) s"
  using drive_pass[OF assms(2-5), of l now] assms(1)
  by (cases "pass_of l r p now (eb_items (wo_epics w))") (auto simp: look_def Let_def split: if_splits)

lemma run_task_at:
  assumes "epic_wf d" and "run_get d i = Some r"
  shows "run_task r k = Some t \<longleftrightarrow> task_at d i k = Some t"
proof -
  have dist: "distinct (map t_node_id (g_tasks r))" by (rule run_get_SomeD(4)[OF assms(2,1)])
  have "run_task r k = Some t \<longleftrightarrow> t \<in> set (g_tasks r) \<and> t_node_id t = k"
    using find_unique[OF dist, of t] by (auto simp: run_task_def dest: find_SomeD)
  then show ?thesis using run_get_SomeD(3)[OF assms(2)] by (simp add: task_at_iff[OF assms(1)])
qed

lemma pass_domain:
  assumes "epic_wf d" and "run_get d i = Some r" and "wf_plan p" and "pass_of l r p now q = Inr s"
    and "n \<in> set (children p (y_node_id r))" and "map_of (ps_tasks s) (n_id n) \<noteq> None"
  shows "n \<in> set (pass_order r p q)"
proof -
  have "n_id n \<in> dom (map_of (ps_tasks s))" using assms(6) by blast
  then have "n_id n \<in> dom (map_of (ps_tasks (followed_pass r p q)))"
    using pass_of_ok(4)[OF assms(1-4)] by (simp add: ahead_def)
  then have "n_id n \<in> fst ` set (ps_tasks (pass_start r (children p (y_node_id r)) q))"
    using followed_pass_ok(5)[OF assms(1,2)] by (auto simp: dom_map_of_conv_image_fst[symmetric])
  with assms(5) show ?thesis by (simp add: pass_order_def)
qed

lemma new_item_deps:
  assumes wf: "epic_wf d" and r: "run_get d i = Some r" and p: "wf_plan p" and s: "pass_of l r p now q = Inr s"
    and t: "map_of (ps_tasks s) (n_id n) = Some t" "t_item_id t = Some x"
    and new: "\<And>u. task_at d i (n_id n) = Some u \<Longrightarrow> t_item_id u \<noteq> Some x" and n: "n \<in> set (p_nodes p)"
  shows "y_state r = RunRunning" and "deps_done s n"
proof -
  let ?s2 = "followed_pass r p q"
  note ok = pass_of_ok[OF wf r p s] and f = followed_pass_ok[OF wf r]
  have not_before: "t_item_id u \<noteq> Some x" if "map_of (ps_tasks ?s2) (n_id n) = Some u" for u
    using f(7)[OF that] new by blast
  have "\<not> (n_id n \<notin> n_id ` set (pass_order r p q) \<or> \<not> live_run (y_state r))"
  proof
    assume "n_id n \<notin> n_id ` set (pass_order r p q) \<or> \<not> live_run (y_state r)"
    from ok(6)[OF this] t not_before show False by simp
  qed
  then obtain m where m: "m \<in> set (pass_order r p q)" "n_id m = n_id n" and live: "live_run (y_state r)" by auto
  then have "m \<in> set (p_nodes p)" by (auto simp: pass_order_def children_def)
  then have mn: "m = n" by (rule same_id_same_node[OF wf_planD(2)[OF p] _ n m(2)])
  have inv: "pass_inv (pass_order r p q) ?s2 s" by (rule ok(2)[OF live])
  have "n_id n \<in> dom (map_of (ps_tasks ?s2))" using ok(4) t(1) unfolding ahead_def by blast
  then obtain u where u: "map_of (ps_tasks ?s2) (n_id n) = Some u" by blast
  have "t_item_id u = None"
  proof (rule ccontr)
    assume "t_item_id u \<noteq> None"
    with u ok(4) have "map_of (ps_tasks s) (n_id n) = Some u" by (simp add: ahead_def frozen_def)
    with t not_before[OF u] show False by simp
  qed
  with inv u t have tried: "n_id n \<in> set (ps_tried s)" by (auto simp: pass_inv_def new_items_tried_def)
  then show "y_state r = RunRunning" using ok(5) by (cases "y_state r = RunRunning") simp_all
  from tried inv m mn show "deps_done s n" by (auto simp: pass_inv_def tried_ok_def)
qed

lemma unadmitted_stands:
  assumes "epic_wf d" and "run_get d i = Some r" and "wf_plan p" and "pass_of l r p now q = Inr s" and "live_run (y_state r)"
    and "n \<in> set (children p (y_node_id r))" and "map_of (ps_tasks s) (n_id n) = Some t" and "\<not> frozen t"
  shows "t_state t = readiness n (states_of (ps_tasks s))"
proof -
  have "n \<in> set (pass_order r p q)" by (rule pass_domain[OF assms(1-4,6)]) (simp add: assms(7))
  from pass_of_ok(3)[OF assms(1-5) this] assms(7,8) show ?thesis by (auto simp: quiet_def split: if_splits)
qed

lemma run_after:
  assumes wf: "epic_wf d" and r: "run_get d i = Some r" and s: "pass_of l r p now (eb_items d) = Inr s"
    and r': "run_get (pass_written r p now d s) i = Some r'"
  shows "y_state r' = (if pass_finished r s then RunCompleted else y_state r)"
    and "live_run (y_state r) \<Longrightarrow> pass_finished r s \<longleftrightarrow> (\<forall>t\<in>set (g_tasks r'). done_state (t_state t))"
proof -
  let ?e = "pass_written r p now d s"
  have i: "y_epic_run_id r = i" by (rule run_get_SomeD(2)[OF r])
  have row: "run_row_of d i = Some (run_row.truncate r)" by (rule run_get_SomeD(1)[OF r])
  have "run_row_of ?e i = Some (run_row.truncate r')" by (rule run_get_SomeD(1)[OF r'])
  moreover have "map_option y_state (run_row_of ?e i) = Some (if pass_finished r s then RunCompleted else y_state (run_row.truncate r))"
    using row by (simp add: pass_written_def i run_row_of_save moved_run_state)
  ultimately show "y_state r' = (if pass_finished r s then RunCompleted else y_state r)" by (simp add: run_row.defs)
  have wf': "epic_wf ?e" by (rule pass_written_wf[OF wf])
  have d: "distinct (map fst (ps_tasks s))" using pass_recorded[OF wf r s] by (simp add: recorded_def)
  have st: "map_option t_state (task_at ?e i k) = map_option t_state (map_of (ps_tasks s) k)" for k
    by (rule passed_tasks[OF wf r s]) simp
  have "(\<forall>t\<in>set (g_tasks r'). done_state (t_state t)) \<longleftrightarrow> (\<forall>k t. task_at ?e i k = Some t \<longrightarrow> done_state (t_state t))"
    using run_get_SomeD(3)[OF r'] by (auto simp: task_at_iff[OF wf'])
  also have "\<dots> \<longleftrightarrow> (\<forall>k x. map_option t_state (task_at ?e i k) = Some x \<longrightarrow> done_state x)" by auto
  also have "\<dots> \<longleftrightarrow> (\<forall>k x. map_option t_state (map_of (ps_tasks s) k) = Some x \<longrightarrow> done_state x)" by (simp add: st)
  also have "\<dots> \<longleftrightarrow> list_all (\<lambda>(k, t). done_state (t_state t)) (ps_tasks s)"
    using d by (auto simp: list_all_iff)
  finally show "pass_finished r s \<longleftrightarrow> (\<forall>t\<in>set (g_tasks r'). done_state (t_state t))" if "live_run (y_state r)"
    using that by (simp add: pass_finished_def)
qed

section \<open>A source that answers\<close>

text \<open>When the source can be read, an admission is an answer: the task gets its item, or is
  closed or failed.  A task tried on a pass is then no longer ready at its end.\<close>

definition answers :: "daemon \<Rightarrow> bool" where
  "answers l = (\<exists>source. ld_admit l = Some source \<and> (\<forall>repo number kind m. source repo number kind \<noteq> SUnreadable m))"

lemma admit_issue_answers: "answers l \<Longrightarrow> admit_issue l repo number kind = Inl e \<Longrightarrow> ce_code e \<noteq> ''source_unavailable''"
  by (auto simp: answers_def admit_issue_def control_error_of_def split: option.splits if_splits source_answer.splits)

lemma admit_task_answers:
  assumes "answers l" and "admit_task l q run_id n t now = (q', Some t')"
  shows "frozen t'"
proof -
  have up: "ce_code e \<noteq> ''source_unavailable''" if "upsert l q w = Inl e" for w e
    using that by (auto simp: upsert_def control_error_of_def split: sum.splits)
  show ?thesis
    using assms(2) admit_issue_answers[OF assms(1)] up
    by (auto simp: admit_task_def frozen_def Let_def admitted_as_def bindR_Inl_iff
        split: option.splits if_splits sum.splits prod.splits)
qed

definition tried_frozen :: "pass \<Rightarrow> bool" where
  "tried_frozen s = (\<forall>k\<in>set (ps_tried s). \<exists>t. map_of (ps_tasks s) k = Some t \<and> frozen t)"

lemma tried_frozen_place_one:
  assumes "answers l" and "place_one l run_id p now admit ss s n = Inr s'" and "well_keyed s" and "tried_frozen s"
  shows "tried_frozen s'"
  using assms(2,3)
proof (cases rule: place_one_cases)
  case (admitted t t' q)
  with admit_task_answers[OF assms(1) admitted(7)] assms(4) show ?thesis by (auto simp: tried_frozen_def)
qed (use assms(4) in \<open>auto simp: tried_frozen_def\<close>)

lemma tried_frozen_rounds:
  assumes "answers l" and "place_rounds k l run_id p now admit order s = Inr s'" and "well_keyed s" and "tried_frozen s"
  shows "tried_frozen s'"
  using assms(2-4)
proof (induction k arbitrary: s)
  case (Suc k)
  from Suc.prems(1) obtain s1 where r: "place_round l run_id p now admit order s = Inr s1"
    and rest: "(if ps_moved s1 then place_rounds k l run_id p now admit order s1 else Inr s1) = Inr s'" by auto
  have start: "well_keyed (s\<lparr>ps_moved := False\<rparr>)" "tried_frozen (s\<lparr>ps_moved := False\<rparr>)"
    using Suc.prems(2,3) by (simp_all add: well_keyed_def tried_frozen_def)
  have "well_keyed s1 \<and> tried_frozen s1"
    by (rule foldR_invariant[where P = "\<lambda>u. well_keyed u \<and> tried_frozen u", OF r[unfolded place_round_def]])
       (use start in \<open>auto intro: well_keyed_place_one tried_frozen_place_one[OF assms(1)]\<close>)
  then show ?case using Suc.IH[of s1] rest by (cases "ps_moved s1") auto
qed simp

lemma ready_admitted:
  assumes wf: "epic_wf d" and r: "run_get d i = Some r" and p: "wf_plan p" and s: "pass_of l r p now q = Inr s"
    and run: "y_state r = RunRunning" and a: "answers l"
    and n: "n \<in> set (children p (y_node_id r))" and t: "map_of (ps_tasks s) (n_id n) = Some t" "\<not> frozen t"
  shows "\<not> deps_done s n"
proof
  assume dd: "deps_done s n"
  have live: "live_run (y_state r)" using run by (simp add: live_run_def)
  note f = followed_pass_ok[OF wf r]
  have "well_keyed (followed_pass r p q)" using f(1) by (simp add: pass_inv_def)
  moreover have "tried_frozen (followed_pass r p q)" using f(4) by (simp add: tried_frozen_def)
  ultimately have tf: "tried_frozen s"
    using s live by (auto simp: pass_of_def place_def simp del: place_rounds.simps intro: tried_frozen_rounds[OF a])
  have "n \<in> set (pass_order r p q)" by (rule pass_domain[OF wf r p s n]) (simp add: t(1))
  from pass_of_ok(3)[OF wf r p s live this] t dd run have "n_id n \<in> set (ps_tried s)"
    by (auto simp: quiet_def ready_deps_done split: if_splits)
  with tf t show False by (auto simp: tried_frozen_def)
qed

end
