(* ===== verification/EpicMoves.thy ===== *)
theory EpicMoves
  imports EpicState
begin

text \<open>
  The operations of the driver as moves of the epic tables.  Whatever a pass, a tick or a
  person's control does to them is a sequence of moves of three kinds, and those keep the
  tables well formed, a settled task and an ended run as they are, and one live run an epic.
\<close>

section \<open>Moves\<close>

inductive epic_move :: "epic_db \<Rightarrow> epic_db \<Rightarrow> bool" where
  queue: "epic_move e (e\<lparr>eb_items := q\<rparr>)"
| save: "run_row_of e i = Some row \<Longrightarrow>
    \<forall>t\<in>set ts. \<forall>u. task_at e i (t_node_id t) = Some u \<longrightarrow> \<not> settled (t_state u) \<Longrightarrow>
    st \<noteq> None \<longrightarrow> live_run (y_state row) \<Longrightarrow> epic_move e (run_save e i ts now st ev a)"
| create: "y_epic_run_id r \<notin> y_epic_run_id ` set (eb_runs e) \<Longrightarrow> distinct (map t_node_id (g_tasks r)) \<Longrightarrow>
    \<forall>x\<in>set (eb_runs e). y_created_at x < y_created_at r \<Longrightarrow>
    \<forall>x. run_latest e (y_plan_id r) (y_node_id r) = Some x \<longrightarrow> \<not> live_run (y_state x) \<Longrightarrow>
    epic_move e (run_create e r ev a)"

abbreviation epic_moves :: "epic_db \<Rightarrow> epic_db \<Rightarrow> bool" where
  "epic_moves \<equiv> epic_move\<^sup>*\<^sup>*"

text \<open>Of two runs of one epic, a live one is the later.\<close>

definition latest_live :: "epic_db \<Rightarrow> bool" where
  "latest_live e = (\<forall>x\<in>set (eb_runs e). \<forall>y\<in>set (eb_runs e). live_run (y_state x)
     \<and> y_plan_id x = y_plan_id y \<and> y_node_id x = y_node_id y \<and> x \<noteq> y \<longrightarrow> y_created_at y < y_created_at x)"

lemma run_row_of_iff:
  assumes "epic_wf e"
  shows "run_row_of e i = Some r \<longleftrightarrow> r \<in> set (eb_runs e) \<and> y_epic_run_id r = i"
  using assms find_unique[of y_epic_run_id "eb_runs e" r] by (auto simp: run_row_of_def epic_wf_def dest: find_SomeD)

lemma sort_key_hd:
  assumes "x \<in> set xs" and "\<And>y. y \<in> set xs \<Longrightarrow> y \<noteq> x \<Longrightarrow> f x < (f y :: 'b :: linorder)"
  obtains ys where "sort_key f xs = x # ys"
proof (cases "sort_key f xs")
  case Nil
  with assms(1) set_sort[of f xs] show thesis by simp
next
  case (Cons h ys)
  then have "h \<in> set xs" using set_sort[of f xs] by auto
  have "f h \<le> f x"
    using sorted_sort_key[of f xs] Cons assms(1) set_sort[of f xs] by auto
  with assms(2)[OF \<open>h \<in> set xs\<close>] have "h = x" by force
  with Cons that show thesis by blast
qed

lemma latest_of_live:
  assumes wf: "epic_wf e" and "latest_live e" and x: "x \<in> set (eb_runs e)" "live_run (y_state x)"
  shows "\<exists>r. run_latest e (y_plan_id x) (y_node_id x) = Some r \<and> y_state r = y_state x"
proof -
  let ?P = "\<lambda>r. y_plan_id r = y_plan_id x \<and> y_node_id r = y_node_id x"
  let ?f = "\<lambda>r. (- y_created_at r, y_epic_run_id r)"
  obtain ys where ys: "sort_key ?f (filter ?P (eb_runs e)) = x # ys"
  proof (rule sort_key_hd[where f = ?f])
    show "x \<in> set (filter ?P (eb_runs e))" using x by simp
    fix y assume "y \<in> set (filter ?P (eb_runs e))" "y \<noteq> x"
    then have "y_created_at y < y_created_at x" using assms(2) x by (auto simp: latest_live_def)
    then show "?f x < ?f y" by simp
  qed
  then have "run_latest e (y_plan_id x) (y_node_id x) = run_get e (y_epic_run_id x)"
    by (simp add: run_latest_def run_ids_def latest_of_def)
  also have "\<dots> = Some (run_of x (tasks_of e (y_epic_run_id x)))"
    using run_row_of_iff[OF wf, of "y_epic_run_id x" x] x(1) by (simp add: run_get_def)
  finally show ?thesis by (simp add: run_of_def run_row.defs)
qed

section \<open>What moves keep\<close>

lemma run_save_rows:
  assumes "y \<in> set (eb_runs (run_save e i ts now st ev a))"
  obtains x where "x \<in> set (eb_runs e)" "y_plan_id y = y_plan_id x" "y_node_id y = y_node_id x"
    "y_created_at y = y_created_at x" "y_epic_run_id y = y_epic_run_id x"
    "y_state y = (if y_epic_run_id x = i \<and> st \<noteq> None then the st else y_state x)"
    "y = (if y_epic_run_id x = i \<and> run_row_of e i \<noteq> None then moved_run st now x else x)"
proof -
  from assms obtain x where x: "x \<in> set (eb_runs e)"
    "y = (if y_epic_run_id x = i \<and> run_row_of e i \<noteq> None then moved_run st now x else x)"
    by (auto simp: run_save_def split: if_splits)
  moreover have "run_row_of e i \<noteq> None" if "y_epic_run_id x = i"
    using x(1) that by (auto simp: run_row_of_def find_None_iff')
  ultimately show thesis
    by (intro that[of x]) (auto simp: moved_run_state split: option.splits)
qed

lemma run_create_wf:
  assumes "epic_wf e" and "y_epic_run_id r \<notin> y_epic_run_id ` set (eb_runs e)" and "distinct (map t_node_id (g_tasks r))"
  shows "epic_wf (run_create e r ev a)"
proof -
  let ?f = "\<lambda>(i, t). (i, t_node_id t)" and ?new = "map (Pair (y_epic_run_id r)) (g_tasks r)"
  have "map ?f ?new = map (Pair (y_epic_run_id r)) (map t_node_id (g_tasks r))" by simp
  then have "distinct (map ?f ?new)" using assms(3) by (simp only: distinct_map[of "Pair _"]) (simp add: inj_on_def)
  moreover have "set (map ?f ?new) \<inter> set (map ?f (eb_tasks e)) = {}"
  proof -
    have "fst z = y_epic_run_id r" if "z \<in> set (map ?f ?new)" for z using that by auto
    moreover have "fst z \<in> fst ` set (eb_tasks e)" if "z \<in> set (map ?f (eb_tasks e))" for z using that by force
    moreover have "y_epic_run_id r \<notin> fst ` set (eb_tasks e)" using assms(1,2) unfolding epic_wf_def by blast
    ultimately show ?thesis unfolding disjoint_iff by metis
  qed
  ultimately have dt: "distinct (map ?f (eb_tasks e @ ?new))"
    using assms(1) unfolding map_append distinct_append epic_wf_def by blast
  have ids: "y_epic_run_id (run_row.truncate r) = y_epic_run_id r" by (simp add: run_row.defs)
  have old: "fst ` set (eb_tasks e) \<subseteq> y_epic_run_id ` set (eb_runs e)" "distinct (map y_epic_run_id (eb_runs e))"
    using assms(1) by (simp_all add: epic_wf_def)
  have rows: "eb_runs (run_create e r ev a) = eb_runs e @ [run_row.truncate r]"
    "eb_tasks (run_create e r ev a) = eb_tasks e @ ?new" by (simp_all add: run_create_def)
  show ?thesis
    unfolding epic_wf_def rows
  proof (intro conjI)
    show "distinct (map y_epic_run_id (eb_runs e @ [run_row.truncate r]))" using old(2) assms(2) ids by simp
    show "distinct (map ?f (eb_tasks e @ ?new))" by (rule dt)
    show "fst ` set (eb_tasks e @ ?new) \<subseteq> y_epic_run_id ` set (eb_runs e @ [run_row.truncate r])"
      using old(1) ids by auto
  qed
qed

lemma move_keeps:
  assumes "epic_move e e'" and wf: "epic_wf e" and ll: "latest_live e"
  shows "epic_wf e' \<and> latest_live e'"
  using assms(1)
proof cases
  case (queue q)
  with wf ll show ?thesis by (simp add: latest_live_def)
next
  case (save i row ts st now ev a)
  have "latest_live e'"
    unfolding latest_live_def save(1)
  proof (intro ballI impI)
    fix x y assume xy: "x \<in> set (eb_runs (run_save e i ts now st ev a))" "y \<in> set (eb_runs (run_save e i ts now st ev a))"
      "live_run (y_state x) \<and> y_plan_id x = y_plan_id y \<and> y_node_id x = y_node_id y \<and> x \<noteq> y"
    from xy(1) obtain u where u: "u \<in> set (eb_runs e)" "y_plan_id x = y_plan_id u" "y_node_id x = y_node_id u"
      "y_created_at x = y_created_at u" "y_epic_run_id x = y_epic_run_id u"
      "y_state x = (if y_epic_run_id u = i \<and> st \<noteq> None then the st else y_state u)"
      "x = (if y_epic_run_id u = i \<and> run_row_of e i \<noteq> None then moved_run st now u else u)" by (rule run_save_rows)
    from xy(2) obtain v where v: "v \<in> set (eb_runs e)" "y_plan_id y = y_plan_id v" "y_node_id y = y_node_id v"
      "y_created_at y = y_created_at v" "y = (if y_epic_run_id v = i \<and> run_row_of e i \<noteq> None then moved_run st now v else v)"
      by (rule run_save_rows)
    have "u \<noteq> v" using xy(3) u(7) v(5) by auto
    moreover have "live_run (y_state u)"
    proof (cases "y_epic_run_id u = i \<and> st \<noteq> None")
      case True
      then have "u = row" using save(2) run_row_of_iff[OF wf, of i u] u(1) by simp
      with True save(4) show ?thesis by simp
    next
      case False
      with u(6) xy(3) show ?thesis by (simp split: if_splits)
    qed
    ultimately show "y_created_at y < y_created_at x"
      using ll u v xy(3) by (auto simp: latest_live_def)
  qed
  with save(1) wf show ?thesis by (simp add: run_save_wf)
next
  case (create r ev a)
  have "\<not> live_run (y_state x)" if "x \<in> set (eb_runs e)" "y_plan_id x = y_plan_id r" "y_node_id x = y_node_id r" for x
    using latest_of_live[OF wf ll that(1)] create(5) that by fastforce
  then have "latest_live e'"
    using ll create(4) by (auto simp: latest_live_def create(1) run_create_def run_row.defs)
  moreover have "epic_wf e'" unfolding create(1) by (rule run_create_wf[OF wf create(2,3)])
  ultimately show ?thesis by simp
qed

lemma moves_keep: "epic_moves e e' \<Longrightarrow> epic_wf e \<and> latest_live e \<Longrightarrow> epic_wf e' \<and> latest_live e'"
  by (induction rule: rtranclp_induct) (auto dest: move_keeps)

lemma move_settled:
  assumes "epic_move e e'" and "task_at e i k = Some t" and "settled (t_state t)"
  shows "task_at e' i k = Some t"
  using assms(1)
proof cases
  case (save j row ts st now ev a)
  show ?thesis
  proof (cases "i = j \<and> find (\<lambda>t. t_node_id t = k) (rev ts) \<noteq> None")
    case True
    then obtain u where "find (\<lambda>t. t_node_id t = k) (rev ts) = Some u" by auto
    then have "u \<in> set ts" "t_node_id u = k" by (auto dest: find_SomeD)
    with save(3) True assms(2,3) show ?thesis by auto
  next
    case False
    with assms(2) show ?thesis unfolding save(1) task_at_save by (auto split: option.splits)
  qed
next
  case (create r ev a)
  with assms(2) show ?thesis by (auto simp: task_at_def run_create_def find_append split: option.splits)
qed (use assms in simp)

lemma moves_settled:
  "epic_moves e e' \<Longrightarrow> task_at e i k = Some t \<Longrightarrow> settled (t_state t) \<Longrightarrow> task_at e' i k = Some t"
  by (induction rule: rtranclp_induct) (auto intro: move_settled)

lemma move_ended:
  assumes "epic_move e e'" and "run_row_of e i = Some r" and "\<not> live_run (y_state r)"
  shows "\<exists>r'. run_row_of e' i = Some r' \<and> y_state r' = y_state r"
  using assms(1)
proof cases
  case (save j row ts st now ev a)
  with assms(2,3) show ?thesis
    by (cases "i = j") (auto simp: run_row_of_save moved_run_state split: option.splits)
next
  case (create x ev a)
  with assms(2) show ?thesis by (auto simp: run_row_of_def run_create_def find_append)
qed (use assms in simp)

lemma moves_ended:
  assumes "epic_moves e e'" and "run_row_of e i = Some r" and "\<not> live_run (y_state r)"
  shows "\<exists>r'. run_row_of e' i = Some r' \<and> y_state r' = y_state r"
  using assms
proof (induction rule: rtranclp_induct)
  case (step e1 e2)
  then obtain r1 where "run_row_of e1 i = Some r1" "y_state r1 = y_state r" by blast
  with move_ended[OF step.hyps(2), of i r1] step.prems(2) show ?case by auto
qed auto

section \<open>The operations are moves\<close>

lemma look_epics [simp]: "wo_epics (look l i j now w) = wo_epics w"
  by (simp add: look_def)

lemma pass_moves:
  assumes "epic_wf e" and "run_get e i = Some r" and "y_state r \<noteq> RunCompleted" and "pass_of l r p now (eb_items e) = Inr s"
  shows "epic_moves e (pass_written r p now e s)"
proof -
  let ?e = "e\<lparr>eb_items := ps_queue s\<rparr>"
  have q: "epic_move e ?e" by (rule epic_move.queue)
  have i: "y_epic_run_id r = i" by (rule run_get_SomeD(2)[OF assms(2)])
  note rec = pass_recorded[OF assms(1,2,4)]
  have "epic_move ?e (run_save ?e i (map snd (ps_changed s)) now st ev a)" if "st \<noteq> None \<longrightarrow> live_run (y_state r)" for st ev a
  proof (rule epic_move.save)
    show "run_row_of ?e i = Some (run_row.truncate r)" using run_get_SomeD(1)[OF assms(2)] by simp
    show "st \<noteq> None \<longrightarrow> live_run (y_state (run_row.truncate r))" using that by (simp add: run_row.defs)
    show "\<forall>t\<in>set (map snd (ps_changed s)). \<forall>u. task_at ?e i (t_node_id t) = Some u \<longrightarrow> \<not> settled (t_state u)"
    proof (intro ballI allI impI notI)
      fix t u assume t: "t \<in> set (map snd (ps_changed s))" and u: "task_at ?e i (t_node_id t) = Some u" "settled (t_state u)"
      from t obtain k where k: "(k, t) \<in> set (ps_changed s)" by auto
      with rec have "k = t_node_id t" by (auto simp: recorded_def)
      moreover have "map_of (keyed_tasks (g_tasks r)) (t_node_id t) = Some u"
        using u(1) keyed_tasks_row[OF assms(1,2)] by simp
      ultimately have "t_node_id t \<notin> dom (map_of (ps_changed s))" using rec u(2) by (auto simp: recorded_def)
      with k \<open>k = t_node_id t\<close> show False by (auto simp: domIff map_of_eq_None_iff image_iff)
    qed
  qed
  then show ?thesis
    unfolding pass_written_def i using q by (auto simp: pass_finished_def intro: rtranclp.rtrancl_into_rtrancl)
qed

lemma drive_moves:
  assumes "drive l i now w = (w', b)" and "epic_wf (wo_epics w)"
  shows "epic_moves (wo_epics w) (wo_epics w')"
  using assms(1)
proof (cases rule: drive_cases)
  case (raised r p q)
  then show ?thesis by (auto simp: with_queue_def intro: epic_move.queue)
next
  case (passed r p s)
  with pass_moves[OF assms(2)] show ?thesis by simp
qed simp

lemma drive_moves': "epic_wf (wo_epics w) \<Longrightarrow> epic_moves (wo_epics w) (wo_epics (fst (drive l i now w)))"
  using drive_moves[of l i now w "fst (drive l i now w)" "snd (drive l i now w)"] by simp

lemma tick_moves:
  assumes "epic_wf (wo_epics w)"
  shows "epic_moves (wo_epics w) (wo_epics (tick l now w))"
proof -
  let ?drive = "\<lambda>w' r. fst (drive l (y_epic_run_id r) now w')"
  have folded: "epic_wf (wo_epics (foldl ?drive w rs)) \<and> epic_moves (wo_epics w) (wo_epics (foldl ?drive w rs))"
    for rs :: "epic_run list"
  proof (induction rs rule: rev_induct)
    case (snoc r rs)
    then have wf: "epic_wf (wo_epics (foldl ?drive w rs))" by blast
    with snoc drive_moves'[OF wf, of l "y_epic_run_id r" now] drive_wf[of l "y_epic_run_id r" now "foldl ?drive w rs"]
    show ?case by (auto simp: prod_eq_iff intro: rtranclp_trans)
  qed (use assms in simp)
  have "wo_epics (fst (foldl (sweep_one l now) (v, seen) rs)) = wo_epics v" for v seen rs
    by (induction rs arbitrary: v seen) (auto simp: sweep_one_def Let_def split: option.splits)
  then have "wo_epics (sweep l now v) = wo_epics v" for v by (simp add: sweep_def)
  with folded show ?thesis by (simp add: tick_def Let_def)
qed

lemma issue_closed_epics: "wo_epics (issue_closed l repo number now w) = wo_epics w"
proof -
  have "wo_epics (foldl f w xs) = wo_epics w" if "\<And>v x. wo_epics (f v x) = wo_epics v" for f :: "world \<Rightarrow> _ \<Rightarrow> world" and xs
    using that by (induction xs arbitrary: w) auto
  then show ?thesis unfolding issue_closed_def by (rule) (auto split: option.splits prod.splits)
qed

lemma latest_of_get: "latest_of e ids = Some r \<Longrightarrow> run_get e (y_epic_run_id r) = Some r"
  by (auto simp: latest_of_def run_get_SomeD(2) split: list.splits)

lemma epic_run_for_get: "epic_run_for w plan_id node_id = Inr r \<Longrightarrow> run_get (wo_epics w) (y_epic_run_id r) = Some r"
  by (auto simp: epic_run_for_def run_latest_def split: option.splits if_splits dest: latest_of_get)

lemma task_run_for_get: "task_run_for w plan_id node_id = Inr (r, n) \<Longrightarrow> run_get (wo_epics w) (y_epic_run_id r) = Some r"
  by (auto simp: task_run_for_def run_for_task_def split: option.splits if_splits dest: latest_of_get)

lemma refuse_ended_live: "refuse_ended r = Inr u \<Longrightarrow> live_run (y_state r)"
  by (cases "y_state r") (auto simp: refuse_ended_def live_run_def)

lemma save_move:
  assumes "run_get e i = Some r" and "st \<noteq> None \<longrightarrow> live_run (y_state r)"
    and "\<And>t u. t \<in> set ts \<Longrightarrow> task_at e i (t_node_id t) = Some u \<Longrightarrow> \<not> settled (t_state u)"
  shows "epic_move e (run_save e i ts now st ev a)"
  using run_get_SomeD(1)[OF assms(1)] assms(2,3) by (intro epic_move.save[of e i "run_row.truncate r"]) (auto simp: run_row.defs)

lemma save_run_epics [simp]: "wo_epics (save_run w i ts now st ev a) = run_save (wo_epics w) i ts now st ev (Some a)"
  by (simp add: save_run_def)

lemma read_run_world [simp]: "fst (read_run w i) = w"
  by (simp add: read_run_def)

lemma control_refusal_world [simp]: "fst (control_refusal w e) = w"
  by (simp add: control_refusal_def)

lemma with_queue_epics [simp]: "wo_epics (with_queue w q) = (wo_epics w)\<lparr>eb_items := q\<rparr>"
  by (simp add: with_queue_def)

lemma pause_moves: "epic_moves (wo_epics w) (wo_epics (fst (pause plan_id node_id actor now w)))"
proof (cases "bindR (epic_run_for w plan_id node_id) (\<lambda>r. bindR (refuse_ended r) (\<lambda>_.
    bindR (check (y_state r \<noteq> RunPaused) (refuse_with 409 ''already_paused''
      [(''epic_run_id'', JStr (y_epic_run_id r))])) (\<lambda>_. Inr r)))")
  case (Inr r)
  then have "epic_run_for w plan_id node_id = Inr r" "live_run (y_state r)" by (auto dest: refuse_ended_live)
  with save_move[OF epic_run_for_get[OF this(1)], of _ "[]"] Inr show ?thesis by (auto simp: pause_def check_def split: if_splits)
qed (simp add: pause_def)

lemma resume_moves:
  assumes "epic_wf (wo_epics w)"
  shows "epic_moves (wo_epics w) (wo_epics (fst (resume l plan_id node_id actor now w)))"
proof (cases "bindR (epic_run_for w plan_id node_id) (\<lambda>r. bindR (refuse_ended r) (\<lambda>_.
    bindR (check (y_state r = RunPaused) (refuse_with 409 ''not_paused''
      [(''epic_run_id'', JStr (y_epic_run_id r))])) (\<lambda>_. Inr r)))")
  case (Inr r)
  then have "epic_run_for w plan_id node_id = Inr r" "live_run (y_state r)" by (auto dest: refuse_ended_live)
  note s = save_move[OF epic_run_for_get[OF this(1)], of _ "[]"] and live = this(2)
  show ?thesis using Inr s live
    by (auto simp: resume_def Let_def check_def run_save_wf[OF assms] intro!: converse_rtranclp_into_rtranclp[OF _ drive_moves'])
qed (simp add: resume_def)

text \<open>Stopping a run leaves its settled tasks out of what it writes.\<close>

lemma stop_one_changed:
  assumes "k \<in> dom (map_of (so_changed (stop_one l why s t)))"
  shows "k \<in> dom (map_of (so_changed s)) \<or> k = t_node_id t \<and> \<not> settled (t_state t)"
proof (cases "settled (t_state t)")
  case True
  then have "t_state t \<notin> {TWaiting, TReady, TBlocked}" "t_state t \<noteq> TQueued" "t_state t \<noteq> TRunning"
    by (auto simp: settled_def done_state_def)
  with assms True show ?thesis by (simp add: stop_one_def Let_def)
next
  case False
  with assms show ?thesis by (auto simp: stop_one_def Let_def split: if_splits option.splits)
qed

lemma stop_all_changed:
  assumes "k \<in> dom (map_of (so_changed (foldl (stop_one l why) s ts)))"
  shows "k \<in> dom (map_of (so_changed s)) \<or> (\<exists>t\<in>set ts. k = t_node_id t \<and> \<not> settled (t_state t))"
  using assms
proof (induction ts arbitrary: s)
  case (Cons t ts)
  then have "k \<in> dom (map_of (so_changed (stop_one l why s t))) \<or> (\<exists>t\<in>set ts. k = t_node_id t \<and> \<not> settled (t_state t))"
    by simp
  with stop_one_changed[of k l why s t] show ?case by auto
qed simp

lemma stop_one_keyed:
  "\<forall>kt\<in>set (so_changed s). fst kt = t_node_id (snd kt) \<Longrightarrow> \<forall>kt\<in>set (so_changed (stop_one l why s t)). fst kt = t_node_id (snd kt)"
  using set_dict_set by (fastforce simp: stop_one_def Let_def split: if_splits option.splits)

lemma stop_all_keyed:
  "\<forall>kt\<in>set (so_changed s). fst kt = t_node_id (snd kt) \<Longrightarrow>
    \<forall>kt\<in>set (so_changed (foldl (stop_one l why) s ts)). fst kt = t_node_id (snd kt)"
  by (induction ts arbitrary: s) (simp, metis foldl_Cons stop_one_keyed)

lemma cancel_moves:
  assumes wf: "epic_wf (wo_epics w)"
  shows "epic_moves (wo_epics w) (wo_epics (fst (cancel l plan_id node_id actor now w)))"
proof (cases "bindR (epic_run_for w plan_id node_id) (\<lambda>r. bindR (refuse_ended r) (\<lambda>_. Inr r))")
  case (Inr r)
  then have get: "run_get (wo_epics w) (y_epic_run_id r) = Some r" and live: "live_run (y_state r)"
    by (auto dest: refuse_ended_live epic_run_for_get)
  let ?why = "''the epic run '' @ y_epic_run_id r @ '' was stopped by '' @ who actor"
  let ?init = "\<lparr>so_queue = eb_items (wo_epics w), so_tasks = keyed_tasks (g_tasks r), so_changed = [],
    so_withdrawn = [], so_running = []\<rparr>"
  let ?s = "foldl (stop_one l ?why) ?init (g_tasks r)"
  let ?e = "(wo_epics w)\<lparr>eb_items := so_queue ?s\<rparr>"
  have "epic_move ?e (run_save ?e (y_epic_run_id r) (map snd (so_changed ?s)) now (Some RunCancelled) ev a)" for ev a
  proof (rule save_move)
    show "run_get ?e (y_epic_run_id r) = Some r" using get by simp
    show "Some RunCancelled \<noteq> None \<longrightarrow> live_run (y_state r)" using live by simp
    fix t u assume t: "t \<in> set (map snd (so_changed ?s))" and u: "task_at ?e (y_epic_run_id r) (t_node_id t) = Some u"
    from t obtain k where k: "(k, t) \<in> set (so_changed ?s)" by auto
    with stop_all_keyed[of ?init l ?why "g_tasks r"] have "k = t_node_id t" by fastforce
    with weak_map_of_SomeI[OF k] have "t_node_id t \<in> dom (map_of (so_changed ?s))" by blast
    from stop_all_changed[OF this] obtain v where v: "v \<in> set (g_tasks r)" "t_node_id t = t_node_id v" "\<not> settled (t_state v)"
      by auto
    have "u \<in> set (g_tasks r)" "t_node_id u = t_node_id t"
      using u run_get_SomeD(3)[OF get] by (auto simp: task_at_iff[OF wf])
    with v run_get_SomeD(4)[OF get wf] have "u = v" by (simp add: distinct_map inj_on_def)
    with v(3) show "\<not> settled (t_state u)" by simp
  qed
  then have "epic_moves (wo_epics w) (run_save ?e (y_epic_run_id r) (map snd (so_changed ?s)) now (Some RunCancelled) ev a)" for ev a
    by (blast intro: rtranclp.rtrancl_into_rtrancl r_into_rtranclp epic_move.queue)
  then show ?thesis using Inr by (simp add: cancel_def Let_def)
qed (simp add: cancel_def)

lemma driven_task_moves:
  assumes "driven_task l plan_id node_id now w = (w1, x)" and "epic_wf (wo_epics w)"
  shows "epic_moves (wo_epics w) (wo_epics w1)" and "epic_wf (wo_epics w1)"
    and "x = Inr (r, n, t) \<Longrightarrow> run_get (wo_epics w1) (y_epic_run_id r) = Some r
      \<and> task_at (wo_epics w1) (y_epic_run_id r) (n_id n) = Some t \<and> t_node_id t = n_id n"
proof -
  let ?g = "bindR (task_run_for w plan_id node_id) (\<lambda>rn. bindR (refuse_ended (fst rn)) (\<lambda>_. Inr rn))"
  have all: "epic_moves (wo_epics w) (wo_epics w1) \<and> epic_wf (wo_epics w1) \<and> (x = Inr (r, n, t) \<longrightarrow>
      run_get (wo_epics w1) (y_epic_run_id r) = Some r
      \<and> task_at (wo_epics w1) (y_epic_run_id r) (n_id n) = Some t \<and> t_node_id t = n_id n)"
  proof (cases ?g)
    case (Inl e)
    with assms show ?thesis by (auto simp: driven_task_def)
  next
    case (Inr rn)
    obtain r0 m where rn: "rn = (r0, m)" by (cases rn)
    obtain v b where v: "drive l (y_epic_run_id r0) now w = (v, b)" by (cases "drive l (y_epic_run_id r0) now w")
    have "v = w1" using assms(1) Inr rn v by (cases b) (auto simp: driven_task_def)
    have wf: "epic_wf (wo_epics v)" by (rule drive_wf[OF v assms(2)])
    have "run_get (wo_epics v) (y_epic_run_id r) = Some r
      \<and> task_at (wo_epics v) (y_epic_run_id r) (n_id n) = Some t \<and> t_node_id t = n_id n" if "x = Inr (r, n, t)"
    proof -
      have r: "run_get (wo_epics v) (y_epic_run_id r0) = Some r" "run_task r (n_id n) = Some t"
        using assms(1) Inr rn v that by (cases b; auto simp: driven_task_def split: option.splits)+
      then have "y_epic_run_id r = y_epic_run_id r0" using run_get_SomeD(2) by blast
      moreover have "t \<in> set (g_tasks r)" "t_node_id t = n_id n" using r(2) by (auto simp: run_task_def dest: find_SomeD)
      ultimately show ?thesis using r(1) run_get_SomeD(3)[OF r(1)] by (simp add: task_at_iff[OF wf])
    qed
    with drive_moves[OF v assms(2)] wf \<open>v = w1\<close> show ?thesis by blast
  qed
  then show "epic_moves (wo_epics w) (wo_epics w1)" "epic_wf (wo_epics w1)"
    "x = Inr (r, n, t) \<Longrightarrow> run_get (wo_epics w1) (y_epic_run_id r) = Some r
      \<and> task_at (wo_epics w1) (y_epic_run_id r) (n_id n) = Some t \<and> t_node_id t = n_id n" by blast+
qed

text \<open>One task that is not settled written, and a pass after it.\<close>

lemma put_and_drive:
  assumes "epic_wf e" and "run_get e (y_epic_run_id r) = Some r" and "task_at e (y_epic_run_id r) (t_node_id t) = Some u"
    and "\<not> settled (t_state u)"
    and "wo_epics w = run_save (e\<lparr>eb_items := q\<rparr>) (y_epic_run_id r) [t] now None ev a"
  shows "epic_moves e (wo_epics (fst (drive l (y_epic_run_id r) now w)))"
proof -
  let ?e = "e\<lparr>eb_items := q\<rparr>"
  have "epic_move e ?e" by (rule epic_move.queue)
  moreover have "epic_move ?e (wo_epics w)"
    unfolding assms(5) by (rule save_move) (use assms(2,3,4) in auto)
  moreover have "epic_wf (wo_epics w)" unfolding assms(5) by (rule run_save_wf) (use assms(1) in simp)
  ultimately show ?thesis using drive_moves' by (blast intro: converse_rtranclp_into_rtranclp)
qed

lemma retried_task_node: "retried_task l w r n t actor now = (q, Inr (t', via)) \<Longrightarrow> t_node_id t' = t_node_id t"
  by (auto simp: retried_task_def Let_def dest: admit_task_result(1) split: option.splits if_splits sum.splits prod.splits)

lemma retry_moves:
  assumes wf: "epic_wf (wo_epics w)"
  shows "epic_moves (wo_epics w) (wo_epics (fst (retry l plan_id node_id actor now w)))"
proof -
  obtain w1 x where d: "driven_task l plan_id node_id now w = (w1, x)" by (cases "driven_task l plan_id node_id now w")
  note m = driven_task_moves[OF d wf]
  have "epic_moves (wo_epics w1) (wo_epics (fst (retry l plan_id node_id actor now w)))"
  proof (cases x)
    case (Inr rnt)
    obtain r n t where rnt: "rnt = (r, n, t)" by (cases rnt)
    note f = m(3)[OF Inr[unfolded rnt]]
    obtain q y where y: "retried_task l w1 r n t actor now = (q, y)" by (cases "retried_task l w1 r n t actor now")
    show ?thesis
    proof (cases "t_state t = TFailed")
      case failed: True
      show ?thesis
      proof (cases y)
        case (Inl e)
        then show ?thesis using d Inr rnt failed y by (auto simp: retry_def intro: epic_move.queue)
      next
        case (Inr tv)
        obtain t' via where tv: "tv = (t', via)" by (cases tv)
        have "t_node_id t' = t_node_id t" using retried_task_node y Inr tv by blast
        then have at: "task_at (wo_epics w1) (y_epic_run_id r) (t_node_id t') = Some t" "\<not> settled (t_state t)"
          using f failed by simp_all
        show ?thesis
          using d \<open>x = Inr rnt\<close> rnt failed y Inr tv put_and_drive[OF m(2) conjunct1[OF f] at, of _ q]
          by (simp add: retry_def Let_def)
      qed
    qed (use d Inr rnt in \<open>simp add: retry_def\<close>)
  qed (use d in \<open>simp add: retry_def\<close>)
  with m(1) show ?thesis by (rule rtranclp_trans)
qed

lemma skip_moves:
  assumes wf: "epic_wf (wo_epics w)"
  shows "epic_moves (wo_epics w) (wo_epics (fst (skip_task l plan_id node_id actor now w)))"
proof -
  obtain w1 x where d: "driven_task l plan_id node_id now w = (w1, x)" by (cases "driven_task l plan_id node_id now w")
  note m = driven_task_moves[OF d wf]
  have "epic_moves (wo_epics w1) (wo_epics (fst (skip_task l plan_id node_id actor now w)))"
  proof (cases x)
    case (Inr rnt)
    obtain r n t where rnt: "rnt = (r, n, t)" by (cases rnt)
    note f = m(3)[OF Inr[unfolded rnt]]
    show ?thesis
    proof (cases "t_state t = TQueued \<or> t_state t = TRunning \<or> settled (t_state t)")
      case False
      have q: "(wo_epics w1)\<lparr>eb_items := eb_items (wo_epics w1)\<rparr> = wo_epics w1" by simp
      let ?t = "t\<lparr>t_state := TSkipped, t_reason := Some (''skipped by '' @ who actor)\<rparr>"
      have "epic_moves (wo_epics w1) (wo_epics (fst (drive l (y_epic_run_id r) now
          (save_run w1 (y_epic_run_id r) [?t] now None ev actor))))" for ev
        by (rule put_and_drive[OF m(2) conjunct1[OF f], of ?t t _ "eb_items (wo_epics w1)"]) (use f False q in simp_all)
      with d Inr rnt False show ?thesis by (simp add: skip_task_def Let_def)
    qed (use d Inr rnt in \<open>auto simp: skip_task_def\<close>)
  qed (use d in \<open>simp add: skip_task_def\<close>)
  with m(1) show ?thesis by (rule rtranclp_trans)
qed

lemma check_start_ok:
  assumes "check_start l e p node_id expected = Inr (epic, tasks)"
  shows "plan_node_of p node_id = Some epic" and "n_level epic = Epic" and "n_state epic = Published" and "p_revision p = expected"
    and "\<not> p_archived p" and "tasks = filter followed (children p (n_id epic))" and "tasks \<noteq> []"
    and "\<And>r. run_latest e (p_id p) (n_id epic) = Some r \<Longrightarrow> \<not> live_run (y_state r)"
  using assms by (auto simp: check_start_def Let_def split: option.splits if_splits)

lemma started_tasks: "map t_node_id (g_tasks (started_run run_id p epic tasks actor now)) = map n_id tasks"
proof -
  have "map (\<lambda>(i, n). n_id n) (enumerate k ns) = map n_id ns" for k and ns :: "plan_node list"
    by (induction ns arbitrary: k) auto
  then show ?thesis by (simp add: started_run_def new_task_def comp_def case_prod_unfold)
qed

lemma start_moves:
  assumes wf: "epic_wf (wo_epics w)" and db: "db_wf (wo_plans w)"
    and fresh: "run_id \<notin> y_epic_run_id ` set (eb_runs (wo_epics w))" "\<forall>x\<in>set (eb_runs (wo_epics w)). y_created_at x < now"
  shows "epic_moves (wo_epics w) (wo_epics (fst (start l run_id plan_id node_id expected actor now w)))"
proof (cases "store_get (wo_plans w) plan_id")
  case (Some p)
  show ?thesis
  proof (cases "check_start l (wo_epics w) p node_id expected")
    case (Inr et)
    obtain epic tasks where et: "et = (epic, tasks)" by (cases et)
    note c = check_start_ok[OF Inr[unfolded et]]
    let ?r = "started_run run_id p epic tasks actor now"
    have d: "distinct (map t_node_id (g_tasks ?r))"
      using wf_planD(2)[OF store_get_nodes(2)[OF db Some]]
      by (simp add: started_tasks c(6) distinct_map_filterI children_def children_in_def)
    have fields: "y_epic_run_id ?r = run_id" "y_created_at ?r = now" "y_plan_id ?r = p_id p" "y_node_id ?r = n_id epic"
      by (simp_all add: started_run_def)
    have "epic_move (wo_epics w) (run_create (wo_epics w) ?r ev a)" for ev a
      by (rule epic_move.create) (use fresh c(8) d fields in auto)
    moreover have "epic_wf (run_create (wo_epics w) ?r ev a)" for ev a
      by (rule run_create_wf[OF wf]) (use fresh d fields in auto)
    ultimately show ?thesis using Some Inr et
      by (auto simp: start_def Let_def intro!: converse_rtranclp_into_rtranclp[OF _ drive_moves'])
  qed (use Some in \<open>simp add: start_def\<close>)
qed (simp add: start_def del: store_get_None)

section \<open>Steps of the daemon\<close>

text \<open>What happens around the epic tables: the driver's own operations, and anything at all to
  the queue and to the plans.  A run is started with an id of its own, at a time later than every
  run before it.\<close>

inductive epic_step :: "daemon \<Rightarrow> world \<Rightarrow> world \<Rightarrow> bool" for l where
  step_drive: "drive l i now w = (w', b) \<Longrightarrow> epic_step l w w'"
| step_tick: "epic_step l w (tick l now w)"
| step_issue_closed: "epic_step l w (issue_closed l repo number now w)"
| step_start: "db_wf (wo_plans w) \<Longrightarrow> run_id \<notin> y_epic_run_id ` set (eb_runs (wo_epics w)) \<Longrightarrow>
    \<forall>x\<in>set (eb_runs (wo_epics w)). y_created_at x < now \<Longrightarrow>
    epic_step l w (fst (start l run_id plan_id node_id expected actor now w))"
| step_pause: "epic_step l w (fst (pause plan_id node_id actor now w))"
| step_resume: "epic_step l w (fst (resume l plan_id node_id actor now w))"
| step_cancel: "epic_step l w (fst (cancel l plan_id node_id actor now w))"
| step_retry: "epic_step l w (fst (retry l plan_id node_id actor now w))"
| step_skip: "epic_step l w (fst (skip_task l plan_id node_id actor now w))"
| step_queue: "epic_step l w (with_queue w q)"
| step_plans: "epic_step l w (w\<lparr>wo_plans := d\<rparr>)"

definition empty_epics :: epic_db where
  "empty_epics = \<lparr>eb_runs = [], eb_tasks = [], eb_items = [], eb_events = []\<rparr>"

inductive epic_reachable :: "daemon \<Rightarrow> world \<Rightarrow> bool" for l where
  init: "wo_epics w = empty_epics \<Longrightarrow> epic_reachable l w"
| step: "epic_reachable l w \<Longrightarrow> epic_step l w w' \<Longrightarrow> epic_reachable l w'"

lemma step_moves: "epic_step l w w' \<Longrightarrow> epic_wf (wo_epics w) \<Longrightarrow> epic_moves (wo_epics w) (wo_epics w')"
  by (induction rule: epic_step.induct)
     (auto simp: issue_closed_epics intro: drive_moves tick_moves start_moves pause_moves resume_moves cancel_moves
       retry_moves skip_moves epic_move.queue)

lemma epic_reachable_inv: "epic_reachable l w \<Longrightarrow> epic_wf (wo_epics w) \<and> latest_live (wo_epics w)"
proof (induction rule: epic_reachable.induct)
  case (init w)
  then show ?case by (simp add: empty_epics_def epic_wf_def latest_live_def)
next
  case (step w w')
  with moves_keep[OF step_moves[OF step.hyps(2)]] show ?case by blast
qed

lemma steps_moves:
  assumes "(epic_step l)\<^sup>*\<^sup>* w w'" and "epic_reachable l w"
  shows "epic_reachable l w' \<and> epic_moves (wo_epics w) (wo_epics w')"
  using assms
proof (induction rule: rtranclp_induct)
  case (step u v)
  then have u: "epic_reachable l u" "epic_moves (wo_epics w) (wo_epics u)" by blast+
  with epic_reachable_inv step_moves[OF step.hyps(2)] have "epic_moves (wo_epics u) (wo_epics v)" by blast
  with u step.hyps(2) show ?case by (blast intro: epic_reachable.step rtranclp_trans)
qed simp

section \<open>What a stop leaves\<close>

definition unsent :: "task_state \<Rightarrow> bool" where
  "unsent s = (s \<in> {TWaiting, TReady, TBlocked})"

lemma stop_one_at:
  "\<exists>t'. t_node_id t' = t_node_id t \<and> \<not> unsent (t_state t')
    \<and> map_of (so_changed (stop_one l why s t)) =
        (if t' = t then map_of (so_changed s) else (map_of (so_changed s))(t_node_id t \<mapsto> t'))"
proof (cases "unsent (t_state (follow (so_queue s) t))")
  case True
  then show ?thesis
    by (intro exI[of _ "(follow (so_queue s) t)\<lparr>t_state := TCancelled, t_reason := Some (''never admitted: '' @ why)\<rparr>"])
       (simp add: stop_one_def Let_def unsent_def)
next
  case False
  let ?t = "follow (so_queue s) t"
  let ?w = "if t_state ?t = TQueued then (case t_item_id ?t of None \<Rightarrow> None | Some i \<Rightarrow> withdraw l (so_queue s) i why) else None"
  show ?thesis
  proof (cases ?w)
    case None
    with False show ?thesis by (intro exI[of _ ?t]) (simp add: stop_one_def Let_def unsent_def)
  next
    case (Some q)
    with False show ?thesis
      by (intro exI[of _ "?t\<lparr>t_state := TCancelled, t_reason := Some (''withdrawn: '' @ why)\<rparr>"])
         (simp add: stop_one_def Let_def unsent_def)
  qed
qed

lemma stop_all_at:
  assumes "distinct (map t_node_id ts)" and "t_node_id ` set ts \<inter> dom (map_of (so_changed s)) = {}" and "t \<in> set ts"
  shows "\<not> unsent (t_state (case map_of (so_changed (foldl (stop_one l why) s ts)) (t_node_id t) of None \<Rightarrow> t | Some u \<Rightarrow> u))"
    and "k \<notin> t_node_id ` set ts \<Longrightarrow> map_of (so_changed (foldl (stop_one l why) s ts)) k = map_of (so_changed s) k"
proof -
  have "(\<forall>t\<in>set ts. \<not> unsent (t_state (case map_of (so_changed (foldl (stop_one l why) s ts)) (t_node_id t) of None \<Rightarrow> t | Some u \<Rightarrow> u)))
    \<and> (\<forall>k. k \<notin> t_node_id ` set ts \<longrightarrow> map_of (so_changed (foldl (stop_one l why) s ts)) k = map_of (so_changed s) k)"
    using assms(1,2)
  proof (induction ts arbitrary: s)
    case (Cons t ts)
    let ?s = "stop_one l why s t"
    obtain t' where t': "t_node_id t' = t_node_id t" "\<not> unsent (t_state t')"
      "map_of (so_changed ?s) = (if t' = t then map_of (so_changed s) else (map_of (so_changed s))(t_node_id t \<mapsto> t'))"
      using stop_one_at by blast
    have "t_node_id ` set ts \<inter> dom (map_of (so_changed ?s)) = {}"
      using Cons.prems t'(3) by (auto split: if_splits)
    with Cons.IH[of ?s] Cons.prems(1) have ih: "\<And>u. u \<in> set ts \<Longrightarrow>
        \<not> unsent (t_state (case map_of (so_changed (foldl (stop_one l why) ?s ts)) (t_node_id u) of None \<Rightarrow> u | Some u \<Rightarrow> u))"
      "\<And>k. k \<notin> t_node_id ` set ts \<Longrightarrow> map_of (so_changed (foldl (stop_one l why) ?s ts)) k = map_of (so_changed ?s) k" by auto
    have none: "map_of (so_changed s) (t_node_id t) = None" using Cons.prems(2) by (auto simp del: map_of_eq_None_iff)
    have "t_node_id t \<notin> t_node_id ` set ts" using Cons.prems(1) by simp
    then have "\<not> unsent (t_state (case map_of (so_changed (foldl (stop_one l why) ?s ts)) (t_node_id t) of None \<Rightarrow> t | Some u \<Rightarrow> u))"
      using ih(2)[of "t_node_id t"] t' none by (simp split: if_splits)
    moreover have "map_of (so_changed (foldl (stop_one l why) ?s ts)) k = map_of (so_changed s) k"
      if "k \<notin> t_node_id ` set (t # ts)" for k using ih(2)[of k] t'(3) that by (simp split: if_splits)
    ultimately show ?case using ih(1) by simp
  qed simp
  with assms(3) show "\<not> unsent (t_state (case map_of (so_changed (foldl (stop_one l why) s ts)) (t_node_id t) of None \<Rightarrow> t | Some u \<Rightarrow> u))"
    "k \<notin> t_node_id ` set ts \<Longrightarrow> map_of (so_changed (foldl (stop_one l why) s ts)) k = map_of (so_changed s) k" by blast+
qed

lemma stop_one_form:
  "so_changed (stop_one l why s t) = so_changed s
    \<or> (\<exists>t'. so_changed (stop_one l why s t) = dict_set (t_node_id t) t' (so_changed s))"
  unfolding stop_one_def Let_def by (simp split: option.split) blast

lemma stop_all_distinct:
  "distinct (map fst (so_changed s)) \<Longrightarrow> distinct (map fst (so_changed (foldl (stop_one l why) s ts)))"
proof (induction ts arbitrary: s)
  case (Cons t ts)
  have "distinct (map fst (so_changed (stop_one l why s t)))"
    using Cons.prems stop_one_form[of l why s t] by (auto intro: distinct_dict_set)
  then show ?case using Cons.IH by simp
qed simp

lemma cancel_ok:
  assumes "cancel l plan_id node_id actor now w = (w', Inr r')" and wf: "epic_wf (wo_epics w)"
  shows "y_state r' = RunCancelled \<and> (\<forall>t\<in>set (g_tasks r'). \<not> unsent (t_state t))"
proof -
  obtain r where r: "bindR (epic_run_for w plan_id node_id) (\<lambda>r. bindR (refuse_ended r) (\<lambda>_. Inr r)) = Inr r"
    using assms(1) by (auto simp: cancel_def control_refusal_def split: sum.splits)
  then have get: "run_get (wo_epics w) (y_epic_run_id r) = Some r" by (auto dest: epic_run_for_get)
  let ?i = "y_epic_run_id r"
  let ?why = "''the epic run '' @ ?i @ '' was stopped by '' @ who actor"
  let ?init = "\<lparr>so_queue = eb_items (wo_epics w), so_tasks = keyed_tasks (g_tasks r), so_changed = [],
    so_withdrawn = [], so_running = []\<rparr>"
  let ?s = "foldl (stop_one l ?why) ?init (g_tasks r)"
  let ?e = "(wo_epics w)\<lparr>eb_items := so_queue ?s\<rparr>"
  obtain ev where e': "run_get (run_save ?e ?i (map snd (so_changed ?s)) now (Some RunCancelled) ev (Some actor)) ?i = Some r'"
    using assms(1) r by (auto simp: cancel_def Let_def read_run_def split: option.splits)
  let ?e' = "run_save ?e ?i (map snd (so_changed ?s)) now (Some RunCancelled) ev (Some actor)"
  have wf': "epic_wf ?e'" by (rule run_save_wf) (simp add: wf)
  have row: "run_row_of ?e ?i = Some (run_row.truncate r)" using run_get_SomeD(1)[OF get] by simp
  have "map_option y_state (run_row_of ?e' ?i) = Some RunCancelled" using row by (simp add: run_row_of_save moved_run_state)
  then have st: "y_state r' = RunCancelled" using run_get_SomeD(1)[OF e'] by (simp add: run_row.defs)
  have found: "find (\<lambda>t. t_node_id t = k) (rev (map snd (so_changed ?s))) = map_of (so_changed ?s) k" for k
    by (rule find_changed) (use stop_all_distinct[of ?init l ?why "g_tasks r"] stop_all_keyed[of ?init l ?why "g_tasks r"] in auto)
  have "\<not> unsent (t_state t')" if t': "t' \<in> set (g_tasks r')" for t'
  proof -
    have at': "task_at ?e' ?i (t_node_id t') = Some t'"
      using t'[unfolded run_get_SomeD(3)[OF e']] unfolding task_at_iff[OF wf'] by blast
    have at: "task_at ?e' ?i k = (case map_of (so_changed ?s) k of Some t \<Rightarrow> Some (t\<lparr>t_updated_at := now\<rparr>) | None \<Rightarrow> task_at ?e ?i k)" for k
      unfolding task_at_save found row by simp
    note stop = stop_all_at(1)[of "g_tasks r" ?init _ l ?why, OF run_get_SomeD(4)[OF get wf]]
    show ?thesis
    proof (cases "map_of (so_changed ?s) (t_node_id t')")
      case None
      with at at' have "task_at (wo_epics w) ?i (t_node_id t') = Some t'" by simp
      then have "t' \<in> set (g_tasks r)" using run_get_SomeD(3)[OF get] by (simp add: task_at_iff[OF wf])
      from stop[OF _ this] None show ?thesis by simp
    next
      case (Some u)
      then have "t_node_id t' \<in> dom (map_of (so_changed ?s))" by blast
      from stop_all_changed[OF this] obtain v where v: "v \<in> set (g_tasks r)" "t_node_id t' = t_node_id v" by auto
      from stop[OF _ v(1)] Some v(2) have "\<not> unsent (t_state u)" by simp
      moreover have "t' = u\<lparr>t_updated_at := now\<rparr>" using at at' Some by simp
      ultimately show ?thesis by simp
    qed
  qed
  with st show ?thesis by blast
qed

lemma ended_refused:
  assumes "\<not> live_run (y_state r)"
  shows "refuse_ended r = Inl (refuse_with 409 ''run_ended'' [(''epic_run_id'', JStr (y_epic_run_id r)),
    (''state'', JStr (run_state_name (y_state r)))])"
  using assms by (cases "y_state r") (auto simp: refuse_ended_def check_def live_run_def)

end
