(* ===== verification/EpicExamples.thy ===== *)
theory EpicExamples
  imports EpicMoves PlanExamples
begin

text \<open>
  A concrete epic run: a published epic with three published tasks, the second depending on the
  first, and a daemon whose source reads every issue.
\<close>

definition epic_node :: "ident \<Rightarrow> ident option \<Rightarrow> int \<Rightarrow> level \<Rightarrow> int \<Rightarrow> plan_node" where
  "epic_node i parent position level number = (sample_node i parent position level 1 ''Published'')
     \<lparr>n_state := Published, n_forge := Some \<lparr>f_number = number, f_url = [], f_state = Some ForgeOpen,
        f_updated_at = None, f_detached = None, f_marker_missing = False, f_checklist_error = None\<rparr>\<rparr>"

definition epic_nodes :: "plan_node list" where
  "epic_nodes = [epic_node ''a'' None 0 Epic 1, epic_node ''t'' (Some ''a'') 0 Task 2,
     (epic_node ''s'' (Some ''a'') 1 Task 3)\<lparr>n_depends_on := [''t'']\<rparr>, epic_node ''u'' (Some ''a'') 2 Task 4]"

definition epic_plans :: db where
  "epic_plans = \<lparr>db_plans = [plan_row_for (new_plan ''p'' (epic_node ''a'' None 0 Epic 1) 1 sample_actor
       (brief_of (epic_node ''a'' None 0 Epic 1)) Manual None)],
     db_nodes = map columns epic_nodes, db_events = []\<rparr>"

definition sample_item :: "string \<Rightarrow> string \<Rightarrow> string \<Rightarrow> work_item" where
  "sample_item repo number kind = \<lparr>wi_item_id = ''gh:issue:'' @ number, wi_source_key = number, wi_state = IQueued,
     wi_claimed = False, wi_run_id = None, wi_last_error = None, wi_repo = Some repo, wi_kind = kind,
     wi_profile = None, wi_origin_agent = None, wi_parent_item_id = None, wi_chain_depth = 0,
     wi_created_at = 10, wi_updated_at = 10\<rparr>"

definition sample_daemon :: daemon where
  "sample_daemon = \<lparr>ld_config = sample_config, ld_admit = Some (\<lambda>repo number kind. SItem (sample_item repo number kind)),
     ld_upsert_new = (\<lambda>q w. Inr (q @ [w])),
     ld_retry = (\<lambda>q i who. case queue_get q i of None \<Rightarrow> Inl ''gone'' | Some w \<Rightarrow> Inr (w\<lparr>wi_state := IQueued\<rparr>,
        map (\<lambda>x. if wi_item_id x = i then x\<lparr>wi_state := IQueued\<rparr> else x) q)),
     ld_abandon = (\<lambda>q i why. Some (map (\<lambda>x. if wi_item_id x = i then x\<lparr>wi_state := ICancelled\<rparr> else x) q)),
     ld_complete = (\<lambda>d e plan_id epic_id now. d), ld_profile_error = (\<lambda>x. ''unknown profile '' @ x)\<rparr>"

definition idle_world :: world where
  "idle_world = \<lparr>wo_plans = epic_plans, wo_epics = empty_epics, wo_last_sweep = None\<rparr>"

text \<open>The run just started, the same with the first task's item done, and with every item done.\<close>

definition epic_plan :: plan where
  "epic_plan = (case store_get epic_plans ''p'' of Some p \<Rightarrow> p | None \<Rightarrow> undefined)"

definition created_run :: epic_run where
  "created_run = started_run ''erun_1'' epic_plan (hd epic_nodes) (tl epic_nodes) sample_actor 10"

definition created_world :: world where
  "created_world = idle_world\<lparr>wo_epics := run_create empty_epics created_run
     [run_event ''plan.run.started'' (run_row.truncate created_run) []] sample_actor\<rparr>"

definition started_world :: world where
  "started_world = fst (drive sample_daemon ''erun_1'' 10 created_world)"

definition finish_items :: "string list \<Rightarrow> world \<Rightarrow> world" where
  "finish_items keys w = with_queue w
     (map (\<lambda>x. if wi_source_key x \<in> set keys then x\<lparr>wi_state := IDone\<rparr> else x) (eb_items (wo_epics w)))"

definition landed_world :: world where
  "landed_world = finish_items [''2''] started_world"

definition driven_world :: world where
  "driven_world = fst (drive sample_daemon ''erun_1'' 20 landed_world)"

definition last_world :: world where
  "last_world = finish_items [''2'', ''3'', ''4''] driven_world"

definition final_world :: world where
  "final_world = fst (drive sample_daemon ''erun_1'' 30 last_world)"

definition paused_world :: world where
  "paused_world = fst (pause ''p'' ''a'' sample_actor 20 landed_world)"

lemma dep_edges_list: "dep_edges ns = set (concat (map (\<lambda>n. map (Pair (n_id n)) (n_depends_on n)) ns))"
  by (auto simp: dep_edges_def)

lemma sibling_ids_list:
  "sibling_ids ns n = set (map n_id (filter (\<lambda>s. n_parent_id s = n_parent_id n \<and> n_parent_id n \<noteq> None \<and> n_id s \<noteq> n_id n) ns))"
  by (auto simp: sibling_ids_def)

lemma one_plan_wf:
  assumes "wf_nodes ''p'' r ns" and "raw_nodes d ''p'' = ns" and "map w_plan_id (db_plans d) = [''p'']"
    and "map w_root_node_id (db_plans d) = [r]" and "distinct (map x_node_id (db_nodes d))" and "list_all (\<lambda>x. x = ''p'') (map x_plan_id (db_nodes d))"
  shows "db_wf d"
proof -
  obtain row where "db_plans d = [row]" using assms(3) by (cases "db_plans d") auto
  moreover have "set (map x_plan_id (db_nodes d)) \<subseteq> {''p''}" using assms(6) by (auto simp: list_all_iff)
  ultimately show ?thesis using assms by (auto simp: db_wf_def db_keys_def)
qed

lemma epic_plans_wf: "db_wf epic_plans"
proof -
  have rows: "raw_nodes epic_plans ''p'' = epic_nodes" by code_simp
  have "concat (map (\<lambda>n. map (Pair (n_id n)) (n_depends_on n)) epic_nodes) = [(''s'', ''t'')]" by code_simp
  then have edges: "dep_edges epic_nodes = {(''s'', ''t'')}" by (simp only: dep_edges_list) simp
  have "tree_ok ''a'' epic_nodes"
    by (simp add: tree_ok_def parent_ok_def epic_nodes_def epic_node_def sample_node_def new_node_def)
  moreover have "\<forall>n\<in>set epic_nodes. n_plan_id n = ''p'' \<and> node_ok n" by code_simp
  moreover have "\<forall>n\<in>set epic_nodes. set (n_depends_on n) \<subseteq> sibling_ids epic_nodes n"
    unfolding sibling_ids_list by code_simp
  moreover have "acyclic {(''s'', ''t'')}" by (rule acyclic_insert[THEN iffD2]) (simp add: acyclic_def)
  ultimately have "wf_nodes ''p'' ''a'' epic_nodes" using edges by (simp add: wf_nodes_def deps_ok_def)
  then show ?thesis by (rule one_plan_wf[OF _ rows]) code_simp+
qed

lemma epic_plan_get: "store_get epic_plans ''p'' = Some epic_plan"
proof -
  have "\<not> Option.is_none (store_get epic_plans ''p'')" by code_simp
  then show ?thesis by (cases "store_get epic_plans ''p''") (auto simp: epic_plan_def)
qed

lemma epic_plan_wf: "wf_plan epic_plan"
  by (rule store_get_nodes(2)[OF epic_plans_wf epic_plan_get])

lemma sample_start: "fst (start sample_daemon ''erun_1'' ''p'' ''a'' 1 sample_actor 10 idle_world) = started_world"
proof -
  have "check_start sample_daemon empty_epics epic_plan ''a'' 1 = Inr (hd epic_nodes, tl epic_nodes)" by code_simp
  then have "start sample_daemon ''erun_1'' ''p'' ''a'' 1 sample_actor 10 idle_world
      = read_run (fst (drive sample_daemon ''erun_1'' 10 created_world)) ''erun_1''"
    by (simp add: start_def idle_world_def epic_plan_get Let_def created_world_def created_run_def)
  then show ?thesis by (simp add: started_world_def)
qed

lemma idle_reachable: "epic_reachable sample_daemon idle_world"
  by (rule epic_reachable.init) (simp add: idle_world_def)

lemma started_reachable: "epic_reachable sample_daemon started_world"
  unfolding sample_start[symmetric]
  by (rule epic_reachable.step[OF idle_reachable step_start]) (simp_all add: idle_world_def empty_epics_def epic_plans_wf)

lemma landed_reachable: "epic_reachable sample_daemon landed_world"
  unfolding landed_world_def finish_items_def by (rule epic_reachable.step[OF started_reachable step_queue])

lemma last_reachable: "epic_reachable sample_daemon last_world"
  unfolding last_world_def driven_world_def finish_items_def
  by (rule epic_reachable.step[OF epic_reachable.step[OF landed_reachable step_drive] step_queue]) (rule prod.collapse[symmetric])

text \<open>What the witnesses read off the sample.\<close>

definition run_at :: "world \<Rightarrow> epic_run" where
  "run_at w = (case run_get (wo_epics w) ''erun_1'' of Some r \<Rightarrow> r | None \<Rightarrow> undefined)"

definition s_node :: plan_node where
  "s_node = (epic_node ''s'' (Some ''a'') 1 Task 3)\<lparr>n_depends_on := [''t'']\<rparr>"

definition task_of :: "world \<Rightarrow> ident \<Rightarrow> epic_task" where
  "task_of w k = (case task_at (wo_epics w) ''erun_1'' k of Some t \<Rightarrow> t | None \<Rightarrow> undefined)"

text \<open>One look at a world: its plans are the sample's, and the run is this.  The whole sequence is
  evaluated once.\<close>

definition glance :: "world \<Rightarrow> (run_state \<times> ident \<times> ident \<times> (ident \<times> task_state \<times> ident option) list) option" where
  "glance w = (case run_get (wo_epics w) ''erun_1'' of None \<Rightarrow> None
     | Some r \<Rightarrow> if wo_plans w = epic_plans then Some (y_state r, y_plan_id r, y_node_id r,
         map (\<lambda>t. (t_node_id t, t_state t, t_item_id t)) (g_tasks r)) else None)"

lemma glance_run:
  assumes "glance w = Some (st, i, j, ts)"
  shows "run_get (wo_epics w) ''erun_1'' = Some (run_at w)" and "y_state (run_at w) = st" and "y_plan_id (run_at w) = i"
    and "y_node_id (run_at w) = j" and "wo_plans w = epic_plans"
    and "map (\<lambda>t. (t_node_id t, t_state t, t_item_id t)) (g_tasks (run_at w)) = ts"
  using assms by (auto simp: glance_def run_at_def split: option.splits if_splits)

lemma map_of_tasks:
  "map_of (map (\<lambda>t. (t_node_id t, t_state t, t_item_id t)) xs) k = Some (s, x) \<Longrightarrow>
    \<exists>t. find (\<lambda>t. t_node_id t = k) xs = Some t \<and> t_state t = s \<and> t_item_id t = x"
  by (induction xs) (auto split: if_splits)

lemma glance_task:
  assumes "glance w = Some (st, i, j, ts)" and "epic_wf (wo_epics w)" and "map_of ts k = Some (s, x)"
  shows "run_task (run_at w) k = Some (task_of w k)" and "task_at (wo_epics w) ''erun_1'' k = Some (task_of w k)"
    and "t_state (task_of w k) = s" and "t_item_id (task_of w k) = x"
proof -
  note r = glance_run[OF assms(1)]
  obtain t where t: "run_task (run_at w) k = Some t" "t_state t = s" "t_item_id t = x"
    using assms(3) unfolding r(6)[symmetric] run_task_def by (auto dest: map_of_tasks)
  then have "task_at (wo_epics w) ''erun_1'' k = Some t" using run_task_at[OF assms(2) r(1)] by simp
  with t show "run_task (run_at w) k = Some (task_of w k)" "task_at (wo_epics w) ''erun_1'' k = Some (task_of w k)"
    "t_state (task_of w k) = s" "t_item_id (task_of w k) = x" by (simp_all add: task_of_def)
qed

lemma sample_sequence:
  "(let w1 = drive sample_daemon ''erun_1'' 10 created_world; w2 = finish_items [''2''] (fst w1);
        w3 = drive sample_daemon ''erun_1'' 20 w2; w4 = finish_items [''2'', ''3'', ''4''] (fst w3);
        w5 = drive sample_daemon ''erun_1'' 30 w4; w6 = fst (pause ''p'' ''a'' sample_actor 20 w2);
        w7 = drive sample_daemon ''erun_1'' 30 w6
    in (glance created_world, snd w1, glance (fst w1), glance w2, snd w3, glance (fst w3), glance w4, snd w5,
        glance (fst w5), glance w6, snd w7)) =
   (Some (RunRunning, ''p'', ''a'', [(''t'', TWaiting, None), (''s'', TWaiting, None), (''u'', TWaiting, None)]), True,
    Some (RunRunning, ''p'', ''a'', [(''t'', TQueued, Some ''gh:issue:2''), (''s'', TWaiting, None), (''u'', TQueued, Some ''gh:issue:4'')]),
    Some (RunRunning, ''p'', ''a'', [(''t'', TQueued, Some ''gh:issue:2''), (''s'', TWaiting, None), (''u'', TQueued, Some ''gh:issue:4'')]),
    True,
    Some (RunRunning, ''p'', ''a'', [(''t'', TLanded, Some ''gh:issue:2''), (''s'', TQueued, Some ''gh:issue:3''), (''u'', TQueued, Some ''gh:issue:4'')]),
    Some (RunRunning, ''p'', ''a'', [(''t'', TLanded, Some ''gh:issue:2''), (''s'', TQueued, Some ''gh:issue:3''), (''u'', TQueued, Some ''gh:issue:4'')]),
    True,
    Some (RunCompleted, ''p'', ''a'', [(''t'', TLanded, Some ''gh:issue:2''), (''s'', TLanded, Some ''gh:issue:3''), (''u'', TLanded, Some ''gh:issue:4'')]),
    Some (RunPaused, ''p'', ''a'', [(''t'', TQueued, Some ''gh:issue:2''), (''s'', TWaiting, None), (''u'', TQueued, Some ''gh:issue:4'')]),
    True)"
  by code_simp

lemmas sample_glances = sample_sequence[unfolded Let_def prod.inject, folded started_world_def, folded landed_world_def,
  folded driven_world_def, folded last_world_def, folded final_world_def paused_world_def]

lemma started_step: "drive sample_daemon ''erun_1'' 10 created_world = (started_world, True)"
  and driven_step: "drive sample_daemon ''erun_1'' 20 landed_world = (driven_world, True)"
  and last_step: "drive sample_daemon ''erun_1'' 30 last_world = (final_world, True)"
  using sample_glances by (simp_all add: started_world_def driven_world_def final_world_def prod_eq_iff)

lemma created_glance: "glance created_world = Some (RunRunning, ''p'', ''a'', [(''t'', TWaiting, None), (''s'', TWaiting, None), (''u'', TWaiting, None)])"
  and started_glance: "glance started_world = Some (RunRunning, ''p'', ''a'',
    [(''t'', TQueued, Some ''gh:issue:2''), (''s'', TWaiting, None), (''u'', TQueued, Some ''gh:issue:4'')])"
  and landed_glance: "glance landed_world = Some (RunRunning, ''p'', ''a'',
    [(''t'', TQueued, Some ''gh:issue:2''), (''s'', TWaiting, None), (''u'', TQueued, Some ''gh:issue:4'')])"
  and driven_glance: "glance driven_world = Some (RunRunning, ''p'', ''a'',
    [(''t'', TLanded, Some ''gh:issue:2''), (''s'', TQueued, Some ''gh:issue:3''), (''u'', TQueued, Some ''gh:issue:4'')])"
  and last_glance: "glance last_world = Some (RunRunning, ''p'', ''a'',
    [(''t'', TLanded, Some ''gh:issue:2''), (''s'', TQueued, Some ''gh:issue:3''), (''u'', TQueued, Some ''gh:issue:4'')])"
  and final_glance: "glance final_world = Some (RunCompleted, ''p'', ''a'',
    [(''t'', TLanded, Some ''gh:issue:2''), (''s'', TLanded, Some ''gh:issue:3''), (''u'', TLanded, Some ''gh:issue:4'')])"
  and paused_glance: "glance paused_world = Some (RunPaused, ''p'', ''a'',
    [(''t'', TQueued, Some ''gh:issue:2''), (''s'', TWaiting, None), (''u'', TQueued, Some ''gh:issue:4'')])"
  and paused_step: "snd (drive sample_daemon ''erun_1'' 30 paused_world)"
  using sample_glances by blast+

lemma glance_plan: "glance w = Some (st, ''p'', j, ts) \<Longrightarrow> store_get (wo_plans w) (y_plan_id (run_at w)) = Some epic_plan"
  using glance_run(3,5) epic_plan_get by metis

lemma s_node_child: "s_node \<in> set (children epic_plan ''a'')"
  by code_simp

lemma s_node_in: "s_node \<in> set (p_nodes epic_plan)"
  using s_node_child by (simp add: children_def)

lemma s_node_simps: "n_id s_node = ''s''" "n_depends_on s_node = [''t'']"
  by (simp_all add: s_node_def epic_node_def sample_node_def new_node_def)

lemma epic_node_there: "plan_node_of epic_plan ''a'' \<noteq> None"
  by code_simp

lemma driven_reachable: "epic_reachable sample_daemon driven_world"
  by (rule epic_reachable.step[OF landed_reachable step_drive[OF driven_step]])

lemma final_reachable: "epic_reachable sample_daemon final_world"
  by (rule epic_reachable.step[OF last_reachable step_drive[OF last_step]])

lemma paused_reachable: "epic_reachable sample_daemon paused_world"
  unfolding paused_world_def by (rule epic_reachable.step[OF landed_reachable step_pause])

lemma created_wf: "epic_wf (wo_epics created_world)"
  by code_simp

lemmas sample_epic_wf = created_wf started_reachable[THEN epic_reachable_inv, THEN conjunct1]
  landed_reachable[THEN epic_reachable_inv, THEN conjunct1] driven_reachable[THEN epic_reachable_inv, THEN conjunct1]
  last_reachable[THEN epic_reachable_inv, THEN conjunct1] paused_reachable[THEN epic_reachable_inv, THEN conjunct1]

lemma sample_answers: "answers sample_daemon"
  by (simp add: answers_def sample_daemon_def)

end
