(* ===== verification/EpicClaims.thy ===== *)
theory EpicClaims
  imports EpicExamples
begin

text \<open>
  The properties of epic runs, each with an application to the sample run.
\<close>

section \<open>Passes\<close>

text \<open>C14: no task is admitted before its dependencies are done: when a pass attaches an item to a
  task that did not have it, the run is running and, after the pass, every dependency the run
  holds a task for is landed, closed or skipped.\<close>

theorem admitted_after_its_dependencies:
  assumes "drive l i now w = (w', b)" and "epic_wf (wo_epics w)" and "run_get (wo_epics w) i = Some r"
    and "store_get (wo_plans w) (y_plan_id r) = Some p" and "wf_plan p" and "n \<in> set (p_nodes p)"
    and "task_at (wo_epics w') i (n_id n) = Some t" and "t_item_id t = Some x"
    and "\<forall>u. task_at (wo_epics w) i (n_id n) = Some u \<longrightarrow> t_item_id u \<noteq> Some x"
  shows "y_state r = RunRunning
    \<and> (\<forall>dep\<in>set (n_depends_on n). \<forall>u. task_at (wo_epics w') i dep = Some u \<longrightarrow> done_state (t_state u))"
  using assms(1)
proof (cases rule: drive_cases)
  case (passed r0 p0 s)
  with assms(3,4) have rp: "r0 = r" "p0 = p" by auto
  note s = passed(5)[unfolded rp] and after = passed(7)[unfolded rp]
  note seen = task_passed[OF assms(2,3) s]
  obtain v where v: "map_of (ps_tasks s) (n_id n) = Some v" "t_item_id v = Some x"
    using seen[of "n_id n" t] assms(7,8) unfolding after by metis
  note nid = new_item_deps[OF assms(2,3,5) s v _ assms(6)]
  have "done_state (t_state u)" if dep: "dep \<in> set (n_depends_on n)" "task_at (wo_epics w') i dep = Some u" for dep u
  proof -
    obtain y where "map_of (ps_tasks s) dep = Some y" "t_state y = t_state u"
      using seen[of dep u] dep(2) unfolding after by metis
    with nid(2) dep(1) assms(9) show ?thesis by (auto simp: deps_done_def)
  qed
  with nid(1) assms(9) show ?thesis by blast
qed (use assms(7-9) in simp_all)

theorem admitted_after_its_dependencies_witness:
  "t_item_id (task_of driven_world ''s'') = Some ''gh:issue:3'' \<and> done_state (t_state (task_of driven_world ''t''))"
proof -
  note s = glance_task[OF driven_glance sample_epic_wf(4), of "''s''" TQueued "Some ''gh:issue:3''", simplified]
    and t = glance_task[OF driven_glance sample_epic_wf(4), of "''t''" TLanded "Some ''gh:issue:2''", simplified]
    and before = glance_task[OF landed_glance sample_epic_wf(3), of "''s''" TWaiting None, simplified]
  have at: "task_at (wo_epics driven_world) ''erun_1'' (n_id s_node) = Some (task_of driven_world ''s'')"
    using s(2) by (simp add: s_node_simps)
  have new: "\<forall>u. task_at (wo_epics landed_world) ''erun_1'' (n_id s_node) = Some u \<longrightarrow> t_item_id u \<noteq> Some ''gh:issue:3''"
    using before by (simp add: s_node_simps)
  from admitted_after_its_dependencies[OF driven_step sample_epic_wf(3) glance_run(1)[OF landed_glance]
      glance_plan[OF landed_glance] epic_plan_wf s_node_in at s(4) new] s(4) t(2)
  show ?thesis by (simp add: s_node_simps)
qed

text \<open>C15: a pass over a running or paused run leaves every task of the epic where its
  dependencies put it: one that is not admitted, settled or failed stands exactly at its
  readiness in the states the pass leaves.\<close>

theorem unadmitted_tasks_stand_at_readiness:
  assumes "drive l i now w = (w', True)" and "epic_wf (wo_epics w)" and "run_get (wo_epics w) i = Some r"
    and "live_run (y_state r)" and "store_get (wo_plans w) (y_plan_id r) = Some p" and "wf_plan p"
    and "plan_node_of p (y_node_id r) \<noteq> None" and "n \<in> set (children p (y_node_id r))"
    and "run_get (wo_epics w') i = Some r'" and "run_task r' (n_id n) = Some t"
    and "t_item_id t = None" and "\<not> settled (t_state t)" and "t_state t \<noteq> TFailed"
  shows "t_state t = readiness n (run_states r')"
proof -
  have "y_state r \<noteq> RunCompleted" using assms(4) by (auto simp: live_run_def)
  then obtain s where s: "pass_of l r p now (eb_items (wo_epics w)) = Inr s"
    and after: "wo_epics w' = pass_written r p now (wo_epics w) s" by (rule drive_live[OF assms(1,3) _ assms(5,7)])
  have wf': "epic_wf (wo_epics w')" by (rule drive_wf[OF assms(1,2)])
  have "task_at (wo_epics w') i (n_id n) = Some t" using assms(10) by (simp add: run_task_at[OF wf' assms(9)])
  then obtain v where v: "map_of (ps_tasks s) (n_id n) = Some v" "t_item_id v = t_item_id t" "t_state v = t_state t"
    unfolding after by (rule task_passed[OF assms(2,3) s])
  then have "\<not> frozen v" using assms(11-13) by (simp add: frozen_def)
  have same: "map_of (run_states r') k = map_of (states_of (ps_tasks s)) k" for k
    using passed_tasks[OF assms(2,3) s, of t_state k] after by (simp add: run_states_at[OF wf' assms(9)])
  show ?thesis
    using unadmitted_stands[OF assms(2,3,6) s assms(4,8) v(1) \<open>\<not> frozen v\<close>] v(3) readiness_cong[OF same] by simp
qed

theorem unadmitted_tasks_stand_at_readiness_witness:
  "t_state (task_of started_world ''s'') = readiness s_node (run_states (run_at started_world))
    \<and> t_state (task_of started_world ''s'') = TWaiting"
proof -
  note r = glance_run[OF created_glance] and s = glance_task[OF started_glance sample_epic_wf(2), of "''s''" TWaiting None, simplified]
  have live: "live_run (y_state (run_at created_world))" by (simp add: r(2) live_run_def)
  have at: "run_task (run_at started_world) (n_id s_node) = Some (task_of started_world ''s'')"
    using s(1) by (simp add: s_node_simps)
  from unadmitted_tasks_stand_at_readiness[OF started_step sample_epic_wf(1) r(1) live glance_plan[OF created_glance] epic_plan_wf
      epic_node_there[folded r(4)] s_node_child[folded r(4)] glance_run(1)[OF started_glance] at s(4)] s(3)
  show ?thesis by simp
qed



text \<open>C17: a pass over a running or paused run completes it exactly when every task is landed,
  closed or skipped afterwards, and otherwise leaves its state as it was.\<close>

theorem run_completes_exactly:
  assumes "drive l i now w = (w', True)" and "epic_wf (wo_epics w)" and "run_get (wo_epics w) i = Some r"
    and "live_run (y_state r)" and "store_get (wo_plans w) (y_plan_id r) = Some p"
    and "plan_node_of p (y_node_id r) \<noteq> None" and "run_get (wo_epics w') i = Some r'"
  shows "y_state r' = (if \<forall>t\<in>set (g_tasks r'). done_state (t_state t) then RunCompleted else y_state r)"
proof -
  have "y_state r \<noteq> RunCompleted" using assms(4) by (auto simp: live_run_def)
  then obtain s where s: "pass_of l r p now (eb_items (wo_epics w)) = Inr s"
    and after: "wo_epics w' = pass_written r p now (wo_epics w) s" by (rule drive_live[OF assms(1,3) _ assms(5,6)])
  from run_after[OF assms(2,3) s assms(7)[unfolded after]] assms(4) show ?thesis by simp
qed

theorem run_completes_exactly_witness:
  "y_state (run_at last_world) = RunRunning \<and> y_state (run_at final_world) = RunCompleted"
proof -
  note r = glance_run[OF last_glance] and f = glance_run[OF final_glance]
  have live: "live_run (y_state (run_at last_world))" by (simp add: r(2) live_run_def)
  have "set (map (\<lambda>(k, s, x). s) (map (\<lambda>t. (t_node_id t, t_state t, t_item_id t)) (g_tasks (run_at final_world)))) = {TLanded}"
    by (simp only: f(6)) simp
  then have "\<forall>t\<in>set (g_tasks (run_at final_world)). done_state (t_state t)" by (auto simp: done_state_def)
  with run_completes_exactly[OF last_step sample_epic_wf(5) r(1) live glance_plan[OF last_glance] epic_node_there[folded r(4)] f(1)] r(2)
  show ?thesis by simp
qed

text \<open>A run that is not running admits nothing: a pass over it leaves the queue exactly as
  it was.\<close>

lemma paused_run_admits_nothing:
  assumes "drive l i now w = (w', b)" and "epic_wf (wo_epics w)" and "run_get (wo_epics w) i = Some r"
    and "y_state r \<noteq> RunRunning" and "store_get (wo_plans w) (y_plan_id r) = Some p" and "wf_plan p" and "b"
  shows "eb_items (wo_epics w') = eb_items (wo_epics w)"
  using assms(1)
proof (cases rule: drive_cases)
  case (passed r0 p0 s)
  with assms(3,5) have rp: "r0 = r" "p0 = p" by auto
  have "ps_queue s = eb_items (wo_epics w)"
    using pass_of_ok(5)[OF assms(2,3,6) passed(5)[unfolded rp]] assms(4) by blast
  with passed(7) show ?thesis by (simp add: pass_written_def rp)
qed (use assms(7) in simp_all)

section \<open>Sequences of steps\<close>

text \<open>C19: a task that landed, was closed, skipped or cancelled stays as it is, whatever passes,
  ticks, controls and changes of the queue and the plans follow.\<close>

theorem settled_tasks_stay:
  assumes "epic_reachable l w" and "(epic_step l)\<^sup>*\<^sup>* w w'"
    and "task_at (wo_epics w) i k = Some t" and "settled (t_state t)"
  shows "task_at (wo_epics w') i k = Some t"
  using steps_moves[OF assms(2,1)] moves_settled[OF _ assms(3,4)] by blast

theorem settled_tasks_stay_witness:
  "t_state (task_of driven_world ''t'') = TLanded
    \<and> task_at (wo_epics (fst (cancel sample_daemon ''p'' ''a'' sample_actor 30 driven_world))) ''erun_1'' ''t'' = Some (task_of driven_world ''t'')"
proof -
  note t = glance_task[OF driven_glance sample_epic_wf(4), of "''t''" TLanded "Some ''gh:issue:2''", simplified]
  then have "settled (t_state (task_of driven_world ''t''))" by (simp add: settled_def done_state_def)
  from settled_tasks_stay[OF driven_reachable r_into_rtranclp[of "epic_step sample_daemon", OF step_cancel] t(2) this] t(3)
  show ?thesis by blast
qed

text \<open>C20: a run that completed or was cancelled never runs again.\<close>

theorem ended_runs_stay_ended:
  assumes "epic_reachable l w" and "(epic_step l)\<^sup>*\<^sup>* w w'"
    and "run_row_of (wo_epics w) i = Some r" and "\<not> live_run (y_state r)"
  shows "\<exists>r'. run_row_of (wo_epics w') i = Some r' \<and> y_state r' = y_state r"
  using steps_moves[OF assms(2,1)] moves_ended[OF _ assms(3,4)] by blast

theorem ended_runs_stay_ended_witness:
  "\<exists>r'. run_row_of (wo_epics (tick sample_daemon 40 final_world)) ''erun_1'' = Some r' \<and> y_state r' = RunCompleted"
proof -
  note r = glance_run[OF final_glance]
  have st: "y_state (run_row.truncate (run_at final_world)) = RunCompleted" using r(2) by (simp add: run_row.defs)
  then have "\<not> live_run (y_state (run_row.truncate (run_at final_world)))" by (simp add: live_run_def)
  from ended_runs_stay_ended[OF final_reachable r_into_rtranclp[of "epic_step sample_daemon", OF step_tick] run_get_SomeD(1)[OF r(1)] this] st
  show ?thesis by simp
qed



section \<open>Controls\<close>

text \<open>C22: stopping a run cancels it and leaves none of its tasks waiting, ready or blocked: each
  was withdrawn, ended, or is already in the queue or running.\<close>

theorem cancel_leaves_nothing_waiting:
  assumes "epic_wf (wo_epics w)" and "cancel l plan_id node_id actor now w = (w', Inr r')"
  shows "y_state r' = RunCancelled \<and> (\<forall>t\<in>set (g_tasks r'). t_state t \<notin> {TWaiting, TReady, TBlocked})"
  using cancel_ok[OF assms(2,1)] by (simp add: unsent_def)

theorem cancel_leaves_nothing_waiting_witness:
  "\<exists>w' r'. cancel sample_daemon ''p'' ''a'' sample_actor 11 created_world = (w', Inr r') \<and> y_state r' = RunCancelled
    \<and> (\<forall>t\<in>set (g_tasks r'). t_state t \<notin> {TWaiting, TReady, TBlocked})"
proof -
  have "\<not> isl (snd (cancel sample_daemon ''p'' ''a'' sample_actor 11 created_world))" by code_simp
  then obtain w' r' where "cancel sample_daemon ''p'' ''a'' sample_actor 11 created_world = (w', Inr r')"
    by (cases "cancel sample_daemon ''p'' ''a'' sample_actor 11 created_world"; cases "snd (cancel sample_daemon ''p'' ''a'' sample_actor 11 created_world)") auto
  with cancel_leaves_nothing_waiting[OF sample_epic_wf(1)] show ?thesis by blast
qed

text \<open>Once a run has ended, every control of it and of its tasks is refused with the run's
  state, and changes nothing.\<close>

lemma ended_run_refuses_controls:
  assumes "epic_run_for w plan_id node_id = Inr r" and "task_run_for w plan_id task_id = Inr (r, n)" and "\<not> live_run (y_state r)"
  defines "refused \<equiv> refuse_with 409 ''run_ended'' [(''epic_run_id'', JStr (y_epic_run_id r)),
    (''state'', JStr (run_state_name (y_state r)))]"
  shows "pause plan_id node_id actor now w = control_refusal w refused
    \<and> resume l plan_id node_id actor now w = control_refusal w refused
    \<and> cancel l plan_id node_id actor now w = control_refusal w refused
    \<and> retry l plan_id task_id actor now w = control_refusal w refused
    \<and> skip_task l plan_id task_id actor now w = control_refusal w refused"
  using ended_refused[OF assms(3)] assms(1,2)
  by (simp add: refused_def pause_def resume_def cancel_def retry_def skip_task_def driven_task_def control_refusal_def)

text \<open>The tasks a failure holds back are exactly the other tasks that depend on it, directly
  or through others.\<close>

lemma dependents_are_transitive:
  "set (dependents ns i) = {n_id n | n. n \<in> set ns \<and> n_id n \<noteq> i \<and> (n_id n, i) \<in> (dep_edges ns)\<^sup>+}"
  by (rule set_dependents)

text \<open>A task whose item left the queue is ready again, whatever the state of its run: a stopped run says
  of it that it is admitted again, and never admits it.\<close>

lemma lost_item_is_ready_again:
  "t_item_id t = Some i \<Longrightarrow> \<not> settled (t_state t) \<Longrightarrow> queue_get q i = None \<Longrightarrow> t_state (follow q t) = TReady"
  by (simp add: follow_def)

end
