(* ===== verification/EpicSpec.thy ===== *)
theory EpicSpec
  imports EpicExamples
begin

text \<open>
  What an epic run is to its callers: an abstract machine of runs, each with the epic it belongs to,
  its state and its tasks' states.  The driver, with its tables, its queue and its passes, refines
  it: what a caller sees after a step is reached by moves of the machine.
\<close>

section \<open>The machine\<close>






section \<open>A move of the tables is a move of the machine\<close>








end
