(* ===== verification/TextFacts.thy ===== *)
theory TextFacts
  imports PyText
begin

text \<open>
  What the string methods of \<open>PyText\<close> give: squashed text has single spaces between words and no
  line boundary, stripping leaves alone what starts and ends with a visible character, and the
  lines joined by newlines are read back by \<open>splitlines\<close>.
\<close>

definition newline :: char where "newline = char_of (10 :: nat)"

lemma starts_with_prefix: "starts_with p s = prefix p s"
  by (metis append_eq_conv_conj append_take_drop_id prefix_def starts_with_def)

section \<open>White space\<close>

lemma break_is_space: "is_line_break c \<Longrightarrow> is_space c"
  by (auto simp: is_line_break_def is_space_def)

lemma space_char: "is_space (CHR '' '')" "\<not> is_line_break (CHR '' '')"
  by (simp_all add: is_space_def is_line_break_def)

lemma newline_char: "is_line_break newline" "is_space newline" "ord newline = 10"
  by (simp_all add: newline_def is_line_break_def is_space_def)

definition visible :: "string \<Rightarrow> bool" where
  "visible s = (s \<noteq> [] \<and> \<not> is_space (hd s) \<and> \<not> is_space (last s))"

lemma strip_by_id:
  assumes "s \<noteq> []" and "\<not> p (hd s)" and "\<not> p (last s)"
  shows "strip_by p s = s"
proof -
  have "dropWhile p s = s" using assms by (cases s) simp_all
  moreover have "dropWhile p (rev s) = rev s" using assms by (cases s rule: rev_cases) simp_all
  ultimately show ?thesis by (simp add: strip_by_def lstrip_by_def rstrip_by_def)
qed

lemma strip_by_wrapped:
  assumes "s \<noteq> []" and "\<not> p (hd s)" and "\<not> p (last s)" and "p x" and "p y"
  shows "strip_by p (x # s @ [y]) = s"
proof -
  have "dropWhile p (x # s @ [y]) = s @ [y]" using assms by (cases s) simp_all
  moreover have "dropWhile p (y # rev s) = rev s" using assms by (cases s rule: rev_cases) simp_all
  ultimately show ?thesis by (simp add: strip_by_def lstrip_by_def rstrip_by_def)
qed

lemma strip_visible: "visible s \<Longrightarrow> strip s = s"
  by (simp add: visible_def strip_by_id)

lemma visible_not_blank: "visible s \<Longrightarrow> \<not> blank s"
  by (simp add: blank_def strip_visible) (simp add: visible_def)

section \<open>Words\<close>

definition a_word :: "string \<Rightarrow> bool" where
  "a_word w = (w \<noteq> [] \<and> (\<forall>c \<in> set w. \<not> is_space c))"

lemma split_ws_words: "w \<in> set (split_ws s) \<Longrightarrow> a_word w"
proof (induction s rule: split_ws.induct)
  case (1 s)
  show ?case
  proof (cases "dropWhile is_space s")
    case Nil
    then have "split_ws s = []" by (subst split_ws.simps) (simp only: list.case)
    with 1(2) show ?thesis by simp
  next
    case (Cons x t)
    then have "\<not> is_space x" using hd_dropWhile[of is_space s] by simp
    then have "a_word (takeWhile (\<lambda>c. \<not> is_space c) (x # t))"
      by (auto simp: a_word_def dest: set_takeWhileD)
    moreover have "split_ws s = takeWhile (\<lambda>c. \<not> is_space c) (x # t) # split_ws (dropWhile (\<lambda>c. \<not> is_space c) (x # t))"
      by (subst split_ws.simps) (simp add: Cons)
    ultimately show ?thesis using 1(1)[OF Cons] 1(2) by (metis set_ConsD)
  qed
qed

lemma set_join: "set (join sep ws) \<subseteq> set sep \<union> \<Union> (set ` set ws)"
  by (induction sep ws rule: join.induct) auto

lemma join_visible:
  assumes "ws \<noteq> []" and "\<forall>w \<in> set ws. a_word w"
  shows "visible (join sep ws)"
  using assms
proof (induction sep ws rule: join.induct)
  case (2 sep x)
  then show ?case by (auto simp: visible_def a_word_def)
next
  case (3 sep x y zs)
  then have "visible (join sep (y # zs))" by simp
  with 3(3) show ?case by (auto simp: visible_def a_word_def)
qed simp

lemma squash_visible: "squash s \<noteq> [] \<Longrightarrow> visible (squash s)"
  unfolding squash_def by (rule join_visible) (auto dest: split_ws_words)

lemma squash_char: "c \<in> set (squash s) \<Longrightarrow> c = CHR '' '' \<or> \<not> is_space c"
  using set_join[of "'' ''" "split_ws s"] split_ws_words unfolding squash_def a_word_def by fastforce

lemma squash_no_break: "c \<in> set (squash s) \<Longrightarrow> \<not> is_line_break c"
  using squash_char space_char(2) break_is_space by blast

lemma split_ws_word:
  assumes "a_word w" and "r = [] \<or> is_space (hd r)"
  shows "split_ws (w @ r) = w # split_ws r"
proof -
  obtain x t where w: "w = x # t" using assms(1) by (cases w) (simp_all add: a_word_def)
  have "dropWhile is_space (w @ r) = x # t @ r" using assms(1) w by (simp add: a_word_def)
  moreover have "takeWhile (\<lambda>c. \<not> is_space c) (x # t @ r) = w" "dropWhile (\<lambda>c. \<not> is_space c) (x # t @ r) = r"
    using assms w by (cases r; simp add: a_word_def)+
  ultimately show ?thesis by (subst split_ws.simps) (simp only: list.case)
qed

lemma split_ws_space: "split_ws (CHR '' '' # s) = split_ws s"
  by (subst (1 2) split_ws.simps) (simp add: space_char)

lemma split_ws_join: "\<forall>w \<in> set ws. a_word w \<Longrightarrow> split_ws (join '' '' ws) = ws"
proof (induction "'' ''" ws rule: join.induct)
  case 1
  then show ?case by (subst split_ws.simps) simp
next
  case (2 x)
  then show ?case using split_ws_word[of x "[]"] by (simp add: split_ws.simps[of "[]"])
next
  case (3 x y zs)
  then show ?case using split_ws_word[of x "'' '' @ join '' '' (y # zs)"] by (simp add: split_ws_space space_char)
qed

lemma squash_squash [simp]: "squash (squash s) = squash s"
  by (simp add: squash_def split_ws_join split_ws_words)

section \<open>Lines\<close>

definition one_line :: "string \<Rightarrow> bool" where
  "one_line l = (\<forall>c \<in> set l. \<not> is_line_break c)"

lemma splitlines_line:
  assumes "one_line l"
  shows "splitlines (l @ newline # r) = l # splitlines r"
  using assms
proof (induction l)
  case Nil
  then show ?case by (simp add: newline_char)
next
  case (Cons x l)
  then have "\<not> is_line_break x" by (simp add: one_line_def)
  then show ?case using Cons by (auto simp: one_line_def is_line_break_def)
qed

lemma splitlines_last: "one_line l \<Longrightarrow> l \<noteq> [] \<Longrightarrow> splitlines l = [l]"
proof (induction l)
  case (Cons x l)
  then have "\<not> is_line_break x" by (simp add: one_line_def)
  then show ?case using Cons by (cases l) (auto simp: one_line_def is_line_break_def)
qed simp

lemma splitlines_join:
  assumes "\<forall>l \<in> set ls. one_line l \<and> l \<noteq> []"
  shows "splitlines (join [newline] ls) = ls"
  using assms by (induction "[newline]" ls rule: join.induct) (auto simp: splitlines_line splitlines_last)

lemma join_Cons: "ls \<noteq> [] \<Longrightarrow> join sep (l # ls) = l @ sep @ join sep ls"
  by (cases ls) simp_all

lemma join_append: "xs \<noteq> [] \<Longrightarrow> ys \<noteq> [] \<Longrightarrow> join sep (xs @ ys) = join sep xs @ sep @ join sep ys"
  by (induction sep xs rule: join.induct) (simp_all add: join_Cons)

end
