(* ===== verification/Checklist.thy ===== *)
theory Checklist
  imports TextFacts
begin

text \<open>
  The managed children checklist of a parent issue (\<open>vcs/checklist.py\<close>): the block between
  its two markers, its lines, and the edits of it.  The entry pattern is written out as the
  parser it is: the alternatives of its pieces exclude one another, so it never backtracks.
\<close>

section \<open>Occurrences\<close>

text \<open>The starts of the matches of a literal, as \<open>re.finditer\<close> reports them.\<close>

function find_all :: "string \<Rightarrow> nat \<Rightarrow> string \<Rightarrow> nat list" where
  "find_all p i s = (if p = [] \<or> s = [] then []
     else if starts_with p s then i # find_all p (i + length p) (drop (length p) s)
     else find_all p (Suc i) (tl s))"
  by pat_completeness auto
termination
  by (relation "measure (\<lambda>(p, i, s). length s)") auto

declare find_all.simps [simp del]

section \<open>Entries\<close>

definition start_mark :: string where "start_mark = ''<!-- sbx-plan:children -->''"
definition end_mark :: string where "end_mark = ''<!-- /sbx-plan:children -->''"

datatype checklist_error = ManyBlocks | NoClosing | NoOpening | OutOfOrder | NotAChild nat string

record checklist_entry =
  ck_ref :: string
  ck_title :: string
  ck_closed :: bool

definition entry_line :: "checklist_entry \<Rightarrow> string" where
  "entry_line e = (let title = squash (ck_title e) in
     ''- ['' @ (if ck_closed e then ''x'' else '' '') @ ''] '' @ ck_ref e
     @ (if title = [] then [] else '' '' @ title))"

definition is_ref_char :: "char \<Rightarrow> bool" where
  "is_ref_char c = (is_word c \<or> c = CHR ''.'' \<or> c = CHR ''-'')"

definition is_path_char :: "char \<Rightarrow> bool" where
  "is_path_char c = (is_ref_char c \<or> c = CHR ''/'')"

text \<open>Segments of reference characters, at least two, separated by slashes.\<close>

definition is_path :: "string \<Rightarrow> bool" where
  "is_path s = (let segments = split_on (CHR ''/'') s in
     list_all is_path_char s \<and> length segments \<ge> 2 \<and> list_all (\<lambda>x. x \<noteq> []) segments)"

definition match_ref :: "string \<Rightarrow> (string \<times> string) option" where
  "match_ref s = (let path = takeWhile is_path_char s; rest = dropWhile is_path_char s in
     if \<not> is_path path \<or> rest = [] \<or> hd rest \<noteq> CHR ''#'' then None
     else let digits = takeWhile is_decimal (tl rest); tail = dropWhile is_decimal (tl rest) in
       if digits = [] then None else Some (path @ ''#'' @ digits, tail))"

definition match_mark :: "string \<Rightarrow> (bool \<times> string) option" where
  "match_mark s = (if starts_with ''- [ ] '' s then Some (False, drop 6 s)
     else if starts_with ''- [x] '' s \<or> starts_with ''- [X] '' s then Some (True, drop 6 s) else None)"

definition match_entry :: "string \<Rightarrow> checklist_entry option" where
  "match_entry s = (case match_mark s of
      None \<Rightarrow> None
    | Some (ticked, rest) \<Rightarrow> (case match_ref rest of
        None \<Rightarrow> None
      | Some (ref, tail) \<Rightarrow>
          if tail = [] then Some \<lparr>ck_ref = ref, ck_title = [], ck_closed = ticked\<rparr>
          else if hd tail = CHR '' '' then Some \<lparr>ck_ref = ref, ck_title = tl tail, ck_closed = ticked\<rparr>
          else None))"

section \<open>The block\<close>

definition render_checklist :: "checklist_entry list \<Rightarrow> string" where
  "render_checklist es = join [newline] (start_mark # map entry_line es @ [end_mark])"

definition locate :: "string \<Rightarrow> checklist_error + (nat \<times> nat) option" where
  "locate body = (let starts = find_all start_mark 0 body; ends = find_all end_mark 0 body in
     if starts = [] \<and> ends = [] then Inr None
     else if length starts > 1 \<or> length ends > 1 then Inl ManyBlocks
     else if ends = [] then Inl NoClosing
     else if starts = [] then Inl NoOpening
     else if hd ends < hd starts then Inl OutOfOrder
     else Inr (Some (hd starts, hd ends + length end_mark)))"

fun read_lines :: "nat \<Rightarrow> string list \<Rightarrow> checklist_error + checklist_entry list" where
  "read_lines number [] = Inr []"
| "read_lines number (line # lines) =
     (if blank line then read_lines (Suc number) lines
      else (case match_entry (strip line) of
              None \<Rightarrow> Inl (NotAChild number (strip line))
            | Some e \<Rightarrow> bindR (read_lines (Suc number) lines) (\<lambda>es. Inr (e # es))))"

definition parse_checklist :: "string \<Rightarrow> checklist_error + checklist_entry list" where
  "parse_checklist body = bindR (locate body) (\<lambda>span. case span of
      None \<Rightarrow> Inr []
    | Some (i, j) \<Rightarrow>
        let from = i + length start_mark; inner = take (j - length end_mark - from) (drop from body)
        in read_lines 1 (splitlines (strip_by (\<lambda>c. c = newline) inner)))"

definition write_checklist :: "string \<Rightarrow> checklist_entry list \<Rightarrow> checklist_error + string" where
  "write_checklist body es = bindR (locate body) (\<lambda>span. let block = render_checklist es in
     case span of
       None \<Rightarrow> (let base = rstrip_by (\<lambda>c. c = newline) body in
         Inr ((if base = [] then [] else base @ [newline, newline]) @ block @ [newline]))
     | Some (i, j) \<Rightarrow> Inr (take i body @ block @ drop j body))"

definition edit_checklist :: "string \<Rightarrow> (checklist_entry list \<Rightarrow> checklist_entry list) \<Rightarrow> checklist_error + string" where
  "edit_checklist body change = bindR (parse_checklist body) (\<lambda>es.
     if change es = es then Inr body else write_checklist body (change es))"

definition add_child :: "string \<Rightarrow> checklist_entry \<Rightarrow> checklist_error + string" where
  "add_child body e = edit_checklist body (\<lambda>es.
     if list_ex (\<lambda>x. ck_ref x = ck_ref e) es then es else es @ [e])"

definition remove_child :: "string \<Rightarrow> string \<Rightarrow> checklist_error + string" where
  "remove_child body ref = edit_checklist body (filter (\<lambda>x. ck_ref x \<noteq> ref))"

definition set_child_closed :: "string \<Rightarrow> string \<Rightarrow> bool \<Rightarrow> checklist_error + string" where
  "set_child_closed body ref ticked = edit_checklist body
     (map (\<lambda>x. if ck_ref x = ref then x\<lparr>ck_closed := ticked\<rparr> else x))"

section \<open>Where a marker occurs\<close>

lemma sublist_tl: "sublist p xs \<Longrightarrow> sublist p (x # xs)"
  by (auto simp: sublist_def) (metis append_Cons)

lemma sublist_step: "sublist p (x # xs) \<longleftrightarrow> prefix p (x # xs) \<or> sublist p xs"
  by (rule sublist_Cons_right)

lemma sublist_left: "sublist p xs \<Longrightarrow> sublist p (xs @ ys)"
  by (rule sublist_order.order_trans[OF _ sublist_append_rightI])

lemma sublist_right: "sublist p ys \<Longrightarrow> sublist p (xs @ ys)"
  by (rule sublist_order.order_trans[OF _ sublist_append_leftI])

lemma find_all_none: "p \<noteq> [] \<Longrightarrow> find_all p i s = [] \<longleftrightarrow> \<not> sublist p s"
proof (induction p i s rule: find_all.induct)
  case (1 p i s)
  show ?case
  proof (cases s)
    case Nil
    with 1 show ?thesis by (simp add: find_all.simps)
  next
    case (Cons x xs)
    with 1 show ?thesis by (subst find_all.simps) (auto simp: starts_with_prefix sublist_step)
  qed
qed

lemma no_overlap:
  assumes "p \<noteq> []" and "hd p \<notin> set (tl p)" and "prefix p (a @ p @ b)" and "a \<noteq> []"
  shows "prefix p a"
proof (cases "length p \<le> length a")
  case True
  with assms(3) show ?thesis by (metis prefix_length_prefix prefixI)
next
  case False
  with assms(3) have "prefix a p" by (metis nat_le_linear prefixI prefix_length_prefix)
  then obtain r where r: "p = a @ r" by (auto simp: prefix_def)
  with False have "r \<noteq> []" by auto
  from assms(3) r have "prefix r (p @ b)" by simp
  with \<open>r \<noteq> []\<close> assms(1) have "hd r = hd p" by (auto simp: prefix_def neq_Nil_conv)
  moreover have "hd r \<in> set (tl p)" using r assms(4) \<open>r \<noteq> []\<close> by (cases a) auto
  ultimately show ?thesis using assms(2) by simp
qed

lemma find_all_one:
  assumes "p \<noteq> []" and "hd p \<notin> set (tl p)" and "\<not> sublist p a" and "\<not> sublist p b"
  shows "find_all p i (a @ p @ b) = [i + length a]"
  using assms(3)
proof (induction a arbitrary: i)
  case Nil
  have "starts_with p (p @ b)" by (simp add: starts_with_def)
  then show ?case using assms(1,4) by (subst find_all.simps) (simp add: find_all_none)
next
  case (Cons x a)
  have "\<not> prefix p (x # a)" using Cons.prems by (auto simp: prefix_imp_sublist)
  with no_overlap[OF assms(1,2), of "x # a" b] have "\<not> starts_with p (x # a @ p @ b)" by (auto simp: starts_with_prefix)
  moreover have "\<not> sublist p a" using Cons.prems by (blast intro: sublist_tl)
  ultimately show ?case using Cons.IH[of "Suc i"] assms(1) by (subst find_all.simps) simp
qed

lemma find_all_oneD:
  assumes "find_all p i s = [k]" and "p \<noteq> []"
  obtains a b where "s = a @ p @ b" "k = i + length a" "\<not> sublist p a" "\<not> sublist p b"
proof -
  have "find_all p i s = [k] \<Longrightarrow> \<exists>a b. s = a @ p @ b \<and> k = i + length a \<and> \<not> sublist p a \<and> \<not> sublist p b"
    using assms(2)
  proof (induction p i s rule: find_all.induct)
    case (1 p i s)
    have ne: "s \<noteq> []" using 1(3) by (auto simp: find_all.simps)
    show ?case
    proof (cases "starts_with p s")
      case True
      then have "find_all p (i + length p) (drop (length p) s) = []" "k = i"
        using 1(3,4) ne by (auto simp: find_all.simps[of p i s])
      moreover have "s = [] @ p @ drop (length p) s"
        using True by (metis append_Nil append_take_drop_id starts_with_def)
      moreover have "\<not> sublist p []" using 1(4) by simp
      ultimately show ?thesis using find_all_none[OF 1(4)]
        by (intro exI[of _ "[]"] exI[of _ "drop (length p) s"]) simp
    next
      case False
      then have "find_all p (Suc i) (tl s) = [k]" using 1(3,4) ne by (simp add: find_all.simps[of p i s])
      from 1(2)[OF _ False this 1(4)] ne 1(4) obtain a b where
        ab: "tl s = a @ p @ b" "k = Suc i + length a" "\<not> sublist p a" "\<not> sublist p b" by auto
      obtain x where x: "s = x # tl s" using ne by (cases s) auto
      have "\<not> prefix p (x # a)"
        using False ab(1) x by (metis append_Cons prefixI prefix_order.trans starts_with_prefix)
      with ab x show ?thesis by (intro exI[of _ "x # a"] exI[of _ b]) (auto simp: sublist_step)
    qed
  qed
  with assms(1) that show thesis by blast
qed

text \<open>An occurrence starts at its first character: it neither starts within text that lacks that
  character nor runs into text that begins with it.\<close>

lemma sublist_skip: "p \<noteq> [] \<Longrightarrow> hd p \<notin> set t \<Longrightarrow> sublist p (t @ s) \<longleftrightarrow> sublist p s"
proof (induction t)
  case (Cons x t)
  have "\<not> prefix p (x # t @ s)" using Cons.prems by (cases p) auto
  with Cons show ?case by (simp add: sublist_step)
qed simp

lemma sublist_split_head:
  assumes "p \<noteq> []" and "hd p \<notin> set (tl p)" and "ys \<noteq> []" and "hd ys = hd p"
  shows "sublist p (xs @ ys) \<longleftrightarrow> sublist p xs \<or> sublist p ys"
proof (induction xs)
  case Nil
  then show ?case using assms(1) by simp
next
  case (Cons x xs)
  have "prefix p (x # xs)" if pre: "prefix p (x # xs @ ys)"
  proof (cases "length p \<le> length (x # xs)")
    case True
    with pre show ?thesis by (metis append_Cons prefixI prefix_length_prefix)
  next
    case False
    with pre have "prefix (x # xs) p" by (metis append_Cons nat_le_linear prefixI prefix_length_prefix)
    then obtain r where r: "p = x # xs @ r" by (auto simp: prefix_def)
    with False pre have "r \<noteq> []" "prefix r ys" by auto
    then have "hd r = hd p" using assms(4) by (auto simp: prefix_def neq_Nil_conv)
    with r \<open>r \<noteq> []\<close> assms(2) show ?thesis by auto
  qed
  moreover have "prefix p (x # xs @ ys)" if "prefix p (x # xs)"
    using prefix_prefix[OF that, of ys] by simp
  ultimately show ?case using Cons by (auto simp: sublist_step)
qed

lemma sublist_split_char:
  assumes "p \<noteq> []" and "c \<notin> set p"
  shows "sublist p (xs @ c # ys) \<longleftrightarrow> sublist p xs \<or> sublist p ys"
proof (induction xs)
  case Nil
  have "\<not> prefix p (c # ys)" using assms by (cases p) auto
  then show ?case using assms(1) by (simp add: sublist_step)
next
  case (Cons x xs)
  have "prefix p (x # xs)" if pre: "prefix p (x # xs @ c # ys)"
  proof (cases "length p \<le> length (x # xs)")
    case True
    with pre show ?thesis by (metis append_Cons prefixI prefix_length_prefix)
  next
    case False
    with pre have "prefix ((x # xs) @ [c]) p"
      by (metis Suc_leI append_Cons append_assoc length_append_singleton not_le_imp_less prefixI prefix_length_prefix append_Nil)
    then have "c \<in> set p" by (auto simp: prefix_def)
    with assms(2) show ?thesis by simp
  qed
  moreover have "prefix p (x # xs @ c # ys)" if "prefix p (x # xs)"
    using prefix_prefix[OF that, of "c # ys"] by simp
  ultimately show ?case using Cons by (auto simp: sublist_step)
qed

section \<open>Locating the block\<close>

definition clean :: "string \<Rightarrow> bool" where
  "clean s = (\<not> sublist start_mark s \<and> \<not> sublist end_mark s)"

lemma mark_simps:
  "start_mark \<noteq> []" "end_mark \<noteq> []" "hd start_mark = CHR ''<''" "hd end_mark = CHR ''<''"
  "CHR ''<'' \<notin> set (tl start_mark)" "CHR ''<'' \<notin> set (tl end_mark)"
  "newline \<notin> set start_mark" "newline \<notin> set end_mark"
  by (simp_all add: start_mark_def end_mark_def newline_def char_of_def)

lemma marks_differ: "\<not> prefix start_mark (end_mark @ s)" "\<not> prefix end_mark (start_mark @ s)"
  by (simp_all add: start_mark_def end_mark_def)

lemma sublist_start_end: "sublist start_mark (end_mark @ s) \<longleftrightarrow> sublist start_mark s"
proof -
  obtain t where t: "end_mark = CHR ''<'' # t" "CHR ''<'' \<notin> set t"
    using mark_simps(2,4,6) by (metis list.collapse)
  have "\<not> prefix start_mark (CHR ''<'' # t @ s)" using marks_differ(1)[of s] unfolding t(1) append_Cons .
  moreover have "sublist start_mark (t @ s) \<longleftrightarrow> sublist start_mark s"
    using sublist_skip[of start_mark t s] mark_simps(1,3) t(2) by simp
  ultimately show ?thesis unfolding t(1) append_Cons sublist_step by blast
qed

lemma sublist_end_start: "sublist end_mark (start_mark @ s) \<longleftrightarrow> sublist end_mark s"
proof -
  obtain t where t: "start_mark = CHR ''<'' # t" "CHR ''<'' \<notin> set t"
    using mark_simps(1,3,5) by (metis list.collapse)
  have "\<not> prefix end_mark (CHR ''<'' # t @ s)" using marks_differ(2)[of s] unfolding t(1) append_Cons .
  moreover have "sublist end_mark (t @ s) \<longleftrightarrow> sublist end_mark s"
    using sublist_skip[of end_mark t s] mark_simps(2,4) t(2) by simp
  ultimately show ?thesis unfolding t(1) append_Cons sublist_step by blast
qed

lemma clean_Nil: "clean []"
  by (simp add: clean_def mark_simps)

lemma clean_skip: "CHR ''<'' \<notin> set t \<Longrightarrow> clean (t @ s) \<longleftrightarrow> clean s"
  by (simp add: clean_def sublist_skip mark_simps)

lemma locate_none: "locate body = Inr None \<longleftrightarrow> clean body"
  using find_all_none[of start_mark 0 body] find_all_none[of end_mark 0 body]
  by (auto simp: locate_def Let_def clean_def mark_simps)

lemma locate_block:
  assumes "clean pre" and "clean mid" and "clean post"
  shows "locate (pre @ start_mark @ mid @ end_mark @ post) = Inr (Some (length pre, length (pre @ start_mark @ mid @ end_mark)))"
proof -
  have "\<not> sublist start_mark (mid @ end_mark @ post)"
    using assms sublist_split_head[of start_mark "end_mark @ post" mid]
    by (simp add: clean_def mark_simps sublist_start_end)
  then have s: "find_all start_mark 0 (pre @ start_mark @ mid @ end_mark @ post) = [length pre]"
    using find_all_one[of start_mark pre "mid @ end_mark @ post" 0] assms by (simp add: clean_def mark_simps)
  have "\<not> sublist end_mark (pre @ start_mark @ mid)"
    using assms sublist_split_head[of end_mark "start_mark @ mid" pre]
    by (simp add: clean_def mark_simps sublist_end_start)
  then have e: "find_all end_mark 0 (pre @ start_mark @ mid @ end_mark @ post) = [length (pre @ start_mark @ mid)]"
    using find_all_one[of end_mark "pre @ start_mark @ mid" post 0] assms by (simp add: clean_def mark_simps)
  show ?thesis unfolding locate_def s e by simp
qed

lemma locate_SomeD:
  assumes "locate body = Inr (Some (i, j))"
  obtains pre mid post where "body = pre @ start_mark @ mid @ end_mark @ post" "i = length pre"
    "j = length (pre @ start_mark @ mid @ end_mark)" "clean pre" "clean mid" "clean post"
proof -
  let ?s = "find_all start_mark 0 body" and ?e = "find_all end_mark 0 body"
  have l: "?s = [i]" "?e = [j - length end_mark]" "i \<le> j - length end_mark" "length end_mark \<le> j"
    using assms by (cases ?s; cases ?e; cases "tl ?s"; cases "tl ?e"; auto simp: locate_def Let_def split: if_splits)+
  obtain a b where a: "body = a @ start_mark @ b" "i = length a" "\<not> sublist start_mark a" "\<not> sublist start_mark b"
    using find_all_oneD[OF l(1) mark_simps(1)] by auto
  obtain c d where c: "body = c @ end_mark @ d" "j - length end_mark = length c" "\<not> sublist end_mark c" "\<not> sublist end_mark d"
    using find_all_oneD[OF l(2) mark_simps(2)] by auto
  obtain e where e: "c = a @ e" "start_mark @ b = e @ end_mark @ d"
    using a(1,2) c(1,2) l(3) by (metis append_eq_append_conv_if append_take_drop_id)
  have "length start_mark \<le> length e"
  proof (rule ccontr)
    assume "\<not> length start_mark \<le> length e"
    with e(2) obtain r where r: "start_mark = e @ r" "r \<noteq> []" "r @ b = end_mark @ d"
      by (metis append_assoc append_eq_append_conv_if append_take_drop_id le_eq_less_or_eq linorder_not_le self_append_conv same_append_eq)
    then have "hd r = CHR ''<''" using mark_simps by (metis hd_append2)
    moreover have "hd r \<in> set (tl start_mark)" if "e \<noteq> []"
      unfolding r(1) using that r(2) by (cases e) simp_all
    ultimately have "e = []" using mark_simps(5) by auto
    with e(2) marks_differ(2)[of b] show False by (simp add: prefix_def)
  qed
  then obtain mid where mid: "e = start_mark @ mid" "b = mid @ end_mark @ d"
    using e(2) by (metis append_assoc append_eq_append_conv_if append_take_drop_id same_append_eq)
  have "clean a" "clean mid" "clean d"
    using a(3,4) c(3,4) unfolding e(1) mid clean_def by (blast intro: sublist_left sublist_right)+
  with that[of a mid d] a(1,2) c(2) e(1) mid l(4) show thesis by simp
qed

section \<open>Reading an entry's line back\<close>

definition ref_ok :: "string \<Rightarrow> bool" where
  "ref_ok r = (match_ref r = Some (r, []))"

definition squashed :: "checklist_entry \<Rightarrow> checklist_entry" where
  "squashed e = e\<lparr>ck_title := squash (ck_title e)\<rparr>"

lemma squashed_simps [simp]:
  "ck_ref (squashed e) = ck_ref e" "ck_closed (squashed e) = ck_closed e"
  by (simp_all add: squashed_def)

definition entry_ok :: "checklist_entry \<Rightarrow> bool" where
  "entry_ok e = (ref_ok (ck_ref e) \<and> clean (squash (ck_title e)))"

lemma match_ref_Some:
  assumes "match_ref s = Some (r, t)"
  obtains path digits where "r = path @ CHR ''#'' # digits" "s = r @ t" "list_all is_path_char path" "is_path path"
    "digits \<noteq> []" "list_all is_decimal digits" "t = [] \<or> \<not> is_decimal (hd t)"
proof -
  let ?p = "takeWhile is_path_char s" and ?r = "dropWhile is_path_char s"
  let ?d = "takeWhile is_decimal (tl ?r)"
  from assms have m: "is_path ?p" "?r \<noteq> []" "hd ?r = CHR ''#''" "?d \<noteq> []" "r = ?p @ CHR ''#'' # ?d"
    "t = dropWhile is_decimal (tl ?r)"
    by (auto simp: match_ref_def Let_def split: if_splits)
  have "s = ?p @ ?r" by simp
  also have "?r = CHR ''#'' # ?d @ t" using m(2,3,6) by (metis list.collapse takeWhile_dropWhile_id)
  finally have "s = r @ t" using m(5) by simp
  moreover have "t = [] \<or> \<not> is_decimal (hd t)" using m(6) hd_dropWhile by blast
  moreover have "list_all is_path_char ?p" "list_all is_decimal ?d"
    by (auto simp: list_all_iff dest: set_takeWhileD)
  ultimately show thesis using that m(1,4,5) by blast
qed

lemma hash_char: "\<not> is_path_char (CHR ''#'')" "\<not> is_decimal (CHR ''#'')"
  by (simp_all add: is_path_char_def is_ref_char_def is_word_def is_decimal_def is_upper_ascii_def)

lemma match_ref_build:
  assumes "list_all is_path_char path" and "is_path path" and "digits \<noteq> []" and "list_all is_decimal digits"
    and "t = [] \<or> \<not> is_decimal (hd t)"
  shows "match_ref (path @ CHR ''#'' # digits @ t) = Some (path @ CHR ''#'' # digits, t)"
proof -
  have "takeWhile is_path_char (path @ CHR ''#'' # digits @ t) = path"
    "dropWhile is_path_char (path @ CHR ''#'' # digits @ t) = CHR ''#'' # digits @ t"
    using assms(1) hash_char by (simp_all add: list_all_iff)
  moreover have "takeWhile is_decimal (digits @ t) = digits" "dropWhile is_decimal (digits @ t) = t"
    using assms(4,5) by (cases t; simp add: list_all_iff)+
  ultimately show ?thesis using assms(2,3) by (simp add: match_ref_def)
qed

lemma match_ref_ok: "match_ref s = Some (r, t) \<Longrightarrow> ref_ok r"
  unfolding ref_ok_def using match_ref_build[of _ _ "[]"] by (elim match_ref_Some) simp

lemma match_ref_tail:
  assumes "ref_ok r" and "t = [] \<or> \<not> is_decimal (hd t)"
  shows "match_ref (r @ t) = Some (r, t)"
  using assms(1)[unfolded ref_ok_def] match_ref_build[OF _ _ _ _ assms(2)] by (elim match_ref_Some) simp

lemma ref_chars:
  assumes "ref_ok r"
  shows "r \<noteq> []" "\<forall>c \<in> set r. c \<noteq> CHR ''<'' \<and> \<not> is_space c"
proof -
  obtain path digits where p: "r = path @ CHR ''#'' # digits" "list_all is_path_char path" "list_all is_decimal digits"
    using match_ref_Some[OF assms[unfolded ref_ok_def]] by metis
  then show "r \<noteq> []" by simp
  have "c \<noteq> CHR ''<'' \<and> \<not> is_space c" if "is_path_char c \<or> c = CHR ''#'' \<or> is_decimal c" for c
    using that by (auto simp: is_path_char_def is_ref_char_def is_word_def is_decimal_def is_upper_ascii_def is_space_def Let_def)
  then show "\<forall>c \<in> set r. c \<noteq> CHR ''<'' \<and> \<not> is_space c" using p by (auto simp: list_all_iff)
qed

lemma match_mark_line:
  "match_mark (''- ['' @ (if b then ''x'' else '' '') @ ''] '' @ r) = Some (b, r)"
  by (simp add: match_mark_def starts_with_def)

lemma match_entry_line:
  assumes "ref_ok (ck_ref e)"
  shows "match_entry (entry_line e) = Some (squashed e)"
proof -
  let ?t = "squash (ck_title e)"
  let ?tail = "if ?t = [] then [] else '' '' @ ?t"
  have "match_ref (ck_ref e @ ?tail) = Some (ck_ref e, ?tail)"
    using match_ref_tail[OF assms, of ?tail] by (simp add: is_decimal_def)
  then show ?thesis
    unfolding match_entry_def entry_line_def Let_def match_mark_line by (simp add: squashed_def)
qed

lemma entry_line_good:
  assumes "entry_ok e"
  shows "visible (entry_line e)" "one_line (entry_line e)" "clean (entry_line e)"
proof -
  let ?t = "squash (ck_title e)"
  let ?h = "''- ['' @ (if ck_closed e then ''x'' else '' '') @ ''] '' @ ck_ref e"
  let ?tail = "if ?t = [] then [] else '' '' @ ?t"
  note r = ref_chars[OF assms[unfolded entry_ok_def, THEN conjunct1]]
  have l: "entry_line e = ?h @ ?tail" by (simp add: entry_line_def Let_def)
  have "last (entry_line e) = last (if ?t = [] then ck_ref e else ?t)"
    using r(1) unfolding l by simp
  moreover have "\<not> is_space (last (if ?t = [] then ck_ref e else ?t))"
    using r squash_visible[of "ck_title e"] by (auto simp: visible_def)
  ultimately show "visible (entry_line e)" unfolding visible_def by (simp add: l is_space_def)
  show "one_line (entry_line e)"
    unfolding l one_line_def using r(2) break_is_space squash_no_break[of _ "ck_title e"]
    by (auto simp: is_line_break_def)
  have "CHR ''<'' \<notin> set ?h" using r(2) by auto
  moreover have "clean ?tail"
    using assms clean_skip[of "'' ''" ?t] by (simp add: entry_ok_def clean_Nil)
  ultimately show "clean (entry_line e)" unfolding l using clean_skip by blast
qed

section \<open>Reading the block back\<close>

definition block_text :: "checklist_entry list \<Rightarrow> string" where
  "block_text es = newline # concat (map (\<lambda>e. entry_line e @ [newline]) es)"

lemma render_block: "render_checklist es = start_mark @ block_text es @ end_mark"
proof -
  have "join [newline] (map entry_line es @ [end_mark]) = concat (map (\<lambda>e. entry_line e @ [newline]) es) @ end_mark"
    by (induction es) (simp_all add: join_Cons)
  then show ?thesis by (simp add: render_checklist_def block_text_def join_Cons)
qed

lemma clean_newline: "clean (xs @ newline # ys) \<longleftrightarrow> clean xs \<and> clean ys"
  using sublist_split_char[of _ newline xs ys] by (auto simp: clean_def mark_simps)

lemma clean_block: "\<forall>e \<in> set es. entry_ok e \<Longrightarrow> clean (block_text es)"
proof -
  assume ok: "\<forall>e \<in> set es. entry_ok e"
  then have "clean (concat (map (\<lambda>e. entry_line e @ [newline]) es))"
    by (induction es) (simp_all add: clean_Nil clean_newline entry_line_good)
  then show ?thesis using clean_newline[of "[]"] by (simp add: block_text_def clean_Nil)
qed

lemma strip_block:
  assumes "\<forall>e \<in> set es. entry_ok e"
  shows "strip_by (\<lambda>c. c = newline) (block_text es) = join [newline] (map entry_line es)"
proof (cases "es = []")
  case True
  then show ?thesis by (simp add: block_text_def strip_by_def lstrip_by_def rstrip_by_def)
next
  case False
  let ?j = "join [newline] (map entry_line es)"
  have "visible ?j" using False assms
  proof (induction es)
    case (Cons e es)
    then show ?case by (cases es) (auto simp: join_Cons visible_def dest!: entry_line_good(1))
  qed simp
  then have "?j \<noteq> []" "hd ?j \<noteq> newline" "last ?j \<noteq> newline" using newline_char(2) by (auto simp: visible_def)
  moreover have "block_text es = newline # ?j @ [newline]"
    using False unfolding block_text_def by (induction es rule: list_nonempty_induct) (simp_all add: join_Cons)
  ultimately show ?thesis by (simp add: strip_by_wrapped)
qed

lemma read_entry_lines:
  "\<forall>e \<in> set es. entry_ok e \<Longrightarrow> read_lines n (map entry_line es) = Inr (map squashed es)"
proof (induction es arbitrary: n)
  case (Cons e es)
  then have "entry_ok e" by simp
  note g = entry_line_good[OF this]
  show ?case using Cons \<open>entry_ok e\<close> g(1)
    by (simp add: visible_not_blank strip_visible match_entry_line entry_ok_def)
qed simp

lemma parse_block:
  assumes "clean pre" and "clean post" and "\<forall>e \<in> set es. entry_ok e"
  shows "parse_checklist (pre @ render_checklist es @ post) = Inr (map squashed es)"
proof -
  have "splitlines (join [newline] (map entry_line es)) = map entry_line es"
    using assms(3) entry_line_good unfolding visible_def by (intro splitlines_join) auto
  then show ?thesis
    using locate_block[OF assms(1) clean_block[OF assms(3)] assms(2)] read_entry_lines[OF assms(3)]
    by (simp add: parse_checklist_def render_block strip_block[OF assms(3)])
qed

section \<open>What the edits do\<close>

lemma write_cases:
  assumes "write_checklist body es = Inr body'"
  obtains pre mid post where "body = pre @ start_mark @ mid @ end_mark @ post" "clean pre" "clean mid" "clean post"
      "body' = pre @ render_checklist es @ post"
    | base ends where "clean body" "body = base @ ends" "set ends \<subseteq> {newline}"
      "body' = (if base = [] then [] else base @ [newline, newline]) @ render_checklist es @ [newline]"
proof -
  from assms obtain span where l: "locate body = Inr span"
    by (auto simp: write_checklist_def bindR_Inr_iff)
  show thesis
  proof (cases span)
    case None
    let ?b = "rstrip_by (\<lambda>c. c = newline) body"
    have "body = ?b @ rev (takeWhile (\<lambda>c. c = newline) (rev body))"
      by (metis rev_append rev_rev_ident rstrip_by_def takeWhile_dropWhile_id)
    moreover have "set (rev (takeWhile (\<lambda>c. c = newline) (rev body))) \<subseteq> {newline}"
      by (auto dest: set_takeWhileD)
    moreover have "clean body" using l None by (simp add: locate_none)
    moreover have "body' = (if ?b = [] then [] else ?b @ [newline, newline]) @ render_checklist es @ [newline]"
      using assms l None by (simp add: write_checklist_def Let_def)
    ultimately show thesis using that(2) by blast
  next
    case (Some ij)
    then obtain i j where ij: "locate body = Inr (Some (i, j))" using l by (cases ij) simp
    from locate_SomeD[OF this] obtain pre mid post where
      p: "body = pre @ start_mark @ mid @ end_mark @ post" "i = length pre"
      "j = length (pre @ start_mark @ mid @ end_mark)" "clean pre" "clean mid" "clean post" by metis
    have "body' = take i body @ render_checklist es @ drop j body"
      using assms ij by (simp add: write_checklist_def Let_def)
    then have "body' = pre @ render_checklist es @ post" unfolding p(1,2,3) by simp
    with that(1) p show thesis by blast
  qed
qed

lemma parse_written:
  assumes "write_checklist body es = Inr body'" and "\<forall>e \<in> set es. entry_ok e"
  shows "parse_checklist body' = Inr (map squashed es)"
  using assms(1)
proof (cases rule: write_cases)
  case (1 pre mid post)
  then show ?thesis using parse_block assms(2) by simp
next
  case (2 base ends)
  then have "clean base" by (auto simp: clean_def intro: sublist_left)
  then have "clean (if base = [] then [] else base @ [newline, newline])" "clean [newline]"
    using clean_newline[of base "[newline]"] clean_newline[of "[]" "[]"] by (simp_all add: clean_Nil)
  from parse_block[OF this assms(2)] 2(4) show ?thesis by simp
qed

lemma squashed_squashed [simp]: "squashed (squashed e) = squashed e"
  by (simp add: squashed_def)

lemma match_entry_ref: "match_entry s = Some e \<Longrightarrow> ref_ok (ck_ref e)"
  by (auto simp: match_entry_def split: option.splits if_splits) (erule match_ref_ok)+

lemma read_lines_refs: "read_lines n ls = Inr es \<Longrightarrow> \<forall>e \<in> set es. ref_ok (ck_ref e)"
  by (induction n ls arbitrary: es rule: read_lines.induct)
    (auto simp: bindR_Inr_iff split: if_splits option.splits dest: match_entry_ref)

lemma parse_refs: "parse_checklist body = Inr es \<Longrightarrow> \<forall>e \<in> set es. ref_ok (ck_ref e)"
  by (auto simp: parse_checklist_def bindR_Inr_iff Let_def split: option.splits dest: read_lines_refs)

lemma parse_then_write:
  assumes "parse_checklist body = Inr es"
  obtains body' where "write_checklist body es' = Inr body'"
proof -
  obtain span where "locate body = Inr span"
    using assms by (auto simp: parse_checklist_def bindR_Inr_iff)
  then show thesis using that
    by (cases span) (auto simp: write_checklist_def Let_def)
qed


lemma edit_reads_back:
  assumes "parse_checklist body = Inr es" and "\<forall>e \<in> set (change es). entry_ok e"
  obtains body' es' where "edit_checklist body change = Inr body'" "parse_checklist body' = Inr es'"
    "map squashed es' = map squashed (change es)"
proof (cases "change es = es")
  case True
  with assms(1) that[of body es] show thesis by (simp add: edit_checklist_def)
next
  case False
  obtain body' where w: "write_checklist body (change es) = Inr body'" using parse_then_write[OF assms(1)] .
  then have "edit_checklist body change = Inr body'" using False assms(1) by (simp add: edit_checklist_def)
  from that[OF this parse_written[OF w assms(2)]] show thesis by (simp add: comp_def)
qed

lemma locate_Inr_iff: "(\<exists>span. locate body = Inr span) \<longleftrightarrow> clean body \<or>
    (\<exists>pre mid post. body = pre @ start_mark @ mid @ end_mark @ post \<and> clean pre \<and> clean mid \<and> clean post)"
  (is "?l \<longleftrightarrow> clean body \<or> ?block")
proof
  assume ?l
  then obtain span where "locate body = Inr span" ..
  then show "clean body \<or> ?block"
    by (cases span) (auto simp: locate_none elim!: locate_SomeD)
next
  assume "clean body \<or> ?block"
  then show ?l using locate_none locate_block by blast
qed

section \<open>Properties\<close>

text \<open>C25: writing a list of children into a description and reading the description back gives
  the same children in the same order, each title with its white space squashed.  The references
  name a project and a number and no squashed title may hold one of the two markers.\<close>

theorem checklist_round_trip:
  assumes "write_checklist body es = Inr body'" and "\<forall>e \<in> set es. entry_ok e"
  shows "parse_checklist body' = Inr (map squashed es)"
  using assms by (rule parse_written)

definition sample_entries :: "checklist_entry list" where
  "sample_entries = [\<lparr>ck_ref = ''acme/web#7'', ck_title = ''Sign  in'', ck_closed = False\<rparr>,
     \<lparr>ck_ref = ''acme/web#8'', ck_title = [], ck_closed = True\<rparr>]"

lemma sample_entries_ok: "\<forall>e \<in> set sample_entries. entry_ok e"
proof -
  have "list_all (\<lambda>e. match_ref (ck_ref e) = Some (ck_ref e, [])
      \<and> find_all start_mark 0 (squash (ck_title e)) = [] \<and> find_all end_mark 0 (squash (ck_title e)) = []) sample_entries"
    by code_simp
  then show ?thesis
    using find_all_none mark_simps(1,2) by (auto simp: list_all_iff entry_ok_def ref_ok_def clean_def)
qed

definition sample_body :: string where
  "sample_body = ''Epic'' @ [newline] @ render_checklist [] @ [newline] @ ''Notes''"

theorem checklist_round_trip_witness:
  "\<exists>body'. write_checklist sample_body sample_entries = Inr body' \<and>
     parse_checklist body' = Inr (map squashed sample_entries)"
proof -
  have "\<not> isl (write_checklist sample_body sample_entries)" by code_simp
  then obtain body' where "write_checklist sample_body sample_entries = Inr body'"
    by (cases "write_checklist sample_body sample_entries") simp_all
  with checklist_round_trip[OF this sample_entries_ok] show ?thesis by blast
qed



text \<open>A description is accepted exactly when it has no marker at all or one opening marker
  followed by one closing marker: a second block, a missing marker and markers in the wrong order
  are all refused, and nothing else is.\<close>

lemma mangled_blocks_are_refused:
  "isl (locate body) \<longleftrightarrow> \<not> (clean body \<or>
     (\<exists>pre mid post. body = pre @ start_mark @ mid @ end_mark @ post \<and> clean pre \<and> clean mid \<and> clean post))"
  unfolding locate_Inr_iff[symmetric] by (cases "locate body") simp_all

text \<open>Ticking a child of a description that reads as some children succeeds, and the description then
  reads as the same children with exactly that one's mark set (titles compared squashed).\<close>

lemma ticking_sets_the_mark:
  assumes "parse_checklist body = Inr es" and "\<forall>e \<in> set es. clean (squash (ck_title e))"
  shows "\<exists>body' es'. set_child_closed body ref ticked = Inr body' \<and> parse_checklist body' = Inr es' \<and>
    map squashed es' = map (\<lambda>e. if ck_ref e = ref then (squashed e)\<lparr>ck_closed := ticked\<rparr> else squashed e) es"
proof -
  let ?tick = "map (\<lambda>e. if ck_ref e = ref then e\<lparr>ck_closed := ticked\<rparr> else e)"
  have "\<forall>e \<in> set (?tick es). entry_ok e"
    using assms(2) parse_refs[OF assms(1)] by (auto simp: entry_ok_def)
  then obtain body' es' where r: "edit_checklist body ?tick = Inr body'" "parse_checklist body' = Inr es'"
       "map squashed es' = map squashed (?tick es)"
    using edit_reads_back[where change = ?tick, OF assms(1)] by blast
  moreover have "map squashed (?tick es) =
      map (\<lambda>e. if ck_ref e = ref then (squashed e)\<lparr>ck_closed := ticked\<rparr> else squashed e) es"
    by (simp add: squashed_def)
  ultimately show ?thesis unfolding set_child_closed_def by (intro exI conjI) (assumption | simp only:)+
qed

end
