(* ===== verification/Render.thy ===== *)
theory Render
  imports PlanModel TextFacts
begin

text \<open>
  A plan node as the issue it becomes (\<open>plans/render.py\<close>): the markers, the sections under their
  headings, reading them back, and rewriting some of them.  Each regular expression of the module
  is written out as the matcher it is; where an expression could backtrack, the definition names
  the one way its pieces can split the text.
\<close>

section \<open>Matching\<close>

text \<open>A matcher takes the text at one position and gives the value and the text after the match.
  \<open>scan_all\<close> is \<open>re.finditer\<close> and \<open>scan_drop\<close> is \<open>re.sub\<close> with an empty replacement:
  leftmost matches, left to right, none of them empty.\<close>

type_synonym 'v matcher = "string \<Rightarrow> ('v \<times> string) option"

function scan_all :: "'v matcher \<Rightarrow> string \<Rightarrow> 'v list" where
  "scan_all m [] = []"
| "scan_all m (c # s) = (case m (c # s) of
      Some (v, r) \<Rightarrow> if length r \<le> length s then v # scan_all m r else scan_all m s
    | None \<Rightarrow> scan_all m s)"
  by pat_completeness auto
termination
  by (relation "measure (\<lambda>(m, s). length s)") (auto simp: less_Suc_eq_le)

function scan_drop :: "'v matcher \<Rightarrow> string \<Rightarrow> string" where
  "scan_drop m [] = []"
| "scan_drop m (c # s) = (case m (c # s) of
      Some (v, r) \<Rightarrow> if length r \<le> length s then scan_drop m r else c # scan_drop m s
    | None \<Rightarrow> c # scan_drop m s)"
  by pat_completeness auto
termination
  by (relation "measure (\<lambda>(m, s). length s)") (auto simp: less_Suc_eq_le)

definition eat :: "string \<Rightarrow> string \<Rightarrow> string option" where
  "eat p s = (if starts_with p s then Some (drop (length p) s) else None)"

definition is_id_char :: "char \<Rightarrow> bool" where
  "is_id_char c = (is_word c \<or> c = CHR ''-'')"

section \<open>Markers\<close>

text \<open>The tail of a marker, from its node id on: the id takes the whole run of id characters when
  the closing arrow follows it, and gives the arrow its two dashes back when it ran into it.\<close>

definition match_node :: "string matcher" where
  "match_node s = (let run = takeWhile is_id_char s; rest = dropWhile is_id_char s in
     if run \<noteq> [] \<and> starts_with ''-->'' (dropWhile is_space rest)
     then Some (run, drop 3 (dropWhile is_space rest))
     else let n = length run - 2 in
       if n > 0 \<and> drop n run = ''--'' \<and> starts_with ''>'' rest then Some (take n run, tl rest) else None)"

definition match_marker :: "(string \<times> string) matcher" where
  "match_marker s = Option.bind (eat ''<!--'' s) (\<lambda>s1. Option.bind (eat ''sbx-plan:'' (dropWhile is_space s1)) (\<lambda>s2.
     let s3 = dropWhile is_space s2; plan_id = takeWhile is_id_char s3 in
     if plan_id = [] then None
     else Option.bind (eat ''/'' (dropWhile is_id_char s3)) (\<lambda>s4.
       Option.bind (match_node s4) (\<lambda>nr. Some ((plan_id, fst nr), snd nr)))))"

definition marker :: "ident \<Rightarrow> ident \<Rightarrow> string" where
  "marker plan_id node_id = ''<!-- sbx-plan: '' @ plan_id @ ''/'' @ node_id @ '' -->''"

definition markers :: "string \<Rightarrow> (ident \<times> ident) list" where
  "markers body = scan_all match_marker body"

definition marked :: "string \<Rightarrow> ident \<Rightarrow> ident \<Rightarrow> bool" where
  "marked body plan_id node_id = ((plan_id, node_id) \<in> set (markers body))"

definition issue_reference :: "string \<Rightarrow> string \<Rightarrow> int \<Rightarrow> string" where
  "issue_reference from_repo to_repo number =
     (if casefold from_repo = casefold to_repo then ''#'' @ int_str number
      else to_repo @ ''#'' @ int_str number)"

section \<open>Rendering\<close>

definition backtick :: char where "backtick = CHR 0x60"

text \<open>The lengths of the runs of backticks in a line.\<close>

fun tick_runs :: "nat \<Rightarrow> string \<Rightarrow> nat list" where
  "tick_runs n [] = (if n = 0 then [] else [n])"
| "tick_runs n (c # s) = (if c = backtick then tick_runs (Suc n) s
     else (if n = 0 then [] else [n]) @ tick_runs 0 s)"

definition fence_of :: "string list \<Rightarrow> string" where
  "fence_of lines = replicate (max 3 (fold max (concat (map (tick_runs 0) lines)) 0 + 1)) backtick"

definition fence :: "string list \<Rightarrow> string" where
  "fence lines = join [newline] (fence_of lines # lines @ [fence_of lines])"

definition headings :: "(string \<times> string) list" where
  "headings = [(''goal'', ''Goal''), (''context'', ''Context''),
     (''acceptance_criteria'', ''Acceptance criteria''), (''kind'', ''Kind''),
     (''verify_commands'', ''Verify commands''), (''depends_on'', ''Depends on''),
     (''non_goals'', ''Non-goals''), (''constraints'', ''Constraints'')]"

definition heading_line :: "string \<Rightarrow> string" where
  "heading_line key = ''## '' @ (case map_of headings key of None \<Rightarrow> [] | Some h \<Rightarrow> h)"

definition section_block :: "string \<Rightarrow> string \<Rightarrow> (string \<times> string) list" where
  "section_block key text = (let t = strip text in
     if t = [] then [] else [(key, heading_line key @ [newline, newline] @ t)])"

type_synonym references = "(ident \<times> string \<times> forge_ref) list"

definition dependency_line :: "plan_node \<Rightarrow> references \<Rightarrow> ident \<Rightarrow> string" where
  "dependency_line n known dep = (case map_of known dep of
      Some (repo, f) \<Rightarrow> ''- '' @ issue_reference (n_repository n) repo (f_number f)
    | None \<Rightarrow> ''- '' @ [backtick] @ dep @ [backtick])"

definition kind_text :: "plan_node \<Rightarrow> string" where
  "kind_text n = (case n_kind n of None \<Rightarrow> []
     | Some k \<Rightarrow> if n_level n \<noteq> Task then []
       else kind_name k @ (case n_workload_profile n of None \<Rightarrow> []
         | Some w \<Rightarrow> if k = WorkloadTask \<and> w \<noteq> []
             then '' (workload profile '' @ [backtick] @ w @ [backtick] @ '')'' else []))"

definition section_blocks :: "plan_node \<Rightarrow> references \<Rightarrow> (string \<times> string) list" where
  "section_blocks n known =
     (let criteria = filter (\<lambda>c. c \<noteq> []) (map strip (n_acceptance_criteria n));
          commands = filter (\<lambda>c. \<not> blank c) (n_verify_commands n) in
      section_block ''goal'' (n_goal n)
      @ section_block ''context'' (n_context n)
      @ section_block ''acceptance_criteria'' (join [newline] (map (\<lambda>c. ''- [ ] '' @ c) criteria))
      @ section_block ''kind'' (kind_text n)
      @ (if commands = [] then [] else section_block ''verify_commands'' (fence commands))
      @ section_block ''depends_on'' (join [newline] (map (dependency_line n known) (n_depends_on n)))
      @ section_block ''non_goals'' (n_non_goals n)
      @ section_block ''constraints'' (n_constraints n))"

definition render_body :: "plan_node \<Rightarrow> references \<Rightarrow> string" where
  "render_body n known = join [newline, newline]
     (map snd (section_blocks n known) @ [marker (n_plan_id n) (n_id n)]) @ [newline]"

section \<open>Reading sections back\<close>

definition tab_or_space :: "char \<Rightarrow> bool" where
  "tab_or_space c = (c = CHR '' '' \<or> ord c = 9)"

definition by_heading :: "string \<Rightarrow> string option" where
  "by_heading name = map_of (map (\<lambda>(key, h). (casefold h, key)) headings) name"

text \<open>The name on a level-two heading: the lazy group ends where only blanks and number signs are
  left.\<close>

definition match_heading :: "string \<Rightarrow> string option" where
  "match_heading line = (if starts_with ''##'' line \<and> length line > 2 \<and> tab_or_space (line ! 2)
     then Some (rstrip_by (\<lambda>c. tab_or_space c \<or> c = CHR ''#'') (dropWhile tab_or_space (drop 2 line)))
     else None)"

definition match_fence :: "string \<Rightarrow> string option" where
  "match_fence line = (let s = dropWhile (\<lambda>c. c = CHR '' '') line;
       ticks = takeWhile (\<lambda>c. c = backtick) s; tildes = takeWhile (\<lambda>c. c = CHR 0x7E) s in
     if length line - length s > 3 then None
     else if length ticks \<ge> 3 then Some ticks
     else if length tildes \<ge> 3 then Some tildes else None)"

definition closes :: "string \<Rightarrow> string \<Rightarrow> bool" where
  "closes line f = (let s = strip line in length s \<ge> length f \<and> s \<noteq> [] \<and> list_all (\<lambda>c. c = hd f) s)"

fun unify_newlines :: "string \<Rightarrow> string" where
  "unify_newlines [] = []"
| "unify_newlines (c # s) = (if ord c = 13
     then newline # (if s \<noteq> [] \<and> hd s = newline then unify_newlines (tl s) else unify_newlines s)
     else c # unify_newlines s)"

text \<open>What a line outside fenced code opens: the section of its heading, \<open>None\<close> under a heading
  or comment that is not ours.\<close>

definition opens :: "string \<Rightarrow> string option option" where
  "opens line = (case match_heading line of
      Some name \<Rightarrow> Some (by_heading (casefold name))
    | None \<Rightarrow> if starts_with ''<!-- sbx-plan'' (lstrip line) then Some (by_heading []) else None)"

record reading =
  rd_out :: "(string \<times> string) list"
  rd_current :: "string option"
  rd_lines :: "string list"
  rd_fence :: "string option"

definition close_section :: "reading \<Rightarrow> reading" where
  "close_section r = (case rd_current r of None \<Rightarrow> r
     | Some key \<Rightarrow> if key \<in> fst ` set (rd_out r) then r
         else r\<lparr>rd_out := rd_out r @ [(key, strip (join [newline] (rd_lines r)))]\<rparr>)"

definition keep_line :: "string \<Rightarrow> reading \<Rightarrow> reading" where
  "keep_line line r = (if rd_current r = None then r else r\<lparr>rd_lines := rd_lines r @ [line]\<rparr>)"

definition read_line :: "reading \<Rightarrow> string \<Rightarrow> reading" where
  "read_line r line = (case rd_fence r of
      Some f \<Rightarrow> keep_line line (if closes line f then r\<lparr>rd_fence := None\<rparr> else r)
    | None \<Rightarrow> (case match_fence line of
        Some f \<Rightarrow> keep_line line (r\<lparr>rd_fence := Some f\<rparr>)
      | None \<Rightarrow> (case opens line of
          Some key \<Rightarrow> (close_section r)\<lparr>rd_current := key, rd_lines := []\<rparr>
        | None \<Rightarrow> keep_line line r)))"

definition body_lines :: "string \<Rightarrow> string list" where
  "body_lines body = split_on newline (unify_newlines body)"

definition section_texts :: "string \<Rightarrow> (string \<times> string) list" where
  "section_texts body = rd_out (close_section (foldl read_line
     \<lparr>rd_out = [], rd_current = None, rd_lines = [], rd_fence = None\<rparr> (body_lines body)))"

text \<open>A list item: its bullet, an optional check box, its text.\<close>

definition match_item :: "string \<Rightarrow> string option" where
  "match_item line = (let s = dropWhile is_space line in
     if s = [] \<or> hd s \<notin> set ''-*+'' \<or> tl s = [] \<or> \<not> tab_or_space (hd (tl s)) then None
     else let t = dropWhile tab_or_space (tl s) in
       if starts_with ''[ ]'' t \<or> starts_with ''[x]'' t \<or> starts_with ''[X]'' t
       then Some (dropWhile tab_or_space (drop 3 t)) else Some t)"

definition item_line :: "string list \<Rightarrow> string \<Rightarrow> string list" where
  "item_line items line = (if blank line then items
     else case match_item line of
       Some text \<Rightarrow> items @ [strip text]
     | None \<Rightarrow> if items \<noteq> [] then butlast items @ [strip (last items @ '' '' @ strip line)]
         else [strip line])"

definition items :: "string \<Rightarrow> string list" where
  "items text = filter (\<lambda>i. i \<noteq> []) (foldl item_line [] (splitlines text))"

definition commands_in :: "string \<Rightarrow> string list" where
  "commands_in text = (let lines = splitlines text in
     filter (\<lambda>l. \<not> blank l) (case lines of [] \<Rightarrow> []
       | first # rest \<Rightarrow> (case match_fence first of
           Some f \<Rightarrow> takeWhile (\<lambda>l. \<not> closes l f) rest
         | None \<Rightarrow> lines)))"

datatype section_value = Words string | Entries "string list"

definition list_sections :: "string list" where
  "list_sections = [''acceptance_criteria'', ''verify_commands'', ''depends_on'']"

definition parse_sections :: "string \<Rightarrow> (string \<times> section_value) list" where
  "parse_sections body = map (\<lambda>(key, text). (key,
     if key = ''verify_commands'' then Entries (commands_in text)
     else if key \<in> set list_sections then Entries (items text) else Words text)) (section_texts body)"

text \<open>The kind, case-insensitively: \<open>None\<close> for text that names neither.\<close>

definition lower :: "string \<Rightarrow> string" where
  "lower s = map (\<lambda>c. if is_upper_ascii c then char_of (ord c + 32) else c) s"

definition profile_in :: "string \<Rightarrow> string option option" where
  "profile_in s = (let t = dropWhile is_space s; opening = ''(workload profile '' @ [backtick] in
     if s = [] then Some None
     else if lower (take (length opening) t) = opening
     then let p = takeWhile (\<lambda>c. c \<noteq> backtick) (drop (length opening) t);
              r = dropWhile (\<lambda>c. c \<noteq> backtick) (drop (length opening) t) in
       if p \<noteq> [] \<and> r = [backtick, CHR '')''] then Some (Some p) else None
     else None)"

definition parse_kind :: "string \<Rightarrow> (task_kind option \<times> string option) option" where
  "parse_kind raw = (let text = squash raw in
     if text = [] then Some (None, None)
     else if lower (take 4 text) = ''code'' then map_option (Pair (Some CodeTask)) (profile_in (drop 4 text))
     else if lower (take 8 text) = ''workload'' then map_option (Pair (Some WorkloadTask)) (profile_in (drop 8 text))
     else None)"

section \<open>Comments and the managed block\<close>

text \<open>An \<open>sbx-plan\<close> comment runs to the first \<open>>\<close>, which the two dashes have to precede.\<close>

definition match_comment :: "unit matcher" where
  "match_comment s = Option.bind (eat ''<!--'' s) (\<lambda>s1.
     let s2 = dropWhile is_space s1; s3 = (if starts_with ''/'' s2 then tl s2 else s2) in
     Option.bind (eat ''sbx-plan'' s3) (\<lambda>s4.
       let u = takeWhile (\<lambda>c. c \<noteq> CHR ''>'') s4; r = dropWhile (\<lambda>c. c \<noteq> CHR ''>'') s4 in
       if r \<noteq> [] \<and> starts_with ''--'' (rev u) then Some ((), tl r) else None))"

definition match_children_mark :: "string \<Rightarrow> unit matcher" where
  "match_children_mark name s = Option.bind (eat ''<!--'' s) (\<lambda>s1.
     Option.bind (eat name (dropWhile is_space s1)) (\<lambda>s2.
       Option.bind (eat ''-->'' (dropWhile is_space s2)) (\<lambda>s3. Some ((), s3))))"

fun seek :: "'v matcher \<Rightarrow> string \<Rightarrow> string option" where
  "seek m s = (case m s of Some (v, r) \<Rightarrow> Some r
     | None \<Rightarrow> (case s of [] \<Rightarrow> None | c # t \<Rightarrow> seek m t))"

declare seek.simps [simp del]

definition match_children_block :: "unit matcher" where
  "match_children_block s = Option.bind (match_children_mark ''sbx-plan:children'' s) (\<lambda>r.
     Option.bind (seek (match_children_mark ''/sbx-plan:children'') (snd r)) (\<lambda>rest. Some ((), rest)))"

definition match_kept :: "string matcher" where
  "match_kept s = (case match_children_block s of
      Some (_, r) \<Rightarrow> Some (take (length s - length r) s, r)
    | None \<Rightarrow> (case match_comment s of
        Some (_, r) \<Rightarrow> Some (take (length s - length r) s, r) | None \<Rightarrow> None))"

fun crlf_to_lf :: "string \<Rightarrow> string" where
  "crlf_to_lf [] = []"
| "crlf_to_lf (c # s) = (if ord c = 13 \<and> s \<noteq> [] \<and> hd s = newline then crlf_to_lf s else c # crlf_to_lf s)"

definition free_text :: "string \<Rightarrow> string" where
  "free_text body = strip (scan_drop match_comment (scan_drop match_children_block (crlf_to_lf body)))"

section \<open>Rewriting sections\<close>

definition trim :: "string list \<Rightarrow> string" where
  "trim lines = join [newline] (rev (dropWhile blank (rev (dropWhile blank lines))))"

text \<open>A chunk: the section it holds (\<open>None\<close> before any heading, the empty name under a heading or
  comment that is not ours) and its lines.\<close>

type_synonym chunk = "string option \<times> string list"

definition ours :: "chunk \<Rightarrow> bool" where
  "ours c = (case fst c of None \<Rightarrow> False | Some key \<Rightarrow> key \<noteq> [])"

definition add_line :: "string \<Rightarrow> chunk list \<Rightarrow> chunk list" where
  "add_line line cs = butlast cs @ [(fst (last cs), snd (last cs) @ [line])]"

definition chunk_line :: "chunk list \<times> string option \<Rightarrow> string \<Rightarrow> chunk list \<times> string option" where
  "chunk_line st line = (case st of
      (cs, Some f) \<Rightarrow> (add_line line cs, if closes line f then None else Some f)
    | (cs, None) \<Rightarrow> (case match_fence line of
        Some f \<Rightarrow> (add_line line cs, Some f)
      | None \<Rightarrow> (case opens line of
          Some key \<Rightarrow> (cs @ [(Some (case key of None \<Rightarrow> [] | Some k \<Rightarrow> k), [line])], None)
        | None \<Rightarrow> (add_line line cs, None))))"

definition chunks_of :: "string \<Rightarrow> chunk list" where
  "chunks_of body = fst (foldl chunk_line ([(None, [])], None) (body_lines body))"

definition rank_of :: "string \<Rightarrow> nat" where
  "rank_of key = length (takeWhile (\<lambda>h. fst h \<noteq> key) headings)"

definition block_of :: "(string \<times> string) list \<Rightarrow> string \<Rightarrow> string" where
  "block_of blocks key = (case map_of blocks key of None \<Rightarrow> [] | Some b \<Rightarrow> b)"

definition is_comment_chunk :: "chunk \<Rightarrow> bool" where
  "is_comment_chunk c = (fst c = Some [] \<and> snd c \<noteq> [] \<and> starts_with ''<!-- sbx-plan'' (lstrip (hd (snd c))))"

text \<open>The loop over the chunks.  \<open>any\<close> says whether any chunk is ours, \<open>anchor\<close> is the index of the
  first comment chunk, \<open>final\<close> that of the last chunk of ours; \<open>absent\<close> holds what is still to be
  placed.\<close>

fun place_chunks :: "(string \<times> string) list \<Rightarrow> string list \<Rightarrow> bool \<Rightarrow> nat \<Rightarrow> nat \<Rightarrow> nat \<Rightarrow> string list \<Rightarrow> string list \<Rightarrow>
    chunk list \<Rightarrow> string list" where
  "place_chunks blocks wanted any anchor final index written absent [] = map (block_of blocks) absent"
| "place_chunks blocks wanted any anchor final index written absent (c # cs) =
     (let here = (if \<not> any \<and> index = anchor then map (block_of blocks) absent else []);
          absent1 = (if \<not> any \<and> index = anchor then [] else absent) in
      if \<not> ours c
      then here @ [trim (snd c)] @ place_chunks blocks wanted any anchor final (Suc index) written absent1 cs
      else let key = the (fst c);
               before = filter (\<lambda>a. rank_of a < rank_of key) absent1;
               absent2 = filter (\<lambda>a. a \<notin> set before) absent1;
               own = (if key \<notin> set wanted then [trim (snd c)]
                      else if key \<notin> set written then [block_of blocks key] else []);
               written' = (if key \<in> set wanted \<and> key \<notin> set written then key # written else written);
               after = (if index = final then map (block_of blocks) absent2 else []);
               absent3 = (if index = final then [] else absent2) in
        here @ map (block_of blocks) before @ own @ after
        @ place_chunks blocks wanted any anchor final (Suc index) written' absent3 cs)"

definition index_of :: "('a \<Rightarrow> bool) \<Rightarrow> 'a list \<Rightarrow> nat" where
  "index_of p xs = length (takeWhile (\<lambda>x. \<not> p x) xs)"

definition rewrite_sections :: "string \<Rightarrow> (string \<times> string) list \<Rightarrow> string list \<Rightarrow> bool \<Rightarrow> string" where
  "rewrite_sections body blocks wanted whole =
     (if whole
      then join [newline, newline] (map (block_of blocks)
             (filter (\<lambda>key. key \<in> fst ` set blocks) (map fst headings))
           @ scan_all match_kept (unify_newlines body)) @ [newline]
      else let cs = chunks_of body;
               present = map (\<lambda>c. the (fst c)) (filter ours cs);
               absent = filter (\<lambda>key. key \<in> set wanted \<and> key \<notin> set present \<and> key \<in> fst ` set blocks) (map fst headings);
               final = length cs - 1 - index_of ours (rev cs);
               out = place_chunks blocks wanted (list_ex ours cs) (index_of is_comment_chunk cs) final 0 [] absent cs in
        join [newline, newline] (filter (\<lambda>p. p \<noteq> []) out) @ [newline])"

section \<open>References and addresses\<close>

text \<open>\<open>int\<close> of a text \<open>str.isdigit\<close> accepts: it raises on a superscript digit and on more digits than
  the interpreter's limit.\<close>

datatype value_error = BadInt string

definition py_int :: "string \<Rightarrow> value_error + int" where
  "py_int s = (if s \<noteq> [] \<and> list_all is_decimal s \<and> length s \<le> 4300
     then Inr (foldl (\<lambda>n c. 10 * n + int (ord c - 48)) 0 s) else Inl (BadInt s))"

definition rpartition_hash :: "string \<Rightarrow> string \<times> string" where
  "rpartition_hash s = (let digits = rev (takeWhile (\<lambda>c. c \<noteq> CHR ''#'') (rev s)) in
     (take (length s - length digits - 1) s, digits))"

definition is_tick :: "char \<Rightarrow> bool" where "is_tick c = (c = backtick)"

definition names_issue :: "string \<Rightarrow> string \<times> int \<Rightarrow> string \<Rightarrow> value_error + bool" where
  "names_issue from_repo target text =
     (let (owner, digits) = rpartition_hash (strip (strip_by is_tick (strip text))) in
      if digits = [] \<or> \<not> list_all is_digit digits then Inr False
      else bindR (py_int digits) (\<lambda>n. Inr ((casefold (if owner = [] then from_repo else owner), n) = target)))"

fun kept_lines :: "string \<Rightarrow> string \<times> int \<Rightarrow> bool \<Rightarrow> string list \<Rightarrow> value_error + string list" where
  "kept_lines from_repo target dropping [] = Inr []"
| "kept_lines from_repo target dropping (line # lines) =
     bindR (case match_item line of None \<Rightarrow> Inr dropping | Some text \<Rightarrow> names_issue from_repo target text)
       (\<lambda>dropping'. bindR (kept_lines from_repo target dropping' lines) (\<lambda>kept.
          Inr (if dropping' then kept else line # kept)))"

definition drop_reference :: "string \<Rightarrow> string \<Rightarrow> string \<Rightarrow> int \<Rightarrow> value_error + string" where
  "drop_reference body from_repo repo number =
     (case map_of (section_texts body) ''depends_on'' of
        None \<Rightarrow> Inr body
      | Some text \<Rightarrow>
          let lines = split_on newline text in
          bindR (kept_lines from_repo (casefold repo, number) False lines) (\<lambda>kept.
            if length kept = length lines then Inr body
            else let remaining = trim kept;
                     blocks = (if remaining = [] then []
                       else [(''depends_on'', heading_line ''depends_on'' @ [newline, newline] @ remaining)]) in
              Inr (rewrite_sections body blocks [''depends_on''] False)))"

fun cut :: "string \<Rightarrow> string \<Rightarrow> (string \<times> string) option" where
  "cut p s = (if starts_with p s then Some ([], drop (length p) s)
     else (case s of [] \<Rightarrow> None | c # t \<Rightarrow> map_option (apfst (Cons c)) (cut p t)))"

declare cut.simps [simp del]

definition after_first :: "string \<Rightarrow> string \<Rightarrow> string" where
  "after_first p s = (case cut p s of None \<Rightarrow> s | Some (a, b) \<Rightarrow> b)"

definition repo_of :: "string \<Rightarrow> string" where
  "repo_of url = (let path = after_first ''/'' (after_first ''://'' url) in
     case cut ''/-/issues/'' path of Some (a, b) \<Rightarrow> a
     | None \<Rightarrow> (case cut ''/issues/'' path of Some (a, b) \<Rightarrow> a | None \<Rightarrow> []))"

text \<open>The end of an issue's address: \<open>/issues/\<close>, the number, an optional slash, and a query or
  fragment with no white space.\<close>

definition match_number :: "string \<Rightarrow> string option" where
  "match_number s = (case eat ''/issues/'' s of None \<Rightarrow> None
     | Some t \<Rightarrow> let digits = takeWhile is_decimal t; r = dropWhile is_decimal t;
         r' = (if starts_with ''/'' r then tl r else r) in
       if digits \<noteq> [] \<and> (r' = [] \<or> hd r' \<in> set ''?#'' \<and> list_all (\<lambda>c. \<not> is_space c) r')
       then Some digits else None)"

definition match_issue_tail :: "string \<Rightarrow> string option" where
  "match_issue_tail s = (case (case eat ''/-'' s of None \<Rightarrow> None | Some t \<Rightarrow> match_number t) of
      Some d \<Rightarrow> Some d | None \<Rightarrow> match_number s)"

text \<open>The shortest non-empty repository path an issue tail follows.\<close>

fun match_repo :: "string \<Rightarrow> string \<Rightarrow> (string \<times> string) option" where
  "match_repo repo [] = None"
| "match_repo repo (c # s) = (if is_space c \<or> c = CHR ''?'' \<or> c = CHR ''#'' then None
     else (case match_issue_tail s of
         Some d \<Rightarrow> Some (repo @ [c], d)
       | None \<Rightarrow> match_repo (repo @ [c]) s))"

definition parse_issue_url :: "string \<Rightarrow> value_error + (string \<times> int) option" where
  "parse_issue_url raw = (let url = strip raw in
     case (case eat ''https://'' url of Some s \<Rightarrow> Some s | None \<Rightarrow> eat ''http://'' url) of
       None \<Rightarrow> Inr None
     | Some s \<Rightarrow> let host = takeWhile (\<lambda>c. c \<noteq> CHR ''/'' \<and> \<not> is_space c) s;
                    rest = dropWhile (\<lambda>c. c \<noteq> CHR ''/'' \<and> \<not> is_space c) s in
         if host = [] \<or> \<not> starts_with ''/'' rest then Inr None
         else (case match_repo [] (tl rest) of
             None \<Rightarrow> Inr None
           | Some (repo, digits) \<Rightarrow> bindR (py_int digits) (\<lambda>n. Inr (Some (repo, n)))))"

end
