(* ===== verification/Forge.thy ===== *)
theory Forge
  imports PlanMerge Checklist Render
begin

text \<open>
  The forge as the plan modules use it.  The backends and the forge behind them are a parameter:
  a record of the operations of \<open>IssueOps\<close> (\<open>vcs/protocol.py\<close>) over an arbitrary forge state, each
  of which may raise and may have changed the forge when it does.  On top of it, what the plan
  modules share (\<open>plans/forgeread.py\<close>), the one write of a managed checklist (\<open>vcs/checklist.py\<close>)
  and the labels (\<open>vcs/github/labels.py\<close>).
\<close>

section \<open>Calls that change a state and may raise\<close>

type_synonym ('s, 'e, 'a) action = "'s \<Rightarrow> ('e + 'a) \<times> 's"

definition ret :: "'a \<Rightarrow> ('s, 'e, 'a) action" where
  "ret x s = (Inr x, s)"

definition raise :: "'e \<Rightarrow> ('s, 'e, 'a) action" where
  "raise e s = (Inl e, s)"

definition andthen :: "('s, 'e, 'a) action \<Rightarrow> ('a \<Rightarrow> ('s, 'e, 'b) action) \<Rightarrow> ('s, 'e, 'b) action" where
  "andthen m k s = (case m s of (Inl e, s') \<Rightarrow> (Inl e, s') | (Inr x, s') \<Rightarrow> k x s')"

definition handle :: "('s, 'e, 'a) action \<Rightarrow> ('e \<Rightarrow> ('s, 'e, 'a) action) \<Rightarrow> ('s, 'e, 'a) action" where
  "handle m h s = (case m s of (Inl e, s') \<Rightarrow> h e s' | (Inr x, s') \<Rightarrow> (Inr x, s'))"

fun each :: "('a \<Rightarrow> ('s, 'e, 'b) action) \<Rightarrow> 'a list \<Rightarrow> ('s, 'e, 'b list) action" where
  "each f [] = ret []"
| "each f (x # xs) = andthen (f x) (\<lambda>y. andthen (each f xs) (\<lambda>ys. ret (y # ys)))"

lemma andthen_Inr: "andthen m k s = (Inr y, t) \<longleftrightarrow> (\<exists>x u. m s = (Inr x, u) \<and> k x u = (Inr y, t))"
  by (auto simp: andthen_def split: prod.splits sum.splits)

lemma andthen_step: "m s = (Inr x, u) \<Longrightarrow> andthen m k s = k x u"
  by (simp add: andthen_def)

lemma andthen_raise: "m s = (Inl e, u) \<Longrightarrow> andthen m k s = (Inl e, u)"
  by (simp add: andthen_def)

lemma andthen_cases:
  obtains e u where "m s = (Inl e, u)" "andthen m k s = (Inl e, u)"
    | x u where "m s = (Inr x, u)" "andthen m k s = k x u"
  by (cases "m s"; cases "fst (m s)") (auto simp: andthen_def)

section \<open>The operations\<close>

text \<open>A call to the forge that failed: the exception's text, its type, whether it is a
  \<open>GithubOpsError\<close>, and the status the forge answered with.\<close>

record forge_error =
  fe_text :: string
  fe_type :: string
  fe_github :: bool
  fe_status :: "int option"

text \<open>An issue payload: the fields the plan modules read, an absent or null text as the empty
  one; \<open>ir_full\<close> says that it has a title and a body.\<close>

record issue_row =
  ir_number :: "int option"
  ir_html_url :: string
  ir_title :: string
  ir_body :: string
  ir_state :: string
  ir_updated_at :: "string option"
  ir_labels :: "string list"
  ir_pull_request :: bool
  ir_full :: bool

type_synonym ('f, 'a) call = "('f, forge_error, 'a) action"

record 'f issue_ops =
  issue_create :: "string \<Rightarrow> string \<Rightarrow> string \<Rightarrow> string list \<Rightarrow> ('f, int \<times> string) call"
  issue_get :: "string \<Rightarrow> int \<Rightarrow> ('f, issue_row) call"
  issue_update :: "string \<Rightarrow> int \<Rightarrow> string option \<Rightarrow> string option \<Rightarrow> ('f, issue_row) call"
  issue_comment :: "string \<Rightarrow> int \<Rightarrow> string \<Rightarrow> ('f, string) call"
  issue_comments :: "string \<Rightarrow> int \<Rightarrow> ('f, string list) call"
  issues_list :: "string \<Rightarrow> string \<Rightarrow> string list \<Rightarrow> nat \<Rightarrow> nat \<Rightarrow> ('f, issue_row list) call"
  issue_labels_add :: "string \<Rightarrow> int \<Rightarrow> string list \<Rightarrow> ('f, unit) call"
  issue_close :: "string \<Rightarrow> int \<Rightarrow> string \<Rightarrow> ('f, unit) call"
  label_lookup :: "string \<Rightarrow> string \<Rightarrow> ('f, bool) call"
  label_create :: "string \<Rightarrow> string \<Rightarrow> string \<Rightarrow> string \<Rightarrow> ('f, unit) call"
  sub_issue_add :: "string \<Rightarrow> int \<Rightarrow> string \<Rightarrow> int \<Rightarrow> ('f, unit) call"
  sub_issue_remove :: "string \<Rightarrow> int \<Rightarrow> string \<Rightarrow> int \<Rightarrow> ('f, unit) call"
  sub_issues_list :: "string \<Rightarrow> int \<Rightarrow> ('f, issue_row list) call"

section \<open>What the plan modules share\<close>

definition error_max :: nat where "error_max = 500"

definition say :: "forge_error \<Rightarrow> string" where
  "say e = take error_max (let t = squash (fe_text e) in if t = [] then fe_type e else t)"

definition gone :: "forge_error \<Rightarrow> bool" where
  "gone e = (fe_status e = Some 404 \<or> fe_status e = Some 410)"

definition state_of :: "issue_row \<Rightarrow> forge_state" where
  "state_of row = (if ir_state row = ''closed'' then ForgeClosed else ForgeOpen)"

record seen =
  sn_repo :: string
  sn_number :: int
  sn_url :: string
  sn_title :: string
  sn_body :: string
  sn_state :: forge_state
  sn_updated_at :: "string option"

definition seen_of :: "issue_row \<Rightarrow> string \<Rightarrow> int \<Rightarrow> seen" where
  "seen_of row repo number = \<lparr>
     sn_repo = (let r = repo_of (ir_html_url row) in if r = [] then repo else r),
     sn_number = (case ir_number row of None \<Rightarrow> number | Some k \<Rightarrow> if k = 0 then number else k),
     sn_url = ir_html_url row, sn_title = ir_title row, sn_body = ir_body row,
     sn_state = state_of row, sn_updated_at = ir_updated_at row\<rparr>"

definition issue_ref :: "plan_node \<Rightarrow> string" where
  "issue_ref n = (case n_forge n of None \<Rightarrow> n_id n
     | Some f \<Rightarrow> n_repository n @ ''#'' @ int_str (f_number f))"

definition refs :: "plan \<Rightarrow> references" where
  "refs p = concat (map (\<lambda>n. case n_forge n of
      Some f \<Rightarrow> if n_state n = Published then [(n_id n, n_repository n, f)] else []
    | None \<Rightarrow> []) (p_nodes p))"

section \<open>What a plan module can raise\<close>

datatype publish_failure =
    NoLevelLabel string level
  | LabelNotMade string string
  | ParentNotPublished ident
  | ForgeCannotHold
  | NodeRemoved ident
  | KeptChanging ident

text \<open>The exceptions of the plan modules: a failed call and a mangled checklist are
  \<open>LanternError\<close>s, the others are not.  \<open>Unending\<close> is no exception: it stands for a walk of the
  forge's pages that did not end within the bound given.\<close>

datatype fault =
    CallFailed forge_error
  | Mangled checklist_error
  | PublishFailed publish_failure
  | Gone
  | MissingKey string
  | BadNumber string
  | Unending

fun is_lantern_error :: "fault \<Rightarrow> bool" where
  "is_lantern_error (CallFailed e) = True"
| "is_lantern_error (Mangled e) = True"
| "is_lantern_error f = False"

text \<open>The state the modules work on: the daemon's database, the forge, and how often the clock was
  read.\<close>

record 'f site =
  st_db :: db
  st_forge :: 'f
  st_tick :: nat

text \<open>Their surroundings: the forge's operations, the clock, what other writers do to the database
  between a read of a plan and the write that follows it, and the bound on the pages a listing is
  read for.\<close>

record 'f surroundings =
  su_ops :: "'f issue_ops"
  su_clock :: "nat \<Rightarrow> timestamp"
  su_others :: "nat \<Rightarrow> db \<Rightarrow> db"
  su_pages :: nat

definition on_forge :: "('f, 'a) call \<Rightarrow> ('f site, fault, 'a) action" where
  "on_forge c s = (case c (st_forge s) of
      (Inl e, f) \<Rightarrow> (Inl (CallFailed e), s\<lparr>st_forge := f\<rparr>)
    | (Inr x, f) \<Rightarrow> (Inr x, s\<lparr>st_forge := f\<rparr>))"

text \<open>One read of a plan and one write against the revision read, tried again while other writes
  win (\<open>retry_stale\<close>).  \<open>change\<close> decides on the plan read: an exception, nothing to write, or the
  change.  What other writers did during a lost try is there for the next one.\<close>

datatype 'a decision = Decline fault | Nothing 'a | Write change 'a

definition attempt_write :: "'f surroundings \<Rightarrow> ident \<Rightarrow> (plan option \<Rightarrow> timestamp \<Rightarrow> 'a decision) \<Rightarrow>
    ('f site, fault attempt_error, 'a) action" where
  "attempt_write su plan_id decide s =
     (let now = su_clock su (st_tick s); p = store_get (st_db s) plan_id;
          s' = s\<lparr>st_db := su_others su (st_tick s) (st_db s), st_tick := Suc (st_tick s)\<rparr> in
      case decide p now of
        Decline e \<Rightarrow> (Inl (Raised e), s)
      | Nothing x \<Rightarrow> (Inr x, s)
      | Write c x \<Rightarrow>
          (case store_apply (st_db s') plan_id (case p of None \<Rightarrow> 0 | Some plan \<Rightarrow> p_revision plan) now c of
             Inl (StaleRevision r) \<Rightarrow> (Inl (Stale r), s')
           | Inl _ \<Rightarrow> (Inl (Raised Gone), s')
           | Inr (d, p') \<Rightarrow> (Inr x, s'\<lparr>st_db := d\<rparr>)))"

fun retry_action :: "nat \<Rightarrow> ('s, 'e attempt_error, 'a) action \<Rightarrow> int option \<Rightarrow> ('s, 'e attempt_error, 'a) action" where
  "retry_action 0 attempt lost s = (Inl (case lost of None \<Rightarrow> AssertionError | Some r \<Rightarrow> Stale r), s)"
| "retry_action (Suc n) attempt lost s = (case attempt s of
      (Inl (Stale r), s') \<Rightarrow> retry_action n attempt (Some r) s'
    | (Inl e, s') \<Rightarrow> (Inl e, s')
    | (Inr x, s') \<Rightarrow> (Inr x, s'))"

definition retry_write :: "'f surroundings \<Rightarrow> ident \<Rightarrow> (plan option \<Rightarrow> timestamp \<Rightarrow> 'a decision) \<Rightarrow>
    ('f site, fault attempt_error, 'a) action" where
  "retry_write su plan_id decide = retry_action tries (attempt_write su plan_id decide) None"

section \<open>Writing a managed checklist\<close>

text \<open>\<open>update_checklist\<close>: the description read, changed, and written back only when it changed.
  \<open>change\<close> may note something beside the new description; the note comes back when it was written.\<close>

definition update_checklist :: "'f issue_ops \<Rightarrow> string \<Rightarrow> int \<Rightarrow> (string \<Rightarrow> checklist_error + 'm \<times> string) \<Rightarrow>
    ('f site, fault, 'm option) action" where
  "update_checklist ops repo number change =
     andthen (on_forge (issue_get ops repo number)) (\<lambda>row.
       case change (ir_body row) of
         Inl e \<Rightarrow> raise (Mangled e)
       | Inr (m, changed) \<Rightarrow>
           if changed = ir_body row then ret None
           else andthen (on_forge (issue_update ops repo number None (Some changed))) (\<lambda>_. ret (Some m)))"

section \<open>Labels\<close>

datatype ensure_result = LabelCreated | LabelPresent | LabelFailed

record label_spec =
  ls_name :: string
  ls_color :: string
  ls_description :: string

definition mentions :: "string \<Rightarrow> string \<Rightarrow> bool" where
  "mentions p s = (cut p s \<noteq> None)"

definition ensure_label :: "'f issue_ops \<Rightarrow> string \<Rightarrow> label_spec \<Rightarrow> ('f, ensure_result) call" where
  "ensure_label ops repo spec f =
     (case label_lookup ops repo (ls_name spec) f of
        (Inl e, f1) \<Rightarrow> if fe_github e then (Inr LabelFailed, f1) else (Inl e, f1)
      | (Inr True, f1) \<Rightarrow> (Inr LabelPresent, f1)
      | (Inr False, f1) \<Rightarrow>
          (case label_create ops repo (ls_name spec) (ls_color spec) (ls_description spec) f1 of
             (Inl e, f2) \<Rightarrow>
               if \<not> fe_github e then (Inl e, f2)
               else if fe_status e = Some 422 \<or> mentions ''already_exists'' (fe_text e) \<or> mentions ''already exists'' (fe_text e)
               then (Inr LabelPresent, f2) else (Inr LabelFailed, f2)
           | (Inr _, f2) \<Rightarrow> (Inr LabelCreated, f2)))"

definition level_label :: "config \<Rightarrow> string \<Rightarrow> level \<Rightarrow> string option" where
  "level_label cfg repo l = (if pc_enabled (planning_for cfg repo) then Some (''sbx:'' @ level_name l) else None)"

fun level_spec :: "level \<Rightarrow> string \<Rightarrow> label_spec" where
  "level_spec Initiative name = \<lparr>ls_name = name, ls_color = ''5319e7'',
     ls_description = ''an initiative planned with lantern: its epics are its sub-issues''\<rparr>"
| "level_spec Epic name = \<lparr>ls_name = name, ls_color = ''0075ca'',
     ls_description = ''an epic planned with lantern: its tasks are its sub-issues''\<rparr>"
| "level_spec Task name = \<lparr>ls_name = name, ls_color = ''bfdadc'',
     ls_description = ''a task planned with lantern: one run, started by a person''\<rparr>"

end
