(* ===== verification/Publish.thy ===== *)
theory Publish
  imports Forge
begin

text \<open>
  Publishing one level of a plan (\<open>plans/publish.py\<close>): the order of its nodes, the steps per node
  (its label, its issue found by marker or created, its link under the parent, its record) with the
  walk's caches, and the walk over the level.  An error text is the value it is made from.
\<close>

section \<open>Results\<close>

datatype outcome = Created | Found | Failed
datatype linked = LinkedNative | LinkedChecklist | LinkedNone

datatype node_error = NotAttempted bool ident | Said fault

record node_result =
  nr_node_id :: ident
  nr_outcome :: outcome
  nr_number :: "int option"
  nr_url :: "string option"
  nr_linked :: linked
  nr_error :: "node_error option"
  nr_reason :: "fault option"

record level_result =
  lr_plan :: plan
  lr_results :: "node_result list"

definition lr_published :: "level_result \<Rightarrow> ident list" where
  "lr_published r = map nr_node_id (filter (\<lambda>x. nr_outcome x \<noteq> Failed) (lr_results r))"

definition lr_failed :: "level_result \<Rightarrow> ident list" where
  "lr_failed r = map nr_node_id (filter (\<lambda>x. nr_outcome x = Failed) (lr_results r))"

section \<open>The order of a level\<close>

lemma chosen_in:
  "(case find P (c # cs) of Some r \<Rightarrow> r | None \<Rightarrow> c) \<in> set (c # cs)"
  by (auto simp: find_Some_iff split: option.splits intro: nth_mem)

function order_level :: "ident list \<Rightarrow> plan_node list \<Rightarrow> plan_node list" where
  "order_level waiting [] = []"
| "order_level waiting (c # cs) =
     (let ready = (case find (\<lambda>x. \<not> list_ex (\<lambda>d. d \<in> set waiting) (n_depends_on x)) (c # cs) of
                     Some r \<Rightarrow> r | None \<Rightarrow> c)
      in ready # order_level (filter (\<lambda>i. i \<noteq> n_id ready) waiting) (remove1 ready (c # cs)))"
  by pat_completeness auto

termination
proof (relation "measure (\<lambda>(w, cs). length cs)")
  fix waiting :: "ident list" and c cs ready
  assume "ready = (case find (\<lambda>x. \<not> list_ex (\<lambda>d. d \<in> set waiting) (n_depends_on x)) (c # cs) of Some r \<Rightarrow> r | None \<Rightarrow> c)"
  then have "ready \<in> set (c # cs)" by (simp only: chosen_in)
  then show "((filter (\<lambda>i. i \<noteq> n_id ready) waiting, remove1 ready (c # cs)), waiting, c # cs) \<in> measure (\<lambda>(w, cs). length cs)"
    using length_remove1[of ready "c # cs"] by simp
qed simp

definition level_targets :: "plan \<Rightarrow> ident \<Rightarrow> ident list option \<Rightarrow> plan_node list" where
  "level_targets p node_id only = (case plan_node_of p node_id of
      None \<Rightarrow> []
    | Some n \<Rightarrow>
        let pending = filter (\<lambda>c. n_state c = Approved \<and> (case only of None \<Rightarrow> True | Some ids \<Rightarrow> n_id c \<in> set ids))
              (children p (n_id n)) in
        (if n_state n = Published then [] else [n]) @ order_level (map n_id pending) pending)"

section \<open>The walk\<close>

definition page_size :: nat where "page_size = 100"

record walk =
  wk_refs :: references
  wk_labels :: "((string \<times> level) \<times> string) list"
  wk_issues :: "((string \<times> string) \<times> (ident \<times> issue_row) list) list"
  wk_children :: "((string \<times> int) \<times> (string \<times> int) list) list"

type_synonym 'f walking = "'f site \<times> walk"

definition at_site :: "('f site, fault, 'a) action \<Rightarrow> ('f walking, fault, 'a) action" where
  "at_site m sw = (case m (fst sw) of (r, s') \<Rightarrow> (r, (s', snd sw)))"

definition set_walk :: "(walk \<Rightarrow> walk) \<Rightarrow> ('f walking, fault, unit) action" where
  "set_walk g sw = (Inr (), (fst sw, g (snd sw)))"

definition with_walk :: "(walk \<Rightarrow> ('f walking, fault, 'a) action) \<Rightarrow> ('f walking, fault, 'a) action" where
  "with_walk k sw = k (snd sw) sw"

definition walk_label :: "'f surroundings \<Rightarrow> config \<Rightarrow> plan_node \<Rightarrow> ('f walking, fault, string) action" where
  "walk_label su cfg n = with_walk (\<lambda>w. let key = (casefold (n_repository n), n_level n) in
     case map_of (wk_labels w) key of
       Some name \<Rightarrow> ret name
     | None \<Rightarrow> (case level_label cfg (n_repository n) (n_level n) of
         None \<Rightarrow> raise (PublishFailed (NoLevelLabel (n_repository n) (n_level n)))
       | Some name \<Rightarrow>
           andthen (at_site (on_forge (ensure_label (su_ops su) (n_repository n) (level_spec (n_level n) name)))) (\<lambda>r.
             if r = LabelFailed then raise (PublishFailed (LabelNotMade name (n_repository n)))
             else andthen (set_walk (wk_labels_update (dict_set key name))) (\<lambda>_. ret name))))"

text \<open>The rows of one page that carry a marker of the plan; the first row of a node wins.\<close>

definition set_default :: "'k \<Rightarrow> 'v \<Rightarrow> ('k \<times> 'v) list \<Rightarrow> ('k \<times> 'v) list" where
  "set_default k v d = (if k \<in> fst ` set d then d else d @ [(k, v)])"

definition read_row :: "ident \<Rightarrow> (ident \<times> issue_row) list \<Rightarrow> issue_row \<Rightarrow> (ident \<times> issue_row) list" where
  "read_row plan_id found row = (if ir_pull_request row then found
     else foldl (\<lambda>acc (p, n). if p = plan_id then set_default n row acc else acc) found (markers (ir_body row)))"

fun read_pages :: "nat \<Rightarrow> 'f issue_ops \<Rightarrow> ident \<Rightarrow> string \<Rightarrow> string \<Rightarrow> nat \<Rightarrow> (ident \<times> issue_row) list \<Rightarrow>
    ('f site, fault, (ident \<times> issue_row) list) action" where
  "read_pages 0 ops plan_id repo label page found = raise Unending"
| "read_pages (Suc k) ops plan_id repo label page found =
     andthen (on_forge (issues_list ops repo ''all'' [label] page_size page)) (\<lambda>rows.
       let found' = foldl (read_row plan_id) found rows in
       if length rows < page_size then ret found'
       else read_pages k ops plan_id repo label (Suc page) found')"

definition marked_issues :: "'f surroundings \<Rightarrow> ident \<Rightarrow> string \<Rightarrow> string \<Rightarrow>
    ('f walking, fault, (ident \<times> issue_row) list) action" where
  "marked_issues su plan_id repo label = with_walk (\<lambda>w. let key = (casefold repo, label) in
     case map_of (wk_issues w) key of
       Some found \<Rightarrow> ret found
     | None \<Rightarrow> andthen (at_site (read_pages (su_pages su) (su_ops su) plan_id repo label 1 [])) (\<lambda>found.
         andthen (set_walk (wk_issues_update (dict_set key found))) (\<lambda>_. ret found)))"

definition new_ref :: "int \<Rightarrow> string \<Rightarrow> forge_state \<Rightarrow> forge_ref" where
  "new_ref number url st = \<lparr>f_number = number, f_url = url, f_state = Some st, f_updated_at = None,
     f_detached = None, f_marker_missing = False, f_checklist_error = None\<rparr>"

definition walk_issue :: "'f surroundings \<Rightarrow> config \<Rightarrow> ident \<Rightarrow> plan_node \<Rightarrow> ('f walking, fault, outcome \<times> forge_ref) action" where
  "walk_issue su cfg plan_id n =
     andthen (walk_label su cfg n) (\<lambda>label.
     andthen (marked_issues su plan_id (n_repository n) label) (\<lambda>found.
       case map_of found (n_id n) of
         Some row \<Rightarrow> (case ir_number row of
             None \<Rightarrow> raise (MissingKey ''number'')
           | Some k \<Rightarrow> ret (Found, new_ref k (ir_html_url row) (state_of row)))
       | None \<Rightarrow> with_walk (\<lambda>w.
           andthen (at_site (on_forge (issue_create (su_ops su) (n_repository n) (n_title n)
               (render_body n (wk_refs w)) [label]))) (\<lambda>(k, url).
             ret (Created, new_ref k url ForgeOpen)))))"

definition walk_sub_issue :: "'f surroundings \<Rightarrow> string \<Rightarrow> int \<Rightarrow> string \<Rightarrow> int \<Rightarrow> ('f walking, fault, unit) action" where
  "walk_sub_issue su repo number child_repo child =
     (let key = (casefold repo, number); entry = (casefold child_repo, child) in
      andthen (with_walk (\<lambda>w. case map_of (wk_children w) key of
          Some known \<Rightarrow> ret known
        | None \<Rightarrow> andthen (at_site (on_forge (sub_issues_list (su_ops su) repo number))) (\<lambda>rows.
            let known = concat (map (\<lambda>row. case ir_number row of None \<Rightarrow> []
                  | Some k \<Rightarrow> [(casefold (repo_of (ir_html_url row)), k)]) rows) in
            andthen (set_walk (wk_children_update (dict_set key known))) (\<lambda>_. ret known)))) (\<lambda>known.
        if entry \<in> set known then ret ()
        else andthen (at_site (on_forge (sub_issue_add (su_ops su) repo number child_repo child))) (\<lambda>_.
          set_walk (wk_children_update (dict_set key (known @ [entry]))))))"

definition walk_link :: "'f surroundings \<Rightarrow> config \<Rightarrow> plan_node \<Rightarrow> forge_ref \<Rightarrow>
    ('f walking, fault, linked \<times> fault option) action" where
  "walk_link su cfg n ref = with_walk (\<lambda>w. case n_parent_id n of
      None \<Rightarrow> ret (LinkedNone, None)
    | Some q \<Rightarrow> (case map_of (wk_refs w) q of
        None \<Rightarrow> raise (PublishFailed (ParentNotPublished q))
      | Some (parent_repo, parent) \<Rightarrow>
          let list_it = (\<lambda>reason. let entry = \<lparr>ck_ref = n_repository n @ ''#'' @ int_str (f_number ref),
                ck_title = n_title n, ck_closed = False\<rparr> in
              andthen (at_site (update_checklist (su_ops su) parent_repo (f_number parent)
                  (\<lambda>b. bindR (add_child b entry) (\<lambda>b'. Inr ((), b'))))) (\<lambda>_.
                ret (LinkedChecklist, reason))) in
          (case repository_planning_for cfg parent_repo of
             Native \<Rightarrow> handle
               (andthen (walk_sub_issue su parent_repo (f_number parent) (n_repository n) (f_number ref))
                  (\<lambda>_. ret (LinkedNative, None)))
               (\<lambda>e. if \<not> is_lantern_error e \<or> casefold parent_repo = casefold (n_repository n)
                    then raise e else list_it (Some e))
           | ChecklistBlock \<Rightarrow> list_it None
           | Unsupported \<Rightarrow> raise (PublishFailed ForgeCannotHold))))"

definition published_event :: "ident \<Rightarrow> ident \<Rightarrow> string \<Rightarrow> int \<Rightarrow> plan_event" where
  "published_event plan_id node_id what number = \<lparr>ev_type = ''plan.node.changed'',
     ev_data = [(''plan_id'', JStr plan_id), (''node_id'', JStr node_id), (''change'', JStr what),
       (''number'', JNum (of_int number))],
     ev_run_id = None, ev_item_id = None, ev_channel_id = None\<rparr>"

definition publish_node :: "ident \<Rightarrow> forge_ref \<Rightarrow> (string \<times> json) list option \<Rightarrow> plan option \<Rightarrow> timestamp \<Rightarrow> unit decision" where
  "publish_node node_id ref actor read now = (case read of
      None \<Rightarrow> Decline (PublishFailed (NodeRemoved node_id))
    | Some p \<Rightarrow> (case plan_node_of p node_id of
        None \<Rightarrow> Decline (PublishFailed (NodeRemoved node_id))
      | Some n \<Rightarrow> Write (no_change\<lparr>
          ch_upsert := [n\<lparr>n_state := Published, n_forge := Some ref, n_published_by := actor_id actor, n_updated_at := now\<rparr>],
          ch_events := [published_event (p_id p) node_id ''published'' (f_number ref)],
          ch_actor := actor\<rparr>) ()))"

definition walk_record :: "'f surroundings \<Rightarrow> ident \<Rightarrow> (string \<times> json) list option \<Rightarrow> ident \<Rightarrow> forge_ref \<Rightarrow>
    ('f site, fault, unit) action" where
  "walk_record su plan_id actor node_id ref s =
     (case retry_write su plan_id (publish_node node_id ref actor) s of
        (Inr _, s') \<Rightarrow> (Inr (), s')
      | (Inl (Raised e), s') \<Rightarrow> (Inl e, s')
      | (Inl _, s') \<Rightarrow> (Inl (PublishFailed (KeptChanging node_id)), s'))"

definition caught :: "fault \<Rightarrow> bool" where
  "caught e = (case e of PublishFailed f \<Rightarrow> True | _ \<Rightarrow> is_lantern_error e)"

definition failed_result :: "ident \<Rightarrow> forge_ref option \<Rightarrow> node_error \<Rightarrow> node_result" where
  "failed_result i ref e = \<lparr>nr_node_id = i, nr_outcome = Failed, nr_number = map_option f_number ref,
     nr_url = map_option f_url ref, nr_linked = LinkedNone, nr_error = Some e, nr_reason = None\<rparr>"

definition walk_publish :: "'f surroundings \<Rightarrow> config \<Rightarrow> ident \<Rightarrow> (string \<times> json) list option \<Rightarrow> plan_node \<Rightarrow> ident list \<Rightarrow>
    ('f walking, fault, node_result) action" where
  "walk_publish su cfg plan_id actor n blocked =
     (case filter (\<lambda>d. d \<in> set blocked) ((case n_parent_id n of None \<Rightarrow> [] | Some q \<Rightarrow> [q]) @ n_depends_on n) of
        d # _ \<Rightarrow> ret (failed_result (n_id n) None (NotAttempted (Some d = n_parent_id n) d))
      | [] \<Rightarrow> handle
          (andthen (walk_issue su cfg plan_id n) (\<lambda>(outcome, ref). handle
            (andthen (walk_link su cfg n ref) (\<lambda>(linked, reason).
             andthen (at_site (walk_record su plan_id actor (n_id n) ref)) (\<lambda>_.
             andthen (set_walk (wk_refs_update (dict_set (n_id n) (n_repository n, ref)))) (\<lambda>_.
               ret \<lparr>nr_node_id = n_id n, nr_outcome = outcome, nr_number = Some (f_number ref), nr_url = Some (f_url ref),
                 nr_linked = linked, nr_error = None, nr_reason = reason\<rparr>))))
            (\<lambda>e. if caught e then ret (failed_result (n_id n) (Some ref) (Said e)) else raise e)))
          (\<lambda>e. if caught e then ret (failed_result (n_id n) None (Said e)) else raise e))"

fun walk_level :: "'f surroundings \<Rightarrow> config \<Rightarrow> ident \<Rightarrow> (string \<times> json) list option \<Rightarrow> ident list \<Rightarrow> plan_node list \<Rightarrow>
    ('f walking, fault, node_result list) action" where
  "walk_level su cfg plan_id actor blocked [] = ret []"
| "walk_level su cfg plan_id actor blocked (n # ns) =
     andthen (walk_publish su cfg plan_id actor n blocked) (\<lambda>r.
     andthen (walk_level su cfg plan_id actor (if nr_outcome r = Failed then n_id n # blocked else blocked) ns) (\<lambda>rs.
       ret (r # rs)))"

definition publish_level :: "'f surroundings \<Rightarrow> config \<Rightarrow> plan \<Rightarrow> ident \<Rightarrow> (string \<times> json) list option \<Rightarrow> ident list option \<Rightarrow>
    ('f site, fault, level_result) action" where
  "publish_level su cfg p node_id actor only s =
     (case walk_level su cfg (p_id p) actor [] (level_targets p node_id only)
         (s, \<lparr>wk_refs = refs p, wk_labels = [], wk_issues = [], wk_children = []\<rparr>) of
        (Inl e, (s', w)) \<Rightarrow> (Inl e, s')
      | (Inr rs, (s', w)) \<Rightarrow>
          (Inr \<lparr>lr_plan = (case store_get (st_db s') (p_id p) of None \<Rightarrow> p | Some p' \<Rightarrow> p'), lr_results = rs\<rparr>, s'))"

end
