(* ===== verification/ForgeFacts.thy ===== *)
theory ForgeFacts
  imports Forge
begin

text \<open>
  What the calls to the forge and the writes of the plan modules keep: properties that every step
  of an action keeps, and the contract of the decisions that patch one node (\<open>node_patch\<close>), whose
  writes keep the database well formed whatever other writers do in between.
\<close>

section \<open>What an action keeps\<close>

named_theorems keeps_intros \<open>an action keeps a property when its parts do\<close>

definition keeps :: "('s \<Rightarrow> bool) \<Rightarrow> ('s, 'e, 'a) action \<Rightarrow> bool" where
  "keeps P m = (\<forall>s. P s \<longrightarrow> P (snd (m s)))"

lemma keepsD: "keeps P m \<Longrightarrow> P s \<Longrightarrow> m s = (r, s') \<Longrightarrow> P s'"
  by (metis keeps_def snd_conv)

lemma keeps_ret [keeps_intros]: "keeps P (ret x)"
  by (simp add: keeps_def ret_def)

lemma keeps_raise [keeps_intros]: "keeps P (raise e)"
  by (simp add: keeps_def raise_def)

lemma keeps_andthen [keeps_intros]: "keeps P m \<Longrightarrow> (\<And>x. keeps P (k x)) \<Longrightarrow> keeps P (andthen m k)"
  by (auto simp: keeps_def andthen_def split: prod.splits sum.splits)

lemma keeps_handle [keeps_intros]: "keeps P m \<Longrightarrow> (\<And>e. keeps P (h e)) \<Longrightarrow> keeps P (handle m h)"
  by (auto simp: keeps_def handle_def split: prod.splits sum.splits)

lemma keeps_if [keeps_intros]: "keeps P m \<Longrightarrow> keeps P n \<Longrightarrow> keeps P (if b then m else n)"
  by simp

lemma keeps_option [keeps_intros]:
  "keeps P m \<Longrightarrow> (\<And>x. keeps P (k x)) \<Longrightarrow> keeps P (case opt of None \<Rightarrow> m | Some x \<Rightarrow> k x)"
  by (cases opt) simp_all

lemma keeps_prod [keeps_intros]: "(\<And>x y. keeps P (k x y)) \<Longrightarrow> keeps P (case p of (x, y) \<Rightarrow> k x y)"
  by (cases p) simp

lemma keeps_sum [keeps_intros]:
  "(\<And>x. keeps P (f x)) \<Longrightarrow> (\<And>x. keeps P (g x)) \<Longrightarrow> keeps P (case r of Inl x \<Rightarrow> f x | Inr x \<Rightarrow> g x)"
  by (cases r) simp_all

lemma keeps_Let [keeps_intros]: "(\<And>x. keeps P (k x)) \<Longrightarrow> keeps P (let x = v in k x)"
  by simp

lemma keeps_each [keeps_intros]: "(\<And>x. keeps P (f x)) \<Longrightarrow> keeps P (each f xs)"
  by (induction xs) (simp_all add: keeps_intros)

lemma keeps_on_forge [keeps_intros]: "keeps (\<lambda>s. P (st_db s)) (on_forge c)"
  by (auto simp: keeps_def on_forge_def split: prod.splits sum.splits)

lemma keeps_update_checklist [keeps_intros]:
  "keeps (\<lambda>s. P (st_db s)) (update_checklist ops repo number change)"
  unfolding update_checklist_def by (intro keeps_intros)

lemma retry_action_keeps: "keeps P attempt \<Longrightarrow> keeps P (retry_action n attempt lost)"
proof (induction n arbitrary: lost)
  case 0
  then show ?case by (simp add: keeps_def)
next
  case (Suc n)
  then show ?case
    by (auto simp: keeps_def split: prod.splits sum.splits attempt_error.splits)
qed

lemma retry_decline:
  "decide (store_get (st_db s) i) (su_clock su (st_tick s)) = Decline e \<Longrightarrow> retry_write su i decide s = (Inl (Raised e), s)"
  "decide (store_get (st_db s) i) (su_clock su (st_tick s)) = Nothing x \<Longrightarrow> retry_write su i decide s = (Inr x, s)"
  by (simp_all add: retry_write_def tries_def eval_nat_numeral attempt_write_def Let_def)

section \<open>What an action brings about\<close>

text \<open>From states satisfying the first, every outcome, raised or returned, satisfies the last.\<close>

definition triple :: "('s \<Rightarrow> bool) \<Rightarrow> ('s, 'e, 'a) action \<Rightarrow> ('e + 'a \<Rightarrow> 's \<Rightarrow> bool) \<Rightarrow> bool" where
  "triple P m Q = (\<forall>s r s'. P s \<longrightarrow> m s = (r, s') \<longrightarrow> Q r s')"

lemma tripleD: "triple P m Q \<Longrightarrow> P s \<Longrightarrow> m s = (r, s') \<Longrightarrow> Q r s'"
  by (auto simp: triple_def)

lemma triple_andthen:
  assumes "triple P m (\<lambda>r s. case r of Inl e \<Rightarrow> Q (Inl e) s | Inr x \<Rightarrow> R x s)" and "\<And>x. triple (R x) (k x) Q"
  shows "triple P (andthen m k) Q"
  unfolding triple_def
proof (intro allI impI)
  fix s r s' assume "P s" and a: "andthen m k s = (r, s')"
  obtain r1 s1 where m: "m s = (r1, s1)" by (cases "m s")
  from tripleD[OF assms(1) \<open>P s\<close> m] a m assms(2) show "Q r s'"
    by (cases r1) (auto simp: andthen_def triple_def)
qed

lemma triple_handle:
  assumes "triple P m (\<lambda>r s. case r of Inl e \<Rightarrow> R e s | Inr x \<Rightarrow> Q (Inr x) s)" and "\<And>e. triple (R e) (h e) Q"
  shows "triple P (handle m h) Q"
  unfolding triple_def
proof (intro allI impI)
  fix s r s' assume "P s" and a: "handle m h s = (r, s')"
  obtain r1 s1 where m: "m s = (r1, s1)" by (cases "m s")
  from tripleD[OF assms(1) \<open>P s\<close> m] a m assms(2) show "Q r s'"
    by (cases r1) (auto simp: handle_def triple_def)
qed

lemma triple_ret: "(\<And>s. P s \<Longrightarrow> Q (Inr x) s) \<Longrightarrow> triple P (ret x) Q"
  by (simp add: triple_def ret_def)

lemma triple_raise: "(\<And>s. P s \<Longrightarrow> Q (Inl e) s) \<Longrightarrow> triple P (raise e) Q"
  by (simp add: triple_def raise_def)

lemma triple_keeps: "keeps P m \<Longrightarrow> (\<And>r s. P s \<Longrightarrow> Q r s) \<Longrightarrow> triple P m Q"
  unfolding triple_def using keepsD by metis

lemma triple_weaken: "triple P m Q \<Longrightarrow> (\<And>s. P' s \<Longrightarrow> P s) \<Longrightarrow> (\<And>r s. Q r s \<Longrightarrow> Q' r s) \<Longrightarrow> triple P' m Q'"
  unfolding triple_def by blast

text \<open>What an action returns, when it returns.\<close>

named_theorems yields_intros \<open>an action returns values of a kind when its parts do\<close>

definition yields :: "('a \<Rightarrow> bool) \<Rightarrow> ('s, 'e, 'a) action \<Rightarrow> bool" where
  "yields Q m = (\<forall>s x s'. m s = (Inr x, s') \<longrightarrow> Q x)"

lemma yieldsD: "yields Q m \<Longrightarrow> m s = (Inr x, s') \<Longrightarrow> Q x"
  by (auto simp: yields_def)

lemma yields_ret [yields_intros]: "Q x \<Longrightarrow> yields Q (ret x)"
  by (simp add: yields_def ret_def)

lemma yields_raise [yields_intros]: "yields Q (raise e)"
  by (simp add: yields_def raise_def)

lemma yields_bind: "yields R m \<Longrightarrow> (\<And>x. R x \<Longrightarrow> yields Q (k x)) \<Longrightarrow> yields Q (andthen m k)"
  unfolding yields_def by (simp add: andthen_Inr) blast

lemma yields_andthen [yields_intros]: "(\<And>x. yields Q (k x)) \<Longrightarrow> yields Q (andthen m k)"
  unfolding yields_def by (simp add: andthen_Inr) blast

lemma yields_handle [yields_intros]: "yields Q m \<Longrightarrow> (\<And>e. yields Q (h e)) \<Longrightarrow> yields Q (handle m h)"
  unfolding yields_def handle_def by (auto split: prod.splits sum.splits)

lemma yields_if [yields_intros]: "(b \<Longrightarrow> yields Q m) \<Longrightarrow> (\<not> b \<Longrightarrow> yields Q n) \<Longrightarrow> yields Q (if b then m else n)"
  by simp

lemma yields_option [yields_intros]:
  "yields Q m \<Longrightarrow> (\<And>x. yields Q (k x)) \<Longrightarrow> yields Q (case opt of None \<Rightarrow> m | Some x \<Rightarrow> k x)"
  by (cases opt) simp_all

lemma yields_prod [yields_intros]: "(\<And>x y. yields Q (k x y)) \<Longrightarrow> yields Q (case p of (x, y) \<Rightarrow> k x y)"
  by (cases p) simp

lemma yields_list [yields_intros]:
  "yields Q m \<Longrightarrow> (\<And>x xs. yields Q (k x xs)) \<Longrightarrow> yields Q (case l of [] \<Rightarrow> m | x # xs \<Rightarrow> k x xs)"
  by (cases l) simp_all

section \<open>Decisions that patch one node\<close>

text \<open>Other writers keep the database well formed and move a plan's revision whenever they change
  its nodes.\<close>

definition well_behaved :: "(nat \<Rightarrow> db \<Rightarrow> db) \<Rightarrow> bool" where
  "well_behaved others = (\<forall>k d. db_wf d \<longrightarrow> db_wf (others k d) \<and>
     (\<forall>i p p'. store_get d i = Some p \<and> store_get (others k d) i = Some p' \<and> p_revision p' = p_revision p \<longrightarrow>
        set (p_nodes p') = set (p_nodes p) \<and> p_root_id p' = p_root_id p))"

definition patches :: "change \<Rightarrow> plan_node \<Rightarrow> plan_node \<Rightarrow> bool" where
  "patches c n u = (ch_upsert c = [u] \<and> ch_remove c = [] \<and> same_shape u n \<and> n_depends_on u = n_depends_on n
     \<and> (node_ok n \<longrightarrow> node_ok u) \<and> (storable n \<longrightarrow> storable u))"

locale node_patch =
  fixes decide :: "plan option \<Rightarrow> timestamp \<Rightarrow> 'a decision"
  assumes unread: "decide None now \<noteq> Write c x"
    and patch: "decide (Some p) now = Write c x \<Longrightarrow> \<exists>n \<in> set (p_nodes p). \<exists>u. patches c n u"
begin

lemma write_sound:
  assumes "db_wf d" and "store_get d i = Some p" and "decide (Some q) now = Write c x" and "set (p_nodes q) = set (p_nodes p)"
  shows "fits d i c \<and> wf_nodes i (p_root_id p) (merge_nodes (p_nodes p) c)"
proof -
  obtain n u where n: "n \<in> set (p_nodes p)" "patches c n u" using patch[OF assms(3)] assms(4) by auto
  have ok: "node_ok n" "storable n"
    using wf_planD(4)[OF store_get_nodes(2)[OF assms(1,2)] n(1)] plan_nodes_storable[OF assms(1,2) n(1)] by simp_all
  show ?thesis
    using n ok by (intro patch_sound[OF assms(1,2)]) (auto simp: patches_def)
qed

lemma attempt_keeps_wf:
  assumes "well_behaved (su_others su)"
  shows "keeps (\<lambda>s. db_wf (st_db s)) (attempt_write su i decide)"
  unfolding keeps_def
proof (intro allI impI)
  fix s :: "'b site"
  let ?now = "su_clock su (st_tick s)" and ?p = "store_get (st_db s) i"
  let ?d = "su_others su (st_tick s) (st_db s)"
  assume wf: "db_wf (st_db s)"
  have wf': "db_wf ?d" using assms wf by (simp add: well_behaved_def)
  show "db_wf (st_db (snd (attempt_write su i decide s)))"
  proof (cases "decide ?p ?now")
    case (Write c x)
    then obtain q where q: "?p = Some q" using unread by (cases ?p) auto
    show ?thesis
    proof (cases "store_apply ?d i (p_revision q) ?now c")
      case (Inl e)
      then show ?thesis using Write q wf' by (cases e) (simp_all add: attempt_write_def)
    next
      case (Inr dp)
      obtain d' p' where dp: "dp = (d', p')" by (cases dp)
      from Inr dp obtain p where p: "store_get ?d i = Some p" "p_revision p = p_revision q" "d' = written ?d i ?now c"
        using store_apply_Inr[of ?d i "p_revision q" ?now c d' p'] by auto
      have "set (p_nodes q) = set (p_nodes p)" using assms wf q p(1,2) by (simp add: well_behaved_def)
      from write_sound[OF wf' p(1) Write[unfolded q] this] have "db_wf d'"
        unfolding p(3) using db_wf_written(1)[OF wf' _ p(1)] by blast
      then show ?thesis using Write q Inr dp by (simp add: attempt_write_def)
    qed
  qed (simp_all add: attempt_write_def wf)
qed

lemma retry_keeps_wf:
  assumes "well_behaved (su_others su)"
  shows "keeps (\<lambda>s. db_wf (st_db s)) (retry_write su i decide)"
  unfolding retry_write_def by (rule retry_action_keeps[OF attempt_keeps_wf[OF assms]])

text \<open>With no other writer, a try succeeds at once.\<close>

lemma retry_alone:
  assumes "su_others su = (\<lambda>_ d. d)" and "db_wf (st_db s)" and "store_get (st_db s) i = Some p"
    and "decide (Some p) (su_clock su (st_tick s)) = Write c x"
  obtains n u s' where "retry_write su i decide s = (Inr x, s')" "n \<in> set (p_nodes p)" "patches c n u"
    "st_forge s' = st_forge s" "db_wf (st_db s')"
    "store_get (st_db s') i \<noteq> None" "set (p_nodes (the (store_get (st_db s') i))) = set (merge_nodes (p_nodes p) c)"
proof -
  obtain n u where n: "n \<in> set (p_nodes p)" "patches c n u" using patch[OF assms(4)] by auto
  let ?now = "su_clock su (st_tick s)"
  let ?d = "written (st_db s) i ?now c"
  obtain q where q: "store_apply (st_db s) i (p_revision p) ?now c = Inr (?d, q)" "store_get ?d i = Some q"
    using store_apply_ok[OF assms(3) refl] by blast
  note ws = write_sound[OF assms(2,3,4) refl]
  have wf: "db_wf ?d" "set (p_nodes q) = set (merge_nodes (p_nodes p) c)"
    using db_wf_written[OF assms(2) conjunct1[OF ws] assms(3) conjunct2[OF ws]] store_get_nodes(1)[OF _ q(2)] by auto
  let ?s = "s\<lparr>st_db := ?d, st_tick := Suc (st_tick s)\<rparr>"
  have "retry_write su i decide s = (Inr x, ?s)"
    using assms(1,3,4) q(1) by (simp add: retry_write_def tries_def eval_nat_numeral attempt_write_def Let_def)
  from that[OF this n, unfolded site.simps] wf q(2) show thesis by simp
qed

end

end
