(* ===== verification/RenderFacts.thy ===== *)
theory RenderFacts
  imports Render
begin

text \<open>
  What rendering and reading an issue body give each other: the marker is found wherever it
  stands, and the sections of a rendered node read back.
\<close>

section \<open>Finding a match\<close>

text \<open>A match found at one place is found by the scan when no match that starts earlier can run
  over it, which its first character rules out.\<close>

lemma scan_finds:
  assumes fit: "\<And>s v r. m s = Some (v, r) \<Longrightarrow> \<exists>u. s = u @ r \<and> u \<noteq> [] \<and> c \<notin> set (tl u)"
    and here: "m (c # w @ b) = Some (v, b)"
  shows "v \<in> set (scan_all m (a @ c # w @ b))"
proof (induction a rule: length_induct)
  case (1 a)
  show ?case
  proof (cases a)
    case Nil
    with here show ?thesis by simp
  next
    case (Cons x t)
    show ?thesis
    proof (cases "m (x # t @ c # w @ b)")
      case None
      with 1 Cons show ?thesis by simp
    next
      case (Some vr)
      obtain v' r where vr: "vr = (v', r)" by (cases vr)
      with Some fit obtain u where u: "x # t @ c # w @ b = u @ r" "u \<noteq> []" "c \<notin> set (tl u)" by blast
      then obtain u' where u': "u = x # u'" "t @ c # w @ b = u' @ r" "c \<notin> set u'" by (cases u) auto
      from u'(2,3) obtain a' where "t = u' @ a'" "r = a' @ c # w @ b"
        by (auto simp: append_eq_append_conv2 Cons_eq_append_conv)
      moreover have "v \<in> set (scan_all m (a' @ c # w @ b))" using 1 Cons calculation(1) by auto
      ultimately show ?thesis using Cons Some vr by simp
    qed
  qed
qed

lemma eat_SomeD: "eat p s = Some r \<Longrightarrow> s = p @ r"
  by (auto simp: eat_def starts_with_prefix prefix_def split: if_splits)

lemma starts_withD: "starts_with p s \<Longrightarrow> s = p @ drop (length p) s"
  by (metis append_take_drop_id starts_with_def)

lemma eat_append: "eat p (p @ r) = Some r"
  by (simp add: eat_def starts_with_def)

lemma run_split: "s = takeWhile p s @ dropWhile p s"
  by simp

text \<open>Neither white space nor an id holds the opening bracket.\<close>

lemma id_not_space: "is_id_char c \<Longrightarrow> \<not> is_space c"
  by (auto simp: is_space_def is_id_char_def is_word_def is_decimal_def is_upper_ascii_def Let_def)

lemma class_inner: "is_space c \<Longrightarrow> c \<noteq> CHR ''<''" "is_id_char c \<Longrightarrow> c \<noteq> CHR ''<''"
  by (auto simp: is_space_def is_id_char_def is_word_def is_decimal_def is_upper_ascii_def)

lemma run_no_bracket:
  "CHR ''<'' \<notin> set (takeWhile is_space s)" "CHR ''<'' \<notin> set (takeWhile is_id_char s)"
  using class_inner by (auto dest: set_takeWhileD)

lemma match_node_fit:
  assumes "match_node s = Some (v, r)"
  shows "\<exists>u. s = u @ r \<and> CHR ''<'' \<notin> set u"
proof -
  let ?run = "takeWhile is_id_char s" and ?rest = "dropWhile is_id_char s"
  consider (arrow) "starts_with ''-->'' (dropWhile is_space ?rest)" "r = drop 3 (dropWhile is_space ?rest)"
    | (dashes) "starts_with ''>'' ?rest" "r = tl ?rest"
    using assms by (auto simp: match_node_def Let_def split: if_splits)
  then show ?thesis
  proof cases
    case arrow
    then have "dropWhile is_space ?rest = ''-->'' @ r" using starts_withD[OF arrow(1)] by (simp add: numeral_3_eq_3)
    then have "?rest = takeWhile is_space ?rest @ ''-->'' @ r" by (metis run_split)
    then have "s = (?run @ takeWhile is_space ?rest @ ''-->'') @ r"
      using run_split[of s is_id_char] by simp
    then show ?thesis using run_no_bracket
      by (intro exI[of _ "?run @ takeWhile is_space ?rest @ ''-->''"]) simp
  next
    case dashes
    then have "?rest = ''>'' @ r" by (cases ?rest) (simp_all add: starts_with_def)
    then have "s = (?run @ ''>'') @ r" using run_split[of s is_id_char] by simp
    then show ?thesis using run_no_bracket by (intro exI[of _ "?run @ ''>''"]) simp
  qed
qed

lemma match_marker_fit:
  assumes "match_marker s = Some (v, r)"
  shows "\<exists>u. s = u @ r \<and> u \<noteq> [] \<and> CHR ''<'' \<notin> set (tl u)"
proof -
  from assms obtain s1 s2 s4 nr where e: "eat ''<!--'' s = Some s1"
      "eat ''sbx-plan:'' (dropWhile is_space s1) = Some s2"
      "eat ''/'' (dropWhile is_id_char (dropWhile is_space s2)) = Some s4" "match_node s4 = Some nr" "r = snd nr"
    by (auto simp: match_marker_def Let_def bind_eq_Some_conv split: if_splits)
  obtain u where u: "s4 = u @ r" "CHR ''<'' \<notin> set u" using match_node_fit e(4,5) by (metis prod.collapse)
  let ?s3 = "dropWhile is_space s2"
  have "s = ''<!--'' @ takeWhile is_space s1 @ ''sbx-plan:'' @ takeWhile is_space s2
      @ takeWhile is_id_char ?s3 @ ''/'' @ u @ r"
    using eat_SomeD[OF e(1)] eat_SomeD[OF e(2)] eat_SomeD[OF e(3)] u(1)
      run_split[of s1 is_space] run_split[of s2 is_space] run_split[of ?s3 is_id_char] by (metis append_assoc)
  then show ?thesis
    using run_no_bracket u(2)
    by (intro exI[of _ "''<!--'' @ takeWhile is_space s1 @ ''sbx-plan:'' @ takeWhile is_space s2
      @ takeWhile is_id_char ?s3 @ ''/'' @ u"]) simp
qed

definition id_ok :: "ident \<Rightarrow> bool" where
  "id_ok i = (i \<noteq> [] \<and> list_all is_id_char i)"

lemma marker_matches:
  assumes "id_ok p" and "id_ok n"
  shows "match_marker (marker p n @ b) = Some ((p, n), b)"
proof -
  have id: "list_all is_id_char p" "list_all is_id_char n" "p \<noteq> []" "n \<noteq> []" using assms by (auto simp: id_ok_def)
  have sp: "\<not> is_space (hd p)" using id(1,3) id_not_space by (cases p) simp_all
  have c: "\<not> is_id_char (CHR ''/'')" "\<not> is_id_char (CHR '' '')" "is_space (CHR '' '')" "\<not> is_space (CHR ''s'')" "\<not> is_space (CHR ''-'')"
    by (simp_all add: is_space_def is_id_char_def is_word_def is_decimal_def is_upper_ascii_def)
  have node: "match_node (n @ '' -->'' @ b) = Some (n, b)"
    using id(2,4) c by (simp add: match_node_def list_all_iff starts_with_def)
  have p1: "dropWhile is_space (p @ x) = p @ x" for x using sp id(3) by (cases p) simp_all
  have p2: "takeWhile is_id_char (p @ CHR ''/'' # x) = p" "dropWhile is_id_char (p @ CHR ''/'' # x) = CHR ''/'' # x" for x
    using id(1) c(1) by (simp_all add: list_all_iff)
  have "eat ''<!--'' (marker p n @ b) = Some ('' sbx-plan: '' @ p @ ''/'' @ n @ '' -->'' @ b)"
    unfolding marker_def by (simp add: eat_def starts_with_def)
  moreover have "eat ''sbx-plan:'' (dropWhile is_space ('' sbx-plan: '' @ x)) = Some ('' '' @ x)" for x
    using c by (simp add: eat_def starts_with_def)
  moreover have "eat ''/'' (CHR ''/'' # x) = Some x" for x by (simp add: eat_def starts_with_def)
  ultimately show ?thesis using node id(3) p1 p2 c by (simp add: match_marker_def)
qed

lemma marker_found:
  assumes "id_ok p" and "id_ok n"
  shows "(p, n) \<in> set (markers (a @ marker p n @ b))"
proof -
  obtain w where w: "marker p n = CHR ''<'' # w" by (simp add: marker_def)
  have "match_marker (CHR ''<'' # w @ b) = Some ((p, n), b)" using marker_matches[OF assms, of b] w by simp
  from scan_finds[where m = match_marker, OF match_marker_fit this, where a = a] show ?thesis
    by (simp add: markers_def w)
qed

lemma rendered_is_marked:
  assumes "id_ok (n_plan_id n)" and "id_ok (n_id n)"
  shows "marked (render_body n known) (n_plan_id n) (n_id n)"
proof -
  have "\<exists>a. join [newline, newline] (xs @ [m]) = a @ m" for xs :: "string list" and m
  proof (cases "xs = []")
    case False
    then show ?thesis using join_append[of xs "[m]"] by (metis append_assoc join.simps(2) list.distinct(1))
  qed simp
  then obtain a where "render_body n known = a @ marker (n_plan_id n) (n_id n) @ [newline]"
    unfolding render_body_def by (metis append_assoc)
  with marker_found[OF assms] show ?thesis by (simp add: marked_def)
qed

section \<open>Lines of a body\<close>

lemma split_on_ne: "split_on c a \<noteq> []"
  by (cases a) (auto split: list.splits)

lemma split_on_append: "split_on c (a @ c # b) = split_on c a @ split_on c b"
  by (induction a) (auto simp: split_on_ne split: list.splits)

lemma split_on_one: "c \<notin> set a \<Longrightarrow> split_on c a = [a]"
  by (induction a) auto

lemma join_split_on: "join [c] (split_on c a) = a"
proof (induction a)
  case (Cons x a)
  then show ?case using split_on_ne[of c a] by (cases "split_on c a"; cases "tl (split_on c a)") auto
qed simp

definition carriage_return :: char where "carriage_return = char_of (13 :: nat)"

lemma one_line_chars: "one_line l \<Longrightarrow> newline \<notin> set l \<and> carriage_return \<notin> set l"
  by (auto simp: one_line_def is_line_break_def newline_def carriage_return_def)

lemma unify_newlines_id: "carriage_return \<notin> set s \<Longrightarrow> unify_newlines s = s"
proof (induction s)
  case (Cons c s)
  then have "ord c \<noteq> 13" by (metis carriage_return_def char_of_char list.set_intros(1))
  with Cons show ?case by simp
qed simp

section \<open>Reading a rendered body\<close>

text \<open>The state of the fence over the lines of a section; \<open>None\<close> when one of them would end the
  section.\<close>

fun fence_run :: "string option \<Rightarrow> string list \<Rightarrow> string option option" where
  "fence_run f [] = Some f"
| "fence_run (Some f) (l # ls) = fence_run (if closes l f then None else Some f) ls"
| "fence_run None (l # ls) = (case match_fence l of
      Some f \<Rightarrow> fence_run (Some f) ls
    | None \<Rightarrow> if opens l = None then fence_run None ls else None)"

definition calm :: "string \<Rightarrow> bool" where
  "calm t = (fence_run None (split_on newline t) = Some None \<and> carriage_return \<notin> set t)"

lemma fence_run_append: "fence_run f (xs @ ys) = Option.bind (fence_run f xs) (\<lambda>g. fence_run g ys)"
  by (induction f xs rule: fence_run.induct) (auto split: option.splits)

lemma read_calm:
  assumes "fence_run f ls = Some g" and "rd_fence r = f" and "rd_current r = Some k"
  shows "foldl read_line r ls = r\<lparr>rd_lines := rd_lines r @ ls, rd_fence := g\<rparr>"
  using assms
proof (induction f ls arbitrary: r rule: fence_run.induct)
  case (2 f l ls)
  have "read_line r l = r\<lparr>rd_lines := rd_lines r @ [l], rd_fence := (if closes l f then None else Some f)\<rparr>"
    using 2(3,4) by (simp add: read_line_def keep_line_def)
  with 2 show ?case by simp
next
  case (3 l ls)
  show ?case
  proof (cases "match_fence l")
    case None
    then have "read_line r l = r\<lparr>rd_lines := rd_lines r @ [l], rd_fence := None\<rparr>"
      using 3(3-5) by (simp add: read_line_def keep_line_def split: if_splits)
    with 3 None show ?thesis by (simp split: if_splits)
  next
    case (Some f)
    then have "read_line r l = r\<lparr>rd_lines := rd_lines r @ [l], rd_fence := Some f\<rparr>"
      using 3(3-5) by (simp add: read_line_def keep_line_def)
    with 3 Some show ?thesis by simp
  qed
qed simp

lemma heading_facts:
  "list_all (\<lambda>k. match_fence (heading_line k) = None \<and> opens (heading_line k) = Some (Some k)
     \<and> newline \<notin> set (heading_line k) \<and> carriage_return \<notin> set (heading_line k)) (map fst headings)"
  by code_simp

lemma heading_opens:
  assumes "k \<in> fst ` set headings"
  shows "match_fence (heading_line k) = None" "opens (heading_line k) = Some (Some k)"
    "newline \<notin> set (heading_line k)" "carriage_return \<notin> set (heading_line k)"
  using heading_facts assms by (auto simp: list_all_iff)

definition part_text :: "string \<times> string \<Rightarrow> string" where
  "part_text p = heading_line (fst p) @ [newline, newline] @ snd p"

definition part_ok :: "string \<times> string \<Rightarrow> bool" where
  "part_ok p = (fst p \<in> fst ` set headings \<and> visible (snd p) \<and> calm (snd p))"

definition part_lines :: "string \<times> string \<Rightarrow> string list" where
  "part_lines p = heading_line (fst p) # [] # split_on newline (snd p)"

lemma split_part: "part_ok p \<Longrightarrow> split_on newline (part_text p) = part_lines p"
  using split_on_append[of newline "heading_line (fst p)" "newline # snd p"]
  by (simp add: part_text_def part_lines_def part_ok_def split_on_one heading_opens)

lemma empty_line: "match_fence [] = None" "opens [] = None"
  by (simp_all add: match_fence_def opens_def match_heading_def starts_with_def lstrip_by_def)

lemma read_part:
  assumes "part_ok p" and "rd_fence r = None"
  shows "foldl read_line r (part_lines p @ [[]]) =
    (close_section r)\<lparr>rd_current := Some (fst p), rd_lines := [] # split_on newline (snd p) @ [[]], rd_fence := None\<rparr>"
proof -
  let ?r = "(close_section r)\<lparr>rd_current := Some (fst p), rd_lines := []\<rparr>"
  have f: "rd_fence (close_section r) = None"
    using assms(2) by (auto simp: close_section_def split: option.splits)
  have "read_line r (heading_line (fst p)) = ?r"
    using assms heading_opens(1,2)[of "fst p"] by (simp add: read_line_def part_ok_def)
  moreover have "fence_run None ([] # split_on newline (snd p) @ [[]]) = Some None"
    using assms(1) by (simp add: part_ok_def calm_def fence_run_append empty_line)
  then have "foldl read_line ?r ([] # split_on newline (snd p) @ [[]]) =
      ?r\<lparr>rd_lines := rd_lines ?r @ ([] # split_on newline (snd p) @ [[]]), rd_fence := None\<rparr>"
    by (rule read_calm) (simp_all add: f)
  ultimately show ?thesis by (simp add: part_lines_def)
qed

lemma strip_padded: "visible t \<Longrightarrow> strip (newline # t @ [newline]) = t"
  using strip_by_wrapped[of t is_space newline newline] by (simp add: visible_def newline_char)

lemma close_part:
  assumes "visible t" and "k \<notin> fst ` set out"
  shows "close_section \<lparr>rd_out = out, rd_current = Some k, rd_lines = [] # split_on newline t @ [[]], rd_fence = f\<rparr> =
    \<lparr>rd_out = out @ [(k, t)], rd_current = Some k, rd_lines = [] # split_on newline t @ [[]], rd_fence = f\<rparr>"
proof -
  have "join [newline] ([] # split_on newline t @ [[]]) = newline # t @ [newline]"
    by (simp add: split_on_ne join_Cons join_append join_split_on)
  then show ?thesis using assms strip_padded by (simp add: close_section_def)
qed

lemma read_parts:
  assumes "\<forall>p \<in> set parts. part_ok p" and "distinct (map fst parts)" and "fst ` set parts \<inter> fst ` set (rd_out (close_section r)) = {}"
    and "rd_fence r = None"
  shows "rd_out (close_section (foldl read_line r (concat (map (\<lambda>p. part_lines p @ [[]]) parts)))) =
      rd_out (close_section r) @ parts
    \<and> rd_fence (foldl read_line r (concat (map (\<lambda>p. part_lines p @ [[]]) parts))) = None"
  using assms
proof (induction parts arbitrary: r)
  case (Cons p ps)
  let ?r = "foldl read_line r (part_lines p @ [[]])"
  have r: "?r = \<lparr>rd_out = rd_out (close_section r), rd_current = Some (fst p), rd_lines = [] # split_on newline (snd p) @ [[]], rd_fence = None\<rparr>"
    using read_part[of p r] Cons.prems(1,4) by simp
  have c: "rd_out (close_section ?r) = rd_out (close_section r) @ [p]"
    unfolding r using close_part[of "snd p" "fst p"] Cons.prems(1,3) by (simp add: part_ok_def)
  have "fst ` set ps \<inter> fst ` set (rd_out (close_section ?r)) = {}" "rd_fence ?r = None"
    using Cons.prems(2,3) c r by auto
  with Cons.IH[of ?r] Cons.prems(1,2) c show ?case by simp
qed simp

lemma marker_line:
  assumes "id_ok p" and "id_ok n"
  shows "match_fence (marker p n) = None" "opens (marker p n) = Some None"
    "newline \<notin> set (marker p n)" "carriage_return \<notin> set (marker p n)"
proof -
  have ids: "\<forall>c \<in> set p \<union> set n. \<not> is_space c" using assms id_not_space by (auto simp: id_ok_def list_all_iff)
  show "match_fence (marker p n) = None"
    by (simp add: match_fence_def marker_def backtick_def)
  have "by_heading [] = None" by code_simp
  then show "opens (marker p n) = Some None"
    by (simp add: opens_def match_heading_def marker_def starts_with_def lstrip_by_def is_space_def)
  show "newline \<notin> set (marker p n)" "carriage_return \<notin> set (marker p n)"
    using one_line_chars[of "marker p n"] ids break_is_space
    by (auto simp: one_line_def marker_def is_line_break_def)
qed

lemma split_parts:
  assumes "\<forall>p \<in> set parts. part_ok p" and "newline \<notin> set m"
  shows "split_on newline (join [newline, newline] (map part_text parts @ [m]) @ [newline]) =
    concat (map (\<lambda>p. part_lines p @ [[]]) parts) @ [m, []]"
  using assms(1)
proof (induction parts)
  case Nil
  then show ?case using split_on_append[of newline m "[]"] assms(2) by (simp add: split_on_one)
next
  case (Cons p ps)
  then show ?case
    using split_on_append[of newline "part_text p" "newline # join [newline, newline] (map part_text ps @ [m]) @ [newline]"]
    by (simp add: join_Cons split_part)
qed

lemma set_join_parts:
  assumes "\<forall>p \<in> set parts. part_ok p" and "carriage_return \<notin> set m"
  shows "carriage_return \<notin> set (join [newline, newline] (map part_text parts @ [m]) @ [newline])"
proof -
  have "carriage_return \<noteq> newline" by (simp add: carriage_return_def newline_def)
  moreover have "carriage_return \<notin> set (part_text p)" if "p \<in> set parts" for p
    using assms(1) that calculation heading_opens(4)[of "fst p"] by (auto simp: part_text_def part_ok_def calm_def)
  ultimately show ?thesis
    using set_join[of "[newline, newline]" "map part_text parts @ [m]"] assms(2) by fastforce
qed

lemma read_rendered:
  assumes "\<forall>p \<in> set parts. part_ok p" and "distinct (map fst parts)" and "id_ok i" and "id_ok j"
  shows "section_texts (join [newline, newline] (map part_text parts @ [marker i j]) @ [newline]) = parts"
proof -
  let ?r = "\<lparr>rd_out = [], rd_current = None, rd_lines = [], rd_fence = None\<rparr>"
  let ?after = "foldl read_line ?r (concat (map (\<lambda>p. part_lines p @ [[]]) parts))"
  note m = marker_line[OF assms(3,4)]
  have start: "close_section ?r = ?r" by (simp add: close_section_def)
  have p: "rd_out (close_section ?after) = parts" "rd_fence ?after = None"
    using read_parts[OF assms(1,2), of ?r] start by simp_all
  have "rd_fence (close_section ?after) = None"
    using p(2) by (auto simp: close_section_def split: option.splits)
  then have "foldl read_line ?after [marker i j, []] = (close_section ?after)\<lparr>rd_current := None, rd_lines := []\<rparr>"
    using p(2) m(1,2) by (simp add: read_line_def[of _ "marker i j"] read_line_def[of _ "[]"] keep_line_def empty_line)
  then show ?thesis
    unfolding section_texts_def body_lines_def
    using set_join_parts[OF assms(1) m(4)] split_parts[OF assms(1) m(3)] p(1)
    by (simp add: unify_newlines_id close_section_def[of "_\<lparr>rd_current := None, rd_lines := []\<rparr>"])
qed

section \<open>The sections of a node\<close>

definition part_of :: "string \<Rightarrow> string \<Rightarrow> (string \<times> string) list" where
  "part_of key text = (if strip text = [] then [] else [(key, strip text)])"

lemma section_block_part: "section_block key text = map (\<lambda>p. (fst p, part_text p)) (part_of key text)"
  by (simp add: section_block_def part_of_def part_text_def Let_def)

definition criteria_of :: "plan_node \<Rightarrow> string list" where
  "criteria_of n = filter (\<lambda>c. c \<noteq> []) (map strip (n_acceptance_criteria n))"

definition commands_of :: "plan_node \<Rightarrow> string list" where
  "commands_of n = filter (\<lambda>c. \<not> blank c) (n_verify_commands n)"

definition section_parts :: "plan_node \<Rightarrow> references \<Rightarrow> (string \<times> string) list" where
  "section_parts n known =
     part_of ''goal'' (n_goal n) @ part_of ''context'' (n_context n)
     @ part_of ''acceptance_criteria'' (join [newline] (map (\<lambda>c. ''- [ ] '' @ c) (criteria_of n)))
     @ part_of ''kind'' (kind_text n)
     @ (if commands_of n = [] then [] else part_of ''verify_commands'' (fence (commands_of n)))
     @ part_of ''depends_on'' (join [newline] (map (dependency_line n known) (n_depends_on n)))
     @ part_of ''non_goals'' (n_non_goals n) @ part_of ''constraints'' (n_constraints n)"

lemma section_blocks_parts: "section_blocks n known = map (\<lambda>p. (fst p, part_text p)) (section_parts n known)"
  by (simp add: section_blocks_def section_parts_def section_block_part criteria_of_def commands_of_def Let_def)

lemma render_parts:
  "render_body n known = join [newline, newline] (map part_text (section_parts n known) @ [marker (n_plan_id n) (n_id n)]) @ [newline]"
  by (simp add: render_body_def section_blocks_parts comp_def)

lemma keys_part_of: "fst ` set (part_of k t) \<subseteq> {k}" "distinct (map fst (part_of k t))"
  by (simp_all add: part_of_def)

lemma distinct_section_parts: "distinct (map fst (section_parts n known))"
  unfolding section_parts_def map_append distinct_append
  by (simp add: keys_part_of) (auto simp: part_of_def split: if_splits)

lemma strip_is_visible:
  assumes "strip t \<noteq> []"
  shows "visible (strip t)"
proof -
  let ?l = "dropWhile is_space t"
  have s: "strip t = rev (dropWhile is_space (rev ?l))" by (simp add: strip_by_def lstrip_by_def rstrip_by_def)
  with assms have "\<not> is_space (last (strip t))" using hd_dropWhile[of is_space "rev ?l"] by (simp add: last_rev)
  moreover obtain y where "?l = strip t @ y" using s by (metis rev_append rev_rev_ident takeWhile_dropWhile_id)
  then have "\<not> is_space (hd (strip t))" using assms hd_dropWhile[of is_space t] by (metis append_is_Nil_conv hd_append2)
  ultimately show ?thesis using assms by (simp add: visible_def)
qed

lemma strip_middle: "\<exists>x y. t = x @ strip t @ y"
proof -
  let ?l = "dropWhile is_space t"
  have "strip t = rev (dropWhile is_space (rev ?l))" by (simp add: strip_by_def lstrip_by_def rstrip_by_def)
  then obtain y where "?l = strip t @ y" by (metis rev_append rev_rev_ident takeWhile_dropWhile_id)
  then show ?thesis by (metis takeWhile_dropWhile_id)
qed

lemma part_of_ok:
  assumes "key \<in> fst ` set headings" and "strip text \<noteq> [] \<longrightarrow> calm (strip text)"
  shows "\<forall>p \<in> set (part_of key text). part_ok p"
  using assms strip_is_visible by (auto simp: part_of_def part_ok_def)

subsection \<open>Lists of lines\<close>

definition quiet_line :: "string \<Rightarrow> bool" where
  "quiet_line l = (one_line l \<and> match_fence l = None \<and> opens l = None)"

lemma split_on_join: "ls \<noteq> [] \<Longrightarrow> \<forall>l \<in> set ls. c \<notin> set l \<Longrightarrow> split_on c (join [c] ls) = ls"
  by (induction "[c]" ls rule: join.induct) (simp_all add: split_on_one split_on_append)

lemma fence_run_quiet: "\<forall>l \<in> set ls. quiet_line l \<Longrightarrow> fence_run None ls = Some None"
  by (induction ls) (simp_all add: quiet_line_def)

lemma no_cr_join:
  assumes "\<forall>l \<in> set ls. one_line l"
  shows "carriage_return \<notin> set (join [newline] ls)"
proof -
  have "carriage_return \<noteq> newline" by (simp add: carriage_return_def newline_def)
  then show ?thesis using set_join[of "[newline]" ls] one_line_chars assms by fastforce
qed

lemma calm_join:
  assumes "ls \<noteq> []" and "\<forall>l \<in> set ls. quiet_line l"
  shows "calm (join [newline] ls)"
  using assms no_cr_join[of ls] one_line_chars fence_run_quiet[of ls]
  by (simp add: calm_def split_on_join quiet_line_def)

lemma visible_join:
  assumes "ls \<noteq> []" and "\<forall>l \<in> set ls. visible l"
  shows "visible (join [newline] ls)"
  using assms
proof (induction "[newline]" ls rule: join.induct)
  case (3 x y zs)
  then have "visible (join [newline] (y # zs))" by simp
  with 3 show ?case by (auto simp: visible_def)
qed simp_all

definition bullet :: "string \<Rightarrow> bool" where
  "bullet l = (\<exists>x. l = ''- '' @ x \<and> visible x \<and> one_line x)"

lemma bullet_line:
  assumes "bullet l"
  shows "visible l" "quiet_line l"
proof -
  obtain x where x: "l = ''- '' @ x" "visible x" "one_line x" using assms by (auto simp: bullet_def)
  then show "visible l" by (simp add: visible_def is_space_def)
  have "match_fence l = None" "opens l = None" unfolding x(1)
    by (simp_all add: match_fence_def backtick_def opens_def match_heading_def starts_with_def lstrip_by_def is_space_def)
  moreover have "one_line l" using x(1,3) by (auto simp: one_line_def is_line_break_def)
  ultimately show "quiet_line l" by (simp add: quiet_line_def)
qed

lemma bullets_calm:
  assumes "\<forall>l \<in> set ls. bullet l"
  shows "strip (join [newline] ls) = join [newline] ls"
    "strip (join [newline] ls) \<noteq> [] \<longrightarrow> calm (strip (join [newline] ls))"
proof -
  show s: "strip (join [newline] ls) = join [newline] ls"
    using assms bullet_line(1) visible_join strip_visible
    by (cases "ls = []") (auto simp: strip_by_def lstrip_by_def rstrip_by_def)
  show "strip (join [newline] ls) \<noteq> [] \<longrightarrow> calm (strip (join [newline] ls))"
    using assms bullet_line(2) calm_join s by (cases "ls = []") auto
qed

subsection \<open>The fence\<close>

lemma tick_runs_head: "n + m > 0 \<Longrightarrow> \<exists>k \<in> set (tick_runs n (replicate m backtick @ b)). k \<ge> n + m"
proof (induction m arbitrary: n)
  case 0
  then show ?case
  proof (induction b arbitrary: n)
    case (Cons c b)
    show ?case
    proof (cases "c = backtick")
      case True
      then show ?thesis using Cons.IH[of "Suc n"] by (auto dest: Suc_leD)
    qed (use Cons.prems in simp)
  qed simp
next
  case (Suc m)
  from Suc.IH[of "Suc n"] show ?case by simp
qed

lemma tick_runs_found: "m > 0 \<Longrightarrow> \<exists>k \<in> set (tick_runs n (a @ replicate m backtick @ b)). k \<ge> m"
proof (induction a arbitrary: n)
  case Nil
  then show ?case using tick_runs_head[of n m b] by (auto dest: add_leD2)
next
  case (Cons c a)
  then show ?case by (auto split: if_splits)
qed

lemma fold_max_ge: "(x::nat) \<in> set xs \<Longrightarrow> x \<le> fold max xs y"
  by (metis List.finite_set Max.set_eq_fold Max_ge finite_insert insertI2 list.simps(15))

lemma closes_only_fence:
  assumes "l \<in> set lines"
  shows "\<not> closes l (fence_of lines)"
proof
  let ?s = "strip l"
  assume c: "closes l (fence_of lines)"
  then have "list_all (\<lambda>c. c = backtick) ?s" "length ?s \<ge> length (fence_of lines)" "?s \<noteq> []"
    by (auto simp: closes_def Let_def fence_of_def)
  then have s: "?s = replicate (length ?s) backtick" by (simp add: list_all_iff replicate_length_same)
  obtain x y where "l = x @ ?s @ y" using strip_middle by blast
  then obtain k where k: "k \<in> set (tick_runs 0 l)" "k \<ge> length ?s"
    using tick_runs_found[of "length ?s" 0 x y] s \<open>?s \<noteq> []\<close> by (metis length_greater_0_conv)
  then have "k \<in> set (concat (map (tick_runs 0) lines))" using assms by auto
  from fold_max_ge[OF this, of 0] k(2) \<open>length ?s \<ge> length (fence_of lines)\<close> show False
    by (simp add: fence_of_def)
qed

lemma fence_line:
  "match_fence (fence_of lines) = Some (fence_of lines)" "closes (fence_of lines) (fence_of lines)"
  "visible (fence_of lines)" "one_line (fence_of lines)"
proof -
  obtain k where k: "fence_of lines = replicate k backtick" "k \<ge> 3"
    using that[of "max 3 (fold max (concat (map (tick_runs 0) lines)) 0 + 1)"] by (simp only: fence_of_def)
  have b: "backtick \<noteq> CHR '' ''" "\<not> is_space backtick" "\<not> is_line_break backtick"
    by (simp_all add: backtick_def is_space_def is_line_break_def)
  show v: "visible (fence_of lines)" using k b by (auto simp: visible_def)
  have "dropWhile (\<lambda>c. c = CHR '' '') (replicate k backtick) = replicate k backtick" using b by (cases k) simp_all
  then show "match_fence (fence_of lines) = Some (fence_of lines)" using k by (simp add: match_fence_def)
  show "closes (fence_of lines) (fence_of lines)"
    using strip_visible[OF v] k by (auto simp: closes_def list_all_iff Let_def)
  show "one_line (fence_of lines)" using k b by (simp add: one_line_def)
qed

lemma fence_run_inside: "\<forall>l \<in> set ls. \<not> closes l f \<Longrightarrow> fence_run (Some f) ls = Some (Some f)"
  by (induction ls) simp_all

lemma fence_calm:
  assumes "\<forall>l \<in> set lines. one_line l"
  shows "calm (fence lines)" "strip (fence lines) = fence lines" "fence lines \<noteq> []"
proof -
  let ?f = "fence_of lines" and ?ls = "fence_of lines # lines @ [fence_of lines]"
  have one: "\<forall>l \<in> set ?ls. one_line l" using assms fence_line(4) by auto
  have "split_on newline (fence lines) = ?ls"
    unfolding fence_def using one one_line_chars by (intro split_on_join) auto
  moreover have "fence_run None ?ls = Some None"
    using fence_line(1,2) closes_only_fence fence_run_inside[of lines ?f] by (simp add: fence_run_append)
  ultimately show "calm (fence lines)" using no_cr_join[OF one] by (simp add: calm_def fence_def)
  have "fence lines = ?f @ [newline] @ join [newline] lines @ (if lines = [] then [] else [newline]) @ ?f"
    by (simp add: fence_def join_Cons join_append)
  then have "visible (fence lines)" using fence_line(3)[of lines] by (auto simp: visible_def)
  then show "strip (fence lines) = fence lines" "fence lines \<noteq> []" using strip_visible by (auto simp: visible_def)
qed

section \<open>A node that reads back\<close>

text \<open>Free text reads back when its lines neither end the section nor leave a fence open; criteria,
  commands, profile, and the dependencies' ids and repositories have to be single lines.\<close>

definition text_ok :: "string \<Rightarrow> bool" where
  "text_ok t = (strip t = [] \<or> calm (strip t))"

definition dependency_ok :: "references \<Rightarrow> ident \<Rightarrow> bool" where
  "dependency_ok known dep = (one_line dep \<and> (case map_of known dep of None \<Rightarrow> True
     | Some (repo, f) \<Rightarrow> one_line repo \<and> repo \<noteq> [] \<and> is_word (hd repo)))"

definition readable :: "plan_node \<Rightarrow> references \<Rightarrow> bool" where
  "readable n known = (id_ok (n_plan_id n) \<and> id_ok (n_id n)
     \<and> text_ok (n_goal n) \<and> text_ok (n_context n) \<and> text_ok (n_non_goals n) \<and> text_ok (n_constraints n)
     \<and> list_all one_line (n_acceptance_criteria n) \<and> list_all one_line (n_verify_commands n)
     \<and> list_all (dependency_ok known) (n_depends_on n)
     \<and> (case n_workload_profile n of None \<Rightarrow> True | Some w \<Rightarrow> one_line w))"

lemma strip_subset: "set (strip t) \<subseteq> set t"
  using strip_middle[of t] by (metis set_append Un_upper1 Un_upper2 subset_trans)

lemma criterion_bullet:
  assumes "one_line c" and "strip c \<noteq> []"
  shows "bullet (''- [ ] '' @ strip c)"
proof -
  have "visible (''[ ] '' @ strip c)" using strip_is_visible[OF assms(2)] by (simp add: visible_def is_space_def)
  moreover have "one_line (''[ ] '' @ strip c)"
    using assms(1) strip_subset[of c] by (auto simp: one_line_def is_line_break_def)
  ultimately show ?thesis unfolding bullet_def by (intro exI[of _ "''[ ] '' @ strip c"]) simp
qed

lemma digit_chars: "n < 10 \<Longrightarrow> is_decimal (digit_char n)"
  by (simp add: digit_char_def is_decimal_def)

lemma decimal_plain: "is_decimal c \<Longrightarrow> \<not> is_space c \<and> \<not> is_line_break c"
  by (auto simp: is_decimal_def is_space_def is_line_break_def)

lemma nat_str_digits: "nat_str n \<noteq> [] \<and> (\<forall>c \<in> set (nat_str n). is_decimal c)"
proof (induction n rule: nat_str.induct)
  case (1 n)
  show ?case
  proof (cases "n < 10")
    case True
    then show ?thesis by (simp add: nat_str.simps[of n] digit_chars)
  next
    case False
    with 1 show ?thesis by (subst (1 2) nat_str.simps) (auto simp: digit_chars)
  qed
qed

lemma int_str_plain: "int_str z \<noteq> [] \<and> (\<forall>c \<in> set (int_str z). \<not> is_space c \<and> \<not> is_line_break c)"
  using nat_str_digits decimal_plain
  by (auto simp: int_str_def is_space_def is_line_break_def)

lemma reference_visible:
  assumes "one_line repo" and "repo \<noteq> []" and "is_word (hd repo)"
  shows "visible (issue_reference from repo z) \<and> one_line (issue_reference from repo z)
    \<and> hd (issue_reference from repo z) \<noteq> CHR ''[''"
proof -
  have "\<not> is_word (CHR ''['')" by (simp add: is_word_def is_decimal_def is_upper_ascii_def)
  then have "hd repo \<noteq> CHR ''[''" using assms(3) by metis
  moreover have "\<not> is_space (hd repo)" using assms(3) id_not_space[of "hd repo"] by (simp add: is_id_char_def)
  note w = this calculation
  have "\<not> is_space (last (int_str z))" using int_str_plain[of z] by simp
  then show ?thesis
    using int_str_plain[of z] assms(1,2) w
    by (auto simp: issue_reference_def visible_def one_line_def is_space_def is_line_break_def)
qed

lemma dependency_bullet:
  assumes "dependency_ok known dep"
  obtains x where "dependency_line n known dep = ''- '' @ x" "visible x" "one_line x" "hd x \<noteq> CHR ''[''"
proof (cases "map_of known dep")
  case None
  have "\<not> is_space backtick" "\<not> is_line_break backtick" "backtick \<noteq> CHR ''[''"
    by (simp_all add: backtick_def is_space_def is_line_break_def)
  then show thesis using None assms that[of "[backtick] @ dep @ [backtick]"]
    by (simp add: dependency_line_def dependency_ok_def visible_def one_line_def)
next
  case (Some rf)
  then obtain repo f where "rf = (repo, f)" by (cases rf)
  with Some assms that[of "issue_reference (n_repository n) repo (f_number f)"] reference_visible[of repo "n_repository n" "f_number f"]
  show thesis by (simp add: dependency_line_def dependency_ok_def)
qed

lemma dependency_is_bullet: "dependency_ok known dep \<Longrightarrow> bullet (dependency_line n known dep)"
  unfolding bullet_def by (rule dependency_bullet) auto

lemma kind_quiet:
  assumes "case n_workload_profile n of None \<Rightarrow> True | Some w \<Rightarrow> one_line w"
  shows "kind_text n = [] \<or> visible (kind_text n) \<and> quiet_line (kind_text n)"
proof (cases "kind_text n = []")
  case False
  then obtain k where k: "n_kind n = Some k" "n_level n = Task" by (auto simp: kind_text_def split: option.splits if_splits)
  define tail where "tail = (case n_workload_profile n of None \<Rightarrow> []
         | Some w \<Rightarrow> if k = WorkloadTask \<and> w \<noteq> [] then '' (workload profile '' @ [backtick] @ w @ [backtick] @ '')'' else [])"
  have t: "kind_text n = kind_name k @ tail" using k by (simp add: kind_text_def tail_def)
  have "one_line tail" using assms unfolding tail_def
    by (auto simp: one_line_def is_line_break_def backtick_def split: option.splits)
  moreover have "tail = [] \<or> last tail = CHR '')''" unfolding tail_def by (auto split: option.splits)
  ultimately show ?thesis unfolding t
    by (cases k) (auto simp: visible_def quiet_line_def one_line_def is_space_def is_line_break_def match_fence_def
        backtick_def opens_def match_heading_def starts_with_def lstrip_by_def)
qed simp

lemma quiet_calm: "quiet_line l \<Longrightarrow> calm l"
  using calm_join[of "[l]"] by simp

lemma parts_ok:
  assumes "readable n known"
  shows "\<forall>p \<in> set (section_parts n known). part_ok p"
proof -
  have crit: "\<forall>l \<in> set (map (\<lambda>c. ''- [ ] '' @ c) (criteria_of n)). bullet l"
    using assms criterion_bullet by (auto simp: criteria_of_def readable_def list_all_iff)
  have deps: "\<forall>l \<in> set (map (dependency_line n known) (n_depends_on n)). bullet l"
    using assms dependency_is_bullet by (auto simp: readable_def list_all_iff)
  have cmds: "\<forall>l \<in> set (commands_of n). one_line l" using assms by (auto simp: commands_of_def readable_def list_all_iff)
  have kind: "strip (kind_text n) \<noteq> [] \<longrightarrow> calm (strip (kind_text n))"
    using kind_quiet[of n] assms quiet_calm strip_visible
    by (auto simp: readable_def strip_by_def lstrip_by_def rstrip_by_def)
  have texts: "\<forall>p \<in> set (part_of ''goal'' (n_goal n)). part_ok p" "\<forall>p \<in> set (part_of ''context'' (n_context n)). part_ok p"
    "\<forall>p \<in> set (part_of ''non_goals'' (n_non_goals n)). part_ok p" "\<forall>p \<in> set (part_of ''constraints'' (n_constraints n)). part_ok p"
    using assms by (intro part_of_ok; simp add: headings_def readable_def text_ok_def; blast)+
  have lists: "\<forall>p \<in> set (part_of ''acceptance_criteria'' (join [newline] (map (\<lambda>c. ''- [ ] '' @ c) (criteria_of n)))). part_ok p"
    "\<forall>p \<in> set (part_of ''depends_on'' (join [newline] (map (dependency_line n known) (n_depends_on n)))). part_ok p"
    using bullets_calm(2)[OF crit] bullets_calm(2)[OF deps] by (intro part_of_ok; simp add: headings_def)+
  have "\<forall>p \<in> set (part_of ''kind'' (kind_text n)). part_ok p"
    "\<forall>p \<in> set (part_of ''verify_commands'' (fence (commands_of n))). part_ok p"
    using kind fence_calm[OF cmds] by (intro part_of_ok; simp add: headings_def)+
  with texts lists show ?thesis
    unfolding section_parts_def set_append ball_Un by (cases "commands_of n = []") (simp_all only: if_True if_False list.set ball_empty simp_thms)
qed

lemma items_lines:
  assumes "\<forall>l \<in> set ls. one_line l \<and> visible l \<and> match_item l = Some (f l) \<and> visible (f l)"
  shows "items (join [newline] ls) = map f ls"
proof -
  have "foldl item_line acc ls = acc @ map f ls" for acc
    using assms by (induction ls arbitrary: acc) (simp_all add: item_line_def visible_not_blank strip_visible)
  moreover have "splitlines (join [newline] ls) = ls"
    using assms by (intro splitlines_join) (auto simp: visible_def)
  moreover have "filter (\<lambda>i. i \<noteq> []) (map f ls) = map f ls"
    using assms by (auto simp: filter_id_conv visible_def)
  ultimately show ?thesis by (simp add: items_def)
qed

lemma not_tab: "\<not> is_space c \<Longrightarrow> \<not> tab_or_space c"
  by (auto simp: tab_or_space_def is_space_def)

lemma item_bullet:
  assumes "visible x" and "hd x \<noteq> CHR ''[''"
  shows "match_item (''- '' @ x) = Some x"
proof -
  obtain c t where x: "x = c # t" "\<not> is_space c" "c \<noteq> CHR ''[''" using assms by (cases x) (auto simp: visible_def)
  have "\<not> is_space (CHR ''-'')" "tab_or_space (CHR '' '')" by (simp_all add: is_space_def tab_or_space_def)
  with x not_tab[OF x(2)] show ?thesis by (simp add: match_item_def starts_with_def)
qed

lemma item_criterion:
  assumes "visible c"
  shows "match_item (''- [ ] '' @ c) = Some c"
proof -
  obtain x t where c: "c = x # t" "\<not> is_space x" using assms by (cases c) (auto simp: visible_def)
  have "\<not> is_space (CHR ''-'')" "tab_or_space (CHR '' '')" "\<not> tab_or_space (CHR ''['')"
    by (simp_all add: is_space_def tab_or_space_def)
  with c not_tab[OF c(2)] show ?thesis by (simp add: match_item_def starts_with_def)
qed

lemma items_criteria:
  assumes "\<forall>c \<in> set cs. one_line c \<and> visible c"
  shows "items (join [newline] (map (\<lambda>c. ''- [ ] '' @ c) cs)) = cs"
proof -
  have "items (join [newline] (map (\<lambda>c. ''- [ ] '' @ c) cs)) = map (drop 6) (map (\<lambda>c. ''- [ ] '' @ c) cs)"
  proof (rule items_lines, rule ballI)
    fix l assume "l \<in> set (map (\<lambda>c. ''- [ ] '' @ c) cs)"
    then obtain c where c: "l = ''- [ ] '' @ c" "one_line c" "visible c" using assms by auto
    then have "bullet l" by (auto simp: bullet_def visible_def one_line_def is_line_break_def is_space_def)
    with c item_criterion[OF c(3)] bullet_line show "one_line l \<and> visible l \<and> match_item l = Some (drop 6 l) \<and> visible (drop 6 l)"
      by (simp add: quiet_line_def)
  qed
  then show ?thesis by (simp add: comp_def)
qed

lemma items_dependencies:
  assumes "list_all (dependency_ok known) deps"
  shows "items (join [newline] (map (dependency_line n known) deps)) = map (drop 2 \<circ> dependency_line n known) deps"
proof -
  have "items (join [newline] (map (dependency_line n known) deps)) = map (drop 2) (map (dependency_line n known) deps)"
  proof (rule items_lines, rule ballI)
    fix l assume "l \<in> set (map (dependency_line n known) deps)"
    then obtain dep where d: "l = dependency_line n known dep" "dependency_ok known dep"
      using assms by (auto simp: list_all_iff)
    obtain x where x: "l = ''- '' @ x" "visible x" "one_line x" "hd x \<noteq> CHR ''[''"
      using dependency_bullet[OF d(2), of n] d(1) by metis
    have "one_line l \<and> visible l" using dependency_is_bullet[OF d(2)] bullet_line d(1) by (simp add: quiet_line_def)
    with item_bullet[OF x(2,4)] x(1,2) show "one_line l \<and> visible l \<and> match_item l = Some (drop 2 l) \<and> visible (drop 2 l)"
      by simp
  qed
  then show ?thesis by simp
qed

lemma commands_fence:
  assumes "\<forall>l \<in> set cmds. one_line l \<and> \<not> blank l"
  shows "commands_in (fence cmds) = cmds"
proof -
  have "splitlines (fence cmds) = fence_of cmds # cmds @ [fence_of cmds]"
    unfolding fence_def using assms fence_line(3,4)[of cmds]
    by (intro splitlines_join) (auto simp: visible_def blank_def strip_by_def lstrip_by_def rstrip_by_def)
  moreover have "takeWhile (\<lambda>l. \<not> closes l (fence_of cmds)) (cmds @ [fence_of cmds]) = cmds"
    using closes_only_fence[of _ cmds] fence_line(2)[of cmds] by (simp add: takeWhile_append)
  ultimately show ?thesis using assms fence_line(1)[of cmds] by (simp add: commands_in_def Let_def filter_id_conv)
qed

section \<open>The round trip\<close>

definition words :: "string \<Rightarrow> string \<Rightarrow> (string \<times> section_value) list" where
  "words key text = (if strip text = [] then [] else [(key, Words (strip text))])"

definition entries :: "string \<Rightarrow> string list \<Rightarrow> (string \<times> section_value) list" where
  "entries key xs = (if xs = [] then [] else [(key, Entries xs)])"

text \<open>The sections a node's body is read as.\<close>

definition node_sections :: "plan_node \<Rightarrow> references \<Rightarrow> (string \<times> section_value) list" where
  "node_sections n known =
     words ''goal'' (n_goal n) @ words ''context'' (n_context n)
     @ entries ''acceptance_criteria'' (filter (\<lambda>c. c \<noteq> []) (map strip (n_acceptance_criteria n)))
     @ words ''kind'' (kind_text n)
     @ entries ''verify_commands'' (filter (\<lambda>c. \<not> blank c) (n_verify_commands n))
     @ entries ''depends_on'' (map (drop 2 \<circ> dependency_line n known) (n_depends_on n))
     @ words ''non_goals'' (n_non_goals n) @ words ''constraints'' (n_constraints n)"

definition read_part_value :: "string \<times> string \<Rightarrow> string \<times> section_value" where
  "read_part_value = (\<lambda>(key, text). (key,
     if key = ''verify_commands'' then Entries (commands_in text)
     else if key \<in> set list_sections then Entries (items text) else Words text))"

lemma read_words:
  "map read_part_value (part_of ''goal'' t) = words ''goal'' t" "map read_part_value (part_of ''context'' t) = words ''context'' t"
  "map read_part_value (part_of ''kind'' t) = words ''kind'' t" "map read_part_value (part_of ''non_goals'' t) = words ''non_goals'' t"
  "map read_part_value (part_of ''constraints'' t) = words ''constraints'' t"
  by (simp_all add: read_part_value_def part_of_def words_def list_sections_def)

lemma read_entries:
  assumes "\<forall>l \<in> set ls. bullet l" and "items (join [newline] ls) = xs" and "length xs = length ls"
    and "key = ''acceptance_criteria'' \<or> key = ''depends_on''"
  shows "map read_part_value (part_of key (join [newline] ls)) = entries key xs"
proof (cases "ls = []")
  case True
  then show ?thesis using assms(3) by (simp add: part_of_def entries_def strip_by_def lstrip_by_def rstrip_by_def)
next
  case False
  then have "join [newline] ls \<noteq> []" using visible_join assms(1) bullet_line(1) by (metis visible_def)
  moreover have "xs \<noteq> []" using False assms(3) by auto
  ultimately show ?thesis using assms(2,4) bullets_calm(1)[OF assms(1)]
    by (auto simp: part_of_def entries_def read_part_value_def list_sections_def)
qed

lemma rendered_reads_back:
  assumes "readable n known"
  shows "parse_sections (render_body n known) = node_sections n known"
proof -
  have ids: "id_ok (n_plan_id n)" "id_ok (n_id n)" using assms by (simp_all add: readable_def)
  have texts: "section_texts (render_body n known) = section_parts n known"
    unfolding render_parts by (rule read_rendered[OF parts_ok[OF assms] distinct_section_parts ids])
  have cs: "\<forall>c \<in> set (criteria_of n). one_line c \<and> visible c"
    using assms strip_subset strip_is_visible by (fastforce simp: criteria_of_def readable_def list_all_iff one_line_def)
  have cb: "\<forall>l \<in> set (map (\<lambda>c. ''- [ ] '' @ c) (criteria_of n)). bullet l"
    using cs by (auto simp: bullet_def visible_def one_line_def is_line_break_def is_space_def)
  have ds: "list_all (dependency_ok known) (n_depends_on n)" using assms by (simp add: readable_def)
  have db: "\<forall>l \<in> set (map (dependency_line n known) (n_depends_on n)). bullet l"
    using ds dependency_is_bullet by (auto simp: list_all_iff)
  have ms: "\<forall>l \<in> set (commands_of n). one_line l \<and> \<not> blank l"
    using assms by (auto simp: commands_of_def readable_def list_all_iff)
  have v: "map read_part_value (if commands_of n = [] then [] else part_of ''verify_commands'' (fence (commands_of n)))
      = entries ''verify_commands'' (commands_of n)"
    using fence_calm(2,3)[of "commands_of n"] ms commands_fence[OF ms]
    by (simp add: part_of_def entries_def read_part_value_def)
  have c: "map read_part_value (part_of ''acceptance_criteria'' (join [newline] (map (\<lambda>c. ''- [ ] '' @ c) (criteria_of n))))
      = entries ''acceptance_criteria'' (criteria_of n)"
    by (rule read_entries[OF cb items_criteria[OF cs]]) simp_all
  have d: "map read_part_value (part_of ''depends_on'' (join [newline] (map (dependency_line n known) (n_depends_on n))))
      = entries ''depends_on'' (map (drop 2 \<circ> dependency_line n known) (n_depends_on n))"
    by (rule read_entries[OF db items_dependencies[OF ds]]) simp_all
  show ?thesis
    unfolding parse_sections_def texts read_part_value_def[symmetric] section_parts_def node_sections_def map_append
      read_words c d v criteria_of_def[symmetric] commands_of_def[symmetric] ..
qed

end
