(* ===== verification/PublishFacts.thy ===== *)
theory PublishFacts
  imports Publish ForgeFacts RenderFacts
begin

text \<open>
  What publishing a level keeps and does: the database stays well formed whatever the forge
  answers and other writers do, the level is walked in dependency order, an issue created is found
  by its marker afterwards, and the nodes published are exactly the ones recorded.
\<close>

section \<open>The database stays well formed\<close>

lemma same_shape_record:
  "same_shape (n\<lparr>n_state := st, n_forge := f, n_published_by := b, n_updated_at := t\<rparr>) n"
  by (simp add: same_shape_def)

interpretation recording: node_patch "publish_node node_id ref actor" for node_id ref actor
proof
  fix now c x
  show "publish_node node_id ref actor None now \<noteq> Write c x" by (simp add: publish_node_def)
next
  fix p now c x
  assume "publish_node node_id ref actor (Some p) now = Write c x"
  then obtain n where n: "plan_node_of p node_id = Some n"
      "c = no_change\<lparr>ch_upsert := [n\<lparr>n_state := Published, n_forge := Some ref, n_published_by := actor_id actor, n_updated_at := now\<rparr>],
        ch_events := [published_event (p_id p) node_id ''published'' (f_number ref)], ch_actor := actor\<rparr>"
    by (auto simp: publish_node_def split: option.splits)
  moreover have "n \<in> set (p_nodes p)" using n(1) plan_node_of_SomeD by blast
  ultimately show "\<exists>n \<in> set (p_nodes p). \<exists>u. patches c n u"
    by (intro bexI[of _ n] exI) (auto simp: patches_def same_shape_record no_change_def node_ok_def storable_def)
qed

lemma keeps_at_site: "keeps P m \<Longrightarrow> keeps (\<lambda>sw. P (fst sw)) (at_site m)"
  by (auto simp: keeps_def at_site_def split: prod.splits)

lemma keeps_set_walk [keeps_intros]: "keeps (\<lambda>sw. P (fst sw)) (set_walk g)"
  by (simp add: keeps_def set_walk_def)

lemma keeps_with_walk [keeps_intros]: "(\<And>w. keeps P (k w)) \<Longrightarrow> keeps P (with_walk k)"
  by (simp add: keeps_def with_walk_def)

abbreviation walk_wf :: "'f walking \<Rightarrow> bool" where
  "walk_wf sw \<equiv> db_wf (st_db (fst sw))"

lemma keeps_hierarchy:
  "keeps P a \<Longrightarrow> keeps P b \<Longrightarrow> keeps P c \<Longrightarrow> keeps P (case h of Native \<Rightarrow> a | ChecklistBlock \<Rightarrow> b | Unsupported \<Rightarrow> c)"
  by (cases h) simp_all

lemma keeps_list: "keeps P m \<Longrightarrow> (\<And>x xs. keeps P (k x xs)) \<Longrightarrow> keeps P (case l of [] \<Rightarrow> m | x # xs \<Rightarrow> k x xs)"
  by (cases l) simp_all

text \<open>Any property of the database: only the record of a node can change it.\<close>

lemmas keeps_site = keeps_at_site[where P = "\<lambda>s. P (st_db s)" for P]

lemma keeps_call [keeps_intros]: "keeps (\<lambda>sw. P (st_db (fst sw))) (at_site (on_forge c))"
  by (rule keeps_site[OF keeps_on_forge])

lemma keeps_list_it [keeps_intros]:
  "keeps (\<lambda>sw. P (st_db (fst sw))) (at_site (update_checklist ops repo number change))"
  by (rule keeps_site[OF keeps_update_checklist])

lemma read_pages_keeps: "keeps (\<lambda>s. P (st_db s)) (read_pages k ops plan_id repo label page found)"
  by (induction k arbitrary: page found) (simp_all add: keeps_intros Let_def)

lemma walk_label_keeps: "keeps (\<lambda>sw. P (st_db (fst sw))) (walk_label su cfg n)"
  unfolding walk_label_def by (intro keeps_intros)

lemma walk_issue_keeps: "keeps (\<lambda>sw. P (st_db (fst sw))) (walk_issue su cfg plan_id n)"
  unfolding walk_issue_def marked_issues_def
  by (intro keeps_intros walk_label_keeps keeps_site[OF read_pages_keeps])

lemma walk_link_keeps: "keeps (\<lambda>sw. P (st_db (fst sw))) (walk_link su cfg n ref)"
  unfolding walk_link_def walk_sub_issue_def Let_def by (intro keeps_intros keeps_hierarchy)

lemma walk_record_keeps:
  assumes "well_behaved (su_others su)"
  shows "keeps (\<lambda>s. db_wf (st_db s)) (walk_record su plan_id actor node_id ref)"
  using recording.retry_keeps_wf[OF assms, of plan_id node_id ref actor]
  unfolding keeps_def walk_record_def by (auto split: prod.splits sum.splits attempt_error.splits)

lemma walk_publish_keeps:
  assumes "well_behaved (su_others su)"
  shows "keeps walk_wf (walk_publish su cfg plan_id actor n blocked)"
  unfolding walk_publish_def
  by (intro keeps_intros keeps_list walk_issue_keeps walk_link_keeps keeps_site[where P = db_wf] walk_record_keeps assms)

lemma walk_level_keeps:
  assumes "well_behaved (su_others su)"
  shows "keeps walk_wf (walk_level su cfg plan_id actor blocked ns)"
  by (induction ns arbitrary: blocked) (simp_all add: keeps_ret keeps_andthen walk_publish_keeps[OF assms])

lemma publish_level_keeps:
  assumes "well_behaved (su_others su)"
  shows "keeps (\<lambda>s. db_wf (st_db s)) (publish_level su cfg p node_id actor only)"
  using walk_level_keeps[OF assms, of cfg "p_id p" actor "[]" "level_targets p node_id only"]
  unfolding keeps_def publish_level_def by (auto split: prod.splits sum.splits) (metis fst_conv snd_conv)+

section \<open>The order of a level\<close>

lemma order_level_set: "set (order_level waiting cs) = set cs \<and> length (order_level waiting cs) = length cs
    \<and> (distinct (map n_id cs) \<longrightarrow> distinct (map n_id (order_level waiting cs)))"
proof (induction waiting cs rule: order_level.induct)
  case (2 waiting c cs)
  define r where "r = (case find (\<lambda>x. \<not> list_ex (\<lambda>d. d \<in> set waiting) (n_depends_on x)) (c # cs) of Some r \<Rightarrow> r | None \<Rightarrow> c)"
  have r: "r \<in> set (c # cs)" unfolding r_def by (rule chosen_in)
  have o: "order_level waiting (c # cs) = r # order_level (filter (\<lambda>i. i \<noteq> n_id r) waiting) (remove1 r (c # cs))"
    by (simp add: r_def Let_def)
  note ih = 2[OF r_def]
  have p: "mset (r # remove1 r (c # cs)) = mset (c # cs)"
    using insert_DiffM[of r "mset (c # cs)"] r by (simp only: mset_remove1 set_mset_mset mset.simps(2)[of r])
  then have "set (r # remove1 r (c # cs)) = set (c # cs)" "length (r # remove1 r (c # cs)) = length (c # cs)"
    using mset_eq_setD mset_eq_length by blast+
  moreover have "distinct (map n_id (c # cs)) \<longleftrightarrow> distinct (map n_id (r # remove1 r (c # cs)))"
    using p by (metis mset_map mset_eq_imp_distinct_iff)
  ultimately show ?case unfolding o using ih by auto
qed simp

lemma distinct_map_remove1_filter:
  "distinct (map f xs) \<Longrightarrow> r \<in> set xs \<Longrightarrow> filter (\<lambda>i. i \<noteq> f r) (map f xs) = map f (remove1 r xs)"
proof (induction xs)
  case (Cons x xs)
  show ?case
  proof (cases "x = r")
    case True
    then have "\<forall>i \<in> set xs. f i \<noteq> f r" using Cons.prems(1) by (metis distinct.simps(2) image_eqI list.set_map list.simps(9))
    then show ?thesis using True by (simp add: filter_id_conv)
  next
    case False
    with Cons have "f x \<noteq> f r" by auto
    with Cons False show ?thesis by simp
  qed
qed simp

lemma order_level_order:
  assumes "waiting = map n_id cs" and "distinct (map n_id cs)"
    and "acyclic {(n_id x, d) | x d. x \<in> set cs \<and> d \<in> set (n_depends_on x)}"
  shows "sorted_wrt (\<lambda>a b. n_id b \<notin> set (n_depends_on a)) (order_level waiting cs)"
  using assms
proof (induction waiting cs rule: order_level.induct)
  case (2 waiting c cs)
  let ?E = "{(n_id x, d) | x d. x \<in> set (c # cs) \<and> d \<in> set (n_depends_on x)}"
  define r where "r = (case find (\<lambda>x. \<not> list_ex (\<lambda>d. d \<in> set waiting) (n_depends_on x)) (c # cs) of Some r \<Rightarrow> r | None \<Rightarrow> c)"
  have r: "r \<in> set (c # cs)" unfolding r_def by (rule chosen_in)
  have "finite ?E" by (rule finite_subset[of _ "\<Union>x \<in> set (c # cs). Pair (n_id x) ` set (n_depends_on x)"]) auto
  then have "wf (?E\<inverse>)" using 2(4) by (simp add: finite_acyclic_wf_converse)
  then obtain z where z: "z \<in> n_id ` set (c # cs)" "\<And>y. (y, z) \<in> ?E\<inverse> \<Longrightarrow> y \<notin> n_id ` set (c # cs)"
    using wfE_min[of "?E\<inverse>" "n_id c" "n_id ` set (c # cs)"] by auto
  then obtain x where x: "x \<in> set (c # cs)" "z = n_id x" by auto
  then have free: "\<not> list_ex (\<lambda>d. d \<in> set waiting) (n_depends_on x)"
    using z(2) 2(2) by (auto simp: list_ex_iff)
  then obtain y where y: "find (\<lambda>x. \<not> list_ex (\<lambda>d. d \<in> set waiting) (n_depends_on x)) (c # cs) = Some y"
    using x(1) find_None_iff[of "\<lambda>x. \<not> list_ex (\<lambda>d. d \<in> set waiting) (n_depends_on x)" "c # cs"]
    by (cases "find (\<lambda>x. \<not> list_ex (\<lambda>d. d \<in> set waiting) (n_depends_on x)) (c # cs)") auto
  then have ry: "r = y" unfolding r_def by simp
  have ready: "\<forall>d \<in> set (n_depends_on r). d \<notin> n_id ` set (c # cs)"
    using find_SomeD[OF y] 2(2) unfolding ry by (auto simp: list_ex_iff)
  have o: "order_level waiting (c # cs) = r # order_level (filter (\<lambda>i. i \<noteq> n_id r) waiting) (remove1 r (c # cs))"
    by (simp add: r_def Let_def)
  have dist: "distinct (map n_id (remove1 r (c # cs)))" using 2(3) by (metis distinct_map distinct_remove1 inj_on_subset set_remove1_subset)
  have "filter (\<lambda>i. i \<noteq> n_id r) (map n_id (c # cs)) = map n_id (remove1 r (c # cs))"
    using 2(3) r by (simp only: distinct_map_remove1_filter)
  then have w: "filter (\<lambda>i. i \<noteq> n_id r) waiting = map n_id (remove1 r (c # cs))" unfolding 2(2) .
  have "{(n_id x, d) | x d. x \<in> set (remove1 r (c # cs)) \<and> d \<in> set (n_depends_on x)} \<subseteq> ?E"
    using set_remove1_subset[of r "c # cs"] by fast
  note smaller = acyclic_subset[OF 2(4) this]
  let ?rest = "order_level (filter (\<lambda>i. i \<noteq> n_id r) waiting) (remove1 r (c # cs))"
  from 2(1)[OF r_def w dist smaller]
  have rest: "sorted_wrt (\<lambda>a b. n_id b \<notin> set (n_depends_on a)) ?rest" .
  have "set ?rest \<subseteq> set (c # cs)" using order_level_set set_remove1_subset by fast
  with ready have first: "\<forall>b \<in> set ?rest. n_id b \<notin> set (n_depends_on r)" by (meson imageI subsetD)
  show ?case unfolding o sorted_wrt.simps by (rule conjI[OF first rest])
qed simp

lemma level_targets_shape:
  assumes "wf_plan p" and "plan_node_of p i = Some n"
  shows "set (level_targets p i only) = (if n_state n = Published then {} else {n})
      \<union> {c \<in> set (p_nodes p). n_parent_id c = Some i \<and> n_state c = Approved \<and> (case only of None \<Rightarrow> True | Some ids \<Rightarrow> n_id c \<in> set ids)}"
    and "distinct (map n_id (level_targets p i only))"
    and "sorted_wrt (\<lambda>a b. n_id b \<notin> set (n_depends_on a) \<and> n_parent_id a \<noteq> Some (n_id b)) (level_targets p i only)"
proof -
  let ?P = "\<lambda>c. n_state c = Approved \<and> (case only of None \<Rightarrow> True | Some ids \<Rightarrow> n_id c \<in> set ids)"
  let ?cs = "filter ?P (children p (n_id n))"
  let ?o = "order_level (map n_id ?cs) ?cs"
  have n: "n \<in> set (p_nodes p)" "n_id n = i" using plan_node_of_SomeD[OF assms(2)] by simp_all
  note wf = wf_planD[OF assms(1)]
  have cs: "set ?cs = {c \<in> set (p_nodes p). n_parent_id c = Some i \<and> ?P c}" using n(2) by (auto simp: in_children)
  have dist: "distinct (map n_id ?cs)"
    using wf(2) by (auto simp: children_def intro!: distinct_map_filterI children_in_distinct)
  have acyc: "acyclic {(n_id x, d) | x d. x \<in> set ?cs \<and> d \<in> set (n_depends_on x)}"
    by (rule acyclic_subset[of "dep_edges (p_nodes p)"]) (use wf(3) cs in \<open>auto simp: deps_ok_def dep_edges_def\<close>)
  note os = order_level_set[of "map n_id ?cs" ?cs]
  have t: "level_targets p i only = (if n_state n = Published then [] else [n]) @ ?o"
    using assms(2) by (simp add: level_targets_def Let_def)
  show "set (level_targets p i only) = (if n_state n = Published then {} else {n}) \<union> {c \<in> set (p_nodes p). n_parent_id c = Some i \<and> ?P c}"
    unfolding t using os cs by auto
  have up: "n_parent_id n \<noteq> Some (n_id c) \<and> n_id n \<noteq> n_id c" if "c \<in> set ?cs" for c
  proof -
    have c: "c \<in> set (p_nodes p)" "n_parent_id c = Some (n_id n)" using that cs n(2) by auto
    have r: "rank (n_level n) = Suc (rank (n_level c))" by (rule child_rank[OF wf(1) n(1) c])
    have "n_parent_id n \<noteq> Some (n_id c)" using child_rank[OF wf(1) c(1) n(1)] r by auto
    moreover have "n_id n \<noteq> n_id c" using same_id_same_node[OF wf(2) n(1) c(1)] r by auto
    ultimately show ?thesis ..
  qed
  have nodeps: "n_id c \<notin> set (n_depends_on n)" if "c \<in> set ?cs" for c
  proof
    assume "n_id c \<in> set (n_depends_on n)"
    moreover have "set (n_depends_on n) \<subseteq> sibling_ids (p_nodes p) n" using wf(3) n(1) by (simp add: deps_ok_def)
    ultimately obtain s where s: "s \<in> set (p_nodes p)" "n_id s = n_id c" "n_parent_id s = n_parent_id n"
      by (auto simp: sibling_ids_def)
    have "c \<in> set (p_nodes p)" "n_parent_id c = Some i" using that n(2) by auto
    then have "s = c" using s(1,2) same_id_same_node[OF wf(2)] by blast
    then show False using s(3) \<open>n_parent_id c = Some i\<close> child_rank[OF wf(1) n(1) n(1)] n(2) by simp
  qed
  show "distinct (map n_id (level_targets p i only))" unfolding t using os dist up by auto
  have "sorted_wrt (\<lambda>a b. n_id b \<notin> set (n_depends_on a)) ?o" by (rule order_level_order[OF refl dist acyc])
  moreover have "n_parent_id a \<noteq> Some (n_id b)" if "a \<in> set ?o" "b \<in> set ?o" for a b
  proof -
    from that os have ab: "a \<in> set ?cs" "b \<in> set ?cs" by auto
    then have "n_parent_id a = Some (n_id n)" using cs n(2) by simp
    then show ?thesis using up[OF ab(2)] by simp
  qed
  ultimately have "sorted_wrt (\<lambda>a b. n_id b \<notin> set (n_depends_on a) \<and> n_parent_id a \<noteq> Some (n_id b)) ?o"
    unfolding sorted_wrt_iff_nth_less by (meson nth_mem order.strict_trans)
  moreover have "\<forall>b \<in> set ?o. n_id b \<notin> set (n_depends_on n) \<and> n_parent_id n \<noteq> Some (n_id b)"
    using os up nodeps by auto
  ultimately show "sorted_wrt (\<lambda>a b. n_id b \<notin> set (n_depends_on a) \<and> n_parent_id a \<noteq> Some (n_id b)) (level_targets p i only)"
    unfolding t by simp
qed

section \<open>The lookup by marker\<close>

text \<open>What the listing of a forge promises: it changes nothing, and an answer is the page asked
  for of the issues carrying the label.\<close>

definition lists_issues :: "'f issue_ops \<Rightarrow> ('f \<Rightarrow> string \<Rightarrow> string \<Rightarrow> issue_row list) \<Rightarrow> bool" where
  "lists_issues ops view = (\<forall>f repo label page.
     snd (issues_list ops repo ''all'' [label] page_size (Suc page) f) = f
     \<and> (\<forall>rows. fst (issues_list ops repo ''all'' [label] page_size (Suc page) f) = Inr rows \<longrightarrow>
          rows = take page_size (drop (page_size * page) (view f repo label))))"

definition answers_listing :: "'f issue_ops \<Rightarrow> 'f \<Rightarrow> bool" where
  "answers_listing ops f = (\<forall>repo label page. \<not> isl (fst (issues_list ops repo ''all'' [label] page_size page f)))"

definition carries :: "ident \<Rightarrow> ident \<Rightarrow> issue_row \<Rightarrow> bool" where
  "carries p n row = (\<not> ir_pull_request row \<and> marked (ir_body row) p n)"

lemma page_answer:
  assumes "lists_issues ops view" and "answers_listing ops (st_forge s)"
  shows "\<exists>rows. on_forge (issues_list ops repo ''all'' [label] page_size (Suc m)) s = (Inr rows, s)
    \<and> rows = take page_size (drop (page_size * m) (view (st_forge s) repo label))"
proof -
  let ?c = "issues_list ops repo ''all'' [label] page_size (Suc m) (st_forge s)"
  obtain rows where "fst ?c = Inr rows" using assms(2) unfolding answers_listing_def by (metis isl_def sum.exhaust)
  moreover have "snd ?c = st_forge s" using assms(1) by (simp add: lists_issues_def)
  ultimately show ?thesis using assms(1) by (cases ?c) (auto simp: on_forge_def lists_issues_def)
qed

lemma read_pages_reads:
  assumes "lists_issues ops view" and "read_pages k ops p repo label (Suc m) found s = (r, s')"
  shows "s' = s \<and> (\<forall>x. r = Inr x \<longrightarrow> x = foldl (read_row p) found (drop (page_size * m) (view (st_forge s) repo label)))"
  using assms(2)
proof (induction k arbitrary: m found s)
  case 0
  then show ?case by (auto simp: raise_def)
next
  case (Suc k)
  let ?c = "issues_list ops repo ''all'' [label] page_size (Suc m) (st_forge s)"
  have same: "snd ?c = st_forge s" using assms(1) by (simp add: lists_issues_def)
  show ?case
  proof (cases "fst ?c")
    case (Inl e)
    then have "on_forge (issues_list ops repo ''all'' [label] page_size (Suc m)) s = (Inl (CallFailed e), s)"
      using same by (cases ?c) (simp add: on_forge_def)
    with Suc.prems show ?thesis by (auto simp: andthen_raise)
  next
    case (Inr rows)
    then have step: "on_forge (issues_list ops repo ''all'' [label] page_size (Suc m)) s = (Inr rows, s)"
      using same by (cases ?c) (simp add: on_forge_def)
    let ?v = "drop (page_size * m) (view (st_forge s) repo label)"
    have rows: "rows = take page_size ?v" using assms(1) Inr by (simp add: lists_issues_def)
    show ?thesis
    proof (cases "length rows < page_size")
      case True
      then have "rows = ?v" using rows by simp
      with Suc.prems True show ?thesis by (auto simp: andthen_step[where m = "on_forge (issues_list ops repo ''all'' [label] page_size (Suc m))", OF step] ret_def Let_def)
    next
      case False
      with Suc.prems have "read_pages k ops p repo label (Suc (Suc m)) (foldl (read_row p) found rows) s = (r, s')"
        by (simp add: andthen_step[where m = "on_forge (issues_list ops repo ''all'' [label] page_size (Suc m))", OF step] Let_def)
      from Suc.IH[OF this] show ?thesis
        using rows append_take_drop_id[of page_size ?v] by (metis drop_drop foldl_append mult_Suc_right add.commute)
    qed
  qed
qed

lemma read_pages_ends:
  assumes "lists_issues ops view" and "answers_listing ops (st_forge s)"
    and "length (view (st_forge s) repo label) < page_size * (m + Suc k)"
  shows "\<exists>x. read_pages (Suc k) ops p repo label (Suc m) found s = (Inr x, s)"
  using assms(3)
proof (induction k arbitrary: m found)
  case (0 m)
  from page_answer[OF assms(1,2), of repo label m] obtain rows where
    r: "on_forge (issues_list ops repo ''all'' [label] page_size (Suc m)) s = (Inr rows, s)"
      "rows = take page_size (drop (page_size * m) (view (st_forge s) repo label))" by blast
  have "length rows < page_size" unfolding r(2) using 0 by (simp add: page_size_def)
  then show ?case
    by (simp add: andthen_step[where m = "on_forge (issues_list ops repo ''all'' [label] page_size (Suc m))", OF r(1)] ret_def Let_def)
next
  case (Suc k m)
  from page_answer[OF assms(1,2), of repo label m] obtain rows where
    r: "on_forge (issues_list ops repo ''all'' [label] page_size (Suc m)) s = (Inr rows, s)" by blast
  note step = andthen_step[where m = "on_forge (issues_list ops repo ''all'' [label] page_size (Suc m))", OF r]
  show ?case
  proof (cases "length rows < page_size")
    case True
    then show ?thesis by (simp add: step ret_def Let_def)
  next
    case False
    have "read_pages (Suc (Suc k)) ops p repo label (Suc m) found s =
        read_pages (Suc k) ops p repo label (Suc (Suc m)) (foldl (read_row p) found rows) s"
      using False by (simp only: read_pages.simps(2)[of "Suc k"] step Let_def if_False)
    moreover have "length (view (st_forge s) repo label) < page_size * (Suc m + Suc k)" using Suc.prems by simp
    ultimately show ?thesis using Suc.IH by metis
  qed
qed

text \<open>What the walk remembers: an issue is found for exactly the nodes whose marker one of the rows
  carries, and it is one of the rows that do.\<close>

lemma set_default_keys: "fst ` set (set_default k v d) = insert k (fst ` set d)"
  by (auto simp: set_default_def)

lemma read_row_keys:
  "fst ` set (read_row p found row) = fst ` set found \<union> {n. carries p n row}"
proof -
  have k: "fst ` set (foldl (\<lambda>acc (q, n). if q = p then set_default n row acc else acc) acc ms)
      = fst ` set acc \<union> {n. (p, n) \<in> set ms}" for acc ms
  proof (induction ms arbitrary: acc)
    case (Cons m ms)
    obtain a b where m: "m = (a, b)" by (cases m)
    show ?case using Cons[of "if a = p then set_default b row acc else acc"] unfolding m
      by (cases "a = p") (auto simp: set_default_keys)
  qed simp
  show ?thesis unfolding read_row_def carries_def marked_def by (simp add: k)
qed

lemma read_rows_keys:
  "fst ` set (foldl (read_row p) found rows) = fst ` set found \<union> {n. \<exists>row \<in> set rows. carries p n row}"
  by (induction rows arbitrary: found) (auto simp: read_row_keys)

lemma read_row_values:
  assumes "(n, r) \<in> set (read_row p found row)"
  shows "(n, r) \<in> set found \<or> r = row \<and> carries p n row"
proof -
  have "(n, r) \<in> set (foldl (\<lambda>acc (q, n). if q = p then set_default n row acc else acc) acc ms) \<Longrightarrow>
      (n, r) \<in> set acc \<or> r = row \<and> (p, n) \<in> set ms" for acc ms
    by (induction ms arbitrary: acc) (force simp: set_default_def split: if_splits)+
  from this[of found "markers (ir_body row)"] assms show ?thesis
    by (auto simp: read_row_def carries_def marked_def split: if_splits)
qed

lemma read_rows_values:
  "(n, r) \<in> set (foldl (read_row p) found rows) \<Longrightarrow> (n, r) \<in> set found \<or> r \<in> set rows \<and> carries p n r"
  by (induction rows arbitrary: found) (auto dest: read_row_values)

section \<open>An issue created is found again\<close>

text \<open>What creating an issue promises: the listing holds it, under the label it was created with.\<close>

definition lists_created :: "'f issue_ops \<Rightarrow> ('f \<Rightarrow> string \<Rightarrow> string \<Rightarrow> issue_row list) \<Rightarrow> bool" where
  "lists_created ops view = (\<forall>f repo title body label k url f'.
     issue_create ops repo title body [label] f = (Inr (k, url), f') \<longrightarrow>
       (\<exists>row \<in> set (view f' repo label). ir_body row = body \<and> ir_number row = Some k \<and> \<not> ir_pull_request row))"

text \<open>Asking for a label and making one remove no issue.\<close>

definition keeps_issues :: "('f \<Rightarrow> string \<Rightarrow> string \<Rightarrow> issue_row list) \<Rightarrow> ('f, 'a) call \<Rightarrow> bool" where
  "keeps_issues view c = (\<forall>f repo label. set (view f repo label) \<subseteq> set (view (snd (c f)) repo label))"

definition labels_keep_issues :: "'f issue_ops \<Rightarrow> ('f \<Rightarrow> string \<Rightarrow> string \<Rightarrow> issue_row list) \<Rightarrow> bool" where
  "labels_keep_issues ops view = ((\<forall>r name. keeps_issues view (label_lookup ops r name))
     \<and> (\<forall>r name color about. keeps_issues view (label_create ops r name color about)))"

lemma ensure_keeps_issues: "labels_keep_issues ops view \<Longrightarrow> keeps_issues view (ensure_label ops repo spec)"
  unfolding labels_keep_issues_def keeps_issues_def ensure_label_def
  by (auto split: prod.splits sum.splits bool.splits) (metis snd_conv subsetD)+

definition fresh_walk :: "references \<Rightarrow> walk" where
  "fresh_walk known = \<lparr>wk_refs = known, wk_labels = [], wk_issues = [], wk_children = []\<rparr>"

definition creating :: "'f surroundings \<Rightarrow> (string \<Rightarrow> string \<Rightarrow> string \<Rightarrow> string list \<Rightarrow> ('f, int \<times> string) call) \<Rightarrow> 'f surroundings" where
  "creating su c = su\<lparr>su_ops := (su_ops su)\<lparr>issue_create := c\<rparr>\<rparr>"

lemma creating_same:
  "walk_label (creating su c) cfg n = walk_label su cfg n"
  "marked_issues (creating su c) p repo label = marked_issues su p repo label"
proof -
  have e: "ensure_label (su_ops (creating su c)) r spec = ensure_label (su_ops su) r spec" for r spec
    by (rule ext) (auto simp: ensure_label_def creating_def split: prod.splits sum.splits bool.splits)
  show "walk_label (creating su c) cfg n = walk_label su cfg n" unfolding walk_label_def e ..
  have p: "read_pages k (su_ops (creating su c)) p repo label page found = read_pages k (su_ops su) p repo label page found"
    "su_pages (creating su c) = su_pages su" for k page found
    by (induction k arbitrary: page found) (simp_all add: creating_def cong: if_cong)
  show "marked_issues (creating su c) p repo label = marked_issues su p repo label" unfolding marked_issues_def p ..
qed

lemma walk_label_fresh:
  assumes "walk_label su cfg n (s, fresh_walk known) = (Inr label, (s', w'))"
  shows "level_label cfg (n_repository n) (n_level n) = Some label" "wk_issues w' = []" "wk_refs w' = known"
    "labels_keep_issues (su_ops su) view \<Longrightarrow> set (view (st_forge s) r l) \<subseteq> set (view (st_forge s') r l)"
proof -
  let ?e = "ensure_label (su_ops su) (n_repository n)"
  from assms obtain res where l: "level_label cfg (n_repository n) (n_level n) = Some label"
      "on_forge (?e (level_spec (n_level n) label)) s = (Inr res, s')"
      "w' = wk_labels_update (dict_set (casefold (n_repository n), n_level n) label) (fresh_walk known)"
    by (auto simp: walk_label_def with_walk_def fresh_walk_def andthen_Inr at_site_def set_walk_def ret_def raise_def
        split: option.splits if_splits prod.splits)
  from l show "level_label cfg (n_repository n) (n_level n) = Some label" "wk_issues w' = []" "wk_refs w' = known"
    by (simp_all add: fresh_walk_def)
  assume "labels_keep_issues (su_ops su) view"
  then have "keeps_issues view (?e (level_spec (n_level n) label))" by (rule ensure_keeps_issues)
  then show "set (view (st_forge s) r l) \<subseteq> set (view (st_forge s') r l)"
    using l(2) by (auto simp: keeps_issues_def on_forge_def split: prod.splits sum.splits) (metis snd_conv subsetD)
qed

lemma marked_issues_fresh:
  assumes "lists_issues (su_ops su) view" and "wk_issues w = []" and "marked_issues su p repo label (s, w) = (Inr found, (s', w'))"
  shows "found = foldl (read_row p) [] (view (st_forge s) repo label)" "s' = s" "wk_refs w' = wk_refs w"
proof -
  from assms(2,3) have r: "read_pages (su_pages su) (su_ops su) p repo label 1 [] s = (Inr found, s')" "wk_refs w' = wk_refs w"
    by (auto simp: marked_issues_def with_walk_def andthen_Inr at_site_def set_walk_def ret_def split: prod.splits)
  from read_pages_reads[OF assms(1), of "su_pages su" p repo label 0 "[]" s] r(1)
  show "found = foldl (read_row p) [] (view (st_forge s) repo label)" "s' = s" by auto
  show "wk_refs w' = wk_refs w" by (rule r(2))
qed

lemma andthen_cong:
  assumes "\<And>x t. m s = (Inr x, t) \<Longrightarrow> k x t = k' x t"
  shows "andthen m k s = andthen m k' s"
  using assms by (auto simp: andthen_def split: prod.splits sum.splits)

lemma map_of_Some_key: "k \<in> fst ` set d \<Longrightarrow> \<exists>v. map_of d k = Some v"
  by (metis map_of_eq_None_iff not_Some_eq)

lemma walk_issue_finds:
  assumes laws: "lists_issues (su_ops su) view" "labels_keep_issues (su_ops su) view"
    and row: "\<And>label. level_label cfg (n_repository n) (n_level n) = Some label \<Longrightarrow>
      \<exists>row \<in> set (view (st_forge s) (n_repository n) label). carries p (n_id n) row"
  shows "walk_issue (creating su c) cfg p n (s, fresh_walk known) = walk_issue su cfg p n (s, fresh_walk known)"
    and "walk_issue su cfg p n (s, fresh_walk known) = (Inr (oc, ref), sw) \<Longrightarrow> oc = Found"
proof -
  let ?go = "\<lambda>su' label found. case map_of found (n_id n) of
         Some row \<Rightarrow> (case ir_number row of
             None \<Rightarrow> raise (MissingKey ''number'')
           | Some k \<Rightarrow> ret (Found, new_ref k (ir_html_url row) (state_of row)))
       | None \<Rightarrow> with_walk (\<lambda>w.
           andthen (at_site (on_forge (issue_create (su_ops su') (n_repository n) (n_title n)
               (render_body n (wk_refs w)) [label]))) (\<lambda>(k, url).
             ret (Created, new_ref k url ForgeOpen)))"
  have shape: "walk_issue su' cfg p n = andthen (walk_label su' cfg n) (\<lambda>label.
      andthen (marked_issues su' p (n_repository n) label) (?go su' label))" for su'
    by (simp add: walk_issue_def)
  have known: "\<exists>r. map_of found (n_id n) = Some r"
    if l': "walk_label su cfg n (s, fresh_walk known) = (Inr label, sw1)"
      and m': "marked_issues su p (n_repository n) label sw1 = (Inr found, sw2)" for label sw1 found sw2
  proof -
    obtain s1 w1 s2 w2 where sw2: "sw1 = (s1, w1)" "sw2 = (s2, w2)" by (cases sw1, cases sw2)
    note l = l'[unfolded sw2] and m = m'[unfolded sw2]
    note f = walk_label_fresh[OF l]
    from row[OF f(1)] f(4)[OF laws(2)] obtain row where
      "row \<in> set (view (st_forge s1) (n_repository n) label)" "carries p (n_id n) row" by blast
    then have "n_id n \<in> fst ` set found"
      unfolding marked_issues_fresh(1)[OF laws(1) f(2) m] read_rows_keys by blast
    then show ?thesis by (rule map_of_Some_key)
  qed
  show "walk_issue (creating su c) cfg p n (s, fresh_walk known) = walk_issue su cfg p n (s, fresh_walk known)"
    unfolding shape creating_same
  proof (rule andthen_cong)
    fix label sw1 assume l: "walk_label su cfg n (s, fresh_walk known) = (Inr label, sw1)"
    show "andthen (marked_issues su p (n_repository n) label) (?go (creating su c) label) sw1
        = andthen (marked_issues su p (n_repository n) label) (?go su label) sw1"
    proof (rule andthen_cong)
      fix found sw2 assume "marked_issues su p (n_repository n) label sw1 = (Inr found, sw2)"
      with known l obtain row where "map_of found (n_id n) = Some row" by blast
      then show "?go (creating su c) label found sw2 = ?go su label found sw2" by simp
    qed
  qed
  show "oc = Found" if "walk_issue su cfg p n (s, fresh_walk known) = (Inr (oc, ref), sw)"
  proof -
    from that obtain label sw1 found sw2 where
      "walk_label su cfg n (s, fresh_walk known) = (Inr label, sw1)"
      "marked_issues su p (n_repository n) label sw1 = (Inr found, sw2)"
      "?go su label found sw2 = (Inr (oc, ref), sw)"
      unfolding shape andthen_Inr by blast
    moreover from this known obtain row where "map_of found (n_id n) = Some row" by blast
    ultimately show ?thesis by (auto simp: ret_def raise_def split: option.splits)
  qed
qed

lemma walk_issue_creates:
  assumes "lists_created (su_ops su) view" and "id_ok (n_plan_id n)" and "id_ok (n_id n)"
    and "walk_issue su cfg (n_plan_id n) n (s, fresh_walk known) = (Inr (Created, ref), (s', w'))"
    and "level_label cfg (n_repository n) (n_level n) = Some label"
  shows "\<exists>row \<in> set (view (st_forge s') (n_repository n) label). carries (n_plan_id n) (n_id n) row"
proof -
  from assms(4) obtain l sw1 found sw2 where
    l': "walk_label su cfg n (s, fresh_walk known) = (Inr l, sw1)"
    and found': "(case map_of found (n_id n) of
         Some row \<Rightarrow> (case ir_number row of
             None \<Rightarrow> raise (MissingKey ''number'')
           | Some k \<Rightarrow> ret (Found, new_ref k (ir_html_url row) (state_of row)))
       | None \<Rightarrow> with_walk (\<lambda>w.
           andthen (at_site (on_forge (issue_create (su_ops su) (n_repository n) (n_title n)
               (render_body n (wk_refs w)) [l]))) (\<lambda>(k, url).
             ret (Created, new_ref k url ForgeOpen)))) sw2 = (Inr (Created, ref), (s', w'))"
    unfolding walk_issue_def andthen_Inr by blast
  obtain s1 w1 s2 w2 where sw: "sw1 = (s1, w1)" "sw2 = (s2, w2)" by (cases sw1, cases sw2)
  note l = l'[unfolded sw] and found = found'[unfolded sw]
  let ?known = "wk_refs w2"
  obtain k url where c: "on_forge (issue_create (su_ops su) (n_repository n) (n_title n) (render_body n ?known) [l]) s2 = (Inr (k, url), s')"
  proof (cases "map_of found (n_id n)")
    case None
    then have "andthen (at_site (on_forge (issue_create (su_ops su) (n_repository n) (n_title n) (render_body n ?known) [l])))
        (\<lambda>(k, url). ret (Created, new_ref k url ForgeOpen)) (s2, w2) = (Inr (Created, ref), (s', w'))"
      using found by (simp add: with_walk_def)
    then show thesis unfolding andthen_Inr
    proof (elim exE conjE)
      fix x u
      assume "at_site (on_forge (issue_create (su_ops su) (n_repository n) (n_title n) (render_body n ?known) [l])) (s2, w2) = (Inr x, u)"
        and "(case x of (k, url) \<Rightarrow> ret (Created, new_ref k url ForgeOpen)) u = (Inr (Created, ref) :: fault + _, (s', w'))"
      then show thesis using that[of "fst x" "snd x"] by (auto simp: at_site_def ret_def split: prod.splits)
    qed
  next
    case (Some row)
    with found show thesis by (cases "ir_number row") (simp_all add: ret_def raise_def)
  qed
  have "l = label" using walk_label_fresh(1)[OF l] assms(5) by simp
  with c have "issue_create (su_ops su) (n_repository n) (n_title n) (render_body n ?known) [label] (st_forge s2) = (Inr (k, url), st_forge s')"
    by (auto simp: on_forge_def split: prod.splits sum.splits)
  with assms(1) obtain row where "row \<in> set (view (st_forge s') (n_repository n) label)"
      "ir_body row = render_body n ?known" "\<not> ir_pull_request row"
    unfolding lists_created_def by blast
  with rendered_is_marked[OF assms(2,3)] show ?thesis by (auto simp: carries_def)
qed

section \<open>What depends on a failed node\<close>

definition needs :: "plan_node \<Rightarrow> ident list" where
  "needs n = (case n_parent_id n of None \<Rightarrow> [] | Some q \<Rightarrow> [q]) @ n_depends_on n"

definition not_attempted :: "node_result \<Rightarrow> bool" where
  "not_attempted r = (nr_outcome r = Failed \<and> (case nr_error r of Some (NotAttempted b d) \<Rightarrow> True | _ \<Rightarrow> False))"

lemma walk_publish_blocked:
  assumes "d \<in> set (needs n)" and "d \<in> set blocked"
  shows "\<exists>r. walk_publish su cfg p actor n blocked sw = (Inr r, sw) \<and> nr_node_id r = n_id n \<and> not_attempted r"
proof -
  obtain x xs where "filter (\<lambda>d. d \<in> set blocked) (needs n) = x # xs"
    using assms by (cases "filter (\<lambda>d. d \<in> set blocked) (needs n)") (auto simp: filter_empty_conv)
  then show ?thesis
    by (simp add: walk_publish_def needs_def ret_def failed_result_def not_attempted_def)
qed

lemma yields_with_walk [yields_intros]: "(\<And>w. yields Q (k w)) \<Longrightarrow> yields Q (with_walk k)"
  unfolding yields_def with_walk_def by blast

lemma walk_issue_outcome: "yields (\<lambda>(oc, ref). oc \<noteq> Failed) (walk_issue su cfg p n)"
  unfolding walk_issue_def by (intro yields_intros) simp_all

lemma walk_publish_id: "yields (\<lambda>r. nr_node_id r = n_id n) (walk_publish su cfg p actor n blocked)"
  unfolding walk_publish_def by (intro yields_intros) (simp_all add: failed_result_def)

lemma walk_level_blocked:
  assumes "walk_level su cfg p actor blocked ns sw = (Inr rs, sw')"
  shows "map nr_node_id rs = map n_id ns
    \<and> (\<forall>j < length ns. (\<exists>d \<in> set (needs (ns ! j)). d \<in> set blocked \<or> (\<exists>i < j. nr_node_id (rs ! i) = d \<and> nr_outcome (rs ! i) = Failed))
        \<longrightarrow> not_attempted (rs ! j))"
  using assms
proof (induction ns arbitrary: blocked sw rs)
  case Nil
  then show ?case by (simp add: ret_def)
next
  case (Cons n ns)
  let ?next = "\<lambda>r. if nr_outcome r = Failed then n_id n # blocked else blocked"
  from Cons.prems obtain r sw1 rest where r: "walk_publish su cfg p actor n blocked sw = (Inr r, sw1)"
      "walk_level su cfg p actor (?next r) ns sw1 = (Inr rest, sw')" "rs = r # rest"
    by (auto simp: andthen_Inr ret_def)
  note ih = Cons.IH[OF r(2)]
  have id: "nr_node_id r = n_id n" by (rule yieldsD[OF walk_publish_id r(1)])
  have "not_attempted (rs ! j)" if j: "j < length (n # ns)" "d \<in> set (needs ((n # ns) ! j))"
    and d: "d \<in> set blocked \<or> (\<exists>i < j. nr_node_id (rs ! i) = d \<and> nr_outcome (rs ! i) = Failed)" for j d
  proof (cases j)
    case 0
    then show ?thesis using walk_publish_blocked[of d n blocked su cfg p actor sw] j d r(1,3) by auto
  next
    case (Suc k)
    have "d \<in> set (?next r) \<or> (\<exists>i < k. nr_node_id (rest ! i) = d \<and> nr_outcome (rest ! i) = Failed)"
    proof (cases "d \<in> set blocked")
      case False
      then obtain i where i: "i < j" "nr_node_id (rs ! i) = d" "nr_outcome (rs ! i) = Failed" using d by blast
      then show ?thesis using id r(3) Suc by (cases i) auto
    qed simp
    then show ?thesis using ih j Suc r(3) by auto
  qed
  then show ?case using ih id r(3) by auto
qed

section \<open>What a level records\<close>

definition published_as :: "plan_node \<Rightarrow> node_result \<Rightarrow> plan_node \<Rightarrow> bool" where
  "published_as n r m = (m = n\<lparr>n_state := Published, n_forge := n_forge m, n_published_by := n_published_by m, n_updated_at := n_updated_at m\<rparr>
     \<and> map_option f_number (n_forge m) = nr_number r \<and> n_forge m \<noteq> None)"

text \<open>How the plan after a level compares with the plan before it.\<close>

definition level_effect :: "ident \<Rightarrow> node_result list \<Rightarrow> db \<Rightarrow> db \<Rightarrow> bool" where
  "level_effect i rs d d' = (\<exists>p q. store_get d i = Some p \<and> store_get d' i = Some q
     \<and> n_id ` set (p_nodes q) = n_id ` set (p_nodes p)
     \<and> (\<forall>n \<in> set (p_nodes p). (\<forall>r \<in> set rs. nr_node_id r = n_id n \<longrightarrow> nr_outcome r = Failed) \<longrightarrow> n \<in> set (p_nodes q))
     \<and> (\<forall>r \<in> set rs. nr_outcome r \<noteq> Failed \<longrightarrow> (\<exists>n \<in> set (p_nodes p). n_id n = nr_node_id r \<and> (\<exists>m \<in> set (p_nodes q). published_as n r m))))"

lemma walk_record_alone:
  assumes "su_others su = (\<lambda>_ d. d)" and "db_wf (st_db s)" and "walk_record su i actor node_id ref s = (r, s')"
  shows "(\<exists>e. r = Inl e) \<and> s' = s \<or>
    r = Inr () \<and> db_wf (st_db s') \<and> (\<exists>p q n m. store_get (st_db s) i = Some p \<and> store_get (st_db s') i = Some q
      \<and> n \<in> set (p_nodes p) \<and> n_id n = node_id \<and> m \<in> set (p_nodes q)
      \<and> m = n\<lparr>n_state := Published, n_forge := Some ref, n_published_by := n_published_by m, n_updated_at := n_updated_at m\<rparr>
      \<and> set (p_nodes q) = insert m {x \<in> set (p_nodes p). n_id x \<noteq> node_id})"
proof (cases "store_get (st_db s) i")
  case None
  then have "publish_node node_id ref actor (store_get (st_db s) i) (su_clock su (st_tick s)) = Decline (PublishFailed (NodeRemoved node_id))"
    unfolding publish_node_def by (simp only: option.case)
  from retry_decline(1)[of "publish_node node_id ref actor", OF this] show ?thesis using assms(3) by (auto simp: walk_record_def)
next
  case (Some p)
  let ?now = "su_clock su (st_tick s)"
  show ?thesis
  proof (cases "plan_node_of p node_id")
    case None
    then have "publish_node node_id ref actor (store_get (st_db s) i) ?now = Decline (PublishFailed (NodeRemoved node_id))"
      unfolding publish_node_def Some by (simp only: option.case)
    from retry_decline(1)[of "publish_node node_id ref actor", OF this] show ?thesis using assms(3) by (auto simp: walk_record_def)
  next
    case n: (Some n)
    let ?m = "n\<lparr>n_state := Published, n_forge := Some ref, n_published_by := actor_id actor, n_updated_at := ?now\<rparr>"
    let ?c = "no_change\<lparr>ch_upsert := [?m], ch_events := [published_event (p_id p) node_id ''published'' (f_number ref)], ch_actor := actor\<rparr>"
    have w: "publish_node node_id ref actor (Some p) ?now = Write ?c ()" using n by (simp add: publish_node_def)
    obtain n' u s1 where a: "retry_write su i (publish_node node_id ref actor) s = (Inr (), s1)" "db_wf (st_db s1)"
        "store_get (st_db s1) i \<noteq> None" "set (p_nodes (the (store_get (st_db s1) i))) = set (merge_nodes (p_nodes p) ?c)"
      using recording.retry_alone[OF assms(1,2) Some w] by metis
    then obtain q where q: "store_get (st_db s1) i = Some q" by blast
    have in_p: "n \<in> set (p_nodes p)" "n_id n = node_id" using plan_node_of_SomeD[OF n] by simp_all
    have set_q: "set (p_nodes q) = insert ?m {x \<in> set (p_nodes p). n_id x \<noteq> node_id}"
      using a(4) q in_p(2) by (auto simp: merge_nodes_def no_change_def)
    have "r = Inr ()" "s' = s1" using assms(3) a(1) by (simp_all add: walk_record_def)
    then show ?thesis using Some q a(2) in_p set_q
      by (intro disjI2 conjI exI[of _ p] exI[of _ q] exI[of _ n] exI[of _ ?m]) simp_all
  qed
qed

text \<open>What one node's step does to the plan: nothing when it failed, else the node recorded.\<close>

definition node_effect :: "ident \<Rightarrow> node_result \<Rightarrow> db \<Rightarrow> db \<Rightarrow> bool" where
  "node_effect i r d d' = (\<exists>p q n m. store_get d i = Some p \<and> store_get d' i = Some q
     \<and> n \<in> set (p_nodes p) \<and> n_id n = nr_node_id r \<and> published_as n r m
     \<and> set (p_nodes q) = insert m {x \<in> set (p_nodes p). n_id x \<noteq> nr_node_id r})"

lemma walk_publish_effect:
  assumes "su_others su = (\<lambda>_ d. d)"
  shows "triple (\<lambda>sw. st_db (fst sw) = d \<and> db_wf d) (walk_publish su cfg i actor n blocked)
    (\<lambda>r sw. db_wf (st_db (fst sw)) \<and> (case r of Inl e \<Rightarrow> st_db (fst sw) = d
       | Inr x \<Rightarrow> if nr_outcome x = Failed then st_db (fst sw) = d else node_effect i x d (st_db (fst sw))))"
    (is "triple ?P _ ?Q")
proof -
  let ?db = "\<lambda>sw. st_db (fst sw) = d"
  have failed: "triple ?P (if caught e then ret (failed_result (n_id n) ref (Said e)) else raise e) ?Q" for e ref
    by (auto intro!: triple_ret triple_raise simp: failed_result_def)
  have rec: "triple ?P (at_site (walk_record su i actor (n_id n) ref))
      (\<lambda>r sw. case r of Inl e \<Rightarrow> ?P sw
         | Inr x \<Rightarrow> db_wf (st_db (fst sw)) \<and> (\<forall>x. nr_node_id x = n_id n \<and> nr_number x = Some (f_number ref) \<longrightarrow> node_effect i x d (st_db (fst sw))))" for ref
    unfolding triple_def
  proof (intro allI impI)
    fix sw r sw' assume P: "?P sw" and m: "at_site (walk_record su i actor (n_id n) ref) sw = (r, sw')"
    then have w: "walk_record su i actor (n_id n) ref (fst sw) = (r, fst sw')"
      by (auto simp: at_site_def split: prod.splits)
    have wf: "db_wf (st_db (fst sw))" using P by simp
    from walk_record_alone[OF assms wf w]
    show "case r of Inl e \<Rightarrow> ?P sw' | Inr x \<Rightarrow> db_wf (st_db (fst sw')) \<and>
        (\<forall>x. nr_node_id x = n_id n \<and> nr_number x = Some (f_number ref) \<longrightarrow> node_effect i x d (st_db (fst sw')))"
    proof (elim disjE conjE exE)
      fix p q nn m
      assume e: "r = Inr ()" "db_wf (st_db (fst sw'))" "store_get (st_db (fst sw)) i = Some p" "store_get (st_db (fst sw')) i = Some q"
        "nn \<in> set (p_nodes p)" "n_id nn = n_id n"
        "m = nn\<lparr>n_state := Published, n_forge := Some ref, n_published_by := n_published_by m, n_updated_at := n_updated_at m\<rparr>"
        "set (p_nodes q) = insert m {x \<in> set (p_nodes p). n_id x \<noteq> n_id n}"
      have f: "n_forge m = Some ref" by (subst e(7)) simp
      have "node_effect i x d (st_db (fst sw'))" if x: "nr_node_id x = n_id n" "nr_number x = Some (f_number ref)" for x
      proof -
        have "published_as nn x m" unfolding published_as_def f using e(7) x(2) by simp
        with e P x(1) show ?thesis unfolding node_effect_def by auto
      qed
      then show ?thesis using e(1,2) by simp
    qed (use P in auto)
  qed
  have inner: "triple ?P (andthen (walk_link su cfg n ref) (\<lambda>(linked, reason).
             andthen (at_site (walk_record su i actor (n_id n) ref)) (\<lambda>_.
             andthen (set_walk (wk_refs_update (dict_set (n_id n) (n_repository n, ref)))) (\<lambda>_.
               ret \<lparr>nr_node_id = n_id n, nr_outcome = oc, nr_number = Some (f_number ref), nr_url = Some (f_url ref),
                 nr_linked = linked, nr_error = None, nr_reason = reason\<rparr>))))
      (\<lambda>r sw. case r of Inl e \<Rightarrow> ?P sw | Inr x \<Rightarrow> ?Q (Inr x) sw)" if "oc \<noteq> Failed" for oc ref
  proof (rule triple_andthen[where R = "\<lambda>_. ?P"])
    show "triple ?P (walk_link su cfg n ref) (\<lambda>r s. case r of Inl e \<Rightarrow> (case Inl e of Inl e \<Rightarrow> ?P s | Inr x \<Rightarrow> ?Q (Inr x) s) | Inr x \<Rightarrow> ?P s)"
      using walk_link_keeps[of "\<lambda>b. b = d \<and> db_wf d"] by (auto intro!: triple_keeps split: sum.splits)
    fix lr :: "linked \<times> fault option"
    obtain linked reason where lr: "lr = (linked, reason)" by (cases lr)
    let ?x = "\<lparr>nr_node_id = n_id n, nr_outcome = oc, nr_number = Some (f_number ref), nr_url = Some (f_url ref),
                 nr_linked = linked, nr_error = None, nr_reason = reason\<rparr>"
    let ?R = "\<lambda>sw. db_wf (st_db (fst sw)) \<and> node_effect i ?x d (st_db (fst sw))"
    have tail: "triple ?R (andthen (set_walk (wk_refs_update (dict_set (n_id n) (n_repository n, ref)))) (\<lambda>_. ret ?x))
        (\<lambda>r sw. case r of Inl e \<Rightarrow> ?P sw | Inr x \<Rightarrow> ?Q (Inr x) sw)"
      using that by (auto simp: triple_def andthen_def set_walk_def ret_def)
    show "triple ?P (case lr of (linked, reason) \<Rightarrow>
             andthen (at_site (walk_record su i actor (n_id n) ref)) (\<lambda>_.
             andthen (set_walk (wk_refs_update (dict_set (n_id n) (n_repository n, ref)))) (\<lambda>_.
               ret \<lparr>nr_node_id = n_id n, nr_outcome = oc, nr_number = Some (f_number ref), nr_url = Some (f_url ref),
                 nr_linked = linked, nr_error = None, nr_reason = reason\<rparr>)))
        (\<lambda>r sw. case r of Inl e \<Rightarrow> ?P sw | Inr x \<Rightarrow> ?Q (Inr x) sw)"
      unfolding lr prod.case
      by (rule triple_andthen[where R = "\<lambda>_. ?R", OF triple_weaken[OF rec[of ref]] tail]) (auto split: sum.splits)
  qed
  let ?linked = "\<lambda>oc ref. andthen (walk_link su cfg n ref) (\<lambda>(linked, reason).
             andthen (at_site (walk_record su i actor (n_id n) ref)) (\<lambda>_.
             andthen (set_walk (wk_refs_update (dict_set (n_id n) (n_repository n, ref)))) (\<lambda>_.
               ret \<lparr>nr_node_id = n_id n, nr_outcome = oc, nr_number = Some (f_number ref), nr_url = Some (f_url ref),
                 nr_linked = linked, nr_error = None, nr_reason = reason\<rparr>)))"
  let ?caught = "\<lambda>ref e. if caught e then ret (failed_result (n_id n) ref (Said e)) else raise e"
  let ?steps = "andthen (walk_issue su cfg i n) (\<lambda>(outcome, ref). handle (?linked outcome ref) (?caught (Some ref)))"
  have done_or_not: "triple ?P ?steps ?Q"
  proof (rule triple_andthen[where R = "\<lambda>(oc, ref) sw. oc \<noteq> Failed \<and> ?P sw"])
    show "triple ?P (walk_issue su cfg i n) (\<lambda>r s. case r of Inl e \<Rightarrow> ?Q (Inl e) s
        | Inr x \<Rightarrow> (case x of (oc, ref) \<Rightarrow> \<lambda>sw. oc \<noteq> Failed \<and> ?P sw) s)"
      unfolding triple_def
    proof (intro allI impI)
      fix sw r sw' assume P: "?P sw" and w: "walk_issue su cfg i n sw = (r, sw')"
      have "?P sw'" by (rule keepsD[OF walk_issue_keeps[of "\<lambda>b. b = d \<and> db_wf d"] P w])
      moreover have "fst x \<noteq> Failed" if "r = Inr x" for x using yieldsD[OF walk_issue_outcome w[unfolded that]] by (cases x) simp
      ultimately show "case r of Inl e \<Rightarrow> ?Q (Inl e) sw' | Inr x \<Rightarrow> (case x of (oc, ref) \<Rightarrow> \<lambda>sw. oc \<noteq> Failed \<and> ?P sw) sw'"
        by (auto split: sum.splits)
    qed
    fix x :: "outcome \<times> forge_ref"
    obtain oc ref where x: "x = (oc, ref)" by (cases x)
    show "triple ((case x of (oc, ref) \<Rightarrow> \<lambda>sw. oc \<noteq> Failed \<and> ?P sw)) (case x of (outcome, ref) \<Rightarrow> handle (?linked outcome ref) (?caught (Some ref))) ?Q"
    proof (cases "oc = Failed")
      case False
      have "triple ?P (handle (?linked oc ref) (?caught (Some ref))) ?Q"
        by (rule triple_handle[where R = "\<lambda>_. ?P", OF inner[OF False] failed])
      then show ?thesis unfolding x by (simp add: False)
    qed (simp add: x triple_def)
  qed
  have stays: "triple ?P (handle ?steps (?caught None)) ?Q"
    by (rule triple_handle[where R = "\<lambda>_. ?P", OF triple_weaken[OF done_or_not] failed]) (auto split: sum.splits)
  show ?thesis
  proof (cases "filter (\<lambda>d. d \<in> set blocked) ((case n_parent_id n of None \<Rightarrow> [] | Some q \<Rightarrow> [q]) @ n_depends_on n)")
    case (Cons x xs)
    then show ?thesis unfolding walk_publish_def Cons list.case by (auto intro!: triple_ret simp: failed_result_def)
  next
    case Nil
    show ?thesis unfolding walk_publish_def Nil list.case by (rule stays)
  qed
qed

lemma level_effect_refl: "store_get d i = Some p \<Longrightarrow> level_effect i [] d d"
  unfolding level_effect_def by (intro exI[of _ p] conjI) simp_all

lemma level_effect_failed: "nr_outcome r = Failed \<Longrightarrow> level_effect i rs d d' \<Longrightarrow> level_effect i (r # rs) d d'"
  unfolding level_effect_def by (elim exE conjE) (intro exI conjI; simp)

lemma level_effect_step:
  assumes "node_effect i r d d1" and "level_effect i rs d1 d'" and "nr_outcome r \<noteq> Failed"
    and "nr_node_id r \<notin> nr_node_id ` set rs"
  shows "level_effect i (r # rs) d d'"
proof -
  obtain p p1 n m where s: "store_get d i = Some p" "store_get d1 i = Some p1" "n \<in> set (p_nodes p)" "n_id n = nr_node_id r"
      "published_as n r m" "set (p_nodes p1) = insert m {x \<in> set (p_nodes p). n_id x \<noteq> nr_node_id r}"
    using assms(1) unfolding node_effect_def by blast
  have "n_id m = n_id (n\<lparr>n_state := Published, n_forge := n_forge m, n_published_by := n_published_by m, n_updated_at := n_updated_at m\<rparr>)"
    using s(5) unfolding published_as_def by (rule arg_cong[OF conjunct1])
  then have m: "n_id m = nr_node_id r" using s(4) by simp
  obtain q where q: "store_get d' i = Some q" "n_id ` set (p_nodes q) = n_id ` set (p_nodes p1)"
      "\<forall>x \<in> set (p_nodes p1). (\<forall>r \<in> set rs. nr_node_id r = n_id x \<longrightarrow> nr_outcome r = Failed) \<longrightarrow> x \<in> set (p_nodes q)"
      "\<forall>r' \<in> set rs. nr_outcome r' \<noteq> Failed \<longrightarrow> (\<exists>x \<in> set (p_nodes p1). n_id x = nr_node_id r' \<and> (\<exists>y \<in> set (p_nodes q). published_as x r' y))"
    using assms(2) s(2) unfolding level_effect_def by auto
  have ids: "n_id ` set (p_nodes q) = n_id ` set (p_nodes p)"
    unfolding q(2) s(6) using s(3,4) m by (auto simp: image_iff) metis+
  have rest: "x \<in> set (p_nodes q)" if "x \<in> set (p_nodes p)" "\<forall>r' \<in> set (r # rs). nr_node_id r' = n_id x \<longrightarrow> nr_outcome r' = Failed" for x
    using that assms(3) s(6) q(3) by auto
  have "\<forall>r' \<in> set rs. nr_node_id r' \<noteq> n_id m" using m assms(4) by (metis imageI)
  then have "m \<in> set (p_nodes q)" using q(3) s(6) by blast
  then have first: "\<exists>n \<in> set (p_nodes p). n_id n = nr_node_id r \<and> (\<exists>m \<in> set (p_nodes q). published_as n r m)"
    using s(3-5) by blast
  have later: "\<exists>x \<in> set (p_nodes p). n_id x = nr_node_id r' \<and> (\<exists>y \<in> set (p_nodes q). published_as x r' y)"
    if r': "r' \<in> set rs" "nr_outcome r' \<noteq> Failed" for r'
  proof -
    obtain x y where x: "x \<in> set (p_nodes p1)" "n_id x = nr_node_id r'" "y \<in> set (p_nodes q)" "published_as x r' y"
      using q(4) r' by blast
    have "nr_node_id r' \<noteq> nr_node_id r" using assms(4) r'(1) by (metis imageI)
    then have "x \<in> set (p_nodes p)" using x(1,2) s(6) m by auto
    with x show ?thesis by blast
  qed
  show ?thesis
    unfolding level_effect_def
  proof (rule exI[of _ p], rule exI[of _ q], intro conjI ballI impI)
    show "store_get d i = Some p" by (rule s(1))
    show "store_get d' i = Some q" by (rule q(1))
    show "n_id ` set (p_nodes q) = n_id ` set (p_nodes p)" by (rule ids)
  next
    fix x assume "x \<in> set (p_nodes p)" "\<forall>r' \<in> set (r # rs). nr_node_id r' = n_id x \<longrightarrow> nr_outcome r' = Failed"
    then show "x \<in> set (p_nodes q)" by (rule rest)
  next
    fix r' assume "r' \<in> set (r # rs)" "nr_outcome r' \<noteq> Failed"
    then show "\<exists>x \<in> set (p_nodes p). n_id x = nr_node_id r' \<and> (\<exists>y \<in> set (p_nodes q). published_as x r' y)"
      using first later by (cases "r' = r") auto
  qed
qed

lemma walk_level_effect:
  assumes "su_others su = (\<lambda>_ d. d)" and "walk_level su cfg i actor blocked ns sw = (Inr rs, sw')"
    and "db_wf (st_db (fst sw))" and "store_get (st_db (fst sw)) i = Some p" and "distinct (map n_id ns)"
  shows "level_effect i rs (st_db (fst sw)) (st_db (fst sw'))"
  using assms(2-)
proof (induction ns arbitrary: blocked sw rs p)
  case Nil
  then show ?case using level_effect_refl by (simp add: ret_def)
next
  case (Cons n ns)
  let ?next = "\<lambda>r. if nr_outcome r = Failed then n_id n # blocked else blocked"
  from Cons.prems(1) obtain r sw1 rest where r: "walk_publish su cfg i actor n blocked sw = (Inr r, sw1)"
      "walk_level su cfg i actor (?next r) ns sw1 = (Inr rest, sw')" "rs = r # rest"
    by (auto simp: andthen_Inr ret_def)
  have id: "nr_node_id r = n_id n" by (rule yieldsD[OF walk_publish_id r(1)])
  have e: "db_wf (st_db (fst sw1))" "if nr_outcome r = Failed then st_db (fst sw1) = st_db (fst sw) else node_effect i r (st_db (fst sw)) (st_db (fst sw1))"
    using tripleD[OF walk_publish_effect[OF assms(1)] _ r(1)] Cons.prems(2) by auto
  obtain p1 where "store_get (st_db (fst sw1)) i = Some p1"
    using e(2) Cons.prems(3) by (auto simp: node_effect_def split: if_splits)
  from Cons.IH[OF r(2) e(1) this] Cons.prems(4) have ih: "level_effect i rest (st_db (fst sw1)) (st_db (fst sw'))" by simp
  have "map nr_node_id rest = map n_id ns" using walk_level_blocked[OF r(2)] by blast
  then have new: "nr_node_id r \<notin> nr_node_id ` set rest" using id Cons.prems(4) by (metis distinct.simps(2) list.set_map list.simps(9))
  show ?case
  proof (cases "nr_outcome r = Failed")
    case True
    then show ?thesis using level_effect_failed ih e(2) r(3) by simp
  next
    case False
    then show ?thesis using level_effect_step[OF _ ih False new] e(2) r(3) by simp
  qed
qed


section \<open>What a result can be\<close>

text \<open>The shape of a node's result: a failure says why and links nothing; a success names its issue,
  is linked exactly when the node has a parent, and gives a reason only for a checklist line.\<close>

definition result_ok :: "plan_node \<Rightarrow> node_result \<Rightarrow> bool" where
  "result_ok n r = (nr_node_id r = n_id n \<and>
     (if nr_outcome r = Failed
      then nr_error r \<noteq> None \<and> nr_linked r = LinkedNone \<and> nr_reason r = None \<and> (nr_number r = None \<longleftrightarrow> nr_url r = None)
      else nr_error r = None \<and> nr_number r \<noteq> None \<and> nr_url r \<noteq> None \<and> (nr_linked r = LinkedNone \<longleftrightarrow> n_parent_id n = None)
        \<and> (nr_reason r \<noteq> None \<longrightarrow> nr_linked r = LinkedChecklist)))"

lemma failed_result_ok: "result_ok n (failed_result (n_id n) ref e)"
  by (cases ref) (simp_all add: result_ok_def failed_result_def)

lemma yields_hierarchy:
  "yields Q a \<Longrightarrow> yields Q b \<Longrightarrow> yields Q c \<Longrightarrow> yields Q (case h of Native \<Rightarrow> a | ChecklistBlock \<Rightarrow> b | Unsupported \<Rightarrow> c)"
  by (cases h) simp_all

lemma walk_link_result:
  "yields (\<lambda>x. (fst x = LinkedNone \<longleftrightarrow> n_parent_id n = None) \<and> (snd x \<noteq> None \<longrightarrow> fst x = LinkedChecklist)) (walk_link su cfg n ref)"
proof (cases "n_parent_id n")
  case None
  show ?thesis unfolding walk_link_def None option.case by (intro yields_intros) simp
next
  case (Some q)
  show ?thesis
    unfolding walk_link_def Some option.case Let_def
    by (intro yields_intros yields_hierarchy) simp_all
qed

lemma walk_publish_result: "yields (result_ok n) (walk_publish su cfg i actor n blocked)"
proof -
  have inner: "yields (result_ok n) (handle (andthen (walk_link su cfg n ref) (\<lambda>(linked, reason).
             andthen (at_site (walk_record su i actor (n_id n) ref)) (\<lambda>_.
             andthen (set_walk (wk_refs_update (dict_set (n_id n) (n_repository n, ref)))) (\<lambda>_.
               ret \<lparr>nr_node_id = n_id n, nr_outcome = oc, nr_number = Some (f_number ref), nr_url = Some (f_url ref),
                 nr_linked = linked, nr_error = None, nr_reason = reason\<rparr>))))
            (\<lambda>e. if caught e then ret (failed_result (n_id n) (Some ref) (Said e)) else raise e))" if "oc \<noteq> Failed" for oc ref
  proof (rule yields_handle[OF yields_bind[OF walk_link_result]], goal_cases)
    case (1 x)
    obtain linked reason where x: "x = (linked, reason)" by (cases x)
    show ?case unfolding x prod.case by (intro yields_andthen yields_ret) (use 1 x that in \<open>auto simp: result_ok_def\<close>)
  next
    case (2 e)
    show ?case by (intro yields_if yields_ret yields_raise failed_result_ok)
  qed
  show ?thesis
    unfolding walk_publish_def
    by (intro yields_list yields_handle yields_bind[OF walk_issue_outcome] yields_if yields_ret yields_raise failed_result_ok)
      (use inner in auto)
qed

lemma walk_level_results: "yields (list_all2 result_ok ns) (walk_level su cfg i actor blocked ns)"
proof (induction ns arbitrary: blocked)
  case (Cons n ns)
  show ?case
    unfolding walk_level.simps
    by (rule yields_bind[OF walk_publish_result], rule yields_bind[OF Cons.IH]) (simp add: yields_ret)
qed (simp add: yields_ret)

end
