(* ===== verification/Complete.thy ===== *)
theory Complete
  imports Forge EpicRun
begin

text \<open>
  Closing a finished epic, and a finished initiative, with a summary (\<open>plans/complete.py\<close>): the
  children's states read from the forge, the parent's checklist ticked, the states that moved
  recorded, and the node closed.  The long dash of the summary lines, which is outside the
  characters modelled, is the code point 151.
\<close>

section \<open>Results\<close>

definition summary_marker :: "ident \<Rightarrow> ident \<Rightarrow> string" where
  "summary_marker plan_id node_id = ''<!-- sbx-plan-summary: '' @ plan_id @ ''/'' @ node_id @ '' -->''"

record completion_result =
  cr_ticked :: "ident list"
  cr_recorded :: "ident list"
  cr_closed :: "ident list"
  cr_open :: "ident list"

definition no_result :: completion_result where
  "no_result = \<lparr>cr_ticked = [], cr_recorded = [], cr_closed = [], cr_open = []\<rparr>"

definition on_forge_nodes :: "plan_node list \<Rightarrow> plan_node list" where
  "on_forge_nodes ns = filter (\<lambda>n. followed n \<and> n_forge n \<noteq> None) ns"

abbreviation forge_number :: "plan_node \<Rightarrow> int" where
  "forge_number n \<equiv> f_number (the (n_forge n))"

section \<open>The steps\<close>

text \<open>\<open>_record\<close>: the node's forge state written, with who changed it; whether it moved.\<close>

definition state_change :: "ident \<Rightarrow> forge_state \<Rightarrow> string \<Rightarrow> plan option \<Rightarrow> timestamp \<Rightarrow> bool decision" where
  "state_change node_id st what read now = (case read of
      None \<Rightarrow> Nothing False
    | Some p \<Rightarrow> (case plan_node_of p node_id of
        None \<Rightarrow> Nothing False
      | Some n \<Rightarrow> (case n_forge n of
          None \<Rightarrow> Nothing False
        | Some f \<Rightarrow> if f_state f = Some st then Nothing False
            else Write (no_change\<lparr>
              ch_upsert := [n\<lparr>n_forge := Some (f\<lparr>f_state := Some st\<rparr>), n_updated_at := now\<rparr>],
              ch_events := [\<lparr>ev_type = ''plan.node.changed'',
                ev_data = [(''plan_id'', JStr (p_id p)), (''node_id'', JStr (n_id n)), (''change'', JStr what),
                  (''number'', JNum (of_int (f_number f)))],
                ev_run_id = None, ev_item_id = None, ev_channel_id = None\<rparr>]\<rparr>) True)))"

definition record_state :: "'f surroundings \<Rightarrow> ident \<Rightarrow> ident \<Rightarrow> forge_state \<Rightarrow> string \<Rightarrow> ('f site, fault, bool) action" where
  "record_state su plan_id node_id st what s =
     (case retry_write su plan_id (state_change node_id st what) s of
        (Inr moved, s') \<Rightarrow> (Inr moved, s')
      | (Inl (Raised e), s') \<Rightarrow> (Inl e, s')
      | (Inl _, s') \<Rightarrow> (Inr False, s'))"

type_synonym child_states = "(ident \<times> forge_state) list"

text \<open>The change of a parent's description: the children whose line moves, and the description
  with every child's line set.\<close>

fun tick_lines :: "child_states \<Rightarrow> plan_node list \<Rightarrow> string \<Rightarrow> checklist_error + string" where
  "tick_lines states [] body = Inr body"
| "tick_lines states (c # cs) body =
     bindR (set_child_closed body (issue_ref c) (map_of states (n_id c) = Some ForgeClosed)) (tick_lines states cs)"

definition tick_change :: "plan_node list \<Rightarrow> child_states \<Rightarrow> string \<Rightarrow> checklist_error + ident list \<times> string" where
  "tick_change cs states body = bindR (parse_checklist body) (\<lambda>es.
     let listed = foldl (\<lambda>d e. dict_set (ck_ref e) (ck_closed e) d) [] es;
         moved = filter (\<lambda>c. let ticked = (map_of states (n_id c) = Some ForgeClosed) in
           (case map_of listed (issue_ref c) of None \<Rightarrow> ticked | Some b \<Rightarrow> b) \<noteq> ticked) cs in
     bindR (tick_lines states cs body) (\<lambda>body'. Inr (map n_id moved, body')))"

definition tick_parent :: "'f surroundings \<Rightarrow> plan_node \<Rightarrow> plan_node list \<Rightarrow> child_states \<Rightarrow> ('f site, fault, ident list) action" where
  "tick_parent su parent cs states = handle
     (andthen (update_checklist (su_ops su) (n_repository parent) (forge_number parent) (tick_change cs states))
       (\<lambda>written. ret (case written of None \<Rightarrow> [] | Some moved \<Rightarrow> moved)))
     (\<lambda>e. case e of Mangled m \<Rightarrow> ret [] | _ \<Rightarrow> raise e)"

definition child_state :: "'f surroundings \<Rightarrow> plan_node \<Rightarrow> ('f site, fault, ident \<times> forge_state) action" where
  "child_state su c = andthen (on_forge (issue_get (su_ops su) (n_repository c) (forge_number c))) (\<lambda>row.
     ret (n_id c, state_of row))"

definition follow_children :: "'f surroundings \<Rightarrow> plan \<Rightarrow> plan_node \<Rightarrow> plan_node list \<Rightarrow> completion_result \<Rightarrow>
    ('f site, fault, child_states \<times> completion_result) action" where
  "follow_children su p parent cs res =
     andthen (each (child_state su) cs) (\<lambda>states.
     andthen (if cs = [] then ret [] else tick_parent su parent cs states) (\<lambda>ticked.
     let moved = filter (\<lambda>c. case n_forge c of None \<Rightarrow> False
           | Some f \<Rightarrow> (case map_of states (n_id c) of None \<Rightarrow> False | Some st \<Rightarrow> f_state f \<noteq> Some st)) cs in
     andthen (each (\<lambda>c. let st = the (map_of states (n_id c)) in
         andthen (record_state su (p_id p) (n_id c) st (if st = ForgeClosed then ''closed'' else ''reopened'')) (\<lambda>wrote.
           ret (if wrote then [n_id c] else []))) moved) (\<lambda>recorded.
       ret (states, res\<lparr>cr_ticked := cr_ticked res @ ticked, cr_recorded := cr_recorded res @ concat recorded\<rparr>))))"

definition close_node :: "'f surroundings \<Rightarrow> ident \<Rightarrow> plan_node \<Rightarrow> string \<Rightarrow> completion_result \<Rightarrow>
    ('f site, fault, completion_result) action" where
  "close_node su plan_id n body res =
     (let repo = n_repository n; number = forge_number n; ops = su_ops su;
          noted = (\<lambda>r wrote. if wrote then r\<lparr>cr_recorded := cr_recorded r @ [n_id n]\<rparr> else r) in
      andthen (on_forge (issue_get ops repo number)) (\<lambda>row.
        if state_of row = ForgeClosed
        then andthen (record_state su plan_id (n_id n) ForgeClosed ''closed'') (\<lambda>wrote. ret (noted res wrote))
        else
          andthen (on_forge (issue_comments ops repo number)) (\<lambda>comments.
          andthen (if list_ex (mentions (summary_marker plan_id (n_id n))) comments then ret ()
                   else andthen (on_forge (issue_comment ops repo number body)) (\<lambda>_. ret ())) (\<lambda>_.
          andthen (on_forge (issue_close ops repo number ''completed'')) (\<lambda>_.
          andthen (record_state su plan_id (n_id n) ForgeClosed ''completed'') (\<lambda>wrote.
            ret (noted (res\<lparr>cr_closed := cr_closed res @ [n_id n]\<rparr>) wrote)))))))"

section \<open>Summaries\<close>

definition dash :: string where "dash = '' '' @ [char_of (151 :: nat)] @ '' ''"

definition plural :: "nat \<Rightarrow> string \<Rightarrow> string" where
  "plural k noun = (if k = 1 then noun else noun @ ''s'')"

text \<open>How a task ended: the state its run left it in when that is landed or skipped, else closed.\<close>

definition ended_how :: "epic_run option \<Rightarrow> plan_node \<Rightarrow> string option \<times> string" where
  "ended_how run t = (let ran = (case run of None \<Rightarrow> None
       | Some r \<Rightarrow> map_option (\<lambda>h. task_state_name (t_state h)) (run_task r (n_id t))) in
     (ran, case ran of Some s \<Rightarrow> if s = ''landed'' \<or> s = ''skipped'' then s else ''closed'' | None \<Rightarrow> ''closed''))"

definition ended_words :: "string \<Rightarrow> string" where
  "ended_words how = (if how = ''skipped'' then ''skipped in the epic run, then closed on the forge'' else how)"

type_synonym link_of = "plan_node \<Rightarrow> string option \<Rightarrow> string option"

definition task_line :: "plan_node \<Rightarrow> epic_run option \<Rightarrow> link_of option \<Rightarrow> plan_node \<Rightarrow> string" where
  "task_line epic run link t = (let (ran, how) = ended_how run t;
       place = (case link of None \<Rightarrow> None | Some l \<Rightarrow> l t ran) in
     ''- '' @ issue_reference (n_repository epic) (n_repository t) (forge_number t) @ '' '' @ squash (n_title t)
     @ dash @ ended_words how @ (case place of None \<Rightarrow> [] | Some u \<Rightarrow> if u = [] then [] else '': '' @ u))"

definition tally :: "epic_run option \<Rightarrow> plan_node list \<Rightarrow> string" where
  "tally run tasks = (let hows = map (\<lambda>t. snd (ended_how run t)) tasks in
     join '', '' (concat (map (\<lambda>k. let c = count_list hows k in if c = 0 then [] else [nat_str c @ '' '' @ k])
       [''landed'', ''closed'', ''skipped''])))"

definition run_line :: "epic_run option \<Rightarrow> string" where
  "run_line run = (case run of
      None \<Rightarrow> ''No epic run took part: its tasks were closed on the forge.''
    | Some r \<Rightarrow> let who = (case y_started_by_display r of Some d \<Rightarrow> if d = [] then y_started_by r else Some d
          | None \<Rightarrow> y_started_by r) in
        ''Epic run '' @ [backtick] @ y_epic_run_id r @ [backtick]
        @ (case who of None \<Rightarrow> ''.'' | Some w \<Rightarrow> if w = [] then ''.'' else '', started by '' @ w @ ''.''))"

definition epic_summary :: "plan \<Rightarrow> plan_node \<Rightarrow> plan_node list \<Rightarrow> epic_run option \<Rightarrow> link_of option \<Rightarrow> string" where
  "epic_summary p epic tasks run link = join [newline, newline]
     [summary_marker (p_id p) (n_id epic),
      ''**Every task of this epic is closed**, so lantern is closing it ('' @ nat_str (length tasks) @ '' ''
        @ plural (length tasks) ''task'' @ '': '' @ tally run tasks @ '').'',
      join [newline] (map (task_line epic run link) tasks),
      run_line run]"

definition epic_line :: "plan \<Rightarrow> plan_node \<Rightarrow> plan_node \<Rightarrow> string" where
  "epic_line p n e = (let k = length (on_forge_nodes (children p (n_id e))) in
     ''- '' @ issue_reference (n_repository n) (n_repository e) (forge_number e) @ '' '' @ squash (n_title e)
     @ dash @ ''closed, '' @ nat_str k @ '' '' @ plural k ''task'')"

definition initiative_summary :: "plan \<Rightarrow> plan_node \<Rightarrow> plan_node list \<Rightarrow> string" where
  "initiative_summary p n epics = join [newline, newline]
     [summary_marker (p_id p) (n_id n),
      ''**Every epic of this initiative is closed**, so lantern is closing it ('' @ nat_str (length epics) @ '' ''
        @ plural (length epics) ''epic'' @ '').'',
      join [newline] (map (epic_line p n) epics)]"

section \<open>Looking at a node\<close>

definition published_at_level :: "level \<Rightarrow> plan option \<Rightarrow> ident \<Rightarrow> (plan \<times> plan_node) option" where
  "published_at_level l read node_id = (case read of None \<Rightarrow> None
     | Some p \<Rightarrow> (case plan_node_of p node_id of None \<Rightarrow> None
       | Some n \<Rightarrow> if n_level n = l \<and> n_forge n \<noteq> None \<and> n_state n = Published then Some (p, n) else None))"

definition read_plan :: "ident \<Rightarrow> ('f site, fault, plan option) action" where
  "read_plan plan_id s = (Inr (store_get (st_db s) plan_id), s)"

definition still_open :: "child_states \<Rightarrow> plan_node list \<Rightarrow> ident list" where
  "still_open states cs = map n_id (filter (\<lambda>c. map_of states (n_id c) \<noteq> Some ForgeClosed) cs)"

definition look_initiative :: "'f surroundings \<Rightarrow> config \<Rightarrow> ident \<Rightarrow> ident \<Rightarrow> ('f site, fault, completion_result) action" where
  "look_initiative su cfg plan_id node_id =
     andthen (read_plan plan_id) (\<lambda>read.
     case published_at_level Initiative read node_id of
       None \<Rightarrow> ret no_result
     | Some (p, n) \<Rightarrow>
         let epics = on_forge_nodes (children p (n_id n)) in
         andthen (follow_children su p n epics no_result) (\<lambda>(states, res).
         let res' = res\<lparr>cr_open := still_open states epics\<rparr> in
         if epics = [] \<or> cr_open res' \<noteq> [] \<or> \<not> pc_close_completed (planning_for cfg (n_repository n)) then ret res'
         else andthen (read_plan plan_id) (\<lambda>again.
           let p' = (case again of None \<Rightarrow> p | Some q \<Rightarrow> q) in
           close_node su (p_id p') n (initiative_summary p' n epics) res')))"

definition look_epic :: "'f surroundings \<Rightarrow> config \<Rightarrow> ident \<Rightarrow> ident \<Rightarrow> epic_run option \<Rightarrow> link_of option \<Rightarrow>
    ('f site, fault, completion_result) action" where
  "look_epic su cfg plan_id epic_id run link =
     andthen (read_plan plan_id) (\<lambda>read.
     case published_at_level Epic read epic_id of
       None \<Rightarrow> ret no_result
     | Some (p, epic) \<Rightarrow>
         let tasks = on_forge_nodes (children p (n_id epic)) in
         andthen (follow_children su p epic tasks no_result) (\<lambda>(states, res).
         let res' = res\<lparr>cr_open := still_open states tasks\<rparr> in
         if tasks = [] \<or> cr_open res' \<noteq> [] then ret res'
         else
           andthen (if pc_close_completed (planning_for cfg (n_repository epic))
                    then close_node su (p_id p) epic (epic_summary p epic tasks run link) res' else ret res') (\<lambda>res2.
           case n_parent_id epic of
             None \<Rightarrow> ret res2
           | Some q \<Rightarrow> andthen (look_initiative su cfg plan_id q) (\<lambda>more.
               ret (res2\<lparr>cr_ticked := cr_ticked res2 @ cr_ticked more,
                 cr_recorded := cr_recorded res2 @ cr_recorded more,
                 cr_closed := cr_closed res2 @ cr_closed more\<rparr>)))))"

text \<open>\<open>complete\<close>: \<open>opened\<close> is what opening the forge gave, \<open>None\<close> when there is no forge.\<close>

definition complete_epic :: "'f surroundings \<Rightarrow> config \<Rightarrow> fault + bool \<Rightarrow> ident \<Rightarrow> ident \<Rightarrow> epic_run option \<Rightarrow> link_of option \<Rightarrow>
    ('f site, fault, completion_result option) action" where
  "complete_epic su cfg opened plan_id epic_id run link = handle
     (case opened of
        Inl e \<Rightarrow> raise e
      | Inr False \<Rightarrow> ret None
      | Inr True \<Rightarrow> andthen (look_epic su cfg plan_id epic_id run link) (\<lambda>r. ret (Some r)))
     (\<lambda>e. if is_lantern_error e then ret None else raise e)"

end
