(* ===== verification/CompleteFacts.thy ===== *)
theory CompleteFacts
  imports Complete ForgeFacts
begin

text \<open>
  What a completion look keeps and does: the database stays well formed, nothing is closed or
  commented while a child is open, an issue gets one summary however often the look is repeated,
  and the parent's checklist mirrors the children.
\<close>

section \<open>The database stays well formed\<close>

lemma same_shape_forge: "same_shape (n\<lparr>n_forge := f, n_updated_at := t\<rparr>) n"
  by (simp add: same_shape_def)

lemma state_change_Write:
  assumes "state_change node_id st what (Some p) now = Write c x"
  obtains n f where "plan_node_of p node_id = Some n" "n_forge n = Some f" "f_state f \<noteq> Some st"
    "ch_upsert c = [n\<lparr>n_forge := Some (f\<lparr>f_state := Some st\<rparr>), n_updated_at := now\<rparr>]" "ch_remove c = []" "x = True"
proof -
  obtain n where n: "plan_node_of p node_id = Some n" using assms by (cases "plan_node_of p node_id") (simp_all add: state_change_def)
  obtain f where f: "n_forge n = Some f" using assms n by (cases "n_forge n") (simp_all add: state_change_def)
  have g: "f_state f \<noteq> Some st" using assms n f by (auto simp: state_change_def)
  have "ch_upsert c = [n\<lparr>n_forge := Some (f\<lparr>f_state := Some st\<rparr>), n_updated_at := now\<rparr>] \<and> ch_remove c = [] \<and> x = True"
    using assms n f g by (auto simp: state_change_def no_change_def)
  with that n f g show thesis by blast
qed

interpretation state_recording: node_patch "state_change node_id st what" for node_id st what
proof
  fix now c x
  show "state_change node_id st what None now \<noteq> Write c x" by (simp add: state_change_def)
next
  fix p now c x
  assume "state_change node_id st what (Some p) now = Write c x"
  then obtain n f where n: "plan_node_of p node_id = Some n" "n_forge n = Some f"
      "ch_upsert c = [n\<lparr>n_forge := Some (f\<lparr>f_state := Some st\<rparr>), n_updated_at := now\<rparr>]" "ch_remove c = []"
    by (rule state_change_Write)
  have "n \<in> set (p_nodes p)" using n(1) plan_node_of_SomeD by blast
  then show "\<exists>n \<in> set (p_nodes p). \<exists>u. patches c n u"
    using n by (intro bexI[of _ n] exI) (auto simp: patches_def same_shape_forge node_ok_def storable_def)
qed

lemma record_state_keeps:
  assumes "well_behaved (su_others su)"
  shows "keeps (\<lambda>s. db_wf (st_db s)) (record_state su plan_id node_id st what)"
  using state_recording.retry_keeps_wf[OF assms, of plan_id node_id st what]
  unfolding keeps_def record_state_def by (auto split: prod.splits sum.splits attempt_error.splits)

lemma keeps_fault: "(\<And>m. keeps P (f m)) \<Longrightarrow> (\<And>e. keeps P (g e)) \<Longrightarrow> keeps P (case e of Mangled m \<Rightarrow> f m | _ \<Rightarrow> g e)"
  by (cases e) simp_all

lemma read_plan_keeps [keeps_intros]: "keeps P (read_plan i)"
  by (simp add: keeps_def read_plan_def)

lemma tick_parent_keeps: "keeps (\<lambda>s. P (st_db s)) (tick_parent su parent cs states)"
  unfolding tick_parent_def by (intro keeps_intros keeps_fault)

lemma follow_children_keeps:
  assumes "well_behaved (su_others su)"
  shows "keeps (\<lambda>s. db_wf (st_db s)) (follow_children su p parent cs res)"
  unfolding follow_children_def child_state_def
  by (intro keeps_intros tick_parent_keeps record_state_keeps assms)

lemma close_node_keeps:
  assumes "well_behaved (su_others su)"
  shows "keeps (\<lambda>s. db_wf (st_db s)) (close_node su plan_id n body res)"
  unfolding close_node_def by (intro keeps_intros record_state_keeps assms)

lemma look_initiative_keeps:
  assumes "well_behaved (su_others su)"
  shows "keeps (\<lambda>s. db_wf (st_db s)) (look_initiative su cfg plan_id node_id)"
  unfolding look_initiative_def by (intro keeps_intros follow_children_keeps close_node_keeps assms)

lemma look_epic_keeps:
  assumes "well_behaved (su_others su)"
  shows "keeps (\<lambda>s. db_wf (st_db s)) (look_epic su cfg plan_id epic_id run link)"
  unfolding look_epic_def by (intro keeps_intros follow_children_keeps close_node_keeps look_initiative_keeps assms)

lemma complete_epic_keeps:
  assumes "well_behaved (su_others su)"
  shows "keeps (\<lambda>s. db_wf (st_db s)) (complete_epic su cfg opened plan_id epic_id run link)"
proof -
  have b: "keeps P m \<Longrightarrow> keeps P n \<Longrightarrow> keeps P (case x of True \<Rightarrow> m | False \<Rightarrow> n)" for P m n x by (cases x) simp_all
  show ?thesis unfolding complete_epic_def by (intro keeps_intros b look_epic_keeps assms)
qed

section \<open>Nothing is closed while a child is open\<close>

text \<open>The same surroundings with another way to close and to comment.\<close>

definition closing :: "'f surroundings \<Rightarrow> (string \<Rightarrow> int \<Rightarrow> string \<Rightarrow> ('f, unit) call) \<Rightarrow>
    (string \<Rightarrow> int \<Rightarrow> string \<Rightarrow> ('f, string) call) \<Rightarrow> 'f surroundings" where
  "closing su c m = su\<lparr>su_ops := (su_ops su)\<lparr>issue_close := c, issue_comment := m\<rparr>\<rparr>"

text \<open>Reading an issue changes nothing.\<close>

definition reads_issues :: "'f issue_ops \<Rightarrow> bool" where
  "reads_issues ops = (\<forall>repo k f. snd (issue_get ops repo k f) = f)"

definition shown_closed :: "'f issue_ops \<Rightarrow> 'f \<Rightarrow> plan_node \<Rightarrow> bool" where
  "shown_closed ops f n = (case fst (issue_get ops (n_repository n) (forge_number n) f) of
     Inl e \<Rightarrow> False | Inr row \<Rightarrow> state_of row = ForgeClosed)"

lemma closing_same:
  "child_state (closing su c m) = child_state su"
  "tick_parent (closing su c m) = tick_parent su"
  "record_state (closing su c m) = record_state su"
proof -
  have o: "issue_get (su_ops (closing su c m)) = issue_get (su_ops su)" "issue_update (su_ops (closing su c m)) = issue_update (su_ops su)"
    by (simp_all add: closing_def)
  have u: "update_checklist (su_ops (closing su c m)) = (update_checklist (su_ops su) :: string \<Rightarrow> int \<Rightarrow> (string \<Rightarrow> checklist_error + 'm \<times> string) \<Rightarrow> _)"
    by (intro ext) (simp only: update_checklist_def o)
  have a: "attempt_write (closing su c m) = (attempt_write su :: ident \<Rightarrow> (plan option \<Rightarrow> timestamp \<Rightarrow> bool decision) \<Rightarrow> _)"
    by (intro ext) (simp add: attempt_write_def closing_def)
  show "child_state (closing su c m) = child_state su"
    by (rule ext) (simp add: child_state_def closing_def)
  show "tick_parent (closing su c m) = tick_parent su"
    by (intro ext) (simp add: tick_parent_def u)
  show "record_state (closing su c m) = record_state su"
    by (intro ext) (simp add: record_state_def retry_write_def a)
qed

lemma follow_children_same: "follow_children (closing su c m) = follow_children su"
  by (intro ext) (simp only: follow_children_def closing_same)

lemma child_state_reads:
  assumes "reads_issues (su_ops su)" and "child_state su c s = (r, s')"
  shows "s' = s \<and> (\<forall>x. r = Inr x \<longrightarrow> fst x = n_id c \<and> (snd x = ForgeClosed \<longleftrightarrow> shown_closed (su_ops su) (st_forge s) c))"
proof -
  let ?c = "issue_get (su_ops su) (n_repository c) (forge_number c) (st_forge s)"
  have "snd ?c = st_forge s" using assms(1) by (simp add: reads_issues_def)
  then show ?thesis using assms(2)
    by (cases ?c; cases "fst ?c") (auto simp: child_state_def on_forge_def andthen_def ret_def shown_closed_def)
qed

lemma child_states_read:
  assumes "reads_issues (su_ops su)" and "each (child_state su) cs s = (Inr states, s')"
  shows "s' = s \<and> list_all2 (\<lambda>c x. fst x = n_id c \<and> (snd x = ForgeClosed \<longleftrightarrow> shown_closed (su_ops su) (st_forge s) c)) cs states"
  using assms(2)
proof (induction cs arbitrary: states s)
  case (Cons c cs)
  then obtain x t xs where x: "child_state su c s = (Inr x, t)" "each (child_state su) cs t = (Inr xs, s')" "states = x # xs"
    by (auto simp: andthen_Inr ret_def)
  from child_state_reads[OF assms(1) x(1)] Cons.IH x(2,3) show ?case by auto
qed (simp add: ret_def)

lemma map_of_children:
  assumes "list_all2 (\<lambda>c x. fst x = n_id c \<and> (snd x = ForgeClosed \<longleftrightarrow> Q c)) cs states" and "distinct (map n_id cs)" and "c \<in> set cs"
  shows "map_of states (n_id c) = Some ForgeClosed \<longleftrightarrow> Q c"
  using assms
proof (induction cs states rule: list_all2_induct)
  case (Cons d cs x states)
  show ?case
  proof (cases "c = d")
    case True
    then show ?thesis using Cons.hyps(1) by (cases x) auto
  next
    case False
    then have "n_id d \<noteq> n_id c" using Cons.prems by auto
    then show ?thesis using Cons False by (cases x) auto
  qed
qed simp

lemma follow_children_states:
  assumes "reads_issues (su_ops su)" and "distinct (map n_id cs)" and "follow_children su p parent cs res s = (Inr (states, res'), s')"
  shows "c \<in> set cs \<Longrightarrow> map_of states (n_id c) = Some ForgeClosed \<longleftrightarrow> shown_closed (su_ops su) (st_forge s) c"
    and "cr_closed res' = cr_closed res"
proof -
  from assms(3) obtain t where t: "each (child_state su) cs s = (Inr states, t)" and r: "cr_closed res' = cr_closed res"
    unfolding follow_children_def andthen_Inr Let_def by (auto simp: ret_def andthen_Inr)
  show "cr_closed res' = cr_closed res" by (rule r)
  show "map_of states (n_id c) = Some ForgeClosed \<longleftrightarrow> shown_closed (su_ops su) (st_forge s) c" if "c \<in> set cs"
    by (rule map_of_children[OF _ assms(2) that]) (use child_states_read[OF assms(1) t] in blast)
qed

lemma on_forge_in: "c \<in> set (on_forge_nodes ns) \<longleftrightarrow> c \<in> set ns \<and> followed c \<and> n_forge c \<noteq> None"
  by (auto simp: on_forge_nodes_def)

lemma on_forge_distinct: "distinct (map n_id ns) \<Longrightarrow> distinct (map n_id (on_forge_nodes ns))"
  by (simp add: on_forge_nodes_def distinct_map_filterI)

lemma still_open_iff: "still_open states cs = [] \<longleftrightarrow> (\<forall>c \<in> set cs. map_of states (n_id c) = Some ForgeClosed)"
  by (auto simp: still_open_def filter_empty_conv)

lemma andthen_same: "(\<And>x t. m s = (Inr x, t) \<Longrightarrow> k x t = k' x t) \<Longrightarrow> andthen m k s = andthen m k' s"
  by (auto simp: andthen_def split: prod.splits sum.splits)

lemma published_at_levelD:
  "published_at_level l read i = Some (q, n) \<Longrightarrow> read = Some q \<and> plan_node_of q i = Some n \<and> n_level n = l \<and> n_forge n \<noteq> None \<and> n_state n = Published"
  by (auto simp: published_at_level_def split: option.splits if_splits)

lemma look_epic_waits:
  assumes "reads_issues (su_ops su)" and "db_wf (st_db s)" and "store_get (st_db s) i = Some p"
    and "c \<in> set (on_forge_nodes (children p e))" and "\<not> shown_closed (su_ops su) (st_forge s) c"
  shows "look_epic (closing su x m) cfg i e run link s = look_epic su cfg i e run link s"
proof -
  have r: "read_plan i s = (Inr (Some p), s)" by (simp add: read_plan_def assms(3))
  show ?thesis
  proof (cases "published_at_level Epic (Some p) e")
    case None
    then show ?thesis by (simp add: look_epic_def andthen_step[where m = "read_plan i", OF r])
  next
    case (Some qe)
    obtain epic where qe: "qe = (p, epic)" using published_at_levelD[of Epic "Some p" e] Some by (cases qe) auto
    from Some have e: "published_at_level Epic (Some p) e = Some (p, epic)" unfolding qe .
    from published_at_levelD[OF this] have "plan_node_of p e = Some epic" by simp
    then have id: "n_id epic = e" using plan_node_of_SomeD by blast
    let ?tasks = "on_forge_nodes (children p (n_id epic))"
    have "wf_plan p" by (rule store_get_nodes(2)[OF assms(2,3)])
    then have d: "distinct (map n_id ?tasks)"
      by (intro on_forge_distinct) (auto simp: children_def wf_planD(2) intro!: children_in_distinct)
    show ?thesis
      unfolding look_epic_def andthen_step[where m = "read_plan i", OF r] e(1) option.case prod.case Let_def follow_children_same
    proof (rule andthen_same, goal_cases)
      case (1 y t)
      obtain states res where y: "y = (states, res)" by (cases y)
      have c: "c \<in> set ?tasks" using assms(4) id by simp
      from follow_children_states(1)[OF assms(1) d 1[unfolded y] c] assms(5)
      have "still_open states ?tasks \<noteq> []" using c by (auto simp: still_open_iff)
      then show ?case unfolding y by simp
    qed
  qed
qed

section \<open>One summary per issue\<close>

text \<open>What the comments of an issue are, and what the calls do to them: reading and closing leave
  them, a comment that was made is there afterwards, and one that failed is there or not.\<close>

definition keeps_comments :: "'f issue_ops \<Rightarrow> ('f \<Rightarrow> string \<Rightarrow> int \<Rightarrow> string list) \<Rightarrow> bool" where
  "keeps_comments ops notes = (\<forall>repo k f.
       notes (snd (issue_get ops repo k f)) = notes f
     \<and> notes (snd (issue_comments ops repo k f)) = notes f
     \<and> (\<forall>cs. fst (issue_comments ops repo k f) = Inr cs \<longrightarrow> cs = notes f repo k)
     \<and> (\<forall>why. notes (snd (issue_close ops repo k why f)) = notes f)
     \<and> (\<forall>b. notes (snd (issue_comment ops repo k b f)) repo k = notes f repo k @ [b]
         \<or> isl (fst (issue_comment ops repo k b f)) \<and> notes (snd (issue_comment ops repo k b f)) repo k = notes f repo k))"

definition summaries :: "('f \<Rightarrow> string \<Rightarrow> int \<Rightarrow> string list) \<Rightarrow> ident \<Rightarrow> plan_node \<Rightarrow> 'f \<Rightarrow> nat" where
  "summaries notes i n f = length (filter (mentions (summary_marker i (n_id n))) (notes f (n_repository n) (forge_number n)))"

lemma on_forge_snd: "st_forge (snd (on_forge c s)) = snd (c (st_forge s))"
  by (simp add: on_forge_def split: prod.splits sum.splits)

lemma on_forge_fst: "fst (on_forge c s) = (case fst (c (st_forge s)) of Inl e \<Rightarrow> Inl (CallFailed e) | Inr x \<Rightarrow> Inr x)"
  by (simp add: on_forge_def split: prod.splits sum.splits)

lemma attempt_write_forge: "st_forge (snd (attempt_write su i decide s)) = st_forge s"
  by (simp add: attempt_write_def Let_def split: decision.splits sum.splits store_error.splits prod.splits)

lemma record_state_forge: "st_forge (snd (record_state su i node_id st what s)) = st_forge s"
proof -
  have a: "keeps (\<lambda>s'. st_forge s' = st_forge s) (attempt_write su i d)" for d :: "plan option \<Rightarrow> timestamp \<Rightarrow> bool decision"
    by (simp add: keeps_def attempt_write_forge)
  from retry_action_keeps[OF this] have "keeps (\<lambda>s'. st_forge s' = st_forge s) (retry_write su i (state_change node_id st what))"
    unfolding retry_write_def .
  then show ?thesis unfolding keeps_def record_state_def by (auto split: prod.splits sum.splits attempt_error.splits)
qed

lemma mentions_prefix: "mentions m (m @ s)"
  by (simp add: mentions_def cut.simps starts_with_prefix)

lemma keeps_notes:
  assumes "\<And>f. notes (snd (c f)) = notes f"
  shows "keeps (\<lambda>s. summaries notes i n (st_forge s) = k) (on_forge c)"
  by (simp add: keeps_def on_forge_snd assms summaries_def)

lemma record_keeps_notes: "keeps (\<lambda>s. P (st_forge s)) (record_state su i node_id st what)"
  by (simp add: keeps_def record_state_forge)

lemma comment_once:
  assumes "keeps_comments ops notes" and "mentions (summary_marker i (n_id n)) body"
  shows "triple (\<lambda>s. summaries notes i n (st_forge s) = k \<and> cs = notes (st_forge s) (n_repository n) (forge_number n))
    (if list_ex (mentions (summary_marker i (n_id n))) cs then ret ()
     else andthen (on_forge (issue_comment ops (n_repository n) (forge_number n) body)) (\<lambda>_. ret ()))
    (\<lambda>r s. case r of Inl e \<Rightarrow> summaries notes i n (st_forge s) \<le> max 1 k | Inr x \<Rightarrow> summaries notes i n (st_forge s) = max 1 k)"
  unfolding triple_def
proof (intro allI impI, elim conjE)
  let ?m = "mentions (summary_marker i (n_id n))" and ?c = "issue_comment ops (n_repository n) (forge_number n) body"
  fix s r s'
  assume k: "summaries notes i n (st_forge s) = k" and cs: "cs = notes (st_forge s) (n_repository n) (forge_number n)"
    and run: "(if list_ex ?m cs then ret () else andthen (on_forge ?c) (\<lambda>_. ret ())) s = (r, s')"
  show "case r of Inl e \<Rightarrow> summaries notes i n (st_forge s') \<le> max 1 k | Inr x \<Rightarrow> summaries notes i n (st_forge s') = max 1 k"
  proof (cases "list_ex ?m cs")
    case True
    then have "filter ?m cs \<noteq> []" by (auto simp: list_ex_iff filter_empty_conv)
    then have "1 \<le> k" using k cs by (cases k) (simp_all add: summaries_def)
    then show ?thesis using run True k by (auto simp: ret_def)
  next
    case False
    then have z: "filter ?m cs = []" by (auto simp: list_ex_iff filter_empty_conv)
    then have k0: "k = 0" using k cs by (simp add: summaries_def)
    have law: "notes (snd (?c (st_forge s))) (n_repository n) (forge_number n) = cs @ [body]
        \<or> isl (fst (?c (st_forge s))) \<and> notes (snd (?c (st_forge s))) (n_repository n) (forge_number n) = cs"
      using assms(1) cs unfolding keeps_comments_def by blast
    have run': "s' = snd (on_forge ?c s)" "r = (case fst (on_forge ?c s) of Inl e \<Rightarrow> Inl e | Inr x \<Rightarrow> Inr ())"
      using run False by (auto simp: andthen_def ret_def split: prod.splits sum.splits)
    from law show ?thesis
      unfolding run' on_forge_fst on_forge_snd summaries_def k0
      using z assms(2) by (auto split: sum.splits)
  qed
qed

lemma close_node_summaries:
  assumes "keeps_comments (su_ops su) notes" and "mentions (summary_marker i (n_id n)) body"
  shows "triple (\<lambda>s. summaries notes i n (st_forge s) = k) (close_node su i n body res)
    (\<lambda>r s. summaries notes i n (st_forge s) \<le> max 1 k
       \<and> (\<forall>x. r = Inr x \<longrightarrow> cr_closed x \<noteq> cr_closed res \<longrightarrow> summaries notes i n (st_forge s) = max 1 k))"
    (is "triple ?P _ ?Q")
proof -
  let ?ops = "su_ops su" and ?repo = "n_repository n" and ?k = "forge_number n"
  let ?R = "\<lambda>s. summaries notes i n (st_forge s) = max 1 k"
  note law = assms(1)[unfolded keeps_comments_def, rule_format]
  have get: "keeps ?P (on_forge (issue_get ?ops ?repo ?k))" by (rule keeps_notes) (use law in blast)
  have close: "keeps ?R (on_forge (issue_close ?ops ?repo ?k ''completed''))" by (rule keeps_notes) (use law in blast)
  have comments: "triple ?P (on_forge (issue_comments ?ops ?repo ?k))
      (\<lambda>r s. case r of Inl e \<Rightarrow> ?Q (Inl e) s | Inr cs \<Rightarrow> ?P s \<and> cs = notes (st_forge s) ?repo ?k)"
    unfolding triple_def
  proof (intro allI impI)
    fix s r s' assume P: "?P s" and run: "on_forge (issue_comments ?ops ?repo ?k) s = (r, s')"
    have f: "notes (st_forge s') = notes (st_forge s)" using law on_forge_snd[of "issue_comments ?ops ?repo ?k" s] run by simp
    moreover have "cs = notes (st_forge s) ?repo ?k" if "r = Inr cs" for cs
      using law on_forge_fst[of "issue_comments ?ops ?repo ?k" s] run that by (auto split: sum.splits)
    ultimately show "case r of Inl e \<Rightarrow> ?Q (Inl e) s' | Inr cs \<Rightarrow> ?P s' \<and> cs = notes (st_forge s') ?repo ?k"
      using P by (auto simp: summaries_def split: sum.splits)
  qed
  have recorded: "triple ?R (andthen (record_state su i (n_id n) st what) (\<lambda>w. ret (g w))) ?Q" for st what g
    by (rule triple_keeps[where P = ?R]) (auto intro!: keeps_intros record_keeps_notes)
  have seen: "triple ?P (andthen (record_state su i (n_id n) st what) (\<lambda>w. ret (if w then res\<lparr>cr_recorded := x\<rparr> else res))) ?Q" for st what x
  proof -
    have "triple ?P (record_state su i (n_id n) st what) (\<lambda>r s. case r of Inl e \<Rightarrow> ?Q (Inl e) s | Inr w \<Rightarrow> ?P s)"
      by (rule triple_keeps[OF record_keeps_notes]) (auto split: sum.splits)
    then show ?thesis by (rule triple_andthen) (auto intro!: triple_ret)
  qed
  have finish: "triple ?R (andthen (on_forge (issue_close ?ops ?repo ?k ''completed'')) (\<lambda>_.
      andthen (record_state su i (n_id n) st what) (\<lambda>w. ret (g w)))) ?Q" for st what g
    by (rule triple_keeps[where P = ?R]) (auto simp del: One_nat_def intro!: keeps_intros record_keeps_notes close)
  show ?thesis
    unfolding close_node_def Let_def
  proof (rule triple_andthen[where R = "\<lambda>_. ?P"], goal_cases)
    case 1
    show "triple ?P (on_forge (issue_get ?ops ?repo ?k)) (\<lambda>r s. case r of Inl e \<Rightarrow> ?Q (Inl e) s | Inr x \<Rightarrow> ?P s)"
      by (rule triple_keeps[OF get]) (auto split: sum.splits)
  next
    case (2 row)
    have "triple ?P (andthen (on_forge (issue_comments ?ops ?repo ?k)) (\<lambda>comments.
          andthen (if list_ex (mentions (summary_marker i (n_id n))) comments then ret ()
                   else andthen (on_forge (issue_comment ?ops ?repo ?k body)) (\<lambda>_. ret ())) (\<lambda>_.
          andthen (on_forge (issue_close ?ops ?repo ?k ''completed'')) (\<lambda>_.
          andthen (record_state su i (n_id n) ForgeClosed ''completed'') (\<lambda>w. ret (g w)))))) ?Q" for g
      by (rule triple_andthen[OF comments], rule triple_andthen[OF triple_weaken[OF comment_once[OF assms]] finish])
        (auto split: sum.splits)
    then show ?case using seen by simp
  qed
qed

section \<open>The checklist mirrors the children\<close>

definition mirrored :: "child_states \<Rightarrow> plan_node list \<Rightarrow> checklist_entry \<Rightarrow> checklist_entry" where
  "mirrored states cs e = (case find (\<lambda>c. issue_ref c = ck_ref e) cs of
     None \<Rightarrow> e | Some c \<Rightarrow> e\<lparr>ck_closed := (map_of states (n_id c) = Some ForgeClosed)\<rparr>)"

lemma mirrored_ref [simp]: "ck_ref (mirrored states cs e) = ck_ref e"
  by (simp add: mirrored_def split: option.splits)

lemma mirrored_squashed: "mirrored states cs (squashed e) = squashed (mirrored states cs e)"
  by (simp add: mirrored_def squashed_def split: option.splits)

lemma mirrored_step:
  assumes "\<forall>d \<in> set cs. issue_ref d \<noteq> issue_ref c"
  shows "mirrored states cs (if ck_ref e = issue_ref c then e\<lparr>ck_closed := (map_of states (n_id c) = Some ForgeClosed)\<rparr> else e)
    = mirrored states (c # cs) e"
proof (cases "ck_ref e = issue_ref c")
  case True
  then have "find (\<lambda>d. issue_ref d = issue_ref c) cs = None" using assms by (simp add: find_None_iff)
  then show ?thesis using True by (simp add: mirrored_def)
qed (simp add: mirrored_def)

lemma tick_lines_mirror:
  assumes "parse_checklist body = Inr es" and "\<forall>e \<in> set (map squashed es). clean (ck_title e)" and "distinct (map issue_ref cs)"
  shows "\<exists>body' es'. tick_lines states cs body = Inr body' \<and> parse_checklist body' = Inr es'
    \<and> map squashed es' = map (mirrored states cs) (map squashed es)"
  using assms
proof (induction cs arbitrary: body es)
  case Nil
  then show ?case by (simp add: mirrored_def)
next
  case (Cons c cs)
  let ?b = "map_of states (n_id c) = Some ForgeClosed"
  let ?step = "\<lambda>e. if ck_ref e = issue_ref c then e\<lparr>ck_closed := ?b\<rparr> else e"
  have "\<forall>e \<in> set es. clean (squash (ck_title e))" using Cons.prems(2) by (simp add: squashed_def)
  from ticking_sets_the_mark[OF Cons.prems(1) this, of "issue_ref c" ?b] obtain b1 es1 where
    s: "set_child_closed body (issue_ref c) ?b = Inr b1" "parse_checklist b1 = Inr es1"
      "map squashed es1 = map (\<lambda>e. if ck_ref e = issue_ref c then (squashed e)\<lparr>ck_closed := ?b\<rparr> else squashed e) es" by blast
  have sq: "map squashed es1 = map ?step (map squashed es)" unfolding s(3) by simp
  have ts: "\<forall>e \<in> set (map squashed es1). clean (ck_title e)" unfolding sq using Cons.prems(2) by auto
  have "distinct (map issue_ref cs)" using Cons.prems(3) by simp
  from Cons.IH[OF s(2) ts this] obtain b2 es2 where
    r: "tick_lines states cs b1 = Inr b2" "parse_checklist b2 = Inr es2"
      "map squashed es2 = map (mirrored states cs) (map squashed es1)" by blast
  have "\<forall>d \<in> set cs. issue_ref d \<noteq> issue_ref c" using Cons.prems(3) by (auto simp: image_iff)
  then have "map squashed es2 = map (mirrored states (c # cs)) (map squashed es)"
    by (simp only: r(3) sq list.map_comp comp_def mirrored_step)
  then show ?case using s(1) r(1,2) by simp
qed

lemma listed_entries:
  "distinct (map ck_ref es) \<Longrightarrow> map_of (foldl (\<lambda>d e. dict_set (ck_ref e) (ck_closed e) d) [] es) k = map_of (map (\<lambda>e. (ck_ref e, ck_closed e)) es) k"
proof -
  have "map_of (foldl (\<lambda>d e. dict_set (ck_ref e) (ck_closed e) d) d es) k =
      (case map_of (rev (map (\<lambda>e. (ck_ref e, ck_closed e)) es)) k of None \<Rightarrow> map_of d k | Some b \<Rightarrow> Some b)" for d
    by (induction es rule: rev_induct) auto
  then show "distinct (map ck_ref es) \<Longrightarrow> ?thesis"
    using map_of_inject_set[of "rev (map (\<lambda>e. (ck_ref e, ck_closed e)) es)" "map (\<lambda>e. (ck_ref e, ck_closed e)) es"]
    by (simp add: rev_map[symmetric] comp_def split: option.splits)
qed

lemma moved_children:
  assumes "distinct (map ck_ref es)"
  shows "(case map_of (map (\<lambda>e. (ck_ref e, ck_closed e)) es) k of None \<Rightarrow> b | Some x \<Rightarrow> x) \<noteq> b \<longleftrightarrow> (\<exists>e \<in> set es. ck_ref e = k \<and> ck_closed e \<noteq> b)"
proof -
  have "map_of (map (\<lambda>e. (ck_ref e, ck_closed e)) es) k = Some x \<longleftrightarrow> (k, x) \<in> set (map (\<lambda>e. (ck_ref e, ck_closed e)) es)" for x
    by (rule map_of_eq_Some_iff) (simp add: comp_def assms)
  moreover have "map_of (map (\<lambda>e. (ck_ref e, ck_closed e)) es) k = None \<Longrightarrow> \<forall>e \<in> set es. ck_ref e \<noteq> k"
    by (simp add: map_of_eq_None_iff) force
  ultimately show ?thesis
    by (cases "map_of (map (\<lambda>e. (ck_ref e, ck_closed e)) es) k") auto
qed

end
