(* ===== verification/ForgeExamples.thy ===== *)
theory ForgeExamples
  imports PublishFacts CompleteFacts EpicExamples
begin

text \<open>
  A tracker: a forge that keeps its issues in a list, never fails and refuses nothing but what is
  not there.  It satisfies the laws the properties of publishing and completing rest on, and the
  sample plan is published to it and closed on it.
\<close>

section \<open>Folding a character by its bits\<close>

lemma fold_char_bits [code]:
  "fold_char (Char b0 b1 b2 b3 b4 b5 b6 b7) =
     (if b6 \<and> \<not> b5 then
        (if b7 then
           (if b0 \<and> b1 \<and> b2 \<and> b3 \<and> b4 then ''ss''
            else if b0 \<and> b1 \<and> b2 \<and> \<not> b3 \<and> b4 then [Char b0 b1 b2 b3 b4 b5 b6 b7]
            else [Char b0 b1 b2 b3 b4 True b6 b7])
         else if \<not> (b0 \<or> b1 \<or> b2 \<or> b3 \<or> b4) \<or> b4 \<and> b3 \<and> (b2 \<or> b0 \<and> b1) then [Char b0 b1 b2 b3 b4 b5 b6 b7]
         else [Char b0 b1 b2 b3 b4 True b6 b7])
      else [Char b0 b1 b2 b3 b4 b5 b6 b7])"
  by (cases b0; cases b1; cases b2; cases b3; cases b4; cases b5; cases b6; cases b7)
    (simp_all add: fold_char_def is_upper_ascii_def Let_def char_of_def bit_Suc_0_iff)

section \<open>The tracker\<close>

record tracker_issue =
  tk_repo :: string
  tk_row :: issue_row
  tk_comments :: "string list"
  tk_subs :: "(string \<times> int) list"

type_synonym tracker = "tracker_issue list"

definition missing :: forge_error where
  "missing = \<lparr>fe_text = ''Not Found'', fe_type = ''GithubOpsError'', fe_github = True, fe_status = Some 404\<rparr>"

definition is_issue :: "string \<Rightarrow> int \<Rightarrow> tracker_issue \<Rightarrow> bool" where
  "is_issue repo k i = (tk_repo i = repo \<and> ir_number (tk_row i) = Some k)"

definition on_issue :: "string \<Rightarrow> int \<Rightarrow> (tracker_issue \<Rightarrow> tracker_issue) \<Rightarrow> (tracker_issue \<Rightarrow> 'a) \<Rightarrow> (tracker, 'a) call" where
  "on_issue repo k change answer f = (case find (is_issue repo k) f of
     None \<Rightarrow> (Inl missing, f)
   | Some i \<Rightarrow> (Inr (answer (change i)), map (\<lambda>j. if is_issue repo k j then change j else j) f))"

definition issue_url :: "string \<Rightarrow> int \<Rightarrow> string" where
  "issue_url repo k = ''https://forge/'' @ repo @ ''/issues/'' @ int_str k"

definition opened_issue :: "string \<Rightarrow> int \<Rightarrow> string \<Rightarrow> string \<Rightarrow> string list \<Rightarrow> tracker_issue" where
  "opened_issue repo k title body labels = \<lparr>tk_repo = repo,
     tk_row = \<lparr>ir_number = Some k, ir_html_url = issue_url repo k, ir_title = title, ir_body = body, ir_state = ''open'',
       ir_updated_at = None, ir_labels = labels, ir_pull_request = False, ir_full = True\<rparr>, tk_comments = [], tk_subs = []\<rparr>"

definition with_row :: "(issue_row \<Rightarrow> issue_row) \<Rightarrow> tracker_issue \<Rightarrow> tracker_issue" where
  "with_row g i = i\<lparr>tk_row := g (tk_row i)\<rparr>"

definition tracked :: "tracker \<Rightarrow> string \<Rightarrow> string \<Rightarrow> issue_row list" where
  "tracked f repo label = map tk_row (filter (\<lambda>i. tk_repo i = repo \<and> label \<in> set (ir_labels (tk_row i))) f)"

definition comments_of :: "tracker \<Rightarrow> string \<Rightarrow> int \<Rightarrow> string list" where
  "comments_of f repo k = (case find (is_issue repo k) f of None \<Rightarrow> [] | Some i \<Rightarrow> tk_comments i)"

definition tracker_ops :: "tracker issue_ops" where
  "tracker_ops = \<lparr>
     issue_create = (\<lambda>repo title body labels f. let k = int (Suc (length f)) in
       (Inr (k, issue_url repo k), f @ [opened_issue repo k title body labels])),
     issue_get = (\<lambda>repo k. on_issue repo k id tk_row),
     issue_update = (\<lambda>repo k title body. on_issue repo k
       (with_row (\<lambda>r. (case body of None \<Rightarrow> r | Some b \<Rightarrow> r\<lparr>ir_body := b\<rparr>)\<lparr>ir_title := (case title of None \<Rightarrow> ir_title r | Some t \<Rightarrow> t)\<rparr>)) tk_row),
     issue_comment = (\<lambda>repo k b. on_issue repo k (\<lambda>i. i\<lparr>tk_comments := tk_comments i @ [b]\<rparr>) (\<lambda>_. b)),
     issue_comments = (\<lambda>repo k. on_issue repo k id tk_comments),
     issues_list = (\<lambda>repo state labels per page f.
       (Inr (take per (drop (per * (page - 1)) (tracked f repo (hd labels)))), f)),
     issue_labels_add = (\<lambda>repo k labels. on_issue repo k (with_row (\<lambda>r. r\<lparr>ir_labels := ir_labels r @ labels\<rparr>)) (\<lambda>_. ())),
     issue_close = (\<lambda>repo k why. on_issue repo k (with_row (\<lambda>r. r\<lparr>ir_state := ''closed''\<rparr>)) (\<lambda>_. ())),
     label_lookup = (\<lambda>repo name f. (Inr True, f)),
     label_create = (\<lambda>repo name color about f. (Inr (), f)),
     sub_issue_add = (\<lambda>repo k child_repo child. on_issue repo k (\<lambda>i. i\<lparr>tk_subs := tk_subs i @ [(child_repo, child)]\<rparr>) (\<lambda>_. ())),
     sub_issue_remove = (\<lambda>repo k child_repo child. on_issue repo k
       (\<lambda>i. i\<lparr>tk_subs := filter (\<lambda>c. c \<noteq> (child_repo, child)) (tk_subs i)\<rparr>) (\<lambda>_. ())),
     sub_issues_list = (\<lambda>repo k f. case find (is_issue repo k) f of
       None \<Rightarrow> (Inl missing, f)
     | Some i \<Rightarrow> (Inr (concat (map (\<lambda>(r, c). map tk_row (filter (is_issue r c) f)) (tk_subs i))), f))\<rparr>"

section \<open>The tracker keeps the laws\<close>

lemma on_issue_id: "snd (on_issue repo k id answer f) = f"
  by (simp add: on_issue_def cong: if_cong split: option.splits)

lemma find_changed_issue:
  assumes "\<And>i. is_issue repo k i \<Longrightarrow> is_issue repo k (change i)"
  shows "find (is_issue r l) (map (\<lambda>j. if is_issue repo k j then change j else j) f) =
    map_option (\<lambda>j. if is_issue repo k j then change j else j) (find (is_issue r l) f)"
proof (induction f)
  case (Cons j f)
  have "is_issue r l (if is_issue repo k j then change j else j) = is_issue r l j"
    using assms[of j] by (auto simp: is_issue_def)
  with Cons show ?case by simp
qed simp

lemma tracker_lists: "lists_issues tracker_ops tracked"
  by (simp add: lists_issues_def tracker_ops_def)

lemma tracker_answers: "answers_listing tracker_ops f"
  by (simp add: answers_listing_def tracker_ops_def)

lemma tracker_lists_created: "lists_created tracker_ops tracked"
  by (auto simp: lists_created_def tracker_ops_def tracked_def opened_issue_def Let_def)

lemma tracker_labels: "labels_keep_issues tracker_ops tracked"
  by (simp add: labels_keep_issues_def keeps_issues_def tracker_ops_def)

lemma tracker_reads: "reads_issues tracker_ops"
  by (simp add: reads_issues_def tracker_ops_def on_issue_id)

lemma comments_changed:
  assumes "\<And>i. is_issue repo k i \<Longrightarrow> is_issue repo k (change i)"
  shows "comments_of (snd (on_issue repo k change answer f)) r l =
    (case find (is_issue r l) f of None \<Rightarrow> []
     | Some i \<Rightarrow> if is_issue repo k i then tk_comments (change i) else tk_comments i)"
proof (cases "find (is_issue repo k) f")
  case None
  then have "\<forall>i \<in> set f. \<not> is_issue repo k i" by (simp add: find_None_iff)
  then show ?thesis using None
    by (auto simp: on_issue_def comments_of_def split: option.splits dest: find_SomeD)
next
  case (Some i)
  then show ?thesis
    by (simp add: on_issue_def comments_of_def find_changed_issue[OF assms] split: option.splits)
qed

lemma tracker_comments: "keeps_comments tracker_ops comments_of"
  unfolding keeps_comments_def
proof (intro allI conjI)
  fix repo k f why b
  have close: "is_issue repo k i \<Longrightarrow> is_issue repo k (with_row (\<lambda>r. r\<lparr>ir_state := ''closed''\<rparr>) i)" for i
    by (simp add: is_issue_def with_row_def)
  have post: "is_issue repo k i \<Longrightarrow> is_issue repo k (i\<lparr>tk_comments := tk_comments i @ [b]\<rparr>)" for i
    by (simp add: is_issue_def)
  show "comments_of (snd (issue_get tracker_ops repo k f)) = comments_of f"
    "comments_of (snd (issue_comments tracker_ops repo k f)) = comments_of f"
    by (simp_all add: tracker_ops_def on_issue_id)
  show "comments_of (snd (issue_close tracker_ops repo k why f)) = comments_of f"
    by (intro ext) (simp add: tracker_ops_def comments_changed[OF close], simp add: comments_of_def with_row_def split: option.splits)
  show "comments_of (snd (issue_comment tracker_ops repo k b f)) repo k = comments_of f repo k @ [b] \<or>
      isl (fst (issue_comment tracker_ops repo k b f)) \<and> comments_of (snd (issue_comment tracker_ops repo k b f)) repo k = comments_of f repo k"
    using comments_changed[OF post, where answer = "\<lambda>_. b" and f = f and r = repo and l = k]
    by (auto simp: tracker_ops_def comments_of_def on_issue_def split: option.splits dest: find_SomeD)
  fix cs
  show "fst (issue_comments tracker_ops repo k f) = Inr cs \<longrightarrow> cs = comments_of f repo k"
    by (auto simp: tracker_ops_def on_issue_def comments_of_def split: option.splits)
qed

section \<open>A level ready to publish\<close>

text \<open>A published epic with two approved tasks, the first in order depending on the second.\<close>

definition ready_task :: "ident \<Rightarrow> int \<Rightarrow> ident list \<Rightarrow> plan_node" where
  "ready_task i position deps = (sample_node i (Some ''a'') position Task 1 ''Ready'')
     \<lparr>n_state := Approved, n_depends_on := deps, n_goal := ''Do it'', n_acceptance_criteria := [''it works'', ''it is fast''],
      n_verify_commands := [''make test'']\<rparr>"

definition ready_nodes :: "plan_node list" where
  "ready_nodes = [epic_node ''a'' None 0 Epic 1, ready_task ''s'' 0 [''t''], ready_task ''t'' 1 []]"

definition ready_db :: db where
  "ready_db = \<lparr>db_plans = [plan_row_for (new_plan ''p'' (epic_node ''a'' None 0 Epic 1) 1 sample_actor
       (brief_of (epic_node ''a'' None 0 Epic 1)) Manual None)],
     db_nodes = map columns ready_nodes, db_events = []\<rparr>"

definition ready_plan :: plan where
  "ready_plan = (case store_get ready_db ''p'' of Some p \<Rightarrow> p | None \<Rightarrow> undefined)"

lemma ready_wf: "db_wf ready_db"
proof -
  have rows: "raw_nodes ready_db ''p'' = ready_nodes" by code_simp
  have "concat (map (\<lambda>n. map (Pair (n_id n)) (n_depends_on n)) ready_nodes) = [(''s'', ''t'')]" by code_simp
  then have edges: "dep_edges ready_nodes = {(''s'', ''t'')}" by (simp only: dep_edges_list) simp
  have "tree_ok ''a'' ready_nodes"
    by (simp add: tree_ok_def parent_ok_def ready_nodes_def ready_task_def epic_node_def sample_node_def new_node_def)
  moreover have "\<forall>n\<in>set ready_nodes. n_plan_id n = ''p'' \<and> node_ok n" by code_simp
  moreover have "\<forall>n\<in>set ready_nodes. set (n_depends_on n) \<subseteq> sibling_ids ready_nodes n"
    unfolding sibling_ids_list by code_simp
  moreover have "acyclic {(''s'', ''t'')}" by (rule acyclic_insert[THEN iffD2]) (simp add: acyclic_def)
  ultimately have "wf_nodes ''p'' ''a'' ready_nodes" using edges by (simp add: wf_nodes_def deps_ok_def)
  then show ?thesis by (rule one_plan_wf[OF _ rows]) code_simp+
qed

lemma ready_get: "store_get ready_db ''p'' = Some ready_plan"
proof -
  have "\<not> Option.is_none (store_get ready_db ''p'')" by code_simp
  then show ?thesis by (cases "store_get ready_db ''p''") (auto simp: ready_plan_def)
qed

definition sample_su :: "tracker surroundings" where
  "sample_su = \<lparr>su_ops = tracker_ops, su_clock = (\<lambda>k. 100 + of_nat k), su_others = (\<lambda>_ d. d), su_pages = 3\<rparr>"

definition epic_issue :: tracker_issue where
  "epic_issue = opened_issue ''acme/app'' 1 ''Published'' (marker ''p'' ''a'') [''sbx:epic'']"

definition ready_site :: "tracker site" where
  "ready_site = \<lparr>st_db = ready_db, st_forge = [epic_issue], st_tick = 0\<rparr>"

definition task_issue :: "int \<Rightarrow> ident \<Rightarrow> tracker_issue" where
  "task_issue k i = opened_issue ''acme/app'' k ''Published'' (marker ''p'' i) [''sbx:task'']"

definition closed_issue :: "tracker_issue \<Rightarrow> tracker_issue" where
  "closed_issue = with_row (\<lambda>r. r\<lparr>ir_state := ''closed''\<rparr>)"

text \<open>The epic of the sample run on the tracker, with two of its three tasks closed, and with all.\<close>

definition open_site :: "tracker site" where
  "open_site = \<lparr>st_db = epic_plans, st_forge = [epic_issue, closed_issue (task_issue 2 ''t''),
     closed_issue (task_issue 3 ''s''), task_issue 4 ''u''], st_tick = 0\<rparr>"

definition done_site :: "tracker site" where
  "done_site = open_site\<lparr>st_forge := [epic_issue, closed_issue (task_issue 2 ''t''),
     closed_issue (task_issue 3 ''s''), closed_issue (task_issue 4 ''u'')]\<rparr>"

text \<open>Publishing the level, evaluated.\<close>

definition published_numbers :: "level_result \<Rightarrow> (ident \<times> outcome \<times> int option) list" where
  "published_numbers r = map (\<lambda>x. (nr_node_id x, nr_outcome x, nr_number x)) (lr_results r)"

lemma ready_published:
  "(case publish_level sample_su sample_config ready_plan ''a'' (Some sample_actor) None ready_site of
      (Inl e, s) \<Rightarrow> None | (Inr r, s) \<Rightarrow> Some (published_numbers r, length (st_forge s)))
    = Some ([(''t'', Created, Some 2), (''s'', Created, Some 3)], 3)"
  by code_simp

end
