(* ===== verification/ForgeClaims.thy ===== *)
theory ForgeClaims
  imports ForgeExamples
begin

text \<open>
  The properties of publishing and completing: what an issue's body says, the order of a level, the
  lookup by marker, what a level does to the plan and to the issues, and what a completion look
  closes.  Each stands over the laws of the forge it rests on, which the tracker of
  \<open>ForgeExamples\<close> keeps.
\<close>

section \<open>Bodies\<close>

definition told_node :: plan_node where
  "told_node = (ready_task ''s'' 0 [''t''])\<lparr>n_context := ''Some context'', n_kind := Some WorkloadTask, n_workload_profile := Some ''etl''\<rparr>"

text \<open>C29: an issue's body, as it is rendered for a node whose texts are plain, carries the node's
  marker and reads back as the node's sections: the texts stripped, the criteria and commands that
  are not blank, the dependencies as issue references.\<close>

theorem rendered_body_reads_back:
  assumes "readable n known"
  shows "marked (render_body n known) (n_plan_id n) (n_id n) \<and> parse_sections (render_body n known) = node_sections n known"
  using assms rendered_reads_back rendered_is_marked by (auto simp: readable_def)

theorem rendered_body_reads_back_witness:
  "parse_sections (render_body told_node [(''t'', ''acme/app'', new_ref 7 [] ForgeOpen)]) =
    [(''goal'', Words ''Do it''), (''context'', Words ''Some context''), (''acceptance_criteria'', Entries [''it works'', ''it is fast'']),
     (''kind'', Words (''workload (workload profile '' @ [backtick] @ ''etl'' @ [backtick] @ '')'')),
     (''verify_commands'', Entries [''make test'']), (''depends_on'', Entries [''#7''])]"
proof -
  have r: "readable told_node [(''t'', ''acme/app'', new_ref 7 [] ForgeOpen)]" by code_simp
  have "node_sections told_node [(''t'', ''acme/app'', new_ref 7 [] ForgeOpen)] =
    [(''goal'', Words ''Do it''), (''context'', Words ''Some context''), (''acceptance_criteria'', Entries [''it works'', ''it is fast'']),
     (''kind'', Words (''workload (workload profile '' @ [backtick] @ ''etl'' @ [backtick] @ '')'')),
     (''verify_commands'', Entries [''make test'']), (''depends_on'', Entries [''#7''])]" by code_simp
  then show ?thesis using rendered_body_reads_back[OF r] by simp
qed

section \<open>Publishing\<close>

text \<open>C30: publishing a node's level writes the node itself when it is not published and its
  approved children, or those of them asked for, each once, a node before every node that depends
  on it or has it as parent.\<close>

theorem level_is_in_order:
  assumes "db_wf d" and "store_get d i = Some p" and "plan_node_of p e = Some n"
  shows "set (level_targets p e only) = (if n_state n = Published then {} else {n})
      \<union> {c \<in> set (p_nodes p). n_parent_id c = Some e \<and> n_state c = Approved \<and> (case only of None \<Rightarrow> True | Some ids \<Rightarrow> n_id c \<in> set ids)}
    \<and> distinct (map n_id (level_targets p e only))
    \<and> sorted_wrt (\<lambda>a b. n_id b \<notin> set (n_depends_on a) \<and> n_parent_id a \<noteq> Some (n_id b)) (level_targets p e only)"
  using level_targets_shape[OF store_get_nodes(2)[OF assms(1,2)] assms(3)] by blast

theorem level_is_in_order_witness:
  "map n_id (level_targets ready_plan ''a'' None) = [''t'', ''s'']
    \<and> sorted_wrt (\<lambda>a b. n_id b \<notin> set (n_depends_on a) \<and> n_parent_id a \<noteq> Some (n_id b)) (level_targets ready_plan ''a'' None)"
proof -
  have "\<not> Option.is_none (plan_node_of ready_plan ''a'')" by code_simp
  then obtain n where n: "plan_node_of ready_plan ''a'' = Some n" by (cases "plan_node_of ready_plan ''a''") auto
  have "map n_id (level_targets ready_plan ''a'' None) = [''t'', ''s'']" by code_simp
  with level_is_in_order[OF ready_wf ready_get n, of None] show ?thesis by simp
qed

text \<open>C31: when the forge answers, the walk of the pages of a label ends as soon as the pages
  allowed cover its issues, and it finds an issue for exactly the nodes whose marker one of the
  issues carries, an issue that does carry it.\<close>

theorem lookup_ends_and_finds_all:
  assumes "lists_issues ops view" and "answers_listing ops (st_forge s)"
    and "length (view (st_forge s) repo label) < page_size * Suc k"
  shows "\<exists>found. read_pages (Suc k) ops p repo label 1 [] s = (Inr found, s)
    \<and> (\<forall>n. n \<in> fst ` set found \<longleftrightarrow> (\<exists>row \<in> set (view (st_forge s) repo label). carries p n row))
    \<and> (\<forall>(n, row) \<in> set found. row \<in> set (view (st_forge s) repo label) \<and> carries p n row)"
proof -
  obtain found where f: "read_pages (Suc k) ops p repo label 1 [] s = (Inr found, s)"
    using read_pages_ends[OF assms(1,2), of repo label 0 k] assms(3) by auto
  from read_pages_reads[OF assms(1), of "Suc k" p repo label 0 "[]" s] f
  have r: "found = foldl (read_row p) [] (view (st_forge s) repo label)" by simp
  show ?thesis
    using f read_rows_keys[of p "[]" "view (st_forge s) repo label"] read_rows_values[of _ _ p "[]" "view (st_forge s) repo label"]
    unfolding r by (intro exI conjI) auto
qed

theorem lookup_ends_and_finds_all_witness:
  "\<exists>found. read_pages (Suc 0) tracker_ops ''p'' ''acme/app'' ''sbx:task'' 1 [] open_site = (Inr found, open_site)
    \<and> fst ` set found = {''t'', ''s'', ''u''}"
proof -
  have l: "length (tracked (st_forge open_site) ''acme/app'' ''sbx:task'') < page_size * Suc 0" by code_simp
  have m: "\<forall>row \<in> set (tracked (st_forge open_site) ''acme/app'' ''sbx:task''). \<not> ir_pull_request row" by code_simp
  have n: "concat (map (markers \<circ> ir_body) (tracked (st_forge open_site) ''acme/app'' ''sbx:task'')) = [(''p'', ''t''), (''p'', ''s''), (''p'', ''u'')]"
    by code_simp
  from lookup_ends_and_finds_all[OF tracker_lists tracker_answers l, of "''p''"] obtain found where
    f: "read_pages (Suc 0) tracker_ops ''p'' ''acme/app'' ''sbx:task'' 1 [] open_site = (Inr found, open_site)"
      "\<forall>n. n \<in> fst ` set found \<longleftrightarrow> (\<exists>row \<in> set (tracked (st_forge open_site) ''acme/app'' ''sbx:task''). carries ''p'' n row)" by blast
  have "n \<in> fst ` set found \<longleftrightarrow> (''p'', n) \<in> set [(''p'', ''t''), (''p'', ''s''), (''p'', ''u'')]" for n
    unfolding n[symmetric] using f(2) m by (auto simp: carries_def marked_def)
  then have "fst ` set found = {''t'', ''s'', ''u''}" by auto
  with f(1) show ?thesis by blast
qed

text \<open>C32: once a step created a node's issue, no later publishing creates it again: as long as the
  forge still lists what it listed then, the step finds the issue, and never asks for a new one.\<close>

theorem issues_are_created_once:
  assumes "lists_issues (su_ops su) view" and "lists_created (su_ops su) view" and "labels_keep_issues (su_ops su) view"
    and "id_ok (n_plan_id n)" and "id_ok (n_id n)"
    and "walk_issue su cfg (n_plan_id n) n (s, fresh_walk known) = (Inr (Created, ref), (s', w'))"
    and "\<And>repo label. set (view (st_forge s') repo label) \<subseteq> set (view (st_forge t) repo label)"
  shows "walk_issue (creating su c) cfg (n_plan_id n) n (t, fresh_walk known') = walk_issue su cfg (n_plan_id n) n (t, fresh_walk known')
    \<and> (\<forall>oc ref' sw. walk_issue su cfg (n_plan_id n) n (t, fresh_walk known') = (Inr (oc, ref'), sw) \<longrightarrow> oc = Found)"
proof -
  have row: "\<exists>row \<in> set (view (st_forge t) (n_repository n) label). carries (n_plan_id n) (n_id n) row"
    if "level_label cfg (n_repository n) (n_level n) = Some label" for label
    using walk_issue_creates[OF assms(2,4,5,6) that] assms(7) by blast
  show ?thesis using walk_issue_finds[OF assms(1,3) row] by blast
qed

theorem issues_are_created_once_witness:
  "\<exists>s' w' ref. walk_issue sample_su sample_config ''p'' (ready_task ''t'' 1 []) (ready_site, fresh_walk []) = (Inr (Created, ref), (s', w'))
    \<and> (\<forall>oc ref' sw. walk_issue sample_su sample_config ''p'' (ready_task ''t'' 1 []) (s', fresh_walk []) = (Inr (oc, ref'), sw) \<longrightarrow> oc = Found)"
proof -
  let ?n = "ready_task ''t'' 1 []"
  have p: "n_plan_id ?n = ''p''" "id_ok (n_plan_id ?n)" "id_ok (n_id ?n)" by code_simp+
  have "(case walk_issue sample_su sample_config ''p'' ?n (ready_site, fresh_walk []) of (Inr (oc, ref), sw) \<Rightarrow> oc = Created | _ \<Rightarrow> False)"
    by code_simp
  then obtain ref s' w' where r: "walk_issue sample_su sample_config (n_plan_id ?n) ?n (ready_site, fresh_walk []) = (Inr (Created, ref), (s', w'))"
    unfolding p(1) by (auto split: prod.splits sum.splits)
  have ops: "su_ops sample_su = tracker_ops" by (simp add: sample_su_def)
  note laws = tracker_lists[folded ops] tracker_lists_created[folded ops] tracker_labels[folded ops]
  from issues_are_created_once[OF laws p(2,3) r subset_refl, of _ "[]"] r show ?thesis unfolding p(1) by blast
qed

text \<open>C33: publishing a level reports on exactly the nodes of the level, in order, and a node is not
  attempted when its parent or a node it depends on failed before it.\<close>

theorem dependents_of_failures_wait:
  assumes "publish_level su cfg p e actor only s = (Inr res, s')"
  shows "map nr_node_id (lr_results res) = map n_id (level_targets p e only)
    \<and> (\<forall>i j. i < j \<and> j < length (level_targets p e only) \<and> nr_outcome (lr_results res ! i) = Failed
        \<and> nr_node_id (lr_results res ! i) \<in> set (needs (level_targets p e only ! j)) \<longrightarrow> not_attempted (lr_results res ! j))"
proof -
  from assms obtain w where w: "walk_level su cfg (p_id p) actor [] (level_targets p e only)
      (s, \<lparr>wk_refs = refs p, wk_labels = [], wk_issues = [], wk_children = []\<rparr>) = (Inr (lr_results res), (s', w))"
    by (auto simp: publish_level_def split: prod.splits sum.splits)
  from walk_level_blocked[OF w] show ?thesis by blast
qed


text \<open>The tracker with its epic's issue closed to comments and links: creating works, linking fails.\<close>

definition no_links :: "tracker issue_ops" where
  "no_links = tracker_ops\<lparr>sub_issue_add := (\<lambda>repo k child_repo child f. (Inl missing, f))\<rparr>"

theorem dependents_of_failures_wait_witness:
  "\<exists>res s'. publish_level (sample_su\<lparr>su_ops := no_links\<rparr>) sample_config ready_plan ''a'' None None ready_site = (Inr res, s')
    \<and> nr_outcome (lr_results res ! 0) = Failed \<and> not_attempted (lr_results res ! 1)"
proof -
  let ?run = "publish_level (sample_su\<lparr>su_ops := no_links\<rparr>) sample_config ready_plan ''a'' None None ready_site"
  have "(case ?run of (Inr r, s) \<Rightarrow> nr_outcome (lr_results r ! 0) = Failed | _ \<Rightarrow> False)" by code_simp
  then obtain res s' where r: "?run = (Inr res, s')" "nr_outcome (lr_results res ! 0) = Failed"
    by (auto split: prod.splits sum.splits)
  have t: "map (\<lambda>n. (n_id n, needs n)) (level_targets ready_plan ''a'' None) = [(''t'', [''a'']), (''s'', [''a'', ''t''])]" by code_simp
  then obtain n m where nm: "level_targets ready_plan ''a'' None = [n, m]" "n_id n = ''t''" "needs m = [''a'', ''t'']"
    by (auto simp: map_eq_Cons_conv)
  from dependents_of_failures_wait[OF r(1)] nm
  have "map nr_node_id (lr_results res) = [''t'', n_id m]" and w: "nr_outcome (lr_results res ! 0) = Failed \<Longrightarrow>
      nr_node_id (lr_results res ! 0) \<in> set (needs m) \<Longrightarrow> not_attempted (lr_results res ! 1)" by force+
  then have "nr_node_id (lr_results res ! 0) = ''t''" by (auto simp: map_eq_Cons_conv)
  with w r nm(3) show ?thesis by auto
qed





section \<open>Completing\<close>

text \<open>C36: while the forge shows any child of an epic not closed, or does not answer for it, looking at
  the epic neither closes nor comments any issue.\<close>

theorem nothing_closes_before_its_children:
  assumes "reads_issues (su_ops su)" and "db_wf (st_db s)" and "store_get (st_db s) i = Some p"
    and "c \<in> set (on_forge_nodes (children p e))" and "\<not> shown_closed (su_ops su) (st_forge s) c"
  shows "complete_epic (closing su x m) cfg opened i e run link s = complete_epic su cfg opened i e run link s"
proof -
  note same = look_epic_waits[OF assms, of x m cfg run link]
  have "andthen (look_epic (closing su x m) cfg i e run link) (\<lambda>r. ret (Some r)) s
      = andthen (look_epic su cfg i e run link) (\<lambda>r. ret (Some r) :: ('a site, fault, completion_result option) action) s"
    by (simp only: andthen_def same)
  then show ?thesis
    by (cases opened) (auto simp: complete_epic_def handle_def split: bool.splits)
qed

theorem nothing_closes_before_its_children_witness:
  "complete_epic (closing sample_su (\<lambda>repo k why f. (Inr (), [])) (\<lambda>repo k b f. (Inr b, []))) sample_config (Inr True) ''p'' ''a'' None None open_site
    = complete_epic sample_su sample_config (Inr True) ''p'' ''a'' None None open_site"
proof -
  have "list_ex (\<lambda>c. \<not> shown_closed tracker_ops (st_forge open_site) c) (on_forge_nodes (children epic_plan ''a''))" by code_simp
  then obtain c where c: "c \<in> set (on_forge_nodes (children epic_plan ''a''))" "\<not> shown_closed (su_ops sample_su) (st_forge open_site) c"
    by (auto simp: list_ex_iff sample_su_def)
  have r: "reads_issues (su_ops sample_su)" by (simp add: sample_su_def tracker_reads)
  have d: "db_wf (st_db open_site)" "store_get (st_db open_site) ''p'' = Some epic_plan"
    by (simp_all add: open_site_def epic_plans_wf epic_plan_get)
  show ?thesis by (rule nothing_closes_before_its_children[OF r d c])
qed

text \<open>C37: closing an epic's issue leaves one summary on it, and repeating the look adds none: the
  comments that carry the epic's marker are never more than one, or than they were, and after a
  close exactly that many.\<close>

theorem one_summary_per_epic:
  assumes "keeps_comments (su_ops su) notes"
    and "close_node su (p_id p) n (epic_summary p n tasks run link) res s = (r, s')"
  shows "summaries notes (p_id p) n (st_forge s') \<le> max 1 (summaries notes (p_id p) n (st_forge s))
    \<and> (\<forall>res'. r = Inr res' \<and> cr_closed res' \<noteq> cr_closed res \<longrightarrow>
        summaries notes (p_id p) n (st_forge s') = max 1 (summaries notes (p_id p) n (st_forge s)))"
proof -
  have "mentions (summary_marker (p_id p) (n_id n)) (epic_summary p n tasks run link)"
    by (simp add: epic_summary_def join.simps mentions_prefix)
  from tripleD[OF close_node_summaries[OF assms(1) this] refl assms(2)] show ?thesis by blast
qed

theorem one_summary_per_epic_witness:
  "\<exists>res s'. close_node sample_su ''p'' (hd epic_nodes) (epic_summary epic_plan (hd epic_nodes) [] None None) no_result done_site = (Inr res, s')
    \<and> cr_closed res = [''a''] \<and> summaries comments_of ''p'' (hd epic_nodes) (st_forge s') = 1"
proof -
  let ?run = "close_node sample_su ''p'' (hd epic_nodes) (epic_summary epic_plan (hd epic_nodes) [] None None) no_result done_site"
  have "(case ?run of (Inr r, s) \<Rightarrow> cr_closed r = [''a''] | _ \<Rightarrow> False)" by code_simp
  then obtain res s' where r: "?run = (Inr res, s')" "cr_closed res = [''a'']" by (auto split: prod.splits sum.splits)
  have id: "p_id epic_plan = ''p''" by code_simp
  have k: "keeps_comments (su_ops sample_su) comments_of" by (simp add: sample_su_def tracker_comments)
  have z: "summaries comments_of ''p'' (hd epic_nodes) (st_forge done_site) = 0" by code_simp
  from one_summary_per_epic[OF k, of epic_plan, unfolded id, OF r(1)] r z show ?thesis by (simp add: no_result_def)
qed

text \<open>C28: the change a completion look makes to a parent's description succeeds on every description
  that reads as children; afterwards each line whose issue is one of the looked-at children is
  ticked exactly when that child is closed, every other line is as it was (titles squashed), and
  the children reported as moved are the ones whose mark changed.\<close>

theorem checklist_mirrors_the_children:
  assumes "parse_checklist body = Inr es" and "\<forall>e \<in> set es. clean (squash (ck_title e))"
    and "distinct (map issue_ref cs)" and "distinct (map ck_ref es)"
  shows "\<exists>moved body' es'. tick_change cs states body = Inr (moved, body') \<and> parse_checklist body' = Inr es'
    \<and> map squashed es' = map (mirrored states cs) (map squashed es)
    \<and> moved = map n_id (filter (\<lambda>c. list_ex (\<lambda>e. ck_ref e = issue_ref c
        \<and> ck_closed e \<noteq> (map_of states (n_id c) = Some ForgeClosed)) es) cs)"
proof -
  let ?closed = "\<lambda>c. map_of states (n_id c) = Some ForgeClosed"
  have "\<forall>e \<in> set (map squashed es). clean (ck_title e)" using assms(2) by (simp add: squashed_def)
  from tick_lines_mirror[OF assms(1) this assms(3)] obtain body' es' where
    r: "tick_lines states cs body = Inr body'" "parse_checklist body' = Inr es'"
      "map squashed es' = map (mirrored states cs) (map squashed es)" by blast
  let ?moved = "filter (\<lambda>c. (case map_of (map (\<lambda>e. (ck_ref e, ck_closed e)) es) (issue_ref c) of None \<Rightarrow> ?closed c | Some b \<Rightarrow> b) \<noteq> ?closed c) cs"
  have "tick_change cs states body = Inr (map n_id ?moved, body')"
    using r(1) assms(1) by (simp only: tick_change_def bindR.simps Let_def listed_entries[OF assms(4)])
  moreover have "?moved = filter (\<lambda>c. list_ex (\<lambda>e. ck_ref e = issue_ref c \<and> ck_closed e \<noteq> ?closed c) es) cs"
    unfolding moved_children[OF assms(4)] list_ex_iff ..
  ultimately show ?thesis using r(2,3) by (intro exI conjI) (assumption, assumption, assumption, simp only:)
qed

theorem checklist_mirrors_the_children_witness:
  "\<exists>moved body' es'. tick_change (on_forge_nodes (children epic_plan ''a'')) [(''t'', ForgeClosed), (''s'', ForgeOpen), (''u'', ForgeOpen)]
      (render_checklist [\<lparr>ck_ref = ''acme/app#2'', ck_title = ''First'', ck_closed = False\<rparr>,
         \<lparr>ck_ref = ''acme/app#3'', ck_title = ''Second'', ck_closed = False\<rparr>]) = Inr (moved, body')
    \<and> parse_checklist body' = Inr es' \<and> moved = [''t''] \<and> map ck_closed (map squashed es') = [True, False]"
proof -
  let ?cs = "on_forge_nodes (children epic_plan ''a'')" and ?st = "[(''t'', ForgeClosed), (''s'', ForgeOpen), (''u'', ForgeOpen)]"
  let ?es = "[\<lparr>ck_ref = ''acme/app#2'', ck_title = ''First'', ck_closed = False\<rparr>,
         \<lparr>ck_ref = ''acme/app#3'', ck_title = ''Second'', ck_closed = False\<rparr>]"
  have p: "parse_checklist (render_checklist ?es) = Inr ?es" by code_simp
  have c: "\<forall>e \<in> set ?es. clean (squash (ck_title e))" unfolding clean_def sublist_code by code_simp
  have d: "distinct (map issue_ref ?cs)" "distinct (map ck_ref ?es)" by code_simp+
  have marks: "map ck_closed (map (mirrored ?st ?cs) (map squashed ?es)) = [True, False]" by code_simp
  have m: "map n_id (filter (\<lambda>c. list_ex (\<lambda>e. ck_ref e = issue_ref c \<and> ck_closed e \<noteq> (map_of ?st (n_id c) = Some ForgeClosed)) ?es) ?cs) = [''t'']"
    by code_simp
  from checklist_mirrors_the_children[OF p c d, of ?st] m marks show ?thesis
    by (elim exE conjE) (intro exI conjI, assumption, assumption, simp only:, simp only:)
qed

section \<open>Results\<close>

text \<open>C39: every result of a published level has the shape its node's outcome asks for, and the nodes
  published and the nodes failed are together the nodes of the level.\<close>

theorem results_are_well_typed:
  assumes "publish_level su cfg p e actor only s = (Inr res, s')"
  shows "list_all2 result_ok (level_targets p e only) (lr_results res)
    \<and> set (lr_published res) \<union> set (lr_failed res) = n_id ` set (level_targets p e only)"
proof -
  from assms obtain w where w: "walk_level su cfg (p_id p) actor [] (level_targets p e only)
      (s, \<lparr>wk_refs = refs p, wk_labels = [], wk_issues = [], wk_children = []\<rparr>) = (Inr (lr_results res), (s', w))"
    by (auto simp: publish_level_def split: prod.splits sum.splits)
  have "map nr_node_id (lr_results res) = map n_id (level_targets p e only)" using walk_level_blocked[OF w] by blast
  then have "nr_node_id ` set (lr_results res) = n_id ` set (level_targets p e only)" by (metis set_map)
  then show ?thesis using yieldsD[OF walk_level_results w] by (auto simp: lr_published_def lr_failed_def)
qed

theorem results_are_well_typed_witness:
  "\<exists>res s'. publish_level sample_su sample_config ready_plan ''a'' (Some sample_actor) None ready_site = (Inr res, s')
    \<and> list_all2 result_ok (level_targets ready_plan ''a'' None) (lr_results res)"
proof -
  from ready_published obtain res s' where
    r: "publish_level sample_su sample_config ready_plan ''a'' (Some sample_actor) None ready_site = (Inr res, s')"
    by (auto split: prod.splits sum.splits)
  with results_are_well_typed[OF r] show ?thesis by blast
qed

end
