(* ===== verification/Reconcile.thy ===== *)
theory Reconcile
  imports Forge PlanDrafts
begin

text \<open>
  Reconciling a published plan from the forge (\<open>plans/reconcile.py\<close>): reading the tree (\<open>read_forge\<close>),
  folding the reading into the plan (\<open>fold\<close>) and recording it.  The ids of adopted nodes are an
  argument, as is how often one was handed out; a fold that meets a number \<open>int\<close> refuses raises, as
  the code does.
\<close>

section \<open>Keys\<close>

type_synonym key = "string \<times> int"

definition max_issues :: nat where "max_issues = 500"

definition goal_max :: nat where "goal_max = 8000"

definition key_of :: "string \<Rightarrow> int \<Rightarrow> key" where
  "key_of repo number = (casefold repo, number)"

definition node_key :: "plan_node \<Rightarrow> key option" where
  "node_key n = map_option (\<lambda>f. key_of (n_repository n) (f_number f)) (n_forge n)"

definition number_in :: "string \<Rightarrow> fault + int" where
  "number_in s = (case py_int s of Inl (BadInt t) \<Rightarrow> Inl (BadNumber t) | Inr k \<Rightarrow> Inr k)"

section \<open>What the errors say\<close>

definition hex_digit :: "nat \<Rightarrow> char" where
  "hex_digit k = char_of (if k < 10 then 48 + k else 87 + k)"

definition backslash :: char where "backslash = CHR 0x5C"

definition repr_char :: "char \<Rightarrow> char \<Rightarrow> string" where
  "repr_char quote c = (let n = ord c in
     if c = quote \<or> c = backslash then [backslash, c]
     else if n = 9 then [backslash, CHR ''t''] else if n = 10 then [backslash, CHR ''n'']
     else if n = 13 then [backslash, CHR ''r'']
     else if n < 32 \<or> 127 \<le> n \<and> n \<le> 160 \<or> n = 173 then [backslash, CHR ''x'', hex_digit (n div 16), hex_digit (n mod 16)]
     else [c])"

definition py_repr :: "string \<Rightarrow> string" where
  "py_repr s = (let quote = (if CHR 0x27 \<in> set s \<and> CHR 0x22 \<notin> set s then CHR 0x22 else CHR 0x27) in
     [quote] @ concat (map (repr_char quote) s) @ [quote])"

fun mangled_text :: "checklist_error \<Rightarrow> string" where
  "mangled_text ManyBlocks = ''the parent'' @ [CHR 0x27] @ ''s description has more than one sbx-plan:children block''"
| "mangled_text NoClosing = ''the sbx-plan:children block has no closing marker''"
| "mangled_text NoOpening = ''the sbx-plan:children block has no opening marker''"
| "mangled_text OutOfOrder = ''the sbx-plan:children markers are out of order''"
| "mangled_text (NotAChild k line) = ''line '' @ nat_str k @ '' of the sbx-plan:children block is not a child: '' @ py_repr line"

definition where_is :: "string \<Rightarrow> int \<Rightarrow> string" where
  "where_is repo number = repo @ ''#'' @ int_str number"

section \<open>Reading\<close>

record issue_read =
  rd_seen :: "seen option"
  rd_error :: "string option"
  rd_looked :: bool
  rd_children :: "key list option"
  rd_checklist_error :: "string option"

record snapshot =
  sp_reads :: "(key \<times> issue_read) list"
  sp_errors :: "string list"

type_synonym link = "string \<times> int \<times> issue_row option"

definition blank_read :: issue_read where
  "blank_read = \<lparr>rd_seen = None, rd_error = None, rd_looked = False, rd_children = None, rd_checklist_error = None\<rparr>"

definition parents_with_children :: "plan \<Rightarrow> key list" where
  "parents_with_children p = concat (map (\<lambda>n. case Option.bind (n_parent_id n) (\<lambda>q. if q = [] then None else plan_node_of p q) of
      Some parent \<Rightarrow> if followed n then (case node_key parent of None \<Rightarrow> [] | Some k \<Rightarrow> [k]) else []
    | None \<Rightarrow> []) (p_nodes p))"

definition reader_issue :: "'f issue_ops \<Rightarrow> string \<Rightarrow> int \<Rightarrow> issue_row option \<Rightarrow> 'f \<Rightarrow> issue_read \<times> 'f" where
  "reader_issue ops repo number payload f =
     (case (case payload of None \<Rightarrow> None | Some row \<Rightarrow> if ir_full row then Some row else None) of
        Some row \<Rightarrow> (blank_read\<lparr>rd_seen := Some (seen_of row repo number)\<rparr>, f)
      | None \<Rightarrow> (case issue_get ops repo number f of
            (Inl e, f') \<Rightarrow> if gone e then (blank_read, f')
              else (blank_read\<lparr>rd_error := Some (''could not read '' @ where_is repo number @ '': '' @ say e)\<rparr>, f')
          | (Inr row, f') \<Rightarrow> (blank_read\<lparr>rd_seen := Some (seen_of row repo number)\<rparr>, f')))"

text \<open>The links of a parent, one per issue: a later payload replaces a line without one.\<close>

definition add_link :: "(key \<times> link) list \<Rightarrow> link \<Rightarrow> (key \<times> link) list" where
  "add_link unique link = (let k = key_of (fst link) (fst (snd link)) in
     case map_of unique k of
       None \<Rightarrow> dict_set k link unique
     | Some old \<Rightarrow> if snd (snd old) = None \<and> snd (snd link) \<noteq> None then dict_set k link unique else unique)"

definition line_links :: "checklist_entry list \<Rightarrow> fault + link list" where
  "line_links es = foldR (\<lambda>acc e. let (repo, number) = rpartition_hash (ck_ref e) in
     bindR (number_in number) (\<lambda>k. Inr (acc @ [(repo, k, None)]))) [] es"

definition row_links :: "string \<Rightarrow> issue_row list \<Rightarrow> link list" where
  "row_links repo rows = concat (map (\<lambda>row. case ir_number row of None \<Rightarrow> []
     | Some k \<Rightarrow> [(let r = repo_of (ir_html_url row) in if r = [] then repo else r, k, Some row)]) rows)"

text \<open>The children, why the checklist could not be read, and why the children could not be listed.\<close>

type_synonym found_children = "link list option \<times> string option \<times> string option"

definition links_found :: "link list \<Rightarrow> found_children" where
  "links_found links = (Some (map snd (foldl add_link [] links)), None, None)"

definition reader_children :: "'f issue_ops \<Rightarrow> config \<Rightarrow> key list \<Rightarrow> key \<Rightarrow> seen \<Rightarrow> ('f, fault, found_children) action" where
  "reader_children ops cfg parents key sn f =
     (case parse_checklist (sn_body sn) of
        Inl e \<Rightarrow> (Inr (None, Some (mangled_text e), None), f)
      | Inr entries \<Rightarrow> (case line_links entries of
          Inl e \<Rightarrow> (Inl e, f)
        | Inr links \<Rightarrow> (case repository_planning (vcs_kind_for cfg (sn_repo sn)) of
              Native \<Rightarrow> (case sub_issues_list ops (sn_repo sn) (sn_number sn) f of
                  (Inl e, f') \<Rightarrow> (Inr (None, None, Some (''could not list the sub-issues of ''
                      @ where_is (sn_repo sn) (sn_number sn) @ '': '' @ say e)), f')
                | (Inr rows, f') \<Rightarrow> (Inr (links_found (links @ row_links (sn_repo sn) rows)), f'))
            | ChecklistBlock \<Rightarrow>
                if \<not> mentions start_mark (sn_body sn) \<and> key \<in> set parents
                then (Inr (None, Some ''the sbx-plan:children block is gone from the description'', None), f)
                else (Inr (links_found links), f)
            | Unsupported \<Rightarrow> (Inr (None, None, Some (where_is (sn_repo sn) (sn_number sn) @ [CHR 0x27]
                @ ''s children are not read: its forge cannot hold a plan'')), f))))"

text \<open>One issue of the walk: its reading, the errors it adds, and what comes after it.\<close>

type_synonym entry = "string \<times> int \<times> level \<times> issue_row option"

definition visit_issue :: "'f issue_ops \<Rightarrow> config \<Rightarrow> key list \<Rightarrow> entry \<Rightarrow> ('f, fault, issue_read \<times> string list \<times> entry list) action" where
  "visit_issue ops cfg parents = (\<lambda>(repo, number, level, payload) f.
     let (rd, f1) = reader_issue ops repo number payload f;
         errors = (case rd_error rd of None \<Rightarrow> [] | Some e \<Rightarrow> [e]) in
     case (rd_seen rd, child_level level) of
       (Some sn, Some deeper) \<Rightarrow> (case reader_children ops cfg parents (key_of repo number) sn f1 of
           (Inl e, f2) \<Rightarrow> (Inl e, f2)
         | (Inr (links, checklist_error, error), f2) \<Rightarrow>
             let rd' = rd\<lparr>rd_looked := True, rd_checklist_error := checklist_error\<rparr>;
                 errors' = errors @ (case error of None \<Rightarrow> [] | Some e \<Rightarrow> [e]) in
             case links of
               None \<Rightarrow> (Inr (rd', errors', []), f2)
             | Some ls \<Rightarrow> (Inr (rd'\<lparr>rd_children := Some (map (\<lambda>(r, n, p). key_of r n) ls)\<rparr>, errors',
                 map (\<lambda>(r, n, p). (r, n, deeper, p)) ls), f2))
     | _ \<Rightarrow> (Inr (rd, errors, []), f1))"

definition stop_note :: string where
  "stop_note = ''stopped after reading '' @ nat_str max_issues @ '' issues; the rest of the tree was not read''"

definition stopped :: "snapshot \<Rightarrow> snapshot" where
  "stopped snap = (if stop_note \<in> set (sp_errors snap) then snap else snap\<lparr>sp_errors := sp_errors snap @ [stop_note]\<rparr>)"

definition add_read :: "key \<Rightarrow> issue_read \<Rightarrow> string list \<Rightarrow> snapshot \<Rightarrow> snapshot" where
  "add_read k rd errors snap = snap\<lparr>sp_reads := sp_reads snap @ [(k, rd)], sp_errors := sp_errors snap @ errors\<rparr>"

function read_queue :: "'f issue_ops \<Rightarrow> config \<Rightarrow> key list \<Rightarrow> entry list \<Rightarrow> snapshot \<Rightarrow> ('f, fault, snapshot) action" where
  "read_queue ops cfg parents [] snap f = (Inr snap, f)"
| "read_queue ops cfg parents ((repo, number, level, payload) # queue) snap f =
     (if max_issues \<le> length (sp_reads snap) then (Inr (stopped snap), f)
      else if key_of repo number \<in> fst ` set (sp_reads snap) then read_queue ops cfg parents queue snap f
      else (case visit_issue ops cfg parents (repo, number, level, payload) f of
          (Inl e, f') \<Rightarrow> (Inl e, f')
        | (Inr (rd, errors, new), f') \<Rightarrow>
            read_queue ops cfg parents (queue @ new) (add_read (key_of repo number) rd errors snap) f'))"
  by pat_completeness auto

termination
  by (relation "measures [\<lambda>(ops, cfg, parents, queue, snap, f). max_issues - length (sp_reads snap),
      \<lambda>(ops, cfg, parents, queue, snap, f). length queue]") (auto simp: add_read_def)

text \<open>The followed nodes the walk did not reach, each read on its own.\<close>

fun read_rest :: "'f issue_ops \<Rightarrow> plan_node list \<Rightarrow> snapshot \<Rightarrow> 'f \<Rightarrow> snapshot \<times> 'f" where
  "read_rest ops [] snap f = (snap, f)"
| "read_rest ops (n # ns) snap f = (case node_key n of
      None \<Rightarrow> read_rest ops ns snap f
    | Some k \<Rightarrow>
        if \<not> followed n \<or> k \<in> fst ` set (sp_reads snap) then read_rest ops ns snap f
        else if max_issues \<le> length (sp_reads snap) then read_rest ops ns (stopped snap) f
        else (let (rd, f') = reader_issue ops (n_repository n) (snd k) None f in
          read_rest ops ns (add_read k rd (case rd_error rd of None \<Rightarrow> [] | Some e \<Rightarrow> [e]) snap) f'))"

definition no_reads :: snapshot where "no_reads = \<lparr>sp_reads = [], sp_errors = []\<rparr>"

definition read_forge :: "'f issue_ops \<Rightarrow> config \<Rightarrow> plan \<Rightarrow> ('f, fault, snapshot) action" where
  "read_forge ops cfg p = (case root p of
      None \<Rightarrow> raise (MissingKey (p_root_id p))
    | Some root_node \<Rightarrow> (case n_forge root_node of
        None \<Rightarrow> ret no_reads
      | Some ref \<Rightarrow> if \<not> followed root_node then ret no_reads
          else andthen (read_queue ops cfg (parents_with_children p) [(n_repository root_node, f_number ref, n_level root_node, None)] no_reads)
            (\<lambda>snap f. let (snap', f') = read_rest ops (p_nodes p) snap f in (Inr snap', f'))))"

section \<open>Merging drift\<close>

definition merged_changes :: "drift_change list" where "merged_changes = [DTitle, DSections, DState]"

definition jget0 :: "(string \<times> json) list \<Rightarrow> string \<Rightarrow> json" where
  "jget0 d k = (case map_of d k of None \<Rightarrow> JNull | Some v \<Rightarrow> v)"

definition dict_join :: "(string \<times> json) list \<Rightarrow> (string \<times> json) list \<Rightarrow> (string \<times> json) list" where
  "dict_join a b = foldl (\<lambda>d (k, v). dict_set k v d) a b"

definition new_drift :: "drift_change \<Rightarrow> timestamp \<Rightarrow> (string \<times> json) list \<Rightarrow> (string \<times> json) list \<Rightarrow> string option \<Rightarrow> drift" where
  "new_drift c now was after reason = \<lparr>d_change = c, d_at = now, d_before = was, d_after = after, d_reason = reason\<rparr>"

definition merge_drift :: "drift list \<Rightarrow> drift \<Rightarrow> drift list" where
  "merge_drift entries entry =
     (if d_change entry \<notin> set merged_changes then entries @ [entry]
      else case find (\<lambda>d. d_change d = d_change entry) entries of
        None \<Rightarrow> entries @ [entry]
      | Some existing \<Rightarrow>
          let rest = remove1 existing entries;
              was = dict_join (d_before entry) (d_before existing);
              after = dict_join (d_after existing) (d_after entry);
              keys = filter (\<lambda>k. jget0 was k \<noteq> jget0 after k) (map fst after) in
          if keys = [] then rest
          else rest @ [new_drift (d_change entry) (d_at entry) (map (\<lambda>k. (k, jget0 was k)) keys)
                 (map (\<lambda>k. (k, jget0 after k)) keys) (d_reason entry)])"

section \<open>The state of a fold\<close>

record folding =
  fo_work :: "(ident \<times> plan_node) list"
  fo_touched :: "ident list"
  fo_events :: "plan_event list"
  fo_reached :: "ident list"
  fo_by_key :: "(key \<times> ident) list"
  fo_fresh :: nat

text \<open>What a fold works on: the plan, the reading, the time, and the ids it may hand out.\<close>

record fold_input =
  fi_plan :: plan
  fi_snap :: snapshot
  fi_now :: timestamp
  fi_ids :: "nat \<Rightarrow> ident"

definition set_default_key :: "key \<Rightarrow> ident \<Rightarrow> (key \<times> ident) list \<Rightarrow> (key \<times> ident) list" where
  "set_default_key k v d = (if k \<in> fst ` set d then d else d @ [(k, v)])"

definition start_fold :: "plan \<Rightarrow> folding" where
  "start_fold p = \<lparr>fo_work = foldl (\<lambda>d n. dict_set (n_id n) n d) [] (p_nodes p), fo_touched = [], fo_events = [], fo_reached = [],
     fo_by_key = foldl (\<lambda>d n. case node_key n of Some k \<Rightarrow> if n_state n = Published then set_default_key k (n_id n) d else d
       | None \<Rightarrow> d) [] (p_nodes p), fo_fresh = 0\<rparr>"

definition work_nodes :: "folding \<Rightarrow> plan_node list" where
  "work_nodes st = map snd (fo_work st)"

definition put_node :: "plan_node \<Rightarrow> folding \<Rightarrow> folding" where
  "put_node n st = st\<lparr>fo_work := dict_set (n_id n) n (fo_work st),
     fo_touched := (if n_id n \<in> set (fo_touched st) then fo_touched st else fo_touched st @ [n_id n])\<rparr>"

definition record_drift :: "fold_input \<Rightarrow> plan_node \<Rightarrow> drift \<Rightarrow> (string \<times> json) list \<Rightarrow> folding \<Rightarrow> plan_node \<times> folding" where
  "record_drift fi n entry data st =
     (n\<lparr>n_drift := merge_drift (n_drift n) entry, n_updated_at := fi_now fi\<rparr>,
      st\<lparr>fo_events := fo_events st @ [event_of ''plan.drift''
        ([(''plan_id'', JStr (p_id (fi_plan fi))), (''node_id'', JStr (n_id n)), (''change'', drift_name (d_change entry))] @ data)]\<rparr>)"

definition fold_refs :: "folding \<Rightarrow> references" where
  "fold_refs st = concat (map (\<lambda>n. case n_forge n of
      Some f \<Rightarrow> if n_state n = Published then [(n_id n, n_repository n, f)] else []
    | None \<Rightarrow> []) (work_nodes st))"

definition read_of :: "fold_input \<Rightarrow> plan_node \<Rightarrow> issue_read option" where
  "read_of fi n = Option.bind (node_key n) (map_of (sp_reads (fi_snap fi)))"

definition next_position :: "folding \<Rightarrow> ident \<Rightarrow> int" where
  "next_position st parent_id =
     (case map n_position (filter (\<lambda>n. n_parent_id n = Some parent_id) (work_nodes st)) of
        [] \<Rightarrow> 0 | x # xs \<Rightarrow> foldl max x xs + 1)"

section \<open>Sections\<close>

text \<open>A reference of a \<open>Depends on\<close> section as the sibling it names.\<close>

definition resolve_one :: "folding \<Rightarrow> plan_node \<Rightarrow> ident list \<Rightarrow> string \<Rightarrow> fault + ident option" where
  "resolve_one st n siblings ref =
     (let text = strip (strip_by is_tick (strip ref)) in
      if text \<in> set siblings then Inr (Some text)
      else if CHR ''#'' \<notin> set text then Inr None
      else let (repo, number) = rpartition_hash text in
        if number = [] \<or> \<not> list_all is_digit number then Inr None
        else bindR (number_in number) (\<lambda>k. Inr (map_of (fo_by_key st) (key_of (if repo = [] then n_repository n else repo) k))))"

definition resolve :: "folding \<Rightarrow> plan_node \<Rightarrow> string list \<Rightarrow> fault + ident list" where
  "resolve st n named =
     (let siblings = map n_id (filter (\<lambda>x. n_parent_id x = n_parent_id n \<and> n_id x \<noteq> n_id n) (work_nodes st)) in
      foldR (\<lambda>out ref. bindR (resolve_one st n siblings ref) (\<lambda>target. case target of
          Some t \<Rightarrow> Inr (if t \<in> set siblings \<and> t \<notin> set out then out @ [t] else out)
        | None \<Rightarrow> Inr out)) [] named)"

text \<open>The fields a section sets, by the name of the node's attribute.\<close>

datatype field = FText string | FList "string list" | FKind "task_kind option" | FProfile "string option"

definition task_only :: "string list" where "task_only = [''kind'', ''verify_commands'', ''depends_on'']"

definition value_words :: "section_value \<Rightarrow> string" where
  "value_words v = (case v of Words s \<Rightarrow> s | Entries xs \<Rightarrow> [])"

definition value_entries :: "section_value \<Rightarrow> string list" where
  "value_entries v = (case v of Words s \<Rightarrow> [] | Entries xs \<Rightarrow> xs)"

definition section_field :: "folding \<Rightarrow> plan_node \<Rightarrow> string \<times> section_value \<Rightarrow> fault + (string \<times> field) list" where
  "section_field st n = (\<lambda>(key, value).
     if key \<in> set task_only \<and> n_level n \<noteq> Task then Inr []
     else if key = ''kind'' then
       (case parse_kind (value_words value) of None \<Rightarrow> Inr []
        | Some (kind, profile) \<Rightarrow> Inr [(''kind'', FKind kind), (''workload_profile'', FProfile profile)])
     else if key = ''depends_on'' then bindR (resolve st n (value_entries value)) (\<lambda>ids. Inr [(key, FList ids)])
     else Inr [(key, case value of Words s \<Rightarrow> FText s | Entries xs \<Rightarrow> FList xs)])"

definition section_fields :: "folding \<Rightarrow> plan_node \<Rightarrow> (string \<times> section_value) list \<Rightarrow> fault + (string \<times> field) list" where
  "section_fields st n parsed = foldR (\<lambda>sets kv. bindR (section_field st n kv) (\<lambda>new.
     Inr (foldl (\<lambda>d (k, v). dict_set k v d) sets new))) [] parsed"

definition node_field :: "plan_node \<Rightarrow> string \<Rightarrow> field option" where
  "node_field n k =
     (if k = ''goal'' then Some (FText (n_goal n)) else if k = ''context'' then Some (FText (n_context n))
      else if k = ''acceptance_criteria'' then Some (FList (n_acceptance_criteria n))
      else if k = ''kind'' then Some (FKind (n_kind n)) else if k = ''workload_profile'' then Some (FProfile (n_workload_profile n))
      else if k = ''verify_commands'' then Some (FList (n_verify_commands n))
      else if k = ''depends_on'' then Some (FList (n_depends_on n))
      else if k = ''non_goals'' then Some (FText (n_non_goals n)) else if k = ''constraints'' then Some (FText (n_constraints n))
      else None)"

definition set_field :: "plan_node \<Rightarrow> string \<times> field \<Rightarrow> plan_node" where
  "set_field n = (\<lambda>(k, v). case v of
     FText s \<Rightarrow> if k = ''goal'' then n\<lparr>n_goal := s\<rparr> else if k = ''context'' then n\<lparr>n_context := s\<rparr>
        else if k = ''non_goals'' then n\<lparr>n_non_goals := s\<rparr> else if k = ''constraints'' then n\<lparr>n_constraints := s\<rparr> else n
   | FList xs \<Rightarrow> if k = ''acceptance_criteria'' then n\<lparr>n_acceptance_criteria := xs\<rparr>
        else if k = ''verify_commands'' then n\<lparr>n_verify_commands := xs\<rparr>
        else if k = ''depends_on'' then n\<lparr>n_depends_on := xs\<rparr> else n
   | FKind x \<Rightarrow> n\<lparr>n_kind := x\<rparr>
   | FProfile x \<Rightarrow> n\<lparr>n_workload_profile := x\<rparr>)"

definition set_fields :: "(string \<times> field) list \<Rightarrow> plan_node \<Rightarrow> plan_node" where
  "set_fields sets n = foldl set_field n sets"

fun field_json :: "field \<Rightarrow> json" where
  "field_json (FText s) = JStr s"
| "field_json (FList xs) = jstrs xs"
| "field_json (FKind x) = jopt (\<lambda>k. JStr (kind_name k)) x"
| "field_json (FProfile x) = jopt JStr x"

definition forge_sections :: "plan_node \<Rightarrow> string \<Rightarrow> (string \<times> section_value) list" where
  "forge_sections n body = (let parsed = parse_sections body in
     if parsed = [] \<and> n_origin n = FromForge then [(''goal'', Words (take goal_max (free_text body)))] else parsed)"

definition section_or_empty :: "(string \<times> section_value) list \<Rightarrow> string \<Rightarrow> section_value" where
  "section_or_empty d key = (case map_of d key of Some v \<Rightarrow> v
     | None \<Rightarrow> if key \<in> set list_sections then Entries [] else Words [])"

definition edited_sections :: "folding \<Rightarrow> plan_node \<Rightarrow> string \<Rightarrow> fault + (string \<times> field) list" where
  "edited_sections st n body =
     (let theirs = forge_sections n body; ours = parse_sections (render_body n (fold_refs st));
          changed = concat (map (\<lambda>(key, h).
            if (n_level n = Task \<or> key \<notin> set task_only) \<and> section_or_empty theirs key \<noteq> section_or_empty ours key
            then [(key, section_or_empty theirs key)] else []) headings) in
      bindR (section_fields st n changed) (\<lambda>sets. Inr (filter (\<lambda>(k, v). node_field n k \<noteq> Some v) sets)))"

section \<open>One node\<close>

definition fold_title :: "fold_input \<Rightarrow> seen \<Rightarrow> plan_node \<Rightarrow> folding \<Rightarrow> plan_node \<times> folding" where
  "fold_title fi sn n st = (let title = squash (sn_title sn) in
     if title = [] \<or> title = n_title n then (n, st)
     else let (n', st') = record_drift fi n (new_drift DTitle (fi_now fi) [(''title'', JStr (n_title n))] [(''title'', JStr title)] None)
            [(''before'', JStr (n_title n)), (''after'', JStr title)] st in (n'\<lparr>n_title := title\<rparr>, st'))"

definition sorted_keys :: "(string \<times> field) list \<Rightarrow> string list" where
  "sorted_keys sets = sort (map fst sets)"

text \<open>\<open>n\<close> is the node as it was, \<open>e\<close> as edited so far.\<close>

definition fold_sections :: "fold_input \<Rightarrow> plan_node \<Rightarrow> (string \<times> field) list \<Rightarrow> plan_node \<Rightarrow> folding \<Rightarrow> plan_node \<times> folding" where
  "fold_sections fi n sets e st =
     (if sets = [] then (e, st)
      else let (e', st') = record_drift fi e (new_drift DSections (fi_now fi)
              (map (\<lambda>(k, v). (k, case node_field n k of None \<Rightarrow> JNull | Some x \<Rightarrow> field_json x)) sets)
              (map (\<lambda>(k, v). (k, field_json v)) sets) None) [(''fields'', jstrs (sorted_keys sets))] st
           in (set_fields sets e', st'))"

definition state_json :: "forge_state \<Rightarrow> json" where
  "state_json s = JStr (if s = ForgeClosed then ''closed'' else ''open'')"

definition fold_state :: "fold_input \<Rightarrow> seen \<Rightarrow> forge_ref \<Rightarrow> plan_node \<Rightarrow> folding \<Rightarrow> plan_node \<times> folding" where
  "fold_state fi sn f e st = (case f_state f of
      None \<Rightarrow> (e, st)
    | Some old \<Rightarrow> if sn_state sn = old then (e, st)
        else record_drift fi e (new_drift DState (fi_now fi) [(''state'', state_json old)] [(''state'', state_json (sn_state sn))] None)
          [(''before'', state_json old), (''after'', state_json (sn_state sn))] st)"

definition with_reason :: "fold_input \<Rightarrow> drift_change \<Rightarrow> string \<Rightarrow> plan_node \<Rightarrow> folding \<Rightarrow> plan_node \<times> folding" where
  "with_reason fi c reason e st =
     record_drift fi e (new_drift c (fi_now fi) [] [] (Some reason)) [(''reason'', JStr reason)] st"

definition fold_marker :: "fold_input \<Rightarrow> plan_node \<Rightarrow> bool \<Rightarrow> forge_ref \<Rightarrow> plan_node \<Rightarrow> folding \<Rightarrow> plan_node \<times> folding" where
  "fold_marker fi n missing f e st = (if missing \<and> \<not> f_marker_missing f
     then with_reason fi DMarkerRemoved (''the sbx-plan marker was removed from '' @ issue_ref n) e st else (e, st))"

definition fold_checklist :: "fold_input \<Rightarrow> string option \<Rightarrow> forge_ref \<Rightarrow> plan_node \<Rightarrow> folding \<Rightarrow> plan_node \<times> folding" where
  "fold_checklist fi checklist_error f e st = (case checklist_error of
     Some why \<Rightarrow> if why \<noteq> [] \<and> checklist_error \<noteq> f_checklist_error f then with_reason fi DChecklistMangled why e st else (e, st)
   | None \<Rightarrow> (e, st))"

text \<open>The node is written when it or what it records of its issue changed.\<close>

definition fold_issue :: "seen \<Rightarrow> plan_node \<Rightarrow> forge_ref \<Rightarrow> forge_ref \<Rightarrow> plan_node \<Rightarrow> folding \<Rightarrow> plan_node \<times> folding" where
  "fold_issue sn n f f' e st =
     (if e \<noteq> n \<or> f' \<noteq> f
      then let e' = e\<lparr>n_forge := Some (f'\<lparr>f_updated_at := sn_updated_at sn\<rparr>)\<rparr> in (e', put_node e' st)
      else (e, st))"

definition fold_content :: "fold_input \<Rightarrow> plan_node \<Rightarrow> issue_read \<Rightarrow> folding \<Rightarrow> fault + plan_node \<times> folding" where
  "fold_content fi n rd st = (case (rd_seen rd, n_forge n) of
     (Some sn, Some f) \<Rightarrow>
       let (e1, st1) = fold_title fi sn n st in
       bindR (edited_sections st1 n (sn_body sn)) (\<lambda>sets.
       let (e2, st2) = fold_sections fi n sets e1 st1;
           (e3, st3) = fold_state fi sn f e2 st2;
           missing = (n_origin n \<noteq> FromForge \<and> \<not> marked (sn_body sn) (p_id (fi_plan fi)) (n_id n));
           (e4, st4) = fold_marker fi n missing f e3 st3;
           checklist_error = (if rd_looked rd then rd_checklist_error rd else f_checklist_error f);
           (e5, st5) = fold_checklist fi checklist_error f e4 st4;
           f' = f\<lparr>f_state := Some (sn_state sn), f_url := (if sn_url sn = [] then f_url f else sn_url sn),
             f_marker_missing := missing, f_checklist_error := checklist_error\<rparr> in
       Inr (fold_issue sn n f f' e5 st5))
   | _ \<Rightarrow> Inl (MissingKey ''seen''))"

definition fold_detach :: "fold_input \<Rightarrow> plan_node \<Rightarrow> string \<Rightarrow> folding \<Rightarrow> folding" where
  "fold_detach fi n reason st = (let (e, st') = with_reason fi DDetached reason n st in
     put_node (e\<lparr>n_forge := map_option (\<lambda>f. f\<lparr>f_detached := Some reason\<rparr>) (n_forge n)\<rparr>) st')"

text \<open>\<open>n\<close> listed under \<open>parent\<close>: moved there, and attached again when it was detached.\<close>

definition move_under :: "fold_input \<Rightarrow> plan_node \<Rightarrow> plan_node \<Rightarrow> folding \<Rightarrow> plan_node \<times> folding" where
  "move_under fi n parent st =
     (if n_parent_id n = Some (n_id parent) then (n, st)
      else let (e, st') = (if detached n then (n, st)
             else record_drift fi n (new_drift DMoved (fi_now fi) [(''parent_id'', jopt JStr (n_parent_id n))]
                    [(''parent_id'', JStr (n_id parent))] None)
                  [(''before'', jopt JStr (n_parent_id n)), (''after'', JStr (n_id parent))] st) in
        (e\<lparr>n_parent_id := Some (n_id parent), n_position := next_position st' (n_id parent)\<rparr>, st'))"

definition reattach :: "fold_input \<Rightarrow> plan_node \<Rightarrow> plan_node \<Rightarrow> plan_node \<Rightarrow> folding \<Rightarrow> plan_node \<times> folding" where
  "reattach fi n parent e st =
     (if detached n
      then let (e', st') = record_drift fi e (new_drift DReattached (fi_now fi) [] [(''parent_id'', JStr (n_id parent))] None)
             [(''parent_id'', JStr (n_id parent))] st in
        (e'\<lparr>n_forge := map_option (\<lambda>f. f\<lparr>f_detached := None\<rparr>) (n_forge n)\<rparr>, st')
      else (e, st))"

definition relink :: "fold_input \<Rightarrow> plan_node \<Rightarrow> plan_node \<Rightarrow> folding \<Rightarrow> plan_node \<times> folding" where
  "relink fi n parent st =
     (let (e1, st1) = move_under fi n parent st; (e2, st2) = reattach fi n parent e1 st1 in
      if e2 \<noteq> n then (e2, put_node e2 st2) else (e2, st2))"

definition blank_node :: "ident \<Rightarrow> ident \<Rightarrow> ident \<Rightarrow> int \<Rightarrow> level \<Rightarrow> string \<Rightarrow> string \<Rightarrow> forge_ref \<Rightarrow> timestamp \<Rightarrow> plan_node" where
  "blank_node i plan_id parent position level repo title ref now = (new_node i plan_id (Some parent) position level repo now None)
     \<lparr>n_state := Published, n_origin := FromForge, n_title := title, n_forge := Some ref\<rparr>"

definition seen_ref :: "seen \<Rightarrow> forge_ref" where
  "seen_ref sn = \<lparr>f_number = sn_number sn, f_url = sn_url sn, f_state = Some (sn_state sn), f_updated_at = sn_updated_at sn,
     f_detached = None, f_marker_missing = False, f_checklist_error = None\<rparr>"

definition adopt_node :: "fold_input \<Rightarrow> plan_node \<Rightarrow> seen \<Rightarrow> folding \<Rightarrow> fault + plan_node option \<times> folding" where
  "adopt_node fi parent sn st = (case child_level (n_level parent) of
      None \<Rightarrow> Inr (None, st)
    | Some level \<Rightarrow>
        let title = squash (sn_title sn);
            n = blank_node (fi_ids fi (fo_fresh st)) (p_id (fi_plan fi)) (n_id parent) (next_position st (n_id parent)) level (sn_repo sn)
              (take 256 (if title = [] then where_is (sn_repo sn) (sn_number sn) else title)) (seen_ref sn) (fi_now fi) in
        bindR (section_fields st n (forge_sections n (sn_body sn))) (\<lambda>sets.
        let (e, st') = record_drift fi (set_fields sets n) (new_drift DAdopted (fi_now fi) []
                [(''parent_id'', JStr (n_id parent)), (''number'', JNum (of_int (sn_number sn))), (''url'', JStr (sn_url sn))] None)
              [(''parent_id'', JStr (n_id parent)), (''number'', JNum (of_int (sn_number sn))), (''url'', JStr (sn_url sn))] st in
        Inr (Some e, put_node e (st'\<lparr>fo_fresh := Suc (fo_fresh st)\<rparr>))))"

section \<open>The walk of a fold\<close>

definition listed_by :: "fold_input \<Rightarrow> plan_node \<Rightarrow> key \<Rightarrow> bool" where
  "listed_by fi n k = (case read_of fi n of None \<Rightarrow> False
     | Some rd \<Rightarrow> (case rd_children rd of None \<Rightarrow> False | Some ks \<Rightarrow> k \<in> set ks))"

definition detached_or_none :: "plan_node \<Rightarrow> bool" where
  "detached_or_none n = (case n_forge n of None \<Rightarrow> True | Some f \<Rightarrow> f_detached f \<noteq> None)"

type_synonym fold_entries = "(ident \<times> key) list"

text \<open>One child the forge lists under \<open>n\<close>: a known node to follow, an issue to adopt, or neither.\<close>

definition fold_child :: "fold_input \<Rightarrow> plan_node \<Rightarrow> level \<Rightarrow> folding \<times> fold_entries \<Rightarrow> key \<Rightarrow> fault + folding \<times> fold_entries" where
  "fold_child fi n deeper = (\<lambda>(st, queue) k. case map_of (fo_by_key st) k of
     Some known \<Rightarrow> (case map_of (fo_work st) known of
         None \<Rightarrow> Inl (MissingKey known)
       | Some child \<Rightarrow>
           if n_level child \<noteq> deeper \<or> known \<in> set (fo_reached st) then Inr (st, queue)
           else if n_parent_id child \<noteq> Some (n_id n) \<and> \<not> detached_or_none child
               \<and> (case map_of (fo_work st) (case n_parent_id child of None \<Rightarrow> [] | Some q \<Rightarrow> q) of
                    None \<Rightarrow> False | Some own \<Rightarrow> followed own \<and> listed_by fi own k)
           then Inr (st, queue)
           else Inr (snd (relink fi child n st), queue @ [(known, k)]))
   | None \<Rightarrow> (case Option.bind (map_of (sp_reads (fi_snap fi)) k) rd_seen of
         None \<Rightarrow> Inr (st, queue)
       | Some sn \<Rightarrow>
           if list_ex (\<lambda>(p, i). p = p_id (fi_plan fi) \<and> i \<in> fst ` set (fo_work st)) (markers (sn_body sn)) then Inr (st, queue)
           else bindR (adopt_node fi n sn st) (\<lambda>(adopted, st'). case adopted of
               None \<Rightarrow> Inr (st', queue)
             | Some a \<Rightarrow> Inr (st'\<lparr>fo_by_key := dict_set k (n_id a) (fo_by_key st')\<rparr>, queue @ [(n_id a, k)]))))"

definition gone_reason :: string where
  "gone_reason = ''its issue was deleted (or this server can no longer see it)''"

definition fold_visit :: "fold_input \<Rightarrow> ident \<Rightarrow> key \<Rightarrow> folding \<Rightarrow> fault + folding \<times> fold_entries" where
  "fold_visit fi i k st = (case map_of (fo_work st) i of
      None \<Rightarrow> Inl (MissingKey i)
    | Some n \<Rightarrow>
        let st1 = st\<lparr>fo_reached := i # fo_reached st\<rparr> in
        (case map_of (sp_reads (fi_snap fi)) k of
           None \<Rightarrow> Inr (st1, [])
         | Some rd \<Rightarrow>
             if rd_error rd \<noteq> None then Inr (st1, [])
             else if rd_seen rd = None then Inr (fold_detach fi n gone_reason st1, [])
             else bindR (fold_content fi n rd st1) (\<lambda>(n', st2).
               case (rd_children rd, child_level (n_level n')) of
                 (Some ks, Some deeper) \<Rightarrow> foldR (fold_child fi n' deeper) (st2, []) ks
               | _ \<Rightarrow> Inr (st2, []))))"

text \<open>The queue is bounded by fuel; \<open>fold_fuel\<close> is enough for every plan whose levels are in order
  (\<open>fold_walk_ends\<close>).\<close>

fun fold_queue :: "nat \<Rightarrow> fold_input \<Rightarrow> fold_entries \<Rightarrow> folding \<Rightarrow> fault + folding" where
  "fold_queue fuel fi [] st = Inr st"
| "fold_queue 0 fi (e # queue) st = Inl Unending"
| "fold_queue (Suc fuel) fi ((i, k) # queue) st =
     bindR (fold_visit fi i k st) (\<lambda>(st', new). fold_queue fuel fi (queue @ new) st')"

definition most_children :: "snapshot \<Rightarrow> nat" where
  "most_children snap = foldl max 0 (map (\<lambda>(k, rd). case rd_children rd of None \<Rightarrow> 0 | Some ks \<Rightarrow> length ks) (sp_reads snap))"

definition fold_fuel :: "snapshot \<Rightarrow> nat" where
  "fold_fuel snap = (let m = most_children snap in 1 + m + m * m)"

definition fold_walk :: "fold_input \<Rightarrow> folding \<Rightarrow> fault + folding" where
  "fold_walk fi st = (case map_of (fo_work st) (p_root_id (fi_plan fi)) of
      None \<Rightarrow> Inl (MissingKey (p_root_id (fi_plan fi)))
    | Some root_node \<Rightarrow> (case node_key root_node of
        None \<Rightarrow> Inr st
      | Some k \<Rightarrow> if \<not> followed root_node then Inr st
          else fold_queue (fold_fuel (fi_snap fi)) fi [(n_id root_node, k)] st))"

text \<open>A followed node the walk did not reach.\<close>

definition fold_unreached :: "fold_input \<Rightarrow> folding \<Rightarrow> plan_node \<Rightarrow> fault + folding" where
  "fold_unreached fi st original = (case map_of (fo_work st) (n_id original) of
      None \<Rightarrow> Inl (MissingKey (n_id original))
    | Some n \<Rightarrow>
        if n_id n \<in> set (fo_reached st) \<or> n_parent_id n = None \<or> \<not> followed n then Inr st
        else (case map_of (fo_work st) (the (n_parent_id n)) of
            None \<Rightarrow> Inr st
          | Some parent \<Rightarrow>
              if \<not> followed parent then Inr st
              else (case read_of fi n of
                  None \<Rightarrow> Inr st
                | Some own \<Rightarrow>
                    if rd_error own \<noteq> None then Inr st
                    else if rd_seen own = None then Inr (fold_detach fi n gone_reason st)
                    else if n_id parent \<in> set (fo_reached st)
                      \<and> (case read_of fi parent of None \<Rightarrow> False | Some prd \<Rightarrow> rd_children prd \<noteq> None)
                    then Inr (fold_detach fi n (''it was removed from '' @ issue_ref parent @ '' on the forge'') st)
                    else bindR (fold_content fi n own st) (\<lambda>(n', st').
                      Inr (st'\<lparr>fo_reached := n_id n' # fo_reached st'\<rparr>)))))"

definition fold_all :: "fold_input \<Rightarrow> fault + folding" where
  "fold_all fi = bindR (fold_walk fi (start_fold (fi_plan fi))) (\<lambda>st.
     foldR (fold_unreached fi) st (p_nodes (fi_plan fi)))"

record folded =
  fd_upsert :: "plan_node list"
  fd_events :: "plan_event list"

definition fold_plan :: "fold_input \<Rightarrow> fault + folded" where
  "fold_plan fi = bindR (fold_all fi) (\<lambda>st.
     Inr \<lparr>fd_upsert = concat (map (\<lambda>i. case map_of (fo_work st) i of None \<Rightarrow> [] | Some n \<Rightarrow> [n]) (fo_touched st)),
       fd_events = fo_events st\<rparr>)"

definition as_forge_has_it :: "plan \<Rightarrow> plan_node \<Rightarrow> string \<Rightarrow> string \<Rightarrow> fault + plan_node" where
  "as_forge_has_it p n title body = bindR (edited_sections (start_fold p) n body) (\<lambda>sets.
     let e = set_fields sets n; t = squash title in Inr (if t = [] then e else e\<lparr>n_title := t\<rparr>))"

section \<open>Recording a reading\<close>

record reconciliation =
  rc_plan :: plan
  rc_changes :: nat
  rc_said :: "string option"

definition error_line :: "snapshot \<Rightarrow> string option" where
  "error_line snap = (let e = take 2000 (join ''; '' (sp_errors snap)) in if e = [] then None else Some e)"

text \<open>One read of the plan, one fold of the reading into it, and one write: of the reading alone when
  nothing changed, else of the changes against the revision read.\<close>

definition reconcile_attempt :: "'f surroundings \<Rightarrow> (nat \<Rightarrow> ident) \<Rightarrow> ident \<Rightarrow> snapshot \<Rightarrow> (string \<times> json) list option \<Rightarrow>
    ('f site, fault attempt_error, reconciliation) action" where
  "reconcile_attempt su ids plan_id snap actor s =
     (let now = su_clock su (st_tick s); error = error_line snap;
          d' = su_others su (st_tick s) (st_db s); s' = s\<lparr>st_db := d', st_tick := Suc (st_tick s)\<rparr> in
      case store_get (st_db s) plan_id of
        None \<Rightarrow> (Inl (Raised Gone), s)
      | Some p \<Rightarrow> (case fold_plan \<lparr>fi_plan = p, fi_snap = snap, fi_now = now, fi_ids = ids\<rparr> of
            Inl e \<Rightarrow> (Inl (Raised e), s')
          | Inr folded \<Rightarrow>
              if fd_upsert folded = [] then
                (case mark_reconciled d' plan_id \<lparr>rc_at = Some now, rc_error = error\<rparr> of
                   Inl _ \<Rightarrow> (Inl (Raised Gone), s')
                 | Inr (d2, q) \<Rightarrow> (Inr \<lparr>rc_plan = q, rc_changes = 0, rc_said = error\<rparr>, s'\<lparr>st_db := d2\<rparr>))
              else
                (case store_apply d' plan_id (p_revision p) now (no_change\<lparr>ch_upsert := fd_upsert folded, ch_events := fd_events folded,
                     ch_actor := actor, ch_reconciled := Some \<lparr>rc_at = Some now, rc_error = error\<rparr>\<rparr>) of
                   Inl (StaleRevision r) \<Rightarrow> (Inl (Stale r), s')
                 | Inl _ \<Rightarrow> (Inl (Raised Gone), s')
                 | Inr (d2, q) \<Rightarrow> (Inr \<lparr>rc_plan = q, rc_changes = length (fd_events folded), rc_said = error\<rparr>, s'\<lparr>st_db := d2\<rparr>))))"

definition busy_note :: string where
  "busy_note = ''the plan kept changing while the forge was folded in; try again''"

definition reconcile_plan :: "'f surroundings \<Rightarrow> config \<Rightarrow> (nat \<Rightarrow> ident) \<Rightarrow> plan \<Rightarrow> (string \<times> json) list option \<Rightarrow>
    ('f site, fault, reconciliation) action" where
  "reconcile_plan su cfg ids p actor s =
     (case read_forge (su_ops su) cfg p (st_forge s) of
        (Inl e, f) \<Rightarrow> (Inl e, s\<lparr>st_forge := f\<rparr>)
      | (Inr snap, f) \<Rightarrow> (case retry_action tries (reconcile_attempt su ids (p_id p) snap actor) None (s\<lparr>st_forge := f\<rparr>) of
            (Inr r, s') \<Rightarrow> (Inr r, s')
          | (Inl (Raised e), s') \<Rightarrow> (Inl e, s')
          | (Inl _, s') \<Rightarrow> (case mark_reconciled (st_db s') (p_id p) \<lparr>rc_at = None, rc_error = Some busy_note\<rparr> of
                Inl _ \<Rightarrow> (Inl Gone, s')
              | Inr (d, q) \<Rightarrow> (Inr \<lparr>rc_plan = q, rc_changes = 0, rc_said = Some busy_note\<rparr>, s'\<lparr>st_db := d\<rparr>))))"

end
