(* ===== verification/ReconcileFacts.thy ===== *)
theory ReconcileFacts
  imports Reconcile
begin

text \<open>
  What reconciling keeps and gives.  A fold ends on every plan that is a tree (\<open>fold_plan_safe\<close>): each
  issue of the walk brings at most as many others one level down, so a weight by level falls.  It keeps
  the tree and every node's id, level, state, origin and issue, and writes every node it changed.  The
  drift of a merged kind is the difference between what a person last saw and the forge
  (\<open>merge_tracks\<close>); a reading asks the forge for issues and sub-issues only.
\<close>

section \<open>Calls that only refuse a number\<close>

text \<open>A call whose one error is a number \<open>int\<close> refuses, and whose value satisfies \<open>P\<close>.\<close>

definition safe :: "('a \<Rightarrow> bool) \<Rightarrow> fault + 'a \<Rightarrow> bool" where
  "safe P r = (case r of Inl e \<Rightarrow> \<exists>t. e = BadNumber t | Inr x \<Rightarrow> P x)"

lemma safe_Inr [simp]: "safe P (Inr x) = P x"
  by (simp add: safe_def)

lemma safe_bad [simp]: "safe P (Inl (BadNumber t))"
  by (simp add: safe_def)

lemma safe_mono: "safe P r \<Longrightarrow> (\<And>x. P x \<Longrightarrow> Q x) \<Longrightarrow> safe Q r"
  by (auto simp: safe_def split: sum.splits)

lemma safe_bind:
  assumes "safe Q m" and "\<And>x. Q x \<Longrightarrow> safe P (f x)"
  shows "safe P (bindR m f)"
  using assms by (cases m) (auto simp: safe_def)

lemma safe_foldR:
  assumes "I (0::nat) s" and "\<And>k s x. x \<in> set xs \<Longrightarrow> I k s \<Longrightarrow> safe (I (Suc k)) (f s x)"
  shows "safe (I (length xs)) (foldR f s xs)"
proof -
  have "I k s \<Longrightarrow> set ys \<subseteq> set xs \<Longrightarrow> safe (I (k + length ys)) (foldR f s ys)" for k ys
  proof (induction ys arbitrary: k s)
    case (Cons y ys)
    have "safe (I (Suc k)) (f s y)" using Cons.prems by (intro assms(2)) auto
    moreover have "safe (I (Suc k + length ys)) (foldR f s' ys)" if "I (Suc k) s'" for s'
      using Cons.IH[OF that] Cons.prems(2) by simp
    ultimately show ?case by (auto intro: safe_bind)
  qed simp
  from this[of 0 xs] assms(1) show ?thesis by simp
qed

lemma safe_foldR_always:
  assumes "I s" and "\<And>s x. x \<in> set xs \<Longrightarrow> I s \<Longrightarrow> safe I (f s x)"
  shows "safe I (foldR f s xs)"
  using safe_foldR[of "\<lambda>k. I" s xs f] assms by simp

section \<open>Reading sections refuses numbers only\<close>

abbreviation mild :: "fault + 'a \<Rightarrow> bool" where
  "mild r \<equiv> safe (\<lambda>x. True) r"

lemma number_in_mild: "mild (number_in s)"
  by (auto simp: number_in_def safe_def split: sum.splits value_error.splits)

lemma resolve_one_mild: "mild (resolve_one st n siblings ref)"
  by (auto simp: resolve_one_def Let_def split: prod.splits intro!: safe_bind[OF number_in_mild])

lemma resolve_mild: "mild (resolve st n named)"
  by (auto simp: resolve_def Let_def intro!: safe_foldR_always safe_bind[OF resolve_one_mild] split: option.splits)

lemma section_field_mild: "mild (section_field st n kv)"
  by (auto simp: section_field_def split: prod.splits option.splits intro!: safe_bind[OF resolve_mild])

lemma section_fields_mild: "mild (section_fields st n parsed)"
  by (auto simp: section_fields_def intro!: safe_foldR_always safe_bind[OF section_field_mild])

lemma edited_sections_mild: "mild (edited_sections st n body)"
  by (auto simp: edited_sections_def Let_def intro!: safe_bind[OF section_fields_mild])

section \<open>What an edit of a node keeps\<close>

definition same_node :: "plan_node \<Rightarrow> plan_node \<Rightarrow> bool" where
  "same_node n m = (n_id m = n_id n \<and> n_plan_id m = n_plan_id n \<and> n_level m = n_level n \<and> n_repository m = n_repository n
     \<and> n_state m = n_state n \<and> n_origin m = n_origin n \<and> map_option f_number (n_forge m) = map_option f_number (n_forge n))"

definition same_place :: "plan_node \<Rightarrow> plan_node \<Rightarrow> bool" where
  "same_place n m = (same_node n m \<and> n_parent_id m = n_parent_id n)"

lemma same_node_refl [simp]: "same_node n n"
  by (simp add: same_node_def)

lemma same_place_refl [simp]: "same_place n n"
  by (simp add: same_place_def)

lemma same_node_trans: "same_node a b \<Longrightarrow> same_node b c \<Longrightarrow> same_node a c"
  by (simp add: same_node_def)

lemma same_place_trans: "same_place a b \<Longrightarrow> same_place b c \<Longrightarrow> same_place a c"
  by (auto simp: same_place_def intro: same_node_trans)

lemma same_node_forge: "same_node n m \<Longrightarrow> n_forge m = None \<longleftrightarrow> n_forge n = None"
  by (cases "n_forge n"; cases "n_forge m") (auto simp: same_node_def)

lemma set_field_place: "same_place n (set_field n kv)"
  by (cases kv; cases "snd kv") (auto simp: set_field_def same_place_def same_node_def)

lemma set_fields_place: "same_place n (set_fields kvs n)"
proof (induction kvs arbitrary: n)
  case (Cons kv kvs)
  then show ?case using same_place_trans[OF set_field_place[of n kv] Cons.IH[of "set_field n kv"]]
    by (simp add: set_fields_def)
qed (simp add: set_fields_def)

text \<open>A step that adds events to a fold and changes nothing else of it.\<close>

definition only_events :: "folding \<Rightarrow> folding \<Rightarrow> bool" where
  "only_events st st' = (\<exists>es. st' = st\<lparr>fo_events := es\<rparr>)"

lemma only_events_refl [simp]: "only_events st st"
  unfolding only_events_def by (intro exI[of _ "fo_events st"]) simp

lemma only_events_trans: "only_events a b \<Longrightarrow> only_events b c \<Longrightarrow> only_events a c"
  by (auto simp: only_events_def)

definition edits :: "plan_node \<times> folding \<Rightarrow> plan_node \<times> folding \<Rightarrow> bool" where
  "edits a b = (same_place (fst a) (fst b) \<and> only_events (snd a) (snd b))"

lemma edits_refl [simp]: "edits a a"
  by (simp add: edits_def)

lemma edits_trans: "edits a b \<Longrightarrow> edits b c \<Longrightarrow> edits a c"
  by (auto simp: edits_def intro: same_place_trans only_events_trans)

lemma record_edits: "edits (n, st) (record_drift fi n entry data st)"
  by (auto simp: edits_def record_drift_def same_place_def same_node_def only_events_def)

lemma record_result: "record_drift fi n entry data st = r \<Longrightarrow> edits (n, st) r"
  using record_edits by blast

lemma title_edits: "edits (n, st) (fold_title fi sn n st)"
proof -
  have title: "edits (n, st) (n'\<lparr>n_title := t\<rparr>, st')" if "edits (n, st) (n', st')" for n' st' t
    using that by (simp add: edits_def same_place_def same_node_def)
  show ?thesis by (auto simp: fold_title_def Let_def split: prod.splits intro!: title dest: record_result)
qed

lemma sections_edit: "edits (e, st) (fold_sections fi n kvs e st)"
proof -
  have more: "edits (e, st) (set_fields kvs e', st')" if "edits (e, st) (e', st')" for e' st'
    using that edits_trans[OF that, of "(set_fields kvs e', st')"] by (simp add: edits_def set_fields_place)
  show ?thesis by (auto simp: fold_sections_def split: prod.splits intro!: more dest: record_result)
qed

lemma state_edits: "edits (e, st) (fold_state fi sn f e st)"
  by (auto simp: fold_state_def record_edits split: option.splits)

lemma reason_edits: "edits (e, st) (with_reason fi c why e st)"
  by (simp add: with_reason_def record_edits)

lemma marker_edits: "edits (e, st) (fold_marker fi n missing f e st)"
  by (simp add: fold_marker_def reason_edits)

lemma checklist_edits: "edits (e, st) (fold_checklist fi ce f e st)"
  by (simp add: fold_checklist_def reason_edits split: option.split)

lemma edits_step: "edits a (e, st) \<Longrightarrow> edits (e, st) r \<Longrightarrow> r = x \<Longrightarrow> edits a x"
  using edits_trans by blast

text \<open>What a fold of an issue leaves: the node unwritten and unchanged, or written.\<close>

definition folded_node :: "plan_node \<Rightarrow> folding \<Rightarrow> plan_node \<times> folding \<Rightarrow> bool" where
  "folded_node n st r = (same_place n (fst r) \<and> (\<exists>st1. only_events st st1 \<and> (r = (n, st1) \<or> snd r = put_node (fst r) st1)))"

lemma issue_folded:
  assumes "edits (n, st) (e, st1)" and "n_forge n = Some f" and "f_number f' = f_number f"
  shows "folded_node n st (fold_issue sn n f f' e st1)"
  using assms by (auto simp: fold_issue_def folded_node_def Let_def edits_def same_place_def same_node_def)

lemma content_safe:
  assumes "rd_seen rd \<noteq> None" and "n_forge n \<noteq> None"
  shows "safe (folded_node n st) (fold_content fi n rd st)"
proof -
  from assms obtain sn f where sn: "rd_seen rd = Some sn" and f: "n_forge n = Some f" by auto
  obtain e1 st1 where t: "fold_title fi sn n st = (e1, st1)" by (cases "fold_title fi sn n st")
  note one = edits_step[OF edits_refl title_edits t]
  define mk where "mk = (n_origin n \<noteq> FromForge \<and> \<not> marked (sn_body sn) (p_id (fi_plan fi)) (n_id n))"
  define ce where "ce = (if rd_looked rd then rd_checklist_error rd else f_checklist_error f)"
  show ?thesis
    unfolding fold_content_def sn f option.case prod.case t Let_def mk_def[symmetric] ce_def[symmetric]
  proof (rule safe_bind[OF edited_sections_mild], goal_cases)
    case (1 kvs)
    obtain e2 st2 where 2: "fold_sections fi n kvs e1 st1 = (e2, st2)" by (cases "fold_sections fi n kvs e1 st1")
    obtain e3 st3 where 3: "fold_state fi sn f e2 st2 = (e3, st3)" by (cases "fold_state fi sn f e2 st2")
    obtain e4 st4 where 4: "fold_marker fi n mk f e3 st3 = (e4, st4)" by (cases "fold_marker fi n mk f e3 st3")
    obtain e5 st5 where 5: "fold_checklist fi ce f e4 st4 = (e5, st5)" by (cases "fold_checklist fi ce f e4 st4")
    note steps = edits_step[OF one sections_edit 2]
    note steps = edits_step[OF steps state_edits 3]
    note steps = edits_step[OF steps marker_edits 4]
    note steps = edits_step[OF steps checklist_edits 5]
    show ?case
      unfolding 2 3 4 5 prod.case safe_Inr by (rule issue_folded[OF steps f]) simp
  qed
qed

section \<open>The tree, by id\<close>

definition levels :: "(ident \<Rightarrow> plan_node option) \<Rightarrow> ident \<Rightarrow> level option" where
  "levels m i = map_option n_level (m i)"

definition placed :: "ident \<Rightarrow> (ident \<Rightarrow> level option) \<Rightarrow> ident \<Rightarrow> plan_node \<Rightarrow> bool" where
  "placed r l i n = (n_id n = i \<and> (case n_parent_id n of
       None \<Rightarrow> i = r \<and> n_level n \<noteq> Task
     | Some q \<Rightarrow> i \<noteq> r \<and> Option.bind (l q) child_level = Some (n_level n)))"

definition tree_view :: "ident \<Rightarrow> (ident \<Rightarrow> plan_node option) \<Rightarrow> bool" where
  "tree_view r m = (m r \<noteq> None \<and> (\<forall>i n. m i = Some n \<longrightarrow> placed r (levels m) i n))"

definition by_id :: "plan_node list \<Rightarrow> ident \<Rightarrow> plan_node option" where
  "by_id ns = map_of (map (\<lambda>n. (n_id n, n)) ns)"

lemma by_id_iff: "distinct (map n_id ns) \<Longrightarrow> by_id ns i = Some n \<longleftrightarrow> n \<in> set ns \<and> n_id n = i"
  by (subst by_id_def, subst map_of_eq_Some_iff) (auto simp: comp_def)

lemma bind_levels:
  "Option.bind (levels m q) child_level = Some l \<longleftrightarrow> (\<exists>x. m q = Some x \<and> child_level (n_level x) = Some l)"
  by (cases "m q") (auto simp: levels_def)

lemma placed_iff:
  assumes "distinct (map n_id ns)"
  shows "placed r (levels (by_id ns)) i n \<longleftrightarrow> n_id n = i \<and> parent_ok r ns n"
  unfolding placed_def parent_ok_def bind_levels by_id_iff[OF assms] by (auto split: option.splits)

lemma tree_view_iff:
  assumes "distinct (map n_id ns)"
  shows "tree_view r (by_id ns) \<longleftrightarrow> tree_ok r ns"
proof -
  have "by_id ns r \<noteq> None \<longleftrightarrow> r \<in> set (map n_id ns)"
    using by_id_iff[OF assms, of r] by auto
  then show ?thesis
    unfolding tree_view_def tree_ok_def placed_iff[OF assms] by_id_iff[OF assms] using assms by blast
qed

lemma tree_viewD: "tree_view r m \<Longrightarrow> m i = Some n \<Longrightarrow> placed r (levels m) i n"
  by (simp add: tree_view_def)

lemma placed_id: "placed r l i n \<Longrightarrow> n_id n = i"
  by (simp add: placed_def)

lemma initiative_on_top:
  assumes "placed r (levels m) i n" and "n_level n = Initiative"
  shows "i = r"
proof (cases "n_parent_id n")
  case None
  with assms(1) show ?thesis by (simp add: placed_def)
next
  case (Some q)
  with assms(1) obtain x where "child_level (n_level (x :: plan_node)) = Some (n_level n)" unfolding placed_def bind_levels by auto
  with assms(2) show ?thesis by (cases "n_level x") auto
qed

lemma root_level: "placed r l r n \<Longrightarrow> n_level n \<noteq> Task"
  by (auto simp: placed_def split: option.splits)

lemma tree_view_rank:
  assumes "tree_view r m" and "m r = Some t" and "m i = Some n"
  shows "rank (n_level n) \<le> rank (n_level t)"
proof (cases "n_level n = Initiative")
  case True
  with initiative_on_top[OF tree_viewD[OF assms(1,3)]] assms(2,3) show ?thesis by simp
next
  case False
  with root_level[OF tree_viewD[OF assms(1,2)]] show ?thesis by (cases "n_level n"; cases "n_level t") auto
qed

text \<open>A node that keeps its place, a node moved under another parent, and a new node.\<close>

lemma tree_view_update:
  assumes t: "tree_view r m" and i: "m i = Some n" and l: "n_level n' = n_level n" and p: "placed r (levels m) i n'"
  shows "tree_view r (m(i \<mapsto> n'))"
proof -
  have "levels (m(i \<mapsto> n')) = levels m" using i l by (auto simp: levels_def)
  with t p show ?thesis by (auto simp: tree_view_def split: if_splits)
qed

lemma placed_same: "placed r l i n \<Longrightarrow> same_place n n' \<Longrightarrow> placed r l i n'"
  by (auto simp: placed_def same_place_def same_node_def split: option.splits)

lemma tree_view_same:
  assumes "tree_view r m" and "m i = Some n" and "same_place n n'"
  shows "tree_view r (m(i \<mapsto> n'))"
  using assms(3) placed_same[OF tree_viewD[OF assms(1,2)] assms(3)]
  by (intro tree_view_update[OF assms(1,2)]) (simp_all add: same_place_def same_node_def)

lemma tree_view_move:
  assumes t: "tree_view r m" and i: "m i = Some n" and s: "same_node n n'"
    and q: "m q = Some x" "child_level (n_level x) = Some (n_level n)" and p: "n_parent_id n' = Some q"
  shows "tree_view r (m(i \<mapsto> n'))"
proof (rule tree_view_update[OF t i])
  obtain t' where t': "m r = Some t'" using t by (auto simp: tree_view_def)
  have "i \<noteq> r"
  proof
    assume "i = r"
    with t' i have "n = t'" by simp
    with tree_view_rank[OF t t' q(1)] child_level_rank[OF q(2)] show False by simp
  qed
  then show "placed r (levels m) i n'"
    using placed_id[OF tree_viewD[OF t i]] s q p by (simp add: placed_def same_node_def levels_def)
  show "n_level n' = n_level n" using s by (simp add: same_node_def)
qed

lemma placed_more: "placed r l i n \<Longrightarrow> l \<subseteq>\<^sub>m l' \<Longrightarrow> placed r l' i n"
  by (auto simp: placed_def map_le_def dom_def split: option.splits bind_splits)

lemma tree_view_new:
  assumes t: "tree_view r m" and i: "m i = None" and n: "n_id n = i" "n_parent_id n = Some q"
    and x: "m q = Some x" "child_level (n_level x) = Some (n_level n)"
  shows "tree_view r (m(i \<mapsto> n))"
proof -
  have more: "levels m \<subseteq>\<^sub>m levels (m(i \<mapsto> n))" using i by (auto simp: levels_def map_le_def dom_def)
  have "i \<noteq> r" using t i by (auto simp: tree_view_def)
  moreover have "q \<noteq> i" using i x by auto
  ultimately have "placed r (levels (m(i \<mapsto> n))) i n"
    using n x by (simp add: placed_def levels_def)
  with t placed_more[OF _ more] show ?thesis by (auto simp: tree_view_def)
qed

section \<open>What a fold keeps\<close>

abbreviation work :: "folding \<Rightarrow> ident \<Rightarrow> plan_node option" where
  "work st \<equiv> map_of (fo_work st)"

definition fresh_ids :: "plan \<Rightarrow> (nat \<Rightarrow> ident) \<Rightarrow> bool" where
  "fresh_ids p ids = (inj ids \<and> (\<forall>k. ids k \<notin> n_id ` set (p_nodes p)))"

definition on_record :: "folding \<Rightarrow> ident \<Rightarrow> bool" where
  "on_record st i = (\<exists>n. work st i = Some n \<and> n_forge n \<noteq> None)"

text \<open>The state of a fold of \<open>fi\<close>: a tree, whose published nodes are found by their issues, whose new
  nodes have ids handed out, and whose unwritten nodes are the plan's.\<close>

definition sound :: "fold_input \<Rightarrow> folding \<Rightarrow> bool" where
  "sound fi st = (tree_view (p_root_id (fi_plan fi)) (work st)
     \<and> (\<forall>(k, i)\<in>set (fo_by_key st). on_record st i)
     \<and> dom (work st) \<subseteq> n_id ` set (p_nodes (fi_plan fi)) \<union> fi_ids fi ` {..<fo_fresh st}
     \<and> distinct (fo_touched st) \<and> set (fo_touched st) \<subseteq> dom (work st)
     \<and> (\<forall>i. i \<notin> set (fo_touched st) \<longrightarrow> work st i = by_id (p_nodes (fi_plan fi)) i))"

definition nodes_stay :: "folding \<Rightarrow> folding \<Rightarrow> bool" where
  "nodes_stay st st' = (\<forall>i n. work st i = Some n \<longrightarrow> (\<exists>n'. work st' i = Some n' \<and> same_node n n'))"

lemma nodes_stay_refl [simp]: "nodes_stay st st"
  by (simp add: nodes_stay_def)

lemma nodes_stay_trans: "nodes_stay a b \<Longrightarrow> nodes_stay b c \<Longrightarrow> nodes_stay a c"
  unfolding nodes_stay_def using same_node_trans by blast

lemma nodes_stayE:
  assumes "nodes_stay st st'" and "work st i = Some n"
  obtains n' where "work st' i = Some n'" and "same_node n n'"
  using assms by (auto simp: nodes_stay_def)

lemma same_nodeD:
  assumes "same_node n m"
  shows "n_id m = n_id n" and "n_level m = n_level n"
  using assms by (simp_all add: same_node_def)

lemma nodes_stay_on_record:
  assumes "nodes_stay st st'" and "on_record st i"
  shows "on_record st' i"
proof -
  from assms(2) obtain n where n: "work st i = Some n" "n_forge n \<noteq> None" by (auto simp: on_record_def)
  with assms(1) obtain n' where "work st' i = Some n'" "same_node n n'" by (auto simp: nodes_stay_def)
  with n(2) same_node_forge[of n n'] show ?thesis by (auto simp: on_record_def)
qed

lemma only_events_parts:
  assumes "only_events st st'"
  shows "fo_work st' = fo_work st" and "fo_by_key st' = fo_by_key st" and "fo_fresh st' = fo_fresh st"
    and "fo_touched st' = fo_touched st" and "fo_reached st' = fo_reached st"
  using assms by (auto simp: only_events_def)

lemma only_events_sound: "only_events st st' \<Longrightarrow> sound fi st \<Longrightarrow> sound fi st'"
  by (simp add: sound_def on_record_def only_events_parts)

lemma only_events_stays: "only_events st st' \<Longrightarrow> nodes_stay st st'"
  by (auto simp: only_events_parts nodes_stay_def)

lemma work_put [simp]: "work (put_node n st) = (work st)(n_id n \<mapsto> n)"
  by (simp add: put_node_def)

lemma put_stays: "work st (n_id n) = Some m \<Longrightarrow> same_node m n \<Longrightarrow> nodes_stay st (put_node n st)"
  by (auto simp: nodes_stay_def)

lemma soundD:
  assumes "sound fi st"
  shows "tree_view (p_root_id (fi_plan fi)) (work st)" and "\<And>k i. (k, i) \<in> set (fo_by_key st) \<Longrightarrow> on_record st i"
    and "dom (work st) \<subseteq> n_id ` set (p_nodes (fi_plan fi)) \<union> fi_ids fi ` {..<fo_fresh st}"
    and "distinct (fo_touched st)" and "set (fo_touched st) \<subseteq> dom (work st)"
    and "\<And>i. i \<notin> set (fo_touched st) \<Longrightarrow> work st i = by_id (p_nodes (fi_plan fi)) i"
  using assms unfolding sound_def by blast+

lemma put_sound:
  assumes s: "sound fi st" and m: "work st (n_id n) = Some m" and n: "same_node m n"
    and t: "tree_view (p_root_id (fi_plan fi)) ((work st)(n_id n \<mapsto> n))"
  shows "sound fi (put_node n st)"
proof -
  note parts = soundD[OF s]
  have touched: "set (fo_touched (put_node n st)) = insert (n_id n) (set (fo_touched st))"
    by (auto simp: put_node_def)
  have rest: "fo_by_key (put_node n st) = fo_by_key st" "fo_fresh (put_node n st) = fo_fresh st"
    "distinct (fo_touched (put_node n st))"
    using parts(4) by (simp_all add: put_node_def)
  have "dom (work (put_node n st)) = dom (work st)" using m by auto
  moreover have "on_record (put_node n st) i" if "(k, i) \<in> set (fo_by_key st)" for k i
    by (rule nodes_stay_on_record[OF put_stays[OF m n] parts(2)[OF that]])
  ultimately show ?thesis
    unfolding sound_def using t rest parts(3,5,6) touched m by auto
qed

section \<open>Each step of a fold\<close>

text \<open>A step of a fold: it keeps the fold sound and every node it knows.\<close>

definition steps_to :: "fold_input \<Rightarrow> folding \<Rightarrow> folding \<Rightarrow> bool" where
  "steps_to fi st st' = (sound fi st' \<and> nodes_stay st st')"

lemma steps_refl: "sound fi st \<Longrightarrow> steps_to fi st st"
  by (simp add: steps_to_def)

lemma steps_trans: "steps_to fi a b \<Longrightarrow> steps_to fi b c \<Longrightarrow> steps_to fi a c"
  by (auto simp: steps_to_def intro: nodes_stay_trans)

lemma reached_steps: "steps_to fi st st' \<Longrightarrow> steps_to fi st (st'\<lparr>fo_reached := x\<rparr>)"
  by (simp add: steps_to_def sound_def nodes_stay_def on_record_def)

lemma put_steps:
  assumes q: "only_events st st1" and s: "sound fi st" and m: "work st (n_id n) = Some m" and p: "same_place m n"
  shows "steps_to fi st (put_node n st1)"
proof -
  have sn: "same_node m n" using p by (simp add: same_place_def)
  have m1: "work st1 (n_id n) = Some m" using m q by (simp add: only_events_parts)
  note s1 = only_events_sound[OF q s]
  show ?thesis unfolding steps_to_def
    using put_sound[OF s1 m1 sn tree_view_same[OF soundD(1)[OF s1] m1 p]] nodes_stay_trans[OF only_events_stays[OF q] put_stays[OF m1 sn]]
    by blast
qed

lemma folded_steps:
  assumes "folded_node n st r" and s: "sound fi st" and m: "work st i = Some n"
  shows "steps_to fi st (snd r) \<and> same_place n (fst r)"
proof -
  have i: "n_id n = i" using placed_id[OF tree_viewD[OF soundD(1)[OF s] m]] .
  from assms(1) obtain st1 where p: "same_place n (fst r)" and q: "only_events st st1"
    and r: "r = (n, st1) \<or> snd r = put_node (fst r) st1" by (auto simp: folded_node_def)
  have "work st (n_id (fst r)) = Some n" using p m i by (simp add: same_place_def same_node_def)
  note put = put_steps[OF q s this p]
  have "steps_to fi st st1" using only_events_sound[OF q s] only_events_stays[OF q] by (simp add: steps_to_def)
  with r put p show ?thesis by auto
qed

lemma detach_steps:
  assumes s: "sound fi st" and m: "work st i = Some n"
  shows "steps_to fi st (fold_detach fi n why st)"
proof -
  obtain e st1 where r: "with_reason fi DDetached why n st = (e, st1)" by (cases "with_reason fi DDetached why n st")
  have e: "edits (n, st) (e, st1)" using reason_edits[of n st fi DDetached why] r by simp
  have i: "n_id n = i" using placed_id[OF tree_viewD[OF soundD(1)[OF s] m]] .
  let ?e = "e\<lparr>n_forge := map_option (\<lambda>f. f\<lparr>f_detached := Some why\<rparr>) (n_forge n)\<rparr>"
  have p: "same_place n ?e" using e by (auto simp: edits_def same_place_def same_node_def option.map_comp comp_def)
  have "work st (n_id ?e) = Some n" using p m i by (simp add: same_place_def same_node_def)
  with put_steps[OF _ s this p] e show ?thesis by (simp add: fold_detach_def r edits_def)
qed

lemma move_result:
  assumes "move_under fi n parent st = (e, st1)"
  shows "same_node n e \<and> n_parent_id e = Some (n_id parent) \<and> only_events st st1"
  using assms by (auto simp: move_under_def record_drift_def Let_def same_node_def only_events_def split: if_splits
      intro: exI[of _ "fo_events st"])

lemma reattach_result:
  assumes "reattach fi n parent e st = (e', st1)" and "same_node n e"
  shows "same_node n e' \<and> n_parent_id e' = n_parent_id e \<and> only_events st st1"
proof (cases "detached n")
  case True
  with assms show ?thesis
    by (auto simp: reattach_def record_drift_def same_node_def only_events_def option.map_comp comp_def)
next
  case False
  with assms show ?thesis by (auto simp: reattach_def)
qed

lemma relink_result:
  assumes "relink fi n parent st = (e, st')"
  shows "same_node n e \<and> n_parent_id e = Some (n_id parent) \<and> (\<exists>st1. only_events st st1 \<and> (e = n \<and> st' = st1 \<or> st' = put_node e st1))"
proof -
  obtain e1 st1 where 1: "move_under fi n parent st = (e1, st1)" by (cases "move_under fi n parent st")
  obtain e2 st2 where 2: "reattach fi n parent e1 st1 = (e2, st2)" by (cases "reattach fi n parent e1 st1")
  note r1 = move_result[OF 1]
  with reattach_result[OF 2] have r2: "same_node n e2 \<and> n_parent_id e2 = Some (n_id parent) \<and> only_events st st2"
    by (auto intro: only_events_trans)
  have "(e, st') = (if e2 \<noteq> n then (e2, put_node e2 st2) else (e2, st2))" using assms by (simp add: relink_def 1 2)
  with r2 show ?thesis by (cases "e2 = n") auto
qed

lemma relink_steps:
  assumes s: "sound fi st" and m: "work st i = Some n" and q: "work st (n_id parent) = Some x"
    and l: "child_level (n_level x) = Some (n_level n)"
  shows "steps_to fi st (snd (relink fi n parent st))"
proof -
  obtain e st' where r: "relink fi n parent st = (e, st')" by (cases "relink fi n parent st")
  from relink_result[OF r] obtain st1 where e: "same_node n e" "n_parent_id e = Some (n_id parent)" and q1: "only_events st st1"
    and st': "e = n \<and> st' = st1 \<or> st' = put_node e st1" by blast
  have i: "n_id e = i" using placed_id[OF tree_viewD[OF soundD(1)[OF s] m]] e by (simp add: same_node_def)
  note s1 = only_events_sound[OF q1 s]
  have m1: "work st1 (n_id e) = Some n" using m i q1 by (simp add: only_events_parts)
  have qx: "work st1 (n_id parent) = Some x" using q q1 by (simp add: only_events_parts)
  have "steps_to fi st1 (put_node e st1)"
    unfolding steps_to_def using put_sound[OF s1 m1 e(1) tree_view_move[OF soundD(1)[OF s1] m1 e(1) qx l e(2)]] put_stays[OF m1 e(1)]
    by blast
  moreover have "steps_to fi st st1" using s1 only_events_stays[OF q1] by (simp add: steps_to_def)
  ultimately show ?thesis using st' steps_trans r by auto
qed

lemma fresh_id:
  assumes "sound fi st" and "fresh_ids (fi_plan fi) (fi_ids fi)"
  shows "work st (fi_ids fi (fo_fresh st)) = None"
proof -
  have "fi_ids fi (fo_fresh st) \<notin> fi_ids fi ` {..<fo_fresh st}"
    using assms(2) by (auto simp: fresh_ids_def inj_def)
  moreover have "fi_ids fi (fo_fresh st) \<notin> n_id ` set (p_nodes (fi_plan fi))" using assms(2) by (simp add: fresh_ids_def)
  ultimately show ?thesis using soundD(3)[OF assms(1)] by (meson UnE domIff subsetD)
qed

text \<open>An adopted node: new, one level under its parent, on record.\<close>

definition adopted_ok :: "fold_input \<Rightarrow> level \<Rightarrow> folding \<Rightarrow> plan_node option \<times> folding \<Rightarrow> bool" where
  "adopted_ok fi l st r = (steps_to fi st (snd r) \<and> (case fst r of None \<Rightarrow> True
     | Some a \<Rightarrow> child_level l = Some (n_level a) \<and> n_forge a \<noteq> None \<and> work (snd r) (n_id a) = Some a))"

lemma new_steps:
  assumes s: "sound fi st" and q: "only_events st st1" and f: "fresh_ids (fi_plan fi) (fi_ids fi)"
    and n: "n_id n = fi_ids fi (fo_fresh st)" "n_parent_id n = Some i" "work st i = Some x" "child_level (n_level x) = Some (n_level n)"
  shows "steps_to fi st (put_node n (st1\<lparr>fo_fresh := Suc (fo_fresh st)\<rparr>))"
proof -
  note none = fresh_id[OF s f] and parts = soundD[OF s]
  have out: "n_id n \<notin> set (fo_touched st)" using none n(1) parts(5) by auto
  let ?st = "put_node n (st1\<lparr>fo_fresh := Suc (fo_fresh st)\<rparr>)"
  have w: "work ?st = (work st)(n_id n \<mapsto> n)" "fo_by_key ?st = fo_by_key st" "fo_fresh ?st = Suc (fo_fresh st)"
    "fo_touched ?st = fo_touched st @ [n_id n]"
    using only_events_parts[OF q] out by (simp_all add: put_node_def)
  have st: "nodes_stay st ?st" using none n(1) unfolding nodes_stay_def w by auto
  have tree: "tree_view (p_root_id (fi_plan fi)) (work ?st)"
    unfolding w using tree_view_new[OF parts(1) none n] n(1) by simp
  have "sound fi ?st" unfolding sound_def
  proof (intro conjI allI impI ballI, goal_cases)
    case 1 show ?case by (rule tree)
  next
    case (2 x) then show ?case using parts(2) nodes_stay_on_record[OF st] by (cases x) (auto simp: w)
  next
    case 3 show ?case unfolding w using parts(3) n(1) by (auto simp: lessThan_Suc)
  next
    case 4 show ?case using parts(4) out by (simp add: w)
  next
    case 5 show ?case using parts(5) unfolding w by auto
  next
    case (6 i) then show ?case using parts(6) unfolding w by auto
  qed
  with st show ?thesis by (simp add: steps_to_def)
qed

lemma adopt_safe:
  assumes s: "sound fi st" and f: "fresh_ids (fi_plan fi) (fi_ids fi)" and x: "work st (n_id n) = Some x" "n_level x = n_level n"
  shows "safe (adopted_ok fi (n_level n) st) (adopt_node fi n sn st)"
proof (cases "child_level (n_level n)")
  case None
  then show ?thesis using steps_refl[OF s] by (simp add: adopt_node_def adopted_ok_def)
next
  case (Some l)
  define b where "b = blank_node (fi_ids fi (fo_fresh st)) (p_id (fi_plan fi)) (n_id n) (next_position st (n_id n)) l (sn_repo sn)
      (take 256 (if squash (sn_title sn) = [] then where_is (sn_repo sn) (sn_number sn) else squash (sn_title sn))) (seen_ref sn) (fi_now fi)"
  have b: "n_id b = fi_ids fi (fo_fresh st)" "n_parent_id b = Some (n_id n)" "n_level b = l" "n_forge b \<noteq> None"
    by (simp_all add: b_def blank_node_def new_node_def)
  show ?thesis
    unfolding adopt_node_def Some option.case Let_def b_def[symmetric]
  proof (rule safe_bind[OF section_fields_mild], goal_cases)
    case (1 kvs)
    define data where "data = [(''parent_id'', JStr (n_id n)), (''number'', JNum (of_int (sn_number sn))), (''url'', JStr (sn_url sn))]"
    define entry where "entry = new_drift DAdopted (fi_now fi) [] data None"
    obtain e st1 where r: "record_drift fi (set_fields kvs b) entry data st = (e, st1)" by fastforce
    have p: "same_place b e" and q: "only_events st st1"
      using record_result[OF r] set_fields_place[of b kvs] by (auto simp: edits_def intro: same_place_trans)
    have e: "n_id e = fi_ids fi (fo_fresh st)" "n_parent_id e = Some (n_id n)" "n_level e = l" "n_forge e \<noteq> None"
      using p b same_node_forge[of b e] by (simp_all add: same_place_def same_node_def)
    have "steps_to fi st (put_node e (st1\<lparr>fo_fresh := Suc (fo_fresh st)\<rparr>))"
      using new_steps[OF s q f e(1,2) x(1)] x(2) Some e(3) by simp
    with e Some show ?case
      unfolding data_def[symmetric] entry_def[symmetric] r prod.case by (simp add: adopted_ok_def)
  qed
qed

text \<open>An entry of the queue: a node on record, at a level.\<close>

definition queued :: "folding \<Rightarrow> level \<Rightarrow> ident \<times> key \<Rightarrow> bool" where
  "queued st l e = (\<exists>n. work st (fst e) = Some n \<and> n_forge n \<noteq> None \<and> n_level n = l)"

lemma queued_stays:
  assumes "queued st l e" and st: "nodes_stay st st'"
  shows "queued st' l e"
proof -
  from assms(1) obtain n where n: "work st (fst e) = Some n" "n_forge n \<noteq> None" "n_level n = l" by (auto simp: queued_def)
  obtain n' where n': "work st' (fst e) = Some n'" "same_node n n'" using st n(1) by (rule nodes_stayE)
  with n same_node_forge[OF n'(2)] same_nodeD[OF n'(2)] show ?thesis by (simp add: queued_def del: not_None_eq)
qed

definition children_queued :: "fold_input \<Rightarrow> level \<Rightarrow> folding \<Rightarrow> nat \<Rightarrow> folding \<times> fold_entries \<Rightarrow> bool" where
  "children_queued fi l st k r = (steps_to fi st (fst r) \<and> length (snd r) \<le> k \<and> (\<forall>e\<in>set (snd r). queued (fst r) l e))"

lemma child_queued:
  assumes "children_queued fi l st0 k (st, queue)" and "steps_to fi st st'" and "queued st' l e"
  shows "children_queued fi l st0 (Suc k) (st', queue @ [e])"
  using assms by (auto simp: children_queued_def steps_to_def intro: nodes_stay_trans queued_stays)

lemma child_skipped:
  assumes "children_queued fi l st0 k (st, queue)" and "steps_to fi st st'"
  shows "children_queued fi l st0 (Suc k) (st', queue)"
  using assms by (auto simp: children_queued_def steps_to_def intro: nodes_stay_trans queued_stays)

lemma child_safe:
  assumes c: "children_queued fi l st0 k r" and f: "fresh_ids (fi_plan fi) (fi_ids fi)"
    and x: "work st0 (n_id n) = Some x" "n_level x = n_level n" and l: "child_level (n_level n) = Some l"
  shows "safe (children_queued fi l st0 (Suc k)) (fold_child fi n l r ck)"
proof -
  obtain st queue where r: "r = (st, queue)" by (cases r)
  note c = c[unfolded r]
  have s: "sound fi st" and st: "nodes_stay st0 st" using c by (auto simp: children_queued_def steps_to_def)
  note skip = child_skipped[OF c steps_refl[OF s]]
  obtain x' where "work st (n_id n) = Some x'" "same_node x x'" using st x(1) by (rule nodes_stayE)
  with x(2) have x': "work st (n_id n) = Some x'" "n_level x' = n_level n" by (simp_all add: same_nodeD)
  show ?thesis
  proof (cases "map_of (fo_by_key st) ck")
    case (Some known)
    have "on_record st known" using soundD(2)[OF s map_of_SomeD[OF Some]] .
    then obtain child where child: "work st known = Some child" "n_forge child \<noteq> None" by (auto simp: on_record_def)
    have go: "children_queued fi l st0 (Suc k) (snd (relink fi child n st), queue @ [(known, ck)])"
      if lv: "n_level child = l"
    proof (rule child_queued[OF c])
      show steps: "steps_to fi st (snd (relink fi child n st))"
        using relink_steps[OF s child(1) x'(1)] x'(2) l lv by simp
      have "queued st l (known, ck)" using child lv by (simp add: queued_def)
      with steps show "queued (snd (relink fi child n st)) l (known, ck)" by (auto simp: steps_to_def intro: queued_stays)
    qed
    show ?thesis using go skip unfolding r fold_child_def prod.case Some option.case child(1) by (auto simp del: not_None_eq)
  next
    case None
    have adopt: "safe (children_queued fi l st0 (Suc k)) (bindR (adopt_node fi n sn st) (\<lambda>(adopted, st'). case adopted of
               None \<Rightarrow> Inr (st', queue)
             | Some a \<Rightarrow> Inr (st'\<lparr>fo_by_key := dict_set ck (n_id a) (fo_by_key st')\<rparr>, queue @ [(n_id a, ck)])))" for sn
    proof (rule safe_bind[OF adopt_safe[OF s f x']], goal_cases)
      case (1 a)
      obtain ad st' where a: "a = (ad, st')" by (cases a)
      have steps: "steps_to fi st st'" using 1 by (simp add: a adopted_ok_def)
      show ?case
      proof (cases ad)
        case None
        with child_skipped[OF c steps] show ?thesis by (simp add: a)
      next
        case (Some m)
        with 1 l have m: "n_level m = l" "n_forge m \<noteq> None" "work st' (n_id m) = Some m" by (auto simp: a adopted_ok_def)
        let ?st = "st'\<lparr>fo_by_key := dict_set ck (n_id m) (fo_by_key st')\<rparr>"
        have "on_record ?st i" if "(k, i) \<in> set (fo_by_key ?st)" for k i
        proof -
          have "i = n_id m \<or> (k, i) \<in> set (fo_by_key st')" using that set_dict_set[of ck "n_id m" "fo_by_key st'"] by auto
          moreover have "on_record st' (n_id m)" using m by (simp add: on_record_def)
          ultimately have "on_record st' i" using steps by (auto simp: steps_to_def dest: soundD(2))
          then show ?thesis by (simp add: on_record_def)
        qed
        moreover have "sound fi st'" using steps by (simp add: steps_to_def)
        ultimately have "sound fi ?st" unfolding sound_def by (auto simp: on_record_def)
        with steps have "steps_to fi st ?st" by (simp add: steps_to_def nodes_stay_def)
        from child_queued[OF c this] m show ?thesis by (simp add: a Some queued_def)
      qed
    qed
    show ?thesis using adopt skip unfolding r fold_child_def prod.case None option.case by (auto split: option.split)
  qed
qed

section \<open>A fold ends\<close>

lemma children_walk_safe:
  assumes s: "sound fi st" and f: "fresh_ids (fi_plan fi) (fi_ids fi)" and x: "work st (n_id n) = Some x" "n_level x = n_level n"
    and l: "child_level (n_level n) = Some l"
  shows "safe (children_queued fi l st (length ks)) (foldR (fold_child fi n l) (st, []) ks)"
proof (rule safe_foldR)
  show "children_queued fi l st 0 (st, [])" using steps_refl[OF s] by (simp add: children_queued_def)
  show "safe (children_queued fi l st (Suc k)) (fold_child fi n l r ck)" if "children_queued fi l st k r" for k r ck
    by (rule child_safe[OF that f x l])
qed

text \<open>A visit brings at most as many entries as an issue has children, one level down.\<close>

definition visited :: "fold_input \<Rightarrow> level \<Rightarrow> folding \<Rightarrow> folding \<times> fold_entries \<Rightarrow> bool" where
  "visited fi l st r = (steps_to fi st (fst r) \<and> length (snd r) \<le> most_children (fi_snap fi)
     \<and> (\<forall>e\<in>set (snd r). \<exists>l'. child_level l = Some l' \<and> queued (fst r) l' e))"

lemma foldl_max_ge: "(\<forall>x\<in>set xs. x \<le> foldl max a xs) \<and> a \<le> foldl max a (xs :: nat list)"
  by (induction xs arbitrary: a) (auto, (meson le_trans max.cobounded1 max.cobounded2)+)

lemma most_children_ge:
  assumes "map_of (sp_reads snap) k = Some rd" and "rd_children rd = Some ks"
  shows "length ks \<le> most_children snap"
proof -
  have "(k, rd) \<in> set (sp_reads snap)" using assms(1) by (rule map_of_SomeD)
  then have "length ks \<in> set (map (\<lambda>(k, rd). case rd_children rd of None \<Rightarrow> 0 | Some ks \<Rightarrow> length ks) (sp_reads snap))"
    using assms(2) by (force intro: rev_image_eqI)
  with foldl_max_ge show ?thesis unfolding most_children_def by blast
qed

lemma visit_safe:
  assumes s: "sound fi st" and f: "fresh_ids (fi_plan fi) (fi_ids fi)" and q: "queued st l (i, k)"
  shows "safe (visited fi l st) (fold_visit fi i k st)"
proof -
  obtain n where n: "work st i = Some n" "n_forge n \<noteq> None" "n_level n = l" using q by (auto simp: queued_def)
  define st1 where "st1 = st\<lparr>fo_reached := i # fo_reached st\<rparr>"
  have one: "steps_to fi st st1" unfolding st1_def by (rule reached_steps[OF steps_refl[OF s]])
  then have s1: "sound fi st1" by (simp add: steps_to_def)
  have n1: "work st1 i = Some n" using n by (simp add: st1_def)
  have id: "n_id n = i" by (rule placed_id[OF tree_viewD[OF soundD(1)[OF s] n(1)]])
  have stop: "visited fi l st (st', [])" if "steps_to fi st1 st'" for st'
    using steps_trans[OF one that] by (simp add: visited_def)
  show ?thesis
  proof (cases "map_of (sp_reads (fi_snap fi)) k")
    case None
    with stop[OF steps_refl[OF s1]] show ?thesis by (simp add: fold_visit_def n(1) st1_def)
  next
    case (Some rd)
    have content: "safe (visited fi l st) (bindR (fold_content fi n rd st1) (\<lambda>(n', st2).
        case (rd_children rd, child_level (n_level n')) of
          (Some ks, Some deeper) \<Rightarrow> foldR (fold_child fi n' deeper) (st2, []) ks | _ \<Rightarrow> Inr (st2, [])))"
      if seen: "rd_seen rd \<noteq> None"
    proof (rule safe_bind[OF content_safe[OF seen n(2)]], goal_cases)
      case (1 r)
      obtain n' st2 where r: "r = (n', st2)" by (cases r)
      have steps: "steps_to fi st1 st2" and p: "same_place n n'" using folded_steps[OF 1 s1 n1] by (simp_all add: r)
      have lv: "n_level n' = l" "n_id n' = i" using p n(3) id by (simp_all add: same_place_def same_node_def)
      show ?case
      proof (cases "rd_children rd = None \<or> child_level l = None")
        case True
        with stop[OF steps] lv show ?thesis by (auto simp: r split: option.split)
      next
        case False
        then obtain ks d where ks: "rd_children rd = Some ks" and d: "child_level l = Some d" by auto
        have "nodes_stay st1 st2" using steps by (simp add: steps_to_def)
        then obtain x where x: "work st2 i = Some x" "same_node n x" using n1 by (rule nodes_stayE)
        have "safe (children_queued fi d st2 (length ks)) (foldR (fold_child fi n' d) (st2, []) ks)"
          using steps x lv n(3) d by (intro children_walk_safe[OF _ f, where x = x]) (auto simp: steps_to_def same_nodeD)
        then have "safe (visited fi l st) (foldR (fold_child fi n' d) (st2, []) ks)"
        proof (rule safe_mono)
          fix r assume "children_queued fi d st2 (length ks) r"
          with most_children_ge[OF Some ks] d show "visited fi l st r"
            using steps_trans[OF steps_trans[OF one steps]] by (force simp: children_queued_def visited_def)
        qed
        with ks d lv show ?thesis by (simp add: r)
      qed
    qed
    show ?thesis
      using content stop[OF steps_refl[OF s1]] stop[OF detach_steps[OF s1 n1]]
      unfolding fold_visit_def n(1) option.case Let_def Some st1_def[symmetric] by (auto simp del: not_None_eq)
  qed
qed

text \<open>The weight of an entry: how many visits it may cost.\<close>

fun weight :: "nat \<Rightarrow> level \<Rightarrow> nat" where
  "weight m Task = 1"
| "weight m Epic = 1 + m"
| "weight m Initiative = 1 + m + m * m"

lemma weight_child: "child_level l = Some l' \<Longrightarrow> weight m l = Suc (m * weight m l')"
  by (cases l) auto

lemma weight_le: "weight m l \<le> 1 + m + m * m"
  by (cases l) auto

lemma new_weights:
  assumes "\<forall>e\<in>set new. \<exists>l'. child_level l = Some l' \<and> queued st l' e" and "length new \<le> m"
  shows "\<exists>ls. list_all2 (queued st) ls new \<and> sum_list (map (weight m) ls) < weight m l"
proof (cases "child_level l")
  case None
  with assms(1) have "new = []" by (cases new) auto
  then show ?thesis by (intro exI[of _ "[]"]) (cases l; simp)
next
  case (Some l')
  have "list_all2 (queued st) (replicate (length new) l') new"
    using assms(1) Some by (auto simp: list_all2_conv_all_nth)
  moreover have "sum_list (map (weight m) (replicate (length new) l')) < weight m l"
    using assms(2) by (simp add: weight_child[OF Some] sum_list_replicate le_imp_less_Suc)
  ultimately show ?thesis by blast
qed

lemma queue_safe:
  assumes "sound fi st" and "fresh_ids (fi_plan fi) (fi_ids fi)"
    and "list_all2 (queued st) ls queue" and "sum_list (map (weight (most_children (fi_snap fi))) ls) \<le> fuel"
  shows "safe (steps_to fi st) (fold_queue fuel fi queue st)"
  using assms
proof (induction fuel fi queue st arbitrary: ls rule: fold_queue.induct)
  case (1 fuel fi st)
  then show ?case by (simp add: steps_refl)
next
  case (2 fi e queue st)
  then obtain l ls' where "ls = l # ls'" by (auto simp: list_all2_Cons2)
  with 2(4) show ?case by (cases l) auto
next
  case (3 fuel fi i k queue st)
  from 3(4) obtain l ls' where ls: "ls = l # ls'" and q: "queued st l (i, k)" and rest: "list_all2 (queued st) ls' queue"
    by (auto simp: list_all2_Cons2)
  let ?w = "weight (most_children (fi_snap fi))"
  show ?case unfolding fold_queue.simps
  proof (rule safe_bind[OF visit_safe[OF 3(2,3) q]], goal_cases)
    case (1 r)
    obtain st' new where r: "r = (st', new)" by (cases r)
    have steps: "steps_to fi st st'" and len: "length new \<le> most_children (fi_snap fi)"
      and new: "\<forall>e\<in>set new. \<exists>l'. child_level l = Some l' \<and> queued st' l' e" using 1 by (auto simp: visited_def r)
    obtain ns where ns: "list_all2 (queued st') ns new" "sum_list (map ?w ns) < ?w l"
      using new_weights[OF new len] by blast
    have "list_all2 (queued st') ls' queue"
      using rest steps by (auto simp: steps_to_def elim!: list_all2_mono intro: queued_stays)
    with ns(1) have "list_all2 (queued st') (ls' @ ns) (queue @ new)" by (rule list_all2_appendI[rotated])
    moreover have "sum_list (map ?w (ls' @ ns)) \<le> fuel" using 3(5) ns(2) by (simp add: ls)
    moreover have "sound fi st'" using steps by (simp add: steps_to_def)
    ultimately have "safe (steps_to fi st') (fold_queue fuel fi (queue @ new) st')"
      using 3(1)[OF _ 3(3)] by blast
    then show ?case by (auto simp: r intro: safe_mono steps_trans[OF steps])
  qed
qed

lemma start_work:
  assumes "distinct (map n_id (p_nodes p))"
  shows "work (start_fold p) = by_id (p_nodes p)"
proof
  fix i
  have d: "distinct (map fst (rev (map (\<lambda>n. (n_id n, n)) (p_nodes p))))" using assms by (simp add: rev_map[symmetric] comp_def)
  have "work (start_fold p) i = Some n \<longleftrightarrow> by_id (p_nodes p) i = Some n" for n
    unfolding by_id_iff[OF assms] start_fold_def using map_of_eq_Some_iff[OF d, of i n]
    by (auto simp: map_of_foldl_dict_set)
  then show "work (start_fold p) i = by_id (p_nodes p) i" by (metis not_None_eq)
qed

lemma start_keys:
  assumes "(k, i) \<in> set (fo_by_key (start_fold p))"
  shows "\<exists>n\<in>set (p_nodes p). n_id n = i \<and> n_forge n \<noteq> None"
proof -
  define add where "add = (\<lambda>d n. case node_key n of Some k \<Rightarrow> if n_state n = Published then set_default_key k (n_id n) d else d
       | None \<Rightarrow> d)"
  have "\<forall>(k, i)\<in>set (foldl add d ns). (k, i) \<in> set d \<or> (\<exists>n\<in>set ns. n_id n = i \<and> n_forge n \<noteq> None)" for d ns
  proof (induction ns arbitrary: d)
    case (Cons n ns)
    have "\<forall>(k, i)\<in>set (add d n). (k, i) \<in> set d \<or> n_id n = i \<and> n_forge n \<noteq> None"
      by (auto simp: add_def set_default_key_def node_key_def split: option.splits)
    with Cons.IH[of "add d n"] show ?case by fastforce
  qed auto
  from this[of "[]" "p_nodes p"] assms show ?thesis by (auto simp: start_fold_def add_def)
qed

lemma start_sound:
  assumes "tree_ok (p_root_id p) (p_nodes p)" and "fi_plan fi = p"
  shows "sound fi (start_fold p)"
proof -
  have d: "distinct (map n_id (p_nodes p))" using assms(1) by (simp add: tree_ok_def)
  note w = start_work[OF d]
  have "on_record (start_fold p) i" if "(k, i) \<in> set (fo_by_key (start_fold p))" for k i
    using start_keys[OF that] by (auto simp: on_record_def w by_id_iff[OF d])
  moreover have "dom (work (start_fold p)) \<subseteq> n_id ` set (p_nodes p)" unfolding w using by_id_iff[OF d] by auto
  moreover have "fo_touched (start_fold p) = []" by (simp add: start_fold_def)
  ultimately show ?thesis
    using assms tree_view_iff[OF d] unfolding sound_def w by auto
qed

lemma unreached_safe:
  assumes s: "sound fi st" and m: "work st (n_id n) \<noteq> None"
  shows "safe (steps_to fi st) (fold_unreached fi st n)"
proof -
  obtain x where x: "work st (n_id n) = Some x" using m by auto
  note keep = steps_refl[OF s] and drop = detach_steps[OF s x]
  have content: "safe (steps_to fi st) (bindR (fold_content fi x rd st) (\<lambda>(n', st'). Inr (st'\<lparr>fo_reached := n_id n' # fo_reached st'\<rparr>)))"
    if "rd_seen rd \<noteq> None" "n_forge x \<noteq> None" for rd
  proof (rule safe_bind[OF content_safe[OF that]], goal_cases)
    case (1 r)
    with reached_steps folded_steps[OF 1 s x] show ?case by (cases r) auto
  qed
  have forge: "n_forge x \<noteq> None" if "read_of fi x = Some rd" for rd
    using that by (cases "n_forge x") (auto simp: read_of_def node_key_def)
  show ?thesis
    using content keep drop forge unfolding fold_unreached_def x option.case
    by (auto split: option.splits simp del: not_None_eq)
qed

lemma fold_walk_ends:
  assumes s: "sound fi st" and f: "fresh_ids (fi_plan fi) (fi_ids fi)"
  shows "safe (steps_to fi st) (fold_walk fi st)"
proof -
  obtain t where t: "work st (p_root_id (fi_plan fi)) = Some t" using soundD(1)[OF s] by (auto simp: tree_view_def)
  note id = placed_id[OF tree_viewD[OF soundD(1)[OF s] t]]
  show ?thesis
  proof (cases "node_key t")
    case None
    then show ?thesis by (simp add: fold_walk_def t steps_refl[OF s])
  next
    case (Some k)
    then have "list_all2 (queued st) [n_level t] [(n_id t, k)]" using t id by (auto simp: queued_def node_key_def)
    moreover have "sum_list (map (weight (most_children (fi_snap fi))) [n_level t]) \<le> fold_fuel (fi_snap fi)"
      using weight_le[of "most_children (fi_snap fi)"] by (simp add: fold_fuel_def Let_def)
    ultimately have "safe (steps_to fi st) (fold_queue (fold_fuel (fi_snap fi)) fi [(n_id t, k)] st)"
      by (rule queue_safe[OF s f])
    with Some show ?thesis by (simp add: fold_walk_def t steps_refl[OF s])
  qed
qed

lemma fold_all_safe:
  assumes t: "tree_ok (p_root_id (fi_plan fi)) (p_nodes (fi_plan fi))" and f: "fresh_ids (fi_plan fi) (fi_ids fi)"
  shows "safe (steps_to fi (start_fold (fi_plan fi))) (fold_all fi)"
  unfolding fold_all_def
proof (rule safe_bind[OF fold_walk_ends[OF start_sound[OF t refl] f]], goal_cases)
  case (1 st)
  have d: "distinct (map n_id (p_nodes (fi_plan fi)))" using t by (simp add: tree_ok_def)
  show ?case
  proof (rule safe_foldR_always, rule 1)
    fix st' n assume n: "n \<in> set (p_nodes (fi_plan fi))" and steps: "steps_to fi (start_fold (fi_plan fi)) st'"
    have "work (start_fold (fi_plan fi)) (n_id n) = Some n" using n by (simp add: start_work[OF d] by_id_iff[OF d])
    then have "work st' (n_id n) \<noteq> None" using steps by (auto simp: steps_to_def elim: nodes_stayE)
    moreover have "sound fi st'" using steps by (simp add: steps_to_def)
    ultimately have "safe (steps_to fi st') (fold_unreached fi st' n)" by (intro unreached_safe)
    then show "safe (steps_to fi (start_fold (fi_plan fi))) (fold_unreached fi st' n)"
      by (rule safe_mono) (rule steps_trans[OF steps])
  qed
qed

text \<open>The plan's nodes with a fold's written into them.\<close>

definition folded_nodes :: "plan \<Rightarrow> folded \<Rightarrow> plan_node list" where
  "folded_nodes p fd = merge_nodes (p_nodes p) (no_change\<lparr>ch_upsert := fd_upsert fd\<rparr>)"

lemma written_nodes:
  assumes "set is \<subseteq> dom m" and "\<And>i n. m i = Some n \<Longrightarrow> n_id n = i"
  shows "map n_id (concat (map (\<lambda>i. case m i of None \<Rightarrow> [] | Some n \<Rightarrow> [n]) is)) = is"
    and "set (concat (map (\<lambda>i. case m i of None \<Rightarrow> [] | Some n \<Rightarrow> [n]) is)) = {n. \<exists>i\<in>set is. m i = Some n}"
  using assms by (induction "is") (auto split: option.splits)

lemma folded_by_id:
  assumes s: "sound fi st" and d: "distinct (map n_id (p_nodes (fi_plan fi)))"
    and u: "fd_upsert fd = concat (map (\<lambda>i. case work st i of None \<Rightarrow> [] | Some n \<Rightarrow> [n]) (fo_touched st))"
  shows "distinct (map n_id (folded_nodes (fi_plan fi) fd)) \<and> by_id (folded_nodes (fi_plan fi) fd) = work st"
proof -
  let ?ns = "folded_nodes (fi_plan fi) fd"
  have ids: "n_id n = i" if "work st i = Some n" for i n using placed_id[OF tree_viewD[OF soundD(1)[OF s] that]] .
  note w = written_nodes[OF soundD(5)[OF s] ids, folded u]
  have keys: "n_id ` set (fd_upsert fd) = set (fo_touched st)" using arg_cong[OF w(1), of set] by simp
  have dis: "distinct (map n_id ?ns)"
    using d w(1) soundD(4)[OF s] keys
    by (auto simp: folded_nodes_def merge_nodes_def no_change_def distinct_map_filter)
  have "n \<in> set ?ns \<and> n_id n = i \<longleftrightarrow> work st i = Some n" for i n
  proof (cases "i \<in> set (fo_touched st)")
    case True
    then show ?thesis using keys w(2) ids by (auto simp: folded_nodes_def merge_nodes_def no_change_def)
  next
    case False
    then have "work st i = Some n \<longleftrightarrow> n \<in> set (p_nodes (fi_plan fi)) \<and> n_id n = i"
      using soundD(6)[OF s] by_id_iff[OF d] by simp
    with False keys show ?thesis by (auto simp: folded_nodes_def merge_nodes_def no_change_def)
  qed
  then have "by_id ?ns i = work st i" for i
    using by_id_iff[OF dis, of i] by (metis not_None_eq option.collapse)
  with dis show ?thesis by blast
qed

lemma fold_plan_result:
  assumes t: "tree_ok (p_root_id (fi_plan fi)) (p_nodes (fi_plan fi))" and f: "fresh_ids (fi_plan fi) (fi_ids fi)"
  shows "safe (\<lambda>fd. \<exists>st. steps_to fi (start_fold (fi_plan fi)) st \<and> distinct (map n_id (folded_nodes (fi_plan fi) fd))
    \<and> by_id (folded_nodes (fi_plan fi) fd) = work st) (fold_plan fi)"
  unfolding fold_plan_def
proof (rule safe_bind[OF fold_all_safe[OF t f]], goal_cases)
  case (1 st)
  then have s: "sound fi st" by (simp add: steps_to_def)
  have d: "distinct (map n_id (p_nodes (fi_plan fi)))" using t by (simp add: tree_ok_def)
  show ?case unfolding safe_Inr
    using folded_by_id[OF s d] by (intro exI[of _ st] conjI 1) auto
qed

lemma fold_keeps_tree:
  assumes t: "tree_ok (p_root_id (fi_plan fi)) (p_nodes (fi_plan fi))" and f: "fresh_ids (fi_plan fi) (fi_ids fi)"
    and r: "fold_plan fi = Inr fd"
  shows "tree_ok (p_root_id (fi_plan fi)) (folded_nodes (fi_plan fi) fd)"
    and "n \<in> set (p_nodes (fi_plan fi)) \<Longrightarrow> \<exists>n'\<in>set (folded_nodes (fi_plan fi) fd). same_node n n'"
proof -
  have d: "distinct (map n_id (p_nodes (fi_plan fi)))" using t by (simp add: tree_ok_def)
  from fold_plan_result[OF t f] r obtain st where s: "sound fi st" "nodes_stay (start_fold (fi_plan fi)) st"
    and ns: "distinct (map n_id (folded_nodes (fi_plan fi) fd))" "by_id (folded_nodes (fi_plan fi) fd) = work st"
    by (auto simp: steps_to_def)
  show "tree_ok (p_root_id (fi_plan fi)) (folded_nodes (fi_plan fi) fd)"
    using tree_view_iff[OF ns(1)] soundD(1)[OF s(1)] ns(2) by metis
  show "\<exists>n'\<in>set (folded_nodes (fi_plan fi) fd). same_node n n'" if "n \<in> set (p_nodes (fi_plan fi))"
  proof -
    have "work (start_fold (fi_plan fi)) (n_id n) = Some n" using that by (simp add: start_work[OF d] by_id_iff[OF d])
    with s(2) obtain n' where n': "work st (n_id n) = Some n'" "same_node n n'" by (rule nodes_stayE)
    then show ?thesis using by_id_iff[OF ns(1)] ns(2) by metis
  qed
qed

section \<open>A reading asks for issues and sub-issues only\<close>

definition reads_alike :: "'f issue_ops \<Rightarrow> 'f issue_ops \<Rightarrow> bool" where
  "reads_alike ops ops' = (issue_get ops' = issue_get ops \<and> sub_issues_list ops' = sub_issues_list ops)"

lemma issue_alike:
  assumes "reads_alike ops ops'"
  shows "reader_issue ops' = reader_issue ops"
proof -
  have "issue_get ops' = issue_get ops" using assms by (simp add: reads_alike_def)
  then show ?thesis by (intro ext) (simp only: reader_issue_def)
qed

lemma children_alike:
  assumes "reads_alike ops ops'"
  shows "reader_children ops' = reader_children ops"
proof -
  have "sub_issues_list ops' = sub_issues_list ops" using assms by (simp add: reads_alike_def)
  then show ?thesis by (intro ext) (simp only: reader_children_def)
qed

lemma visit_alike: "reads_alike ops ops' \<Longrightarrow> visit_issue ops' = visit_issue ops"
  by (intro ext) (simp only: visit_issue_def issue_alike children_alike)

lemma queue_alike: "reads_alike ops ops' \<Longrightarrow> read_queue ops' cfg parents queue snap f = read_queue ops cfg parents queue snap f"
proof (induction ops cfg parents queue snap f rule: read_queue.induct)
  case (2 ops cfg parents repo number level payload queue snap f)
  show ?case
    unfolding read_queue.simps visit_alike[OF 2(3)]
    by (auto simp: 2 split: prod.split sum.split)
qed simp

lemma rest_alike: "reads_alike ops ops' \<Longrightarrow> read_rest ops' ns snap f = read_rest ops ns snap f"
proof (induction ops ns snap f rule: read_rest.induct)
  case (2 ops n ns snap f)
  then show ?case unfolding read_rest.simps issue_alike[OF 2(5)] by (auto simp: Let_def split: option.split prod.split)
qed simp

lemma read_alike:
  assumes "reads_alike ops ops'"
  shows "read_forge ops' = read_forge ops"
proof -
  have "read_queue ops' = read_queue ops" "read_rest ops' = read_rest ops"
    by (intro ext, rule queue_alike[OF assms], intro ext, rule rest_alike[OF assms])
  then show ?thesis by (intro ext) (simp only: read_forge_def)
qed

lemma attempt_alike: "reconcile_attempt (su\<lparr>su_ops := ops\<rparr>) = reconcile_attempt su"
  by (intro ext) (simp add: reconcile_attempt_def)

lemma reconcile_alike:
  assumes "reads_alike (su_ops su) ops"
  shows "reconcile_plan (su\<lparr>su_ops := ops\<rparr>) cfg ids p actor s = reconcile_plan su cfg ids p actor s"
  unfolding reconcile_plan_def attempt_alike by (simp add: read_alike[OF assms])

section \<open>Drift is the net change\<close>

text \<open>What the drift of a kind should say when a person last saw \<open>seen\<close> and the forge now has \<open>now\<close>: nothing
  when they agree, else one entry naming exactly the values that differ.\<close>

definition of_kind :: "drift_change \<Rightarrow> drift list \<Rightarrow> drift list" where
  "of_kind c ds = filter (\<lambda>d. d_change d = c) ds"

definition says :: "(string \<Rightarrow> json) \<Rightarrow> (string \<Rightarrow> json) \<Rightarrow> drift \<Rightarrow> bool" where
  "says seen now d = (distinct (map fst (d_before d)) \<and> distinct (map fst (d_after d))
     \<and> map fst (d_before d) = map fst (d_after d) \<and> set (map fst (d_after d)) = {k. seen k \<noteq> now k}
     \<and> (\<forall>k. seen k \<noteq> now k \<longrightarrow> jget0 (d_before d) k = seen k \<and> jget0 (d_after d) k = now k))"

definition tracks :: "drift_change \<Rightarrow> (string \<Rightarrow> json) \<Rightarrow> (string \<Rightarrow> json) \<Rightarrow> drift list \<Rightarrow> bool" where
  "tracks c seen now ds = (if seen = now then of_kind c ds = [] else \<exists>d. of_kind c ds = [d] \<and> says seen now d)"

lemma find_of_kind: "find (\<lambda>d. d_change d = c) ds = (case of_kind c ds of [] \<Rightarrow> None | d # r \<Rightarrow> Some d)"
  by (induction ds) (auto simp: of_kind_def split: list.split)

lemma of_kind_remove: "d_change d = c \<Longrightarrow> of_kind c (remove1 d ds) = remove1 d (of_kind c ds)"
  by (simp add: of_kind_def filter_remove1)

lemma of_other_kind: "d_change d \<noteq> c \<Longrightarrow> of_kind c (remove1 d ds) = of_kind c ds"
  by (simp add: of_kind_def filter_remove1 remove1_idem)

lemma map_of_dict_join: "map_of (dict_join a b) k = (case map_of (rev b) k of None \<Rightarrow> map_of a k | Some v \<Rightarrow> Some v)"
  by (induction b arbitrary: a) (auto simp: dict_join_def split: option.splits)

lemma keys_dict_join: "fst ` set (dict_join a b) = fst ` set a \<union> fst ` set b"
proof (induction b arbitrary: a)
  case (Cons x b)
  then show ?case by (cases x) (auto simp: dict_join_def)
qed (simp add: dict_join_def)

lemma distinct_dict_join: "distinct (map fst a) \<Longrightarrow> distinct (map fst (dict_join a b))"
proof (induction b arbitrary: a)
  case (Cons x b)
  then show ?case by (cases x) (simp add: dict_join_def distinct_dict_set)
qed (simp add: dict_join_def)

lemma jget0_join:
  assumes "distinct (map fst b)"
  shows "jget0 (dict_join a b) k = (if k \<in> fst ` set b then jget0 b k else jget0 a k)"
proof -
  have "map_of (rev b) k = map_of b k"
  proof -
    have "distinct (map fst (rev b))" using assms by (simp add: rev_map[symmetric])
    then have "map_of (rev b) k = Some v \<longleftrightarrow> map_of b k = Some v" for v using assms by simp
    then show ?thesis by (metis not_None_eq)
  qed
  moreover have "k \<in> fst ` set b \<longleftrightarrow> map_of b k \<noteq> None" by (simp add: map_of_eq_None_iff)
  ultimately show ?thesis by (cases "map_of b k") (auto simp: jget0_def map_of_dict_join)
qed

lemma saysD:
  assumes "says seen now d"
  shows "distinct (map fst (d_before d))" and "distinct (map fst (d_after d))" and "fst ` set (d_before d) = {k. seen k \<noteq> now k}"
    and "fst ` set (d_after d) = {k. seen k \<noteq> now k}"
    and "seen k \<noteq> now k \<Longrightarrow> jget0 (d_before d) k = seen k" and "seen k \<noteq> now k \<Longrightarrow> jget0 (d_after d) k = now k"
proof -
  have "fst ` set (d_before d) = set (map fst (d_after d))" using assms by (simp add: says_def flip: set_map)
  then show "fst ` set (d_before d) = {k. seen k \<noteq> now k}" using assms by (simp add: says_def)
qed (use assms in \<open>simp_all add: says_def\<close>)

lemma jget0_map: "distinct ks \<Longrightarrow> k \<in> set ks \<Longrightarrow> jget0 (map (\<lambda>k. (k, g k)) ks) k = g k"
  by (simp add: jget0_def map_of_map_restrict)

lemma joined_says:
  assumes d: "says seen now d" and e: "says now now' e"
  defines "before \<equiv> dict_join (d_before e) (d_before d)" and "after \<equiv> dict_join (d_after d) (d_after e)"
  defines "keys \<equiv> filter (\<lambda>k. jget0 before k \<noteq> jget0 after k) (map fst after)"
  shows "distinct keys" and "set keys = {k. seen k \<noteq> now' k}"
    and "seen k \<noteq> now' k \<Longrightarrow> jget0 before k = seen k \<and> jget0 after k = now' k"
proof -
  have union: "set (map fst after) = {k. seen k \<noteq> now k \<or> now k \<noteq> now' k}"
    using saysD(4)[OF d] saysD(4)[OF e] by (auto simp: after_def keys_dict_join)
  have both: "jget0 before k = seen k \<and> jget0 after k = now' k" if "seen k \<noteq> now k \<or> now k \<noteq> now' k" for k
    using that saysD[OF d] saysD[OF e]
    by (auto simp: before_def after_def jget0_join)
  show "distinct keys" using saysD(2)[OF d] by (simp add: keys_def after_def distinct_dict_join)
  show "set keys = {k. seen k \<noteq> now' k}" 
  proof (rule set_eqI)
    fix k
    show "k \<in> set keys \<longleftrightarrow> k \<in> {k. seen k \<noteq> now' k}" 
      using both[of k] unfolding keys_def set_filter union by (cases "seen k \<noteq> now k \<or> now k \<noteq> now' k") auto
  qed
  show "jget0 before k = seen k \<and> jget0 after k = now' k" if "seen k \<noteq> now' k"
    using both[of k] that by (cases "seen k \<noteq> now k") auto
qed

lemma merge_tracks:
  assumes t: "tracks c seen now ds" and e: "says now now' e" "now \<noteq> now'" and c: "d_change e = c" "c \<in> set merged_changes"
  shows "tracks c seen now' (merge_drift ds e)"
proof (cases "seen = now")
  case True
  with t have "of_kind c ds = []" by (simp add: tracks_def)
  with c have "merge_drift ds e = ds @ [e]" by (simp add: merge_drift_def find_of_kind)
  with True e c \<open>of_kind c ds = []\<close> show ?thesis by (simp add: tracks_def of_kind_def)
next
  case False
  with t obtain d where d: "of_kind c ds = [d]" "says seen now d" by (auto simp: tracks_def)
  note j = joined_says[OF d(2) e(1)]
  define keys where "keys = filter (\<lambda>k. jget0 (dict_join (d_before e) (d_before d)) k \<noteq> jget0 (dict_join (d_after d) (d_after e)) k)
      (map fst (dict_join (d_after d) (d_after e)))"
  note j = j[folded keys_def]
  define new where "new = new_drift c (d_at e) (map (\<lambda>k. (k, jget0 (dict_join (d_before e) (d_before d)) k)) keys)
      (map (\<lambda>k. (k, jget0 (dict_join (d_after d) (d_after e)) k)) keys) (d_reason e)"
  have m: "merge_drift ds e = (if keys = [] then remove1 d ds else remove1 d ds @ [new])"
    using c d(1) by (simp add: merge_drift_def find_of_kind Let_def keys_def[symmetric] new_def)
  have "d \<in> set (of_kind c ds)" using d(1) by simp
  then have dc: "d_change d = c" by (simp add: of_kind_def)
  have rest: "of_kind c (remove1 d ds) = []" using dc d(1) by (simp add: of_kind_remove)
  have says: "says seen now' new"
    using j by (auto simp: says_def new_def new_drift_def comp_def jget0_map)
  have "keys = [] \<longleftrightarrow> seen = now'" using j(2) by (auto simp: fun_eq_iff)
  with rest says show ?thesis unfolding m tracks_def by (auto simp: of_kind_def new_def new_drift_def)
qed

lemma merge_leaves_others: "c \<noteq> d_change e \<Longrightarrow> of_kind c (merge_drift ds e) = of_kind c ds"
  by (auto simp: merge_drift_def of_other_kind of_kind_def filter_remove1 remove1_idem new_drift_def Let_def
      split: option.split dest: find_SomeD)

end
