(* ===== verification/ReconcileClaims.thy ===== *)
theory ReconcileClaims
  imports ReconcileFacts ForgeExamples
begin

text \<open>
  The properties of reconciling, with their witnesses: a published initiative whose tasks a person
  retitled, moved and added on the tracker.
\<close>

section \<open>A plan edited on the forge\<close>

definition on_tracker :: "plan_node \<Rightarrow> int \<Rightarrow> plan_node" where
  "on_tracker n k = n\<lparr>n_state := Published, n_forge := Some \<lparr>f_number = k, f_url = issue_url ''acme/app'' k, f_state = Some ForgeOpen,
     f_updated_at = None, f_detached = None, f_marker_missing = False, f_checklist_error = None\<rparr>\<rparr>"

definition edited_nodes :: "plan_node list" where
  "edited_nodes = [on_tracker (sample_node ''r'' None 0 Initiative 1 ''Ship'') 1,
     on_tracker (sample_node ''a'' (Some ''r'') 0 Epic 2 ''Alpha'') 2, on_tracker (sample_node ''b'' (Some ''r'') 1 Epic 3 ''Beta'') 3,
     on_tracker (sample_node ''t'' (Some ''a'') 0 Task 4 ''Task'') 4,
     on_tracker ((sample_node ''s'' (Some ''a'') 1 Task 5 ''Second'')\<lparr>n_depends_on := [''t'']\<rparr>) 5]"

definition edited_db :: db where
  "edited_db = \<lparr>db_plans = [plan_row_for (new_plan ''p'' (sample_node ''r'' None 0 Initiative 1 ''Ship'') 1 sample_actor
       (brief_of (sample_node ''r'' None 0 Initiative 1 ''Ship'')) Manual None)],
     db_nodes = map columns edited_nodes, db_events = []\<rparr>"

definition edited_plan :: plan where
  "edited_plan = (case store_get edited_db ''p'' of Some p \<Rightarrow> p | None \<Rightarrow> undefined)"

text \<open>On the tracker the first task was retitled, the second moved under the other epic, and an issue
  added beside the first.\<close>

definition with_subs :: "(string \<times> int) list \<Rightarrow> tracker_issue \<Rightarrow> tracker_issue" where
  "with_subs cs i = i\<lparr>tk_subs := cs\<rparr>"

definition issue_for :: "plan_node \<Rightarrow> string \<Rightarrow> tracker_issue" where
  "issue_for n title = (case n_forge n of None \<Rightarrow> undefined | Some f \<Rightarrow>
     opened_issue ''acme/app'' (f_number f) title (render_body n (fold_refs (start_fold edited_plan))) [])"

definition edited_tracker :: tracker where
  "edited_tracker = (case edited_nodes of r # a # b # t # s # _ \<Rightarrow>
     [with_subs [(''acme/app'', 2), (''acme/app'', 3)] (issue_for r ''Ship''),
      with_subs [(''acme/app'', 4), (''acme/app'', 6)] (issue_for a ''Alpha''), with_subs [(''acme/app'', 5)] (issue_for b ''Beta''),
      issue_for t ''Task, now'', issue_for s ''Second'', opened_issue ''acme/app'' 6 ''Added'' ''Do this too'' []])"

definition edited_site :: "tracker site" where
  "edited_site = \<lparr>st_db = edited_db, st_forge = edited_tracker, st_tick = 0\<rparr>"

definition new_ids :: "nat \<Rightarrow> ident" where
  "new_ids k = ''node_'' @ replicate k (CHR ''x'')"

definition edited_snap :: snapshot where
  "edited_snap = (case fst (read_forge tracker_ops sample_config edited_plan edited_tracker) of Inr s \<Rightarrow> s | Inl e \<Rightarrow> no_reads)"

definition edited_fold :: fold_input where
  "edited_fold = \<lparr>fi_plan = edited_plan, fi_snap = edited_snap, fi_now = 100, fi_ids = new_ids\<rparr>"

definition folded_summary :: "folded \<Rightarrow> (ident \<times> ident option \<times> string \<times> ident list) list \<times> nat" where
  "folded_summary fd = (map (\<lambda>n. (n_id n, n_parent_id n, n_title n, n_depends_on n)) (fd_upsert fd), length (fd_events fd))"

lemma edited_folds:
  "(case fold_plan edited_fold of Inl e \<Rightarrow> None | Inr fd \<Rightarrow> Some (folded_summary fd))
   = Some ([(''node_'', Some ''a'', ''Added'', []), (''s'', Some ''b'', ''Second'', [''t'']), (''t'', Some ''a'', ''Task, now'', [])], 3)"
  by code_simp

lemma edited_result:
  obtains fd where "fold_plan edited_fold = Inr fd"
    and "folded_summary fd = ([(''node_'', Some ''a'', ''Added'', []), (''s'', Some ''b'', ''Second'', [''t'']), (''t'', Some ''a'', ''Task, now'', [])], 3)"
  using edited_folds by (auto split: sum.splits)

lemma edited_nodes_of: "fi_plan edited_fold = edited_plan" "p_root_id edited_plan = ''r''" "map n_id (p_nodes edited_plan) = [''r'', ''a'', ''t'', ''s'', ''b'']"
  by (simp add: edited_fold_def) code_simp+

lemma edited_tree: "tree_ok (p_root_id (fi_plan edited_fold)) (p_nodes (fi_plan edited_fold))"
proof -
  have "list_all (parent_ok ''r'' (p_nodes edited_plan)) (p_nodes edited_plan)" by code_simp
  then show ?thesis unfolding edited_nodes_of by (simp add: tree_ok_def edited_nodes_of list_all_iff)
qed

lemma new_ids_fresh: "fresh_ids (fi_plan edited_fold) (fi_ids edited_fold)"
proof -
  have ids: "n_id ` set (p_nodes edited_plan) = {''r'', ''a'', ''t'', ''s'', ''b''}"
    unfolding set_map[symmetric] edited_nodes_of by simp
  have "inj new_ids" by (rule injI) (simp add: new_ids_def replicate_eq_replicate)
  moreover have "new_ids k \<notin> {''r'', ''a'', ''t'', ''s'', ''b''}" for k by (simp add: new_ids_def)
  ultimately show ?thesis unfolding fresh_ids_def edited_nodes_of ids by (simp add: edited_fold_def)
qed

section \<open>Reading\<close>

text \<open>C12: reconciling only reads the forge: replacing every operation but the reading of an issue and
  the listing of its sub-issues by any others changes neither what it returns, nor the plan it leaves, nor
  the forge.\<close>

theorem reconciling_only_reads:
  assumes "issue_get ops = issue_get (su_ops su)" and "sub_issues_list ops = sub_issues_list (su_ops su)"
  shows "reconcile_plan (su\<lparr>su_ops := ops\<rparr>) cfg ids p actor s = reconcile_plan su cfg ids p actor s"
  using assms by (intro reconcile_alike) (simp add: reads_alike_def)

text \<open>A forge whose every write loses all issues.\<close>

definition destructive :: "tracker issue_ops" where
  "destructive = tracker_ops\<lparr>issue_update := \<lambda>repo k title body f. (Inl missing, []), issue_close := \<lambda>repo k why f. (Inr (), []),
     sub_issue_remove := \<lambda>repo k r c f. (Inr (), [])\<rparr>"

theorem reconciling_only_reads_witness:
  "reconcile_plan (sample_su\<lparr>su_ops := destructive\<rparr>) sample_config new_ids edited_plan None edited_site
    = reconcile_plan sample_su sample_config new_ids edited_plan None edited_site"
  by (rule reconciling_only_reads) (simp_all add: destructive_def sample_su_def)

section \<open>Folding\<close>

text \<open>C13: folding a reading into a plan ends, whatever the reading: the queue of the walk runs within
  the fuel given, no node it follows is missing, and the one error is a number that Python refuses.\<close>

theorem folding_ends:
  assumes "tree_ok (p_root_id (fi_plan fi)) (p_nodes (fi_plan fi))" and "fresh_ids (fi_plan fi) (fi_ids fi)"
  shows "(\<exists>fd. fold_plan fi = Inr fd) \<or> (\<exists>t. fold_plan fi = Inl (BadNumber t))"
  using fold_plan_result[OF assms] by (auto simp: safe_def split: sum.splits)

theorem folding_ends_witness:
  "\<exists>fd. fold_plan edited_fold = Inr fd \<or> (\<exists>t. fold_plan edited_fold = Inl (BadNumber t))"
  using folding_ends[OF edited_tree new_ids_fresh] by blast

text \<open>C24: folding keeps the plan a tree: with the nodes a fold writes in place of the plan's, every node
  still has one parent one level up, moved and adopted nodes included, and every node of the plan keeps its
  id, level, repository, state, origin and issue: none is lost.\<close>

theorem folding_keeps_the_tree:
  assumes "tree_ok (p_root_id (fi_plan fi)) (p_nodes (fi_plan fi))" and "fresh_ids (fi_plan fi) (fi_ids fi)"
    and "fold_plan fi = Inr fd"
  shows "tree_ok (p_root_id (fi_plan fi)) (folded_nodes (fi_plan fi) fd)
    \<and> (\<forall>n\<in>set (p_nodes (fi_plan fi)). \<exists>m\<in>set (folded_nodes (fi_plan fi) fd). same_node n m)"
  using fold_keeps_tree[OF assms] by blast

theorem folding_keeps_the_tree_witness:
  "\<exists>fd. fold_plan edited_fold = Inr fd \<and> fst (folded_summary fd) \<noteq> [] \<and> tree_ok ''r'' (folded_nodes edited_plan fd)"
proof (rule edited_result)
  fix fd assume fd: "fold_plan edited_fold = Inr fd"
    "folded_summary fd = ([(''node_'', Some ''a'', ''Added'', []), (''s'', Some ''b'', ''Second'', [''t'']), (''t'', Some ''a'', ''Task, now'', [])], 3)"
  have "tree_ok ''r'' (folded_nodes edited_plan fd)"
    using folding_keeps_the_tree[OF edited_tree new_ids_fresh fd(1)] unfolding edited_nodes_of by (rule conjunct1)
  with fd show ?thesis by auto
qed

text \<open>A fold leaves a task moved under another epic depending on a sibling it had: the dependency is then
  not among its siblings.\<close>

lemma moved_task_keeps_its_dependency:
  obtains fd s t where "fold_plan edited_fold = Inr fd" and "s \<in> set (fd_upsert fd)" and "t \<in> set (fd_upsert fd)"
    and "n_id t \<in> set (n_depends_on s)" and "n_parent_id s \<noteq> n_parent_id t"
proof (rule edited_result)
  fix fd assume fd: "fold_plan edited_fold = Inr fd"
    "folded_summary fd = ([(''node_'', Some ''a'', ''Added'', []), (''s'', Some ''b'', ''Second'', [''t'']), (''t'', Some ''a'', ''Task, now'', [])], 3)"
  then obtain x s t where u: "fd_upsert fd = [x, s, t]" "n_parent_id s = Some ''b''" "n_depends_on s = [''t'']" "n_id t = ''t''" "n_parent_id t = Some ''a''"
    by (auto simp: folded_summary_def)
  show thesis by (rule that[OF fd(1), of s t]) (simp_all add: u)
qed

text \<open>A reference that ends in a superscript digit passes \<open>isdigit\<close> and is refused by \<open>int\<close>: the whole
  change of the issue's body, or of the plan, raises.\<close>

lemma superscript_reference_raises:
  "drop_reference (''## Depends on'' @ [newline, newline] @ ''- #'' @ [CHR 0xB2, newline]) ''acme/app'' ''acme/app'' 4 = Inl (BadInt [CHR 0xB2])"
  by code_simp

section \<open>Drift\<close>

text \<open>A run of edits of one kind on the forge: each entry says how its values change.\<close>

fun edits_lead :: "drift_change \<Rightarrow> (string \<Rightarrow> json) \<Rightarrow> (drift \<times> (string \<Rightarrow> json)) list \<Rightarrow> (string \<Rightarrow> json) \<Rightarrow> bool" where
  "edits_lead c now [] end_state = (now = end_state)"
| "edits_lead c now ((e, next_state) # es) end_state =
     (d_change e = c \<and> now \<noteq> next_state \<and> says now next_state e \<and> edits_lead c next_state es end_state)"

text \<open>C27: the drift of titles, sections or the state is the net change: after any run of edits a node has
  one entry of the kind, naming exactly the values that differ from what a person last saw, with what was
  seen and what the forge has, and none when the edits returned to it; the entries of every other kind stay.\<close>

theorem drift_is_the_net_change:
  assumes "c \<in> set merged_changes" and "tracks c seen now ds" and "edits_lead c now es end_state"
  shows "tracks c seen end_state (foldl merge_drift ds (map fst es))
    \<and> (\<forall>k. k \<noteq> c \<longrightarrow> of_kind k (foldl merge_drift ds (map fst es)) = of_kind k ds)"
  using assms(2,3)
proof (induction es arbitrary: now ds)
  case (Cons x es)
  obtain e next_state where x: "x = (e, next_state)" by (cases x)
  with Cons.prems(2) have e: "d_change e = c" "now \<noteq> next_state" "says now next_state e" and rest: "edits_lead c next_state es end_state"
    by auto
  from Cons.IH[OF merge_tracks[OF Cons.prems(1) e(3,2,1) assms(1)] rest] merge_leaves_others[of _ e ds] e(1) show ?case
    by (simp add: x)
qed simp

definition titled :: "string \<Rightarrow> string \<Rightarrow> json" where
  "titled t = (\<lambda>k. if k = ''title'' then JStr t else JNull)"

definition title_edit :: "string \<Rightarrow> string \<Rightarrow> drift" where
  "title_edit a b = new_drift DTitle 1 [(''title'', JStr a)] [(''title'', JStr b)] None"

lemma titled_eq: "titled a = titled b \<longleftrightarrow> a = b"
  by (auto simp: titled_def fun_eq_iff)

lemma title_edit_says: "a \<noteq> b \<Longrightarrow> says (titled a) (titled b) (title_edit a b)"
  by (auto simp: says_def titled_def title_edit_def new_drift_def jget0_def)

theorem drift_is_the_net_change_witness:
  "of_kind DTitle (foldl merge_drift [new_drift DMoved 1 [] [] None] [title_edit ''A'' ''B'', title_edit ''B'' ''C'', title_edit ''C'' ''A'']) = []"
proof -
  define es where "es = [(title_edit ''A'' ''B'', titled ''B''), (title_edit ''B'' ''C'', titled ''C''), (title_edit ''C'' ''A'', titled ''A'')]"
  have t: "tracks DTitle (titled ''A'') (titled ''A'') [new_drift DMoved 1 [] [] None]"
    by (simp add: tracks_def of_kind_def new_drift_def)
  have e: "edits_lead DTitle (titled ''A'') es (titled ''A'')"
    by (simp add: es_def titled_eq title_edit_says) (simp add: title_edit_def new_drift_def)
  have "DTitle \<in> set merged_changes" by (simp add: merged_changes_def)
  from drift_is_the_net_change[OF this t e] show ?thesis by (simp add: tracks_def es_def)
qed

end
