(* ===== verification/ForgeWrites.thy ===== *)
theory ForgeWrites
  imports Reconcile Publish
begin

text \<open>
  The service's operations on a forge: a person's direct writes (\<open>plans/direct.py\<close>), and publishing,
  reading back, acknowledging, editing, attaching and detaching (\<open>plans/service_forge.py\<close> with the parts
  of \<open>plans/service_base.py\<close> they rest on).  Only one of them works on a plan's issues at a time: the
  claims a service keeps on its plans.  The connection is an argument: which forge it speaks, and why
  opening it failed.  A refusal keeps its status, code and extras.
\<close>

section \<open>Errors\<close>

definition failing :: "('e \<Rightarrow> 'x) \<Rightarrow> ('s, 'e, 'a) action \<Rightarrow> ('s, 'x, 'a) action" where
  "failing g m s = (case m s of (Inl e, s') \<Rightarrow> (Inl (g e), s') | (Inr x, s') \<Rightarrow> (Inr x, s'))"

text \<open>What linking a child raises: a refusal with its code, or the fault of a call.\<close>

datatype link_failure = LinkRefused string | LinkFault fault

text \<open>What an operation raises: a refusal, or an exception the route answers as a failure.\<close>

datatype raised = ServiceRaised service_error | ForgeRaised fault

definition refused :: "nat \<Rightarrow> string \<Rightarrow> (string \<times> json) list \<Rightarrow> raised" where
  "refused status code extra = ServiceRaised (refuse_with status code extra)"

definition lift :: "service_error + 'a \<Rightarrow> ('s, raised, 'a) action" where
  "lift r s = (case r of Inl e \<Rightarrow> (Inl (ServiceRaised e), s) | Inr x \<Rightarrow> (Inr x, s))"

definition lift_fault :: "fault + 'a \<Rightarrow> ('s, raised, 'a) action" where
  "lift_fault r s = (case r of Inl e \<Rightarrow> (Inl (ForgeRaised e), s) | Inr x \<Rightarrow> (Inr x, s))"

definition lantern_error :: "string \<Rightarrow> fault" where
  "lantern_error t = CallFailed \<lparr>fe_text = t, fe_type = ''LanternError'', fe_github = False, fe_status = None\<rparr>"

section \<open>Editing an issue\<close>

definition changed_sections :: "plan_node \<Rightarrow> plan_node \<Rightarrow> string list" where
  "changed_sections was after = filter (\<lambda>key. node_field was key \<noteq> node_field after key
     \<or> key = ''kind'' \<and> node_field was ''workload_profile'' \<noteq> node_field after ''workload_profile'') (map fst headings)"

definition issue_write :: "plan \<Rightarrow> plan_node \<Rightarrow> plan_node \<Rightarrow> string \<Rightarrow> string \<Rightarrow> string option \<times> string option" where
  "issue_write p was after title body =
     (let new_title = (if n_title after \<noteq> squash title then Some (n_title after) else None);
          keys = changed_sections was after in
      if keys = [] then (new_title, None)
      else let whole = (n_origin after = FromForge \<and> parse_sections body = []);
               rewritten = rewrite_sections body (section_blocks after (refs p)) keys whole in
        (new_title, if rewritten = body then None else Some rewritten))"

section \<open>Attaching a child\<close>

definition add_level_label :: "'f issue_ops \<Rightarrow> config \<Rightarrow> string \<Rightarrow> int \<Rightarrow> level \<Rightarrow> ('f site, fault, unit) action" where
  "add_level_label ops cfg repo number l = (case level_label cfg repo l of
     None \<Rightarrow> raise (lantern_error (repo @ '' has no '' @ level_name l @ '' label: planning is off there''))
   | Some name \<Rightarrow> andthen (on_forge (ensure_label ops repo (level_spec l name))) (\<lambda>r.
       if r = LabelFailed then raise (lantern_error (''could not make sure the label '' @ name @ '' exists on '' @ repo))
       else on_forge (issue_labels_add ops repo number [name])))"

definition labelled :: "issue_row \<Rightarrow> string \<Rightarrow> bool" where
  "labelled row name = list_ex (\<lambda>l. casefold l = casefold name) (ir_labels row)"

definition forge_name :: "vcs_kind \<Rightarrow> string" where
  "forge_name k = (case k of GitHub \<Rightarrow> ''GitHub'' | GitLab \<Rightarrow> ''GitLab'' | Gitea \<Rightarrow> ''Gitea'')"

definition list_child :: "'f issue_ops \<Rightarrow> string \<Rightarrow> int \<Rightarrow> checklist_entry \<Rightarrow> string option \<Rightarrow>
    ('f site, link_failure, linked \<times> string option) action" where
  "list_child ops repo number entry reason =
     andthen (failing LinkFault (update_checklist ops repo number (\<lambda>b. bindR (add_child b entry) (\<lambda>b'. Inr ((), b'))))) (\<lambda>_.
       ret (LinkedChecklist, reason))"

definition link_child :: "'f issue_ops \<Rightarrow> config \<Rightarrow> plan_node \<Rightarrow> int \<Rightarrow> string \<Rightarrow> int \<Rightarrow> string \<Rightarrow>
    ('f site, link_failure, linked \<times> string option) action" where
  "link_child ops cfg parent parent_number repo number title =
     (let parent_repo = n_repository parent;
          entry = \<lparr>ck_ref = where_is repo number, ck_title = title, ck_closed = False\<rparr> in
      case repository_planning (vcs_kind_for cfg parent_repo) of
        Native \<Rightarrow> handle
          (failing LinkFault (andthen (on_forge (sub_issue_add ops parent_repo parent_number repo number)) (\<lambda>_. ret (LinkedNative, None))))
          (\<lambda>e. case e of
             LinkFault (CallFailed fe) \<Rightarrow>
               if fe_status fe = Some 422 then raise (LinkRefused ''already_has_parent'')
               else if casefold parent_repo = casefold repo then raise e
               else list_child ops parent_repo parent_number entry (Some (forge_name (vcs_kind_for cfg parent_repo)
                 @ '' refused the cross-repository sub-issue ('' @ say fe @ ''); it is listed in the parent'' @ [CHR 0x27] @ ''s checklist instead''))
           | _ \<Rightarrow> raise e)
      | ChecklistBlock \<Rightarrow> list_child ops parent_repo parent_number entry None
      | Unsupported \<Rightarrow> raise (LinkRefused ''planning_unsupported''))"

section \<open>Detaching a child\<close>

text \<open>The issue a line of a checklist names.  \<open>parse_checklist\<close> returns numbers \<open>int\<close> takes.\<close>

definition entry_key :: "string \<Rightarrow> key option" where
  "entry_key ref = (let (repo, number) = rpartition_hash ref in
     case number_in number of Inl e \<Rightarrow> None | Inr k \<Rightarrow> Some (key_of repo k))"

definition listed :: "string \<Rightarrow> key \<Rightarrow> issue_row \<Rightarrow> bool" where
  "listed parent_repo k row = (case ir_number row of None \<Rightarrow> False
     | Some number \<Rightarrow> key_of (let r = repo_of (ir_html_url row) in if r = [] then parent_repo else r) number = k)"

definition unlisted :: "key \<Rightarrow> string \<Rightarrow> checklist_error + unit \<times> string" where
  "unlisted k body = bindR (parse_checklist body) (\<lambda>entries.
     case find (\<lambda>e. entry_key (ck_ref e) = Some k) entries of
       None \<Rightarrow> Inr ((), body)
     | Some e \<Rightarrow> bindR (remove_child body (ck_ref e)) (\<lambda>b. Inr ((), b)))"

definition unlink_child :: "'f issue_ops \<Rightarrow> config \<Rightarrow> plan_node \<Rightarrow> int \<Rightarrow> plan_node \<Rightarrow> int \<Rightarrow> ('f site, fault, linked list) action" where
  "unlink_child ops cfg parent parent_number child number =
     (let parent_repo = n_repository parent; k = key_of (n_repository child) number in
      andthen
        (if repository_planning (vcs_kind_for cfg parent_repo) \<noteq> Native then ret []
         else andthen (on_forge (sub_issues_list ops parent_repo parent_number)) (\<lambda>rows.
           if list_ex (listed parent_repo k) rows
           then andthen (on_forge (sub_issue_remove ops parent_repo parent_number (n_repository child) number)) (\<lambda>_. ret [LinkedNative])
           else ret []))
        (\<lambda>unlinked. handle
          (andthen (update_checklist ops parent_repo parent_number (unlisted k)) (\<lambda>w.
             ret (if w = None then unlinked else unlinked @ [LinkedChecklist])))
          (\<lambda>e. case e of Mangled m \<Rightarrow> if unlinked \<noteq> [] then ret unlinked else raise e | _ \<Rightarrow> raise e)))"

definition without_dependency :: "plan_node list \<Rightarrow> ident \<Rightarrow> plan_node list" where
  "without_dependency siblings i = map (\<lambda>s. s\<lparr>n_depends_on := filter (\<lambda>d. d \<noteq> i) (n_depends_on s)\<rparr>)
     (filter (\<lambda>s. i \<in> set (n_depends_on s)) siblings)"

section \<open>One operation at a time\<close>

text \<open>The plans being published, reconciled and written to directly.\<close>

record claims =
  cl_publishing :: "ident list"
  cl_reconciling :: "ident list"
  cl_writing :: "ident list"

abbreviation in_progress :: service_error where
  "in_progress \<equiv> refuse 409 ''already_in_progress''"

definition discard :: "ident \<Rightarrow> ident list \<Rightarrow> ident list" where
  "discard i xs = filter (\<lambda>x. x \<noteq> i) xs"

definition claim_publish :: "ident \<Rightarrow> claims \<Rightarrow> service_error + claims" where
  "claim_publish i c = (if i \<in> set (cl_publishing c) \<or> i \<in> set (cl_writing c) then Inl in_progress
     else Inr (c\<lparr>cl_publishing := i # cl_publishing c\<rparr>))"

definition claim_reconcile :: "ident \<Rightarrow> claims \<Rightarrow> service_error + claims" where
  "claim_reconcile i c = (if i \<in> set (cl_publishing c) \<or> i \<in> set (cl_reconciling c) \<or> i \<in> set (cl_writing c) then Inl in_progress
     else Inr (c\<lparr>cl_reconciling := i # cl_reconciling c\<rparr>))"

definition claim_write :: "ident \<Rightarrow> claims \<Rightarrow> service_error + claims" where
  "claim_write i c = (if i \<in> set (cl_publishing c) \<or> i \<in> set (cl_reconciling c) \<or> i \<in> set (cl_writing c) then Inl in_progress
     else Inr (c\<lparr>cl_writing := i # cl_writing c\<rparr>))"

definition release_publish :: "ident \<Rightarrow> claims \<Rightarrow> claims" where
  "release_publish i c = c\<lparr>cl_publishing := discard i (cl_publishing c)\<rparr>"

definition release_reconcile :: "ident \<Rightarrow> claims \<Rightarrow> claims" where
  "release_reconcile i c = c\<lparr>cl_reconciling := discard i (cl_reconciling c)\<rparr>"

definition release_write :: "ident \<Rightarrow> claims \<Rightarrow> claims" where
  "release_write i c = c\<lparr>cl_writing := discard i (cl_writing c)\<rparr>"

text \<open>The service: its claims, when it last tried to read each plan's forge, and the site.\<close>

record 'f desk =
  dk_claims :: claims
  dk_attempted :: "(ident \<times> timestamp) list"
  dk_site :: "'f site"

definition on_site :: "('f site, 'e, 'a) action \<Rightarrow> ('f desk, 'e, 'a) action" where
  "on_site m s = (case m (dk_site s) of (r, s') \<Rightarrow> (r, s\<lparr>dk_site := s'\<rparr>))"

text \<open>A claim held while the body runs, and released however it ends.\<close>

definition holding :: "(claims \<Rightarrow> service_error + claims) \<Rightarrow> (claims \<Rightarrow> claims) \<Rightarrow> ('f desk, raised, 'a) action \<Rightarrow>
    ('f desk, raised, 'a) action" where
  "holding claim release body s = (case claim (dk_claims s) of
     Inl e \<Rightarrow> (Inl (ServiceRaised e), s)
   | Inr c \<Rightarrow> (case body (s\<lparr>dk_claims := c\<rparr>) of (r, s') \<Rightarrow> (r, s'\<lparr>dk_claims := release (dk_claims s')\<rparr>)))"

definition get_plan :: "ident \<Rightarrow> ('f desk, raised, plan) action" where
  "get_plan i s = lift (service_get (st_db (dk_site s)) i) s"

definition forge_write :: "ident \<Rightarrow> int \<Rightarrow> (plan \<Rightarrow> ('f desk, raised, 'a) action) \<Rightarrow> ('f desk, raised, 'a) action" where
  "forge_write i expected body = holding (claim_write i) (release_write i)
     (andthen (get_plan i) (\<lambda>p. andthen (lift (check_revision p expected)) (\<lambda>_. body p)))"

section \<open>What the writes share\<close>

text \<open>The daemon's connection: the forge it speaks, and why opening it failed.\<close>

record connection =
  cn_kind :: "vcs_kind option"
  cn_down :: "string option"

definition connect :: "connection \<Rightarrow> ('s, raised, unit) action" where
  "connect cn = (if cn_kind cn = None \<or> cn_down cn \<noteq> None then raise (refused 503 ''source_unavailable'' []) else ret ())"

definition read_issue :: "'f issue_ops \<Rightarrow> string \<Rightarrow> int \<Rightarrow> nat \<Rightarrow> ('f site, raised, seen) action" where
  "read_issue ops repo number missing = handle
     (failing ForgeRaised (andthen (on_forge (issue_get ops repo number)) (\<lambda>row. ret (seen_of row repo number))))
     (\<lambda>e. case e of ForgeRaised (CallFailed fe) \<Rightarrow>
            if gone fe then raise (refused missing ''issue_gone'' []) else raise (refused 502 ''forge_refused'' [])
        | _ \<Rightarrow> raise e)"

text \<open>What was written to the forge is recorded against the plan as it is now, again while other writes
  win.\<close>

definition record_attempt :: "'f surroundings \<Rightarrow> ident \<Rightarrow> (plan \<Rightarrow> timestamp \<Rightarrow> raised + plan_node list) \<Rightarrow>
    (string \<times> json) list \<Rightarrow> (string \<times> json) list \<Rightarrow> ('f site, raised attempt_error, plan) action" where
  "record_attempt su i change data actor s = (case service_get (st_db s) i of
     Inl e \<Rightarrow> (Inl (Raised (ServiceRaised e)), s)
   | Inr latest \<Rightarrow>
       let now = su_clock su (st_tick s); s' = s\<lparr>st_db := su_others su (st_tick s) (st_db s), st_tick := Suc (st_tick s)\<rparr> in
       (case change latest now of
          Inl e \<Rightarrow> (Inl (Raised e), s')
        | Inr nodes \<Rightarrow> (case store_apply (st_db s') i (p_revision latest) now (no_change\<lparr>ch_upsert := nodes,
              ch_events := [event_of ''plan.node.changed'' ((''plan_id'', JStr i) # data)], ch_actor := Some actor\<rparr>) of
            Inl (StaleRevision r) \<Rightarrow> (Inl (Stale r), s')
          | Inl _ \<Rightarrow> (Inl (Raised (ServiceRaised not_found)), s')
          | Inr (d, q) \<Rightarrow> (Inr q, s'\<lparr>st_db := d\<rparr>))))"

definition record_written :: "'f surroundings \<Rightarrow> ident \<Rightarrow> (plan \<Rightarrow> timestamp \<Rightarrow> raised + plan_node list) \<Rightarrow>
    (string \<times> json) list \<Rightarrow> (string \<times> json) list \<Rightarrow> ('f site, raised, plan) action" where
  "record_written su i change data actor s = (case retry_action tries (record_attempt su i change data actor) None s of
     (Inr q, s') \<Rightarrow> (Inr q, s')
   | (Inl (Raised e), s') \<Rightarrow> (Inl e, s')
   | (Inl _, s') \<Rightarrow> (Inl (ServiceRaised in_progress), s'))"

text \<open>The issue an attach names.\<close>

definition issue_named :: "string option \<Rightarrow> int option \<Rightarrow> string option \<Rightarrow> raised + string \<times> int" where
  "issue_named repo number url =
     (if truthy url
      then (case parse_issue_url (the url) of
          Inl (BadInt t) \<Rightarrow> Inl (ForgeRaised (BadNumber t))
        | Inr None \<Rightarrow> Inl (ServiceRaised invalid_argument)
        | Inr (Some (r, k)) \<Rightarrow>
            if truthy repo \<and> casefold (the repo) \<noteq> casefold r \<or> number \<noteq> None \<and> number \<noteq> Some k
            then Inl (ServiceRaised invalid_argument) else Inr (r, k))
      else (case (repo, number) of
          (Some r, Some k) \<Rightarrow> if r = [] then Inl (ServiceRaised invalid_argument) else Inr (r, k)
        | _ \<Rightarrow> Inl (ServiceRaised invalid_argument)))"

definition by_issue :: "plan \<Rightarrow> string \<Rightarrow> int \<Rightarrow> plan_node option" where
  "by_issue p repo number = find (\<lambda>n. node_key n = Some (key_of repo number)) (p_nodes p)"

end
