(* ===== verification/ForgeService.thy ===== *)
theory ForgeService
  imports ForgeWrites
begin

text \<open>
  The operations of the service on a forge (\<open>plans/service_forge.py\<close>): publishing a level, opening and
  reconciling a plan, acknowledging drift, editing a published node, attaching and detaching a child.
\<close>

section \<open>Publishing\<close>

definition in_order :: "'a list \<Rightarrow> 'a list" where
  "in_order xs = rev (remdups (rev xs))"

definition check_publish :: "config \<Rightarrow> vcs_kind option \<Rightarrow> int \<Rightarrow> ident \<Rightarrow> plan \<Rightarrow> service_error + plan_node" where
  "check_publish cfg forge_kind expected node_id p =
     bindR (check_revision p expected) (\<lambda>_.
     bindR (not_archived p) (\<lambda>_.
     bindR (node_in p node_id) (\<lambda>n.
     bindR (check_level p n) (\<lambda>_.
     bindR (check (\<not> generation_pending p) (refuse 409 ''generation_required'')) (\<lambda>_.
     let targets = level_targets p (n_id n) None in
     bindR (foldR (\<lambda>_ repo. check_publishable cfg repo forge_kind) () (in_order (n_repository n # map n_repository targets))) (\<lambda>_.
     bindR (check_cap cfg p n targets) (\<lambda>_.
     bindR (check_dependencies_published p n targets) (\<lambda>_.
     bindR (check (forge_kind \<noteq> None) (refuse 503 ''source_unavailable'')) (\<lambda>_.
     Inr n)))))))))"

definition note_published :: "'f surroundings \<Rightarrow> ident \<Rightarrow> ident \<Rightarrow> (string \<times> json) list \<Rightarrow> level_result \<Rightarrow> ('f site, raised, level_result) action" where
  "note_published su i node_id actor r s =
     (case store_note (st_db s) i (su_clock su (st_tick s)) [event_of ''plan.published'' [(''plan_id'', JStr i),
         (''node_id'', JStr node_id), (''published'', jstrs (lr_published r)), (''failed'', jstrs (lr_failed r))]] (Some actor) of
        Inl _ \<Rightarrow> (Inl (ForgeRaised Gone), s\<lparr>st_tick := Suc (st_tick s)\<rparr>)
      | Inr d \<Rightarrow> (Inr r, s\<lparr>st_db := d, st_tick := Suc (st_tick s)\<rparr>))"

definition service_publish :: "'f surroundings \<Rightarrow> config \<Rightarrow> connection \<Rightarrow> ident \<Rightarrow> ident \<Rightarrow> int \<Rightarrow> (string \<times> json) list \<Rightarrow>
    ('f desk, raised, level_result) action" where
  "service_publish su cfg cn i node_id expected actor =
     andthen (get_plan i) (\<lambda>p.
     andthen (lift (check_publish cfg (cn_kind cn) expected node_id p)) (\<lambda>n.
     holding (claim_publish (p_id p)) (release_publish (p_id p))
       (andthen (connect cn) (\<lambda>_. on_site
         (andthen (failing ForgeRaised (publish_level su cfg p (n_id n) (Some actor) None)) (\<lambda>r.
           note_published su (p_id p) (n_id n) actor r))))))"

section \<open>Reading back\<close>

definition no_forge :: string where "no_forge = ''the daemon has no forge connection''"
definition idle :: string where "idle = ''the forge connection is not up yet; a sync reads the forge now''"

definition said :: "plan \<Rightarrow> string option \<Rightarrow> reconciliation" where
  "said p reason = \<lparr>rc_plan = p, rc_changes = 0, rc_said = reason\<rparr>"

definition unreachable :: "ident \<Rightarrow> string \<Rightarrow> bool \<Rightarrow> ('f site, raised, reconciliation) action" where
  "unreachable i reason force s = (case mark_reconciled (st_db s) i \<lparr>rc_at = None, rc_error = Some reason\<rparr> of
     Inl _ \<Rightarrow> (Inl (ServiceRaised not_found), s)
   | Inr (d, q) \<Rightarrow> ((if force then Inl (refused 503 ''source_unavailable'' []) else Inr (said q (Some reason))), s\<lparr>st_db := d\<rparr>))"

text \<open>\<open>clock()\<close>, called.\<close>

definition clock_now :: "'f surroundings \<Rightarrow> (timestamp \<Rightarrow> ('f desk, 'e, 'a) action) \<Rightarrow> ('f desk, 'e, 'a) action" where
  "clock_now su k s = k (su_clock su (st_tick (dk_site s))) (s\<lparr>dk_site := (dk_site s)\<lparr>st_tick := Suc (st_tick (dk_site s))\<rparr>\<rparr>)"

definition last_read :: "(ident \<times> timestamp) list \<Rightarrow> plan \<Rightarrow> timestamp" where
  "last_read attempted p = max (case map_of attempted (p_id p) of None \<Rightarrow> 0 | Some t \<Rightarrow> t)
     (case p_reconciled_at p of None \<Rightarrow> 0 | Some t \<Rightarrow> t)"

definition reconcile_now :: "'f surroundings \<Rightarrow> config \<Rightarrow> (nat \<Rightarrow> ident) \<Rightarrow> connection \<Rightarrow> plan \<Rightarrow> (string \<times> json) list option \<Rightarrow> bool \<Rightarrow>
    ('f desk, raised, reconciliation) action" where
  "reconcile_now su cfg ids cn p actor force = clock_now su (\<lambda>now s. on_site
     (case (cn_kind cn, cn_down cn) of
        (None, _) \<Rightarrow> unreachable (p_id p) no_forge force
      | (_, Some why) \<Rightarrow> unreachable (p_id p) (''could not reach the forge: '' @ why) force
      | _ \<Rightarrow> failing (\<lambda>e. if e = Gone then ServiceRaised not_found else ForgeRaised e) (reconcile_plan su cfg ids p actor))
     (s\<lparr>dk_attempted := dict_set (p_id p) now (dk_attempted s)\<rparr>))"

text \<open>A busy plan is skipped on an open and refused on a sync a person asked for.\<close>

definition claimed_or :: "bool \<Rightarrow> ident \<Rightarrow> reconciliation \<Rightarrow> ('f desk, raised, reconciliation) action \<Rightarrow>
    ('f desk, raised, reconciliation) action" where
  "claimed_or force i stored body s =
     (if isl (claim_reconcile i (dk_claims s)) \<and> \<not> force then (Inr stored, s)
      else holding (claim_reconcile i) (release_reconcile i) body s)"

definition service_reconcile :: "'f surroundings \<Rightarrow> config \<Rightarrow> (nat \<Rightarrow> ident) \<Rightarrow> connection \<Rightarrow> ident \<Rightarrow> (string \<times> json) list option \<Rightarrow>
    bool \<Rightarrow> bool \<Rightarrow> ('f desk, raised, reconciliation) action" where
  "service_reconcile su cfg ids cn i actor force ready =
     andthen (get_plan i) (\<lambda>p.
     let stored = said p (p_reconcile_error p);
         go = claimed_or force (p_id p) stored (reconcile_now su cfg ids cn p actor force) in
     if p_archived p then (if force then raise (refused 409 ''plan_archived'' []) else ret stored)
     else (case root p of
         None \<Rightarrow> raise (ForgeRaised (MissingKey (p_root_id p)))
       | Some r \<Rightarrow>
           if \<not> followed r then ret stored
           else if force then go
           else let interval = pc_reconcile_interval_s (planning_for cfg (n_repository r)) in
             if interval \<le> 0 then ret stored
             else clock_now su (\<lambda>now s.
               if now - last_read (dk_attempted s) p < of_int interval then (Inr stored, s)
               else if \<not> ready then (Inr (said p (Some idle)), s)
               else go s)))"

text \<open>How \<open>open\<close> names an exception of a reading; those a reconcile raises besides a refusal.\<close>

fun exception_text :: "fault \<Rightarrow> string" where
  "exception_text (BadNumber t) = ''ValueError: invalid literal for int() with base 10: '' @ py_repr t"
| "exception_text (MissingKey k) = ''KeyError: '' @ py_repr k"
| "exception_text (CallFailed e) = fe_type e @ '': '' @ fe_text e"
| "exception_text (Mangled e) = ''ChecklistMangled: '' @ mangled_text e"
| "exception_text e = ''LanternError''"

text \<open>A refusal of status 404 is passed on; any other, which a read that is not asked for never meets
  (\<open>opening_refuses_only_missing\<close>), is answered with the stored plan.\<close>

definition service_open :: "'f surroundings \<Rightarrow> config \<Rightarrow> (nat \<Rightarrow> ident) \<Rightarrow> connection \<Rightarrow> ident \<Rightarrow> (string \<times> json) list option \<Rightarrow>
    bool \<Rightarrow> ('f desk, raised, reconciliation) action" where
  "service_open su cfg ids cn i actor ready =
     andthen (get_plan i) (\<lambda>p. handle (service_reconcile su cfg ids cn i actor False ready)
       (\<lambda>e. case e of
          ServiceRaised (Refused r) \<Rightarrow> if rf_status r = 404 then raise e else ret (said p (Some (rf_code r)))
        | ServiceRaised (StoreRaised x) \<Rightarrow> ret (said p (Some ''could not read the forge''))
        | ForgeRaised x \<Rightarrow> ret (said p (Some (''could not read the forge: '' @ exception_text x)))))"

section \<open>Acknowledging drift\<close>

definition ack_drift :: "db \<Rightarrow> ident \<Rightarrow> int \<Rightarrow> ident list option \<Rightarrow> timestamp \<Rightarrow> (string \<times> json) list \<Rightarrow> service_error + db \<times> plan" where
  "ack_drift d i expected node_ids now actor =
     bindR (service_get d i) (\<lambda>p.
     bindR (check_revision p expected) (\<lambda>_.
     let unknown = (case node_ids of None \<Rightarrow> [] | Some xs \<Rightarrow> sort (remdups (filter (\<lambda>x. x \<notin> n_id ` set (p_nodes p)) xs)));
         chosen = (case node_ids of None \<Rightarrow> p_nodes p | Some xs \<Rightarrow> filter (\<lambda>n. n_id n \<in> set xs) (p_nodes p));
         seen = map (\<lambda>n. n\<lparr>n_drift := []\<rparr>) (filter (\<lambda>n. n_drift n \<noteq> []) chosen) in
     bindR (check (unknown = []) (refuse_with 422 ''invalid_argument'' [(''node_ids'', jstrs unknown)])) (\<lambda>_.
     if seen = [] then Inr (d, p)
     else service_write d p expected now (no_change\<lparr>ch_upsert := seen, ch_actor := Some actor,
       ch_events := [event_of ''plan.node.changed'' [(''plan_id'', JStr (p_id p)), (''node_id'', JNull), (''change'', JStr ''drift_seen''),
         (''node_ids'', jstrs (map n_id seen))]]\<rparr>))))"

section \<open>Editing a published node\<close>

definition copy_content :: "plan_node \<Rightarrow> plan_node \<Rightarrow> plan_node" where
  "copy_content from_node n = n\<lparr>n_title := n_title from_node, n_goal := n_goal from_node, n_context := n_context from_node,
     n_acceptance_criteria := n_acceptance_criteria from_node, n_kind := n_kind from_node,
     n_workload_profile := n_workload_profile from_node, n_verify_commands := n_verify_commands from_node,
     n_depends_on := n_depends_on from_node, n_non_goals := n_non_goals from_node, n_constraints := n_constraints from_node\<rparr>"

definition edit_recorded :: "ident \<Rightarrow> plan_node \<Rightarrow> string option \<Rightarrow> int option \<Rightarrow> plan \<Rightarrow> timestamp \<Rightarrow> raised + plan_node list" where
  "edit_recorded node_id edited stamp_at position latest now = (case node_in latest node_id of
     Inl e \<Rightarrow> Inl (ServiceRaised e)
   | Inr base \<Rightarrow> (case n_forge base of
         None \<Rightarrow> Inl (ForgeRaised (MissingKey ''forge''))
       | Some f \<Rightarrow>
           let new = (copy_content edited base)\<lparr>n_forge := Some (f\<lparr>f_updated_at := stamp_at\<rparr>), n_updated_at := now\<rparr> in
           (case (position, n_parent_id new) of
              (Some k, Some q) \<Rightarrow> Inr (reorder (map (\<lambda>s. if n_id s = n_id new then new else s) (children latest q)) (n_id new) (Some k))
            | _ \<Rightarrow> Inr [new])))"

definition current_json :: "(json \<Rightarrow> string) \<Rightarrow> plan_node \<Rightarrow> seen \<Rightarrow> string \<Rightarrow> json" where
  "current_json digest n sn url = JObj (content n @ [(''forge_version'', JStr (content_version digest n)),
     (''number'', JNum (of_int (sn_number sn))), (''url'', JStr (if sn_url sn = [] then url else sn_url sn))])"

definition changed_fields :: "plan_node \<Rightarrow> plan_node \<Rightarrow> string list" where
  "changed_fields was after = map fst (filter (\<lambda>(k, v). map_of (content after) k \<noteq> Some v) (content was))"

definition write_issue :: "'f issue_ops \<Rightarrow> string \<Rightarrow> seen \<Rightarrow> string option \<times> string option \<Rightarrow> ('f site, raised, string option) action" where
  "write_issue ops repo sn = (\<lambda>(title, body).
     if title = None \<and> body = None then ret (sn_updated_at sn)
     else andthen (handle (failing ForgeRaised (on_forge (issue_update ops repo (sn_number sn) title body)))
         (\<lambda>e. raise (refused 502 ''forge_refused'' []))) (\<lambda>row.
       ret (if truthy (ir_updated_at row) then ir_updated_at row else sn_updated_at sn)))"

definition edit_event :: "plan_node \<Rightarrow> plan_node \<Rightarrow> seen \<Rightarrow> string option \<times> string option \<Rightarrow> string option \<Rightarrow> (string \<times> json) list" where
  "edit_event n edited sn w via = [(''node_id'', JStr (n_id n)), (''change'', JStr ''issue_edited''),
     (''number'', JNum (of_int (sn_number sn))), (''fields'', jstrs (changed_fields n edited)),
     (''wrote'', jstrs ((if fst w = None then [] else [''title'']) @ (if snd w = None then [] else [''body''])))]
     @ (if truthy via then [(''via'', JStr (the via))] else [])"

definition write_published :: "'f surroundings \<Rightarrow> config \<Rightarrow> (json \<Rightarrow> string) \<Rightarrow> plan \<Rightarrow> ident \<Rightarrow> string \<Rightarrow> section_edit list \<Rightarrow> int option \<Rightarrow>
    (string \<times> json) list \<Rightarrow> string option \<Rightarrow> ('f site, raised, plan) action" where
  "write_published su cfg digest p node_id forge_version ss position actor via =
     andthen (lift (followed_node p node_id)) (\<lambda>n. case n_forge n of
       None \<Rightarrow> raise (ForgeRaised (MissingKey ''forge''))
     | Some f \<Rightarrow>
       andthen (read_issue (su_ops su) (n_repository n) (f_number f) 409) (\<lambda>sn.
       andthen (lift_fault (as_forge_has_it p n (sn_title sn) (sn_body sn))) (\<lambda>current.
       if content_version digest current \<noteq> forge_version
       then raise (refused 409 ''forge_changed'' [(''forge_version'', JStr (content_version digest current)),
              (''current'', current_json digest current sn (f_url f))])
       else andthen (lift (with_sections cfg current ss (siblings_of p n))) (\<lambda>edited.
       andthen (lift (check_published_dependencies p current edited)) (\<lambda>_.
       let w = issue_write p current edited (sn_title sn) (sn_body sn) in
       andthen (write_issue (su_ops su) (n_repository n) sn w) (\<lambda>stamp_at.
       record_written su (p_id p) (edit_recorded node_id edited stamp_at position) (edit_event n edited sn w via) actor))))))"

definition check_edit :: "config \<Rightarrow> vcs_kind option \<Rightarrow> ident \<Rightarrow> int \<Rightarrow> string option \<Rightarrow> section_edit list \<Rightarrow> int option \<Rightarrow> plan \<Rightarrow> service_error + unit" where
  "check_edit cfg forge_kind node_id expected forge_version ss position p =
     bindR (check_revision p expected) (\<lambda>_.
     bindR (not_archived p) (\<lambda>_.
     bindR (followed_node p node_id) (\<lambda>n.
     bindR (check (ss \<noteq> []) invalid_argument) (\<lambda>_.
     bindR (check (truthy forge_version) invalid_argument) (\<lambda>_.
     bindR (check (position = None \<or> n_parent_id n \<noteq> None) invalid_argument) (\<lambda>_.
     bindR (with_sections cfg n ss (siblings_of p n)) (\<lambda>after.
     bindR (check_published_dependencies p n after) (\<lambda>_.
     check_publishable cfg (n_repository n) forge_kind))))))))"

definition edit_published :: "'f surroundings \<Rightarrow> config \<Rightarrow> (json \<Rightarrow> string) \<Rightarrow> connection \<Rightarrow> ident \<Rightarrow> ident \<Rightarrow> int \<Rightarrow> string option \<Rightarrow>
    section_edit list \<Rightarrow> int option \<Rightarrow> (string \<times> json) list \<Rightarrow> ('f desk, raised, plan) action" where
  "edit_published su cfg digest cn i node_id expected forge_version ss position actor =
     andthen (get_plan i) (\<lambda>p.
     andthen (lift (check_edit cfg (cn_kind cn) node_id expected forge_version ss position p)) (\<lambda>_.
     forge_write (p_id p) expected (\<lambda>p'. andthen (connect cn) (\<lambda>_.
       on_site (write_published su cfg digest p' node_id (the forge_version) ss position actor None)))))"

section \<open>Attaching\<close>

record attached =
  at_plan :: plan
  at_node_id :: ident
  at_linked :: linked
  at_reason :: "string option"

definition check_attach :: "config \<Rightarrow> vcs_kind option \<Rightarrow> ident \<Rightarrow> int \<Rightarrow> plan \<Rightarrow> service_error + plan_node \<times> level" where
  "check_attach cfg forge_kind node_id expected p =
     bindR (check_revision p expected) (\<lambda>_.
     bindR (not_archived p) (\<lambda>_.
     bindR (followed_node p node_id) (\<lambda>parent. case child_level (n_level parent) of
       None \<Rightarrow> Inl invalid_argument
     | Some l \<Rightarrow> Inr (parent, l))))"

definition check_issue :: "config \<Rightarrow> vcs_kind option \<Rightarrow> plan \<Rightarrow> plan_node \<Rightarrow> level \<Rightarrow> string \<Rightarrow> int \<Rightarrow> service_error + string \<times> plan_node option" where
  "check_issue cfg forge_kind p parent l asked number =
     bindR (child_repository cfg parent l (Some asked)) (\<lambda>repo.
     bindR (foldR (\<lambda>_ r. check_publishable cfg r forge_kind) () (in_order [n_repository parent, repo])) (\<lambda>_.
     let known = by_issue p repo number in
     bindR (case known of None \<Rightarrow> Inr () | Some n \<Rightarrow> check (\<not> (followed n \<or> n_level n \<noteq> l))
       (refuse_with 409 ''already_in_plan'' [(''node_id'', JStr (n_id n))])) (\<lambda>_.
     bindR (check_room cfg p parent) (\<lambda>_.
     Inr (repo, known)))))"

text \<open>The issue read: an open issue that no plan has, but the node it may follow again.\<close>

definition check_marker :: "plan \<Rightarrow> plan_node option \<Rightarrow> unit \<Rightarrow> ident \<times> ident \<Rightarrow> service_error + unit" where
  "check_marker p known u = (\<lambda>(other_plan, other_node).
     if other_plan \<noteq> p_id p then Inl (refuse_with 409 ''in_another_plan'' [(''plan_id'', JStr other_plan)])
     else (case plan_node_of p other_node of
         None \<Rightarrow> Inr ()
       | Some n \<Rightarrow> check (map_option n_id known = Some (n_id n)) (refuse_with 409 ''already_in_plan'' [(''node_id'', JStr (n_id n))])))"

definition attachable :: "plan \<Rightarrow> plan_node option \<Rightarrow> string \<Rightarrow> int \<Rightarrow> issue_row \<Rightarrow> service_error + seen" where
  "attachable p known repo number row =
     (let sn = seen_of row repo number in
      bindR (check (\<not> ir_pull_request row) (refuse 422 ''not_an_issue'')) (\<lambda>_.
      bindR (check (sn_state sn \<noteq> ForgeClosed) (refuse 409 ''issue_closed'')) (\<lambda>_.
      bindR (foldR (check_marker p known) () (markers (sn_body sn))) (\<lambda>_.
      Inr sn))))"

definition attach_refusal :: "string \<Rightarrow> link_failure \<Rightarrow> raised" where
  "attach_refusal repo e = (case e of
     LinkRefused code \<Rightarrow> refused 409 code [(''repository'', JStr repo)]
   | LinkFault (Mangled m) \<Rightarrow> refused 409 ''checklist_mangled'' []
   | LinkFault (CallFailed fe) \<Rightarrow> refused 502 ''forge_refused'' []
   | LinkFault f \<Rightarrow> ForgeRaised f)"

definition link_issue :: "'f issue_ops \<Rightarrow> config \<Rightarrow> plan_node \<Rightarrow> int \<Rightarrow> string \<Rightarrow> int \<Rightarrow> string \<Rightarrow> level \<Rightarrow> issue_row \<Rightarrow>
    ('f site, raised, linked \<times> string option) action" where
  "link_issue ops cfg parent parent_number repo number title l row = failing (attach_refusal repo)
     (andthen (link_child ops cfg parent parent_number repo number title) (\<lambda>r.
      andthen (if (case level_label cfg repo l of None \<Rightarrow> True | Some label \<Rightarrow> \<not> labelled row label)
        then failing LinkFault (add_level_label ops cfg repo number l) else ret ()) (\<lambda>_. ret r)))"

definition last_position :: "plan_node list \<Rightarrow> int" where
  "last_position cs = (case map n_position cs of [] \<Rightarrow> 0 | x # xs \<Rightarrow> foldl max x xs + 1)"

definition attach_recorded :: "ident \<Rightarrow> plan_node \<Rightarrow> level \<Rightarrow> string \<Rightarrow> string \<Rightarrow> seen \<Rightarrow> plan \<Rightarrow> timestamp \<Rightarrow> raised + plan_node list" where
  "attach_recorded child_id parent l repo title sn latest now =
     (let position = last_position (children latest (n_id parent)) in
      case (case plan_node_of latest child_id of None \<Rightarrow> None | Some again \<Rightarrow> map_option (\<lambda>f. (again, f)) (n_forge again)) of
        Some (again, f) \<Rightarrow> Inr [again\<lparr>n_parent_id := Some (n_id parent), n_position := position,
          n_forge := Some (f\<lparr>f_detached := None\<rparr>), n_updated_at := now\<rparr>]
      | None \<Rightarrow> (case as_forge_has_it latest (blank_node child_id (p_id latest) (n_id parent) position l repo title (seen_ref sn) now) title (sn_body sn) of
            Inl e \<Rightarrow> Inl (ForgeRaised e)
          | Inr adopted \<Rightarrow> Inr [adopted\<lparr>n_title := title\<rparr>]))"

definition linked_name :: "linked \<Rightarrow> json" where
  "linked_name l = (case l of LinkedNative \<Rightarrow> JStr ''native'' | LinkedChecklist \<Rightarrow> JStr ''checklist'' | LinkedNone \<Rightarrow> JNull)"

text \<open>\<open>fresh\<close> is the id a new node gets.\<close>

definition attach_issue :: "'f surroundings \<Rightarrow> config \<Rightarrow> plan \<Rightarrow> plan_node \<Rightarrow> level \<Rightarrow> string \<Rightarrow> int \<Rightarrow> plan_node option \<Rightarrow> ident \<Rightarrow>
    (string \<times> json) list \<Rightarrow> ('f site, raised, attached) action" where
  "attach_issue su cfg p parent l repo number known fresh actor =
     andthen (handle (failing ForgeRaised (on_forge (issue_get (su_ops su) repo number)))
         (\<lambda>e. case e of ForgeRaised (CallFailed fe) \<Rightarrow> if gone fe then raise (refused 404 ''issue_not_found'' [(''repository'', JStr repo)])
             else raise (refused 502 ''forge_refused'' []) | _ \<Rightarrow> raise e)) (\<lambda>row.
     andthen (lift (attachable p known repo number row)) (\<lambda>sn.
     let title = take 256 (let t = squash (sn_title sn) in if t = [] then where_is repo number else t);
         child_id = (case known of None \<Rightarrow> fresh | Some n \<Rightarrow> n_id n) in
     case n_forge parent of
       None \<Rightarrow> raise (ForgeRaised (MissingKey ''forge''))
     | Some pf \<Rightarrow>
     andthen (link_issue (su_ops su) cfg parent (f_number pf) repo number title l row) (\<lambda>(linked, reason).
     andthen (record_written su (p_id p) (attach_recorded child_id parent l repo title sn)
       [(''node_id'', JStr child_id), (''change'', JStr ''attached''), (''parent_id'', JStr (n_id parent)), (''number'', JNum (of_int (sn_number sn))),
        (''url'', JStr (sn_url sn)), (''linked'', linked_name linked), (''reattached'', JBool (known \<noteq> None))] actor) (\<lambda>q.
     ret \<lparr>at_plan = q, at_node_id = child_id, at_linked = linked, at_reason = reason\<rparr>))))"

definition attach_child :: "'f surroundings \<Rightarrow> config \<Rightarrow> connection \<Rightarrow> ident \<Rightarrow> ident \<Rightarrow> int \<Rightarrow> string option \<Rightarrow> int option \<Rightarrow> string option \<Rightarrow>
    ident \<Rightarrow> (string \<times> json) list \<Rightarrow> ('f desk, raised, attached) action" where
  "attach_child su cfg cn i node_id expected named number url fresh actor =
     andthen (get_plan i) (\<lambda>p.
     andthen (lift (check_attach cfg (cn_kind cn) node_id expected p)) (\<lambda>(parent, l).
     andthen (\<lambda>s. (issue_named named number url, s)) (\<lambda>(asked, wanted).
     andthen (lift (check_issue cfg (cn_kind cn) p parent l asked wanted)) (\<lambda>(repo, known).
     forge_write (p_id p) expected (\<lambda>p'. andthen (connect cn) (\<lambda>_.
       on_site (attach_issue su cfg p' parent l repo wanted known fresh actor)))))))"

section \<open>Detaching\<close>

fun drop_dependents :: "'f issue_ops \<Rightarrow> plan_node \<Rightarrow> int \<Rightarrow> plan_node list \<Rightarrow> ('f site, fault, ident list) action" where
  "drop_dependents ops n number [] = ret []"
| "drop_dependents ops n number (s # ss) = (case n_forge s of
      None \<Rightarrow> drop_dependents ops n number ss
    | Some f \<Rightarrow>
        if n_id n \<notin> set (n_depends_on s) \<or> \<not> followed s then drop_dependents ops n number ss
        else andthen (handle (andthen (on_forge (issue_get ops (n_repository s) (f_number f))) (\<lambda>row. ret (Some (ir_body row))))
            (\<lambda>e. case e of CallFailed fe \<Rightarrow> if gone fe then ret None else raise e | _ \<Rightarrow> raise e)) (\<lambda>read. case read of
          None \<Rightarrow> drop_dependents ops n number ss
        | Some body \<Rightarrow> (case drop_reference body (n_repository s) (n_repository n) number of
            Inl (BadInt t) \<Rightarrow> raise (BadNumber t)
          | Inr dropped \<Rightarrow>
              if dropped = body then drop_dependents ops n number ss
              else andthen (on_forge (issue_update ops (n_repository s) (f_number f) None (Some dropped))) (\<lambda>_.
                andthen (drop_dependents ops n number ss) (\<lambda>ids. ret (n_id s # ids))))))"

definition detach_refusal :: "fault \<Rightarrow> raised" where
  "detach_refusal e = (case e of
     Mangled m \<Rightarrow> refused 409 ''checklist_mangled'' []
   | CallFailed fe \<Rightarrow> refused 502 ''forge_refused'' []
   | f \<Rightarrow> ForgeRaised f)"

definition who_name :: "(string \<times> json) list \<Rightarrow> string" where
  "who_name actor = (case map_of actor ''display'' of Some (JStr (c # cs)) \<Rightarrow> c # cs
     | _ \<Rightarrow> (case map_of actor ''id'' of Some (JStr (c # cs)) \<Rightarrow> c # cs | _ \<Rightarrow> ''someone''))"

definition detach_recorded :: "ident \<Rightarrow> string \<Rightarrow> plan \<Rightarrow> timestamp \<Rightarrow> raised + plan_node list" where
  "detach_recorded node_id reason latest now = (case node_in latest node_id of
     Inl e \<Rightarrow> Inl (ServiceRaised e)
   | Inr base \<Rightarrow> (case n_forge base of
         None \<Rightarrow> Inl (ForgeRaised (MissingKey ''forge''))
       | Some f \<Rightarrow> Inr (base\<lparr>n_forge := Some (f\<lparr>f_detached := Some reason\<rparr>), n_updated_at := now\<rparr>
           # without_dependency (filter (\<lambda>s. n_id s \<noteq> n_id base)
               (children latest (case n_parent_id base of None \<Rightarrow> [] | Some q \<Rightarrow> q))) (n_id base))))"

definition check_detach :: "config \<Rightarrow> vcs_kind option \<Rightarrow> ident \<Rightarrow> int \<Rightarrow> plan \<Rightarrow> service_error + plan_node \<times> plan_node" where
  "check_detach cfg forge_kind node_id expected p =
     bindR (check_revision p expected) (\<lambda>_.
     bindR (not_archived p) (\<lambda>_.
     bindR (node_in p node_id) (\<lambda>n0. case n_parent_id n0 of
       None \<Rightarrow> Inl invalid_argument
     | Some q \<Rightarrow>
         bindR (followed_node p node_id) (\<lambda>n.
         bindR (node_in p q) (\<lambda>parent.
         bindR (check (n_state parent = Published \<and> n_forge parent \<noteq> None) (refuse 409 ''parent_unpublished'')) (\<lambda>_.
         bindR (check_publishable cfg (n_repository parent) forge_kind) (\<lambda>_.
         Inr (n, parent))))))))"

definition detach_issue :: "'f surroundings \<Rightarrow> config \<Rightarrow> plan \<Rightarrow> ident \<Rightarrow> plan_node \<Rightarrow> plan_node \<Rightarrow> (string \<times> json) list \<Rightarrow> ('f site, raised, plan) action" where
  "detach_issue su cfg p node_id n parent actor = (case (n_forge n, n_forge parent) of
     (Some f, Some pf) \<Rightarrow>
       andthen (failing detach_refusal
         (andthen (drop_dependents (su_ops su) n (f_number f) (siblings_of p n)) (\<lambda>rewritten.
          andthen (unlink_child (su_ops su) cfg parent (f_number pf) n (f_number f)) (\<lambda>unlinked. ret (rewritten, unlinked)))))
       (\<lambda>(rewritten, unlinked). record_written su (p_id p)
         (detach_recorded node_id (who_name actor @ '' detached it from '' @ where_is (n_repository parent) (f_number pf) @ '' in the app; its issue stays open''))
         [(''node_id'', JStr (n_id n)), (''change'', JStr ''detached''), (''parent_id'', JStr (n_id parent)), (''number'', JNum (of_int (f_number f))),
          (''unlinked'', JList (map linked_name unlinked)), (''dependents'', jstrs rewritten)] actor)
   | _ \<Rightarrow> raise (ForgeRaised (MissingKey ''forge'')))"

definition detach_child :: "'f surroundings \<Rightarrow> config \<Rightarrow> connection \<Rightarrow> ident \<Rightarrow> ident \<Rightarrow> int \<Rightarrow> (string \<times> json) list \<Rightarrow> ('f desk, raised, plan) action" where
  "detach_child su cfg cn i node_id expected actor =
     andthen (get_plan i) (\<lambda>p.
     andthen (lift (check_detach cfg (cn_kind cn) node_id expected p)) (\<lambda>(n, parent).
     forge_write (p_id p) expected (\<lambda>p'. andthen (connect cn) (\<lambda>_.
       on_site (detach_issue su cfg p' node_id n parent actor)))))"

end
