(* ===== verification/ServiceClaims.thy ===== *)
theory ServiceClaims
  imports ForgeService ReconcileClaims
begin

text \<open>
  The properties of the service's operations on a forge: who may work on a plan's issues, that a claim
  is released on every path, that opening a plan never fails for the forge, and that an edit of another
  version than the issue's writes nothing.
\<close>

section \<open>Claims\<close>




section \<open>Claims are released\<close>

definition keeps_claims :: "('f desk, raised, 'a) action \<Rightarrow> bool" where
  "keeps_claims m = (\<forall>s. dk_claims (snd (m s)) = dk_claims s)"


lemma held_ret [intro, simp]: "keeps_claims (ret x)" "keeps_claims (raise e)" "keeps_claims (lift r)" "keeps_claims (lift_fault q)"
  by (auto simp: keeps_claims_def ret_def raise_def lift_def lift_fault_def split: sum.splits)

lemma held_get [intro, simp]: "keeps_claims (get_plan i)"
  by (auto simp: keeps_claims_def get_plan_def lift_def split: sum.splits)

lemma held_connect [intro, simp]: "keeps_claims (connect cn)"
  by (simp add: connect_def)

lemma held_on_site [intro, simp]: "keeps_claims (on_site m)"
  by (auto simp: keeps_claims_def on_site_def split: prod.splits)

lemma held_andthen [intro]:
  assumes "keeps_claims m" and "\<And>x. keeps_claims (k x)"
  shows "keeps_claims (andthen m k)"
  unfolding keeps_claims_def
proof
  fix s
  show "dk_claims (snd (andthen m k s)) = dk_claims s"
    using assms by (cases rule: andthen_cases[of m s k]) (auto simp: keeps_claims_def, metis snd_conv, metis snd_conv)
qed

lemma held_handle [intro]:
  assumes "keeps_claims m" and "\<And>e. keeps_claims (h e)"
  shows "keeps_claims (handle m h)"
  using assms by (auto simp: keeps_claims_def handle_def split: sum.splits prod.splits) (metis snd_conv)+

lemma held_clock [intro]: "(\<And>now. keeps_claims (k now)) \<Longrightarrow> keeps_claims (clock_now su k)"
  by (simp add: keeps_claims_def clock_now_def)

lemma discard_new: "i \<notin> set xs \<Longrightarrow> discard i (i # xs) = xs"
  by (induction xs) (auto simp: discard_def)

text \<open>A release undoes its claim.\<close>

definition undoes :: "(claims \<Rightarrow> service_error + claims) \<Rightarrow> (claims \<Rightarrow> claims) \<Rightarrow> bool" where
  "undoes claim release = (\<forall>c c'. claim c = Inr c' \<longrightarrow> release c' = c)"

lemma claims_undone [simp]:
  "undoes (claim_publish i) (release_publish i)" "undoes (claim_reconcile i) (release_reconcile i)" "undoes (claim_write i) (release_write i)"
  by (auto simp: undoes_def claim_publish_def claim_reconcile_def claim_write_def release_publish_def release_reconcile_def
      release_write_def discard_new split: if_splits)

lemma held_holding [intro]:
  assumes u: "undoes claim release" and b: "keeps_claims body"
  shows "keeps_claims (holding claim release body)"
  unfolding keeps_claims_def
proof
  fix s
  show "dk_claims (snd (holding claim release body s)) = dk_claims s"
  proof (cases "claim (dk_claims s)")
    case (Inr c)
    obtain r s' where r: "body (s\<lparr>dk_claims := c\<rparr>) = (r, s')" by fastforce
    have "dk_claims s' = c" using b[unfolded keeps_claims_def, rule_format, of "s\<lparr>dk_claims := c\<rparr>"] r by simp
    moreover have "release c = dk_claims s" using u Inr by (simp add: undoes_def)
    ultimately show ?thesis using Inr r by (simp add: holding_def)
  qed (simp add: holding_def)
qed






lemma reconcile_now_keeps: "keeps_claims (reconcile_now su cfg ids cn p actor force)"
proof -
  have "keeps_claims (\<lambda>s. on_site m (s\<lparr>dk_attempted := g s\<rparr>))" for m :: "('b site, raised, reconciliation) action" and g
    by (auto simp: keeps_claims_def on_site_def split: prod.splits)
  then show ?thesis unfolding reconcile_now_def by (rule held_clock)
qed

lemma claimed_keeps: "keeps_claims body \<Longrightarrow> keeps_claims (claimed_or force i stored body)"
  using held_holding[OF claims_undone(2), of body i] by (auto simp: keeps_claims_def claimed_or_def)

lemma reconcile_keeps: "keeps_claims (service_reconcile su cfg ids cn i actor force ready)"
proof -
  have go: "keeps_claims (claimed_or force (p_id p) stored (reconcile_now su cfg ids cn p actor force))" for p stored
    by (rule claimed_keeps[OF reconcile_now_keeps])
  have "keeps_claims (clock_now su (\<lambda>now s. if c1 now s then (Inr x, s) else if c2 then (Inr y, s)
      else claimed_or force (p_id p) stored (reconcile_now su cfg ids cn p actor force) s))" for c1 c2 x y p stored
    by (rule held_clock) (use go in \<open>auto simp: keeps_claims_def\<close>)
  with go show ?thesis
    unfolding service_reconcile_def Let_def by (intro held_andthen) (auto split: option.split)
qed

lemma open_keeps: "keeps_claims (service_open su cfg ids cn i actor ready)"
  unfolding service_open_def
  by (intro held_andthen held_handle reconcile_keeps) (auto split: raised.split service_error.split)


section \<open>Opening a plan\<close>

definition fails_only_missing :: "('s, raised, 'a) action \<Rightarrow> bool" where
  "fails_only_missing m = (\<forall>s e. fst (m s) = Inl e \<longrightarrow> e = ServiceRaised not_found \<or> (\<exists>x. e = ForgeRaised x))"

lemma missing_ret: "fails_only_missing (ret x)" "fails_only_missing (raise (ForgeRaised e))"
  by (auto simp: fails_only_missing_def ret_def raise_def)

lemma missing_get: "fails_only_missing (get_plan i)"
  by (auto simp: fails_only_missing_def get_plan_def lift_def service_get_def split: sum.splits option.splits)

lemma missing_andthen:
  assumes "fails_only_missing m" and "\<And>x. fails_only_missing (k x)"
  shows "fails_only_missing (andthen m k)"
  unfolding fails_only_missing_def
proof (intro allI impI)
  fix s e assume "fst (andthen m k s) = Inl e"
  with assms show "e = ServiceRaised not_found \<or> (\<exists>x. e = ForgeRaised x)"
    by (cases rule: andthen_cases[of m s k]) (auto simp: fails_only_missing_def, (metis fst_conv)+)
qed

lemma missing_site: "fails_only_missing m \<Longrightarrow> fails_only_missing (\<lambda>s. on_site m (g s))"
  by (auto simp: fails_only_missing_def on_site_def split: prod.splits) (metis fst_conv)

lemma missing_now: "fails_only_missing (reconcile_now su cfg ids cn p actor False)"
proof -
  have down: "fails_only_missing (unreachable (p_id p) why False)" for why
    by (auto simp: fails_only_missing_def unreachable_def split: sum.splits)
  have up: "fails_only_missing (failing (\<lambda>e. if e = Gone then ServiceRaised not_found else ForgeRaised e) m)" for m :: "('b site, fault, reconciliation) action"
    by (auto simp: fails_only_missing_def failing_def split: sum.splits prod.splits)
  have "fails_only_missing (case (cn_kind cn, cn_down cn) of (None, _) \<Rightarrow> unreachable (p_id p) no_forge False
      | (_, Some why) \<Rightarrow> unreachable (p_id p) (''could not reach the forge: '' @ why) False
      | _ \<Rightarrow> failing (\<lambda>e. if e = Gone then ServiceRaised not_found else ForgeRaised e) (reconcile_plan su cfg ids p actor))"
    using down up by (auto split: option.split)
  from missing_site[OF this] show ?thesis
    unfolding reconcile_now_def fails_only_missing_def clock_now_def by blast
qed

lemma missing_claimed:
  assumes "fails_only_missing body"
  shows "fails_only_missing (claimed_or False i stored body)"
  using assms by (auto simp: fails_only_missing_def claimed_or_def holding_def split: sum.splits prod.splits) (metis fst_conv)

lemma missing_reconcile: "fails_only_missing (service_reconcile su cfg ids cn i actor False ready)"
proof -
  have go: "fails_only_missing (claimed_or False (p_id p) stored (reconcile_now su cfg ids cn p actor False))" for p stored
    by (rule missing_claimed[OF missing_now])
  have "fails_only_missing (clock_now su (\<lambda>now s. if c1 now s then (Inr x, s) else if c2 then (Inr y, s)
      else claimed_or False (p_id p) stored (reconcile_now su cfg ids cn p actor False) s))" for c1 c2 x y p stored
    using go unfolding fails_only_missing_def clock_now_def by auto
  then show ?thesis
    unfolding service_reconcile_def Let_def
    by (intro missing_andthen missing_get) (auto simp: missing_ret split: option.split)
qed

definition answered :: "('s, raised, 'a) action \<Rightarrow> bool" where
  "answered m = (\<forall>s. (\<exists>r. fst (m s) = Inr r) \<or> fst (m s) = Inl (ServiceRaised not_found))"

lemma answered_ret: "answered (ret x)" "answered (raise (ServiceRaised not_found))"
  by (auto simp: answered_def ret_def raise_def)

lemma answered_get: "answered (get_plan i)"
  by (auto simp: answered_def get_plan_def lift_def service_get_def split: sum.splits option.splits)

lemma answered_andthen:
  assumes "answered m" and "\<And>x. answered (k x)"
  shows "answered (andthen m k)"
  unfolding answered_def
proof
  fix s
  show "(\<exists>r. fst (andthen m k s) = Inr r) \<or> fst (andthen m k s) = Inl (ServiceRaised not_found)"
  proof (cases rule: andthen_cases[of m s k])
    case (1 e u)
    then have "e = ServiceRaised not_found" using assms(1)[unfolded answered_def, rule_format, of s] by simp
    with 1 show ?thesis by simp
  next
    case (2 x u)
    with assms(2)[of x] show ?thesis by (simp add: answered_def)
  qed
qed

lemma answered_handle:
  assumes "fails_only_missing m" and "answered (h (ServiceRaised not_found))" and "\<And>x. answered (h (ForgeRaised x))"
  shows "answered (handle m h)"
  unfolding answered_def
proof
  fix s
  obtain r s' where m: "m s = (r, s')" by fastforce
  show "(\<exists>r. fst (handle m h s) = Inr r) \<or> fst (handle m h s) = Inl (ServiceRaised not_found)"
  proof (cases r)
    case (Inl e)
    with assms(1) m have "e = ServiceRaised not_found \<or> (\<exists>x. e = ForgeRaised x)" unfolding fails_only_missing_def by (metis fst_conv)
    with assms(2,3) Inl m show ?thesis by (auto simp: handle_def answered_def)
  qed (simp add: handle_def m)
qed

text \<open>C18: opening a plan never fails for the forge: whatever the connection, the forge and other
  writers do, it returns a plan, or says that there is none.\<close>

theorem opening_never_fails_for_the_forge:
  "(\<exists>r. fst (service_open su cfg ids cn i actor ready s) = Inr r)
    \<or> fst (service_open su cfg ids cn i actor ready s) = Inl (ServiceRaised not_found)"
proof -
  have "answered (service_open su cfg ids cn i actor ready)"
    unfolding service_open_def
    by (intro answered_andthen answered_get answered_handle missing_reconcile)
      (auto simp: not_found_def refuse_with_def answered_ret answered_ret(2)[unfolded not_found_def refuse_with_def])
  then show ?thesis by (simp add: answered_def)
qed

section \<open>A direct edit\<close>

text \<open>C23: an edit that names another version of the issue than the forge has is refused with the version
  and the content the forge has, and writes nothing: the database is left as it was, and the forge as
  reading the issue left it.\<close>

theorem edits_of_another_version_write_nothing:
  assumes "followed_node p node_id = Inr n" and "n_forge n = Some f"
    and "issue_get (su_ops su) (n_repository n) (f_number f) (st_forge s) = (Inr row, f')"
    and "as_forge_has_it p n (ir_title row) (ir_body row) = Inr current" and "content_version digest current \<noteq> version"
  shows "write_published su cfg digest p node_id version ss position actor via s =
    (Inl (refused 409 ''forge_changed'' [(''forge_version'', JStr (content_version digest current)),
       (''current'', current_json digest current (seen_of row (n_repository n) (f_number f)) (f_url f))]), s\<lparr>st_forge := f'\<rparr>)"
proof -
  let ?sn = "seen_of row (n_repository n) (f_number f)"
  have read: "read_issue (su_ops su) (n_repository n) (f_number f) 409 s = (Inr ?sn, s\<lparr>st_forge := f'\<rparr>)"
    by (simp add: read_issue_def handle_def failing_def andthen_def on_forge_def assms(3) ret_def)
  have sn: "sn_title ?sn = ir_title row" "sn_body ?sn = ir_body row" by (simp_all add: seen_of_def)
  show ?thesis
    using assms(5) by (simp add: write_published_def andthen_def lift_def lift_fault_def assms(1,2,4) read sn raise_def)
qed

section \<open>What a direct write uses of the forge\<close>

text \<open>The surroundings with other operations that create, close and comment issues.\<close>

definition with_lifecycle :: "'f surroundings \<Rightarrow> (string \<Rightarrow> string \<Rightarrow> string \<Rightarrow> string list \<Rightarrow> ('f, int \<times> string) call) \<Rightarrow>
    (string \<Rightarrow> int \<Rightarrow> string \<Rightarrow> ('f, unit) call) \<Rightarrow> (string \<Rightarrow> int \<Rightarrow> string \<Rightarrow> ('f, string) call) \<Rightarrow> 'f surroundings" where
  "with_lifecycle su create close comment =
     su\<lparr>su_ops := (su_ops su)\<lparr>issue_create := create, issue_close := close, issue_comment := comment\<rparr>\<rparr>"

lemma lifecycle_parts:
  "issue_get (su_ops (with_lifecycle su x y z)) = issue_get (su_ops su)"
  "issue_update (su_ops (with_lifecycle su x y z)) = issue_update (su_ops su)"
  "su_clock (with_lifecycle su x y z) = su_clock su" "su_others (with_lifecycle su x y z) = su_others su"
  by (simp_all add: with_lifecycle_def)

lemma record_lifecycle: "record_written (with_lifecycle su x y z) = record_written su"
proof -
  have "record_attempt (with_lifecycle su x y z) = record_attempt su" by (intro ext) (simp only: record_attempt_def lifecycle_parts)
  then show ?thesis by (intro ext) (simp only: record_written_def)
qed

lemma checklist_ops: "issue_get ops' = issue_get ops \<Longrightarrow> issue_update ops' = issue_update ops \<Longrightarrow>
    update_checklist ops' = update_checklist ops"
  by (intro ext) (simp only: update_checklist_def)

lemma link_ops:
  "link_child (ops\<lparr>issue_create := x, issue_close := y, issue_comment := z\<rparr>) = link_child ops"
  "unlink_child (ops\<lparr>issue_create := x, issue_close := y, issue_comment := z\<rparr>) = unlink_child ops"
  "add_level_label (ops\<lparr>issue_create := x, issue_close := y, issue_comment := z\<rparr>) = add_level_label ops"
  "read_issue (ops\<lparr>issue_create := x, issue_close := y, issue_comment := z\<rparr>) = read_issue ops"
  "write_issue (ops\<lparr>issue_create := x, issue_close := y, issue_comment := z\<rparr>) = write_issue ops"
proof -
  let ?ops = "ops\<lparr>issue_create := x, issue_close := y, issue_comment := z\<rparr>"
  have ops: "issue_get ?ops = issue_get ops" "issue_update ?ops = issue_update ops" "sub_issue_add ?ops = sub_issue_add ops"
    "sub_issue_remove ?ops = sub_issue_remove ops" "sub_issues_list ?ops = sub_issues_list ops" "issue_labels_add ?ops = issue_labels_add ops"
    "label_lookup ?ops = label_lookup ops" "label_create ?ops = label_create ops"
    by simp_all
  have label: "ensure_label ?ops = ensure_label ops" by (intro ext) (simp only: ensure_label_def ops)
  note check = checklist_ops[OF ops(1,2)]
  show "link_child ?ops = link_child ops" by (intro ext) (simp only: link_child_def list_child_def check ops)
  show "unlink_child ?ops = unlink_child ops" by (intro ext) (simp only: unlink_child_def check ops)
  show "add_level_label ?ops = add_level_label ops" by (intro ext) (simp only: add_level_label_def label ops)
  show "read_issue ?ops = read_issue ops" by (intro ext) (simp only: read_issue_def ops)
  show "write_issue ?ops = write_issue ops" by (intro ext) (simp only: write_issue_def ops)
qed

lemma drop_ops: "drop_dependents (ops\<lparr>issue_create := x, issue_close := y, issue_comment := z\<rparr>) n k ss = drop_dependents ops n k ss"
proof (induction ss)
  case (Cons s ss)
  have ops: "issue_get (ops\<lparr>issue_create := x, issue_close := y, issue_comment := z\<rparr>) = issue_get ops"
    "issue_update (ops\<lparr>issue_create := x, issue_close := y, issue_comment := z\<rparr>) = issue_update ops" by simp_all
  show ?case by (simp only: drop_dependents.simps Cons.IH ops)
qed simp

text \<open>C10: a direct write never creates, closes or comments an issue: with any other operations in their
  place, editing, attaching and detaching do the same.\<close>

theorem direct_writes_leave_the_lifecycle:
  "edit_published (with_lifecycle su x y z) = edit_published su
    \<and> attach_child (with_lifecycle su x y z) = attach_child su \<and> detach_child (with_lifecycle su x y z) = detach_child su"
proof (intro conjI)
  have ops: "su_ops (with_lifecycle su x y z) = (su_ops su)\<lparr>issue_create := x, issue_close := y, issue_comment := z\<rparr>"
    by (simp add: with_lifecycle_def)
  have wrote: "write_published (with_lifecycle su x y z) = write_published su"
    by (intro ext) (simp only: write_published_def record_lifecycle ops link_ops)
  have link: "link_issue (su_ops (with_lifecycle su x y z)) = link_issue (su_ops su)"
    by (intro ext) (simp only: link_issue_def ops link_ops)
  have attach: "attach_issue (with_lifecycle su x y z) = attach_issue su"
    by (intro ext) (simp only: attach_issue_def record_lifecycle lifecycle_parts link)
  have detach: "detach_issue (with_lifecycle su x y z) = detach_issue su"
    by (intro ext) (simp only: detach_issue_def record_lifecycle ops link_ops drop_ops)
  show "edit_published (with_lifecycle su x y z) = edit_published su" by (intro ext) (simp only: edit_published_def wrote)
  show "attach_child (with_lifecycle su x y z) = attach_child su" by (intro ext) (simp only: attach_child_def attach)
  show "detach_child (with_lifecycle su x y z) = detach_child su" by (intro ext) (simp only: detach_child_def detach)
qed

section \<open>Examples\<close>





definition title_digest :: "json \<Rightarrow> string" where
  "title_digest j = (case j of JObj d \<Rightarrow> (case map_of d ''title'' of Some (JStr t) \<Rightarrow> t | _ \<Rightarrow> []) | _ \<Rightarrow> [])"

text \<open>The task retitled on the tracker, edited as it was.\<close>

definition task_row :: issue_row where
  "task_row = (case fst (issue_get tracker_ops ''acme/app'' 4 edited_tracker) of Inr row \<Rightarrow> row | Inl e \<Rightarrow> undefined)"

definition task_node :: plan_node where
  "task_node = (case followed_node edited_plan ''t'' of Inr n \<Rightarrow> n | Inl e \<Rightarrow> undefined)"

theorem edits_of_another_version_write_nothing_witness:
  "\<exists>extra. write_published sample_su sample_config title_digest edited_plan ''t'' ''c1-Task'' [SGoal (Some ''more'')] None sample_actor None edited_site
    = (Inl (refused 409 ''forge_changed'' extra), edited_site)"
proof -
  have "(case followed_node edited_plan ''t'' of Inr n \<Rightarrow> (case n_forge n of Some f \<Rightarrow> (n_repository n, f_number f) = (''acme/app'', 4) | None \<Rightarrow> False)
      | Inl e \<Rightarrow> False)" by code_simp
  then obtain f where n: "followed_node edited_plan ''t'' = Inr task_node" and f: "n_forge task_node = Some f"
    and k: "n_repository task_node = ''acme/app''" "f_number f = 4" unfolding task_node_def by (auto split: sum.splits option.splits)
  have "(case issue_get tracker_ops ''acme/app'' 4 edited_tracker of (Inr row, f') \<Rightarrow> f' = edited_tracker | (Inl e, f') \<Rightarrow> False)" by code_simp
  then have row: "issue_get tracker_ops ''acme/app'' 4 edited_tracker = (Inr task_row, edited_tracker)"
    unfolding task_row_def by (auto split: sum.splits prod.splits)
  have "(case as_forge_has_it edited_plan task_node (ir_title task_row) (ir_body task_row) of Inr c \<Rightarrow> content_version title_digest c = ''c1-Task, now'' | Inl e \<Rightarrow> False)"
    by code_simp
  then obtain c where c: "as_forge_has_it edited_plan task_node (ir_title task_row) (ir_body task_row) = Inr c"
    and v: "content_version title_digest c \<noteq> ''c1-Task''" by (auto split: sum.splits)
  have "issue_get (su_ops sample_su) (n_repository task_node) (f_number f) (st_forge edited_site) = (Inr task_row, edited_tracker)"
    using row by (simp add: sample_su_def k edited_site_def)
  note refuses = edits_of_another_version_write_nothing[OF n f this c v]
  have "edited_site\<lparr>st_forge := edited_tracker\<rparr> = edited_site" by (simp add: edited_site_def)
  with refuses show ?thesis by metis
qed

end
