(* ===== verification/Questions.thy ===== *)
theory Questions
  imports ForgeService ForgeFacts
begin

text \<open>
  A plan run's clarifying questions on their node (\<open>plans/service_questions.py\<close> with \<open>_waiting\<close> and
  \<open>_checked_answers\<close> of \<open>plans/service_base.py\<close>): asked, posted, answered or skipped, withdrawn.  Each
  operation reads the plan, decides, and writes against the revision it read, again while other writes
  win.  The contract of such a decision is the locale \<open>service_decision\<close>, interpreted on every one.
\<close>

section \<open>One decision, tried again\<close>

datatype 'a service_step = Keep 'a | Store int change "plan \<Rightarrow> 'a"

text \<open>\<open>pinned\<close> says that the caller named the revision: a write that loses is then refused at once.\<close>

definition service_attempt :: "'f surroundings \<Rightarrow> ident \<Rightarrow> timestamp \<Rightarrow> bool \<Rightarrow> (db \<Rightarrow> service_error + 'a service_step) \<Rightarrow>
    ('f site, raised attempt_error, 'a) action" where
  "service_attempt su i now pinned decide s = (case decide (st_db s) of
     Inl e \<Rightarrow> (Inl (Raised (ServiceRaised e)), s)
   | Inr (Keep x) \<Rightarrow> (Inr x, s)
   | Inr (Store r c f) \<Rightarrow>
       let s' = s\<lparr>st_db := su_others su (st_tick s) (st_db s), st_tick := Suc (st_tick s)\<rparr> in
       (case store_apply (st_db s') i r now c of
          Inl (StaleRevision k) \<Rightarrow> (Inl (if pinned then Raised (ServiceRaised (stale k)) else Stale k), s')
        | Inl _ \<Rightarrow> (Inl (Raised (ServiceRaised not_found)), s')
        | Inr (d, q) \<Rightarrow> (Inr (f q), s'\<lparr>st_db := d\<rparr>)))"

definition service_retry :: "'f surroundings \<Rightarrow> ident \<Rightarrow> timestamp \<Rightarrow> bool \<Rightarrow> (db \<Rightarrow> service_error + 'a service_step) \<Rightarrow>
    ('f site, raised, 'a) action" where
  "service_retry su i now pinned decide s = (case retry_action tries (service_attempt su i now pinned decide) None s of
     (Inr x, s') \<Rightarrow> (Inr x, s')
   | (Inl (Raised e), s') \<Rightarrow> (Inl e, s')
   | (Inl _, s') \<Rightarrow> (Inl (refused 409 ''stale_revision'' []), s'))"

section \<open>Events of a run\<close>

definition run_public_id :: "ident \<Rightarrow> string" where
  "run_public_id run = ''run_'' @ run"

definition planner_actor :: "(string \<times> json) list" where
  "planner_actor = [(''kind'', JStr ''system''), (''id'', JStr ''planner''), (''display'', JStr ''the planner''), (''via'', JStr ''plan run'')]"

text \<open>The run an event is about, with its item and its channel.\<close>

record run_scope =
  rs_run :: ident
  rs_item :: "ident option"
  rs_channel :: "ident option"

definition scoped_event :: "run_scope \<Rightarrow> string \<Rightarrow> (string \<times> json) list \<Rightarrow> plan_event" where
  "scoped_event rs type data = \<lparr>ev_type = type, ev_data = data, ev_run_id = Some (rs_run rs), ev_item_id = rs_item rs,
     ev_channel_id = rs_channel rs\<rparr>"

definition node_data :: "ident \<Rightarrow> ident \<Rightarrow> ident \<Rightarrow> (string \<times> json) list" where
  "node_data i node_id run = [(''plan_id'', JStr i), (''node_id'', JStr node_id), (''run_id'', JStr (run_public_id run))]"

section \<open>Asking\<close>

definition choice_dump :: "question_choice \<Rightarrow> json" where
  "choice_dump c = JObj [(''value'', JStr (c_value c)), (''label'', JStr (c_label c)), (''description'', jopt JStr (c_description c))]"

definition question_dump :: "plan_question \<Rightarrow> json" where
  "question_dump q = JObj [(''id'', JStr (q_id q)), (''prompt'', JStr (q_prompt q)), (''choices'', JList (map choice_dump (q_choices q))),
     (''allow_free_text'', JBool (q_allow_free_text q))]"

definition new_clarification :: "ident \<Rightarrow> plan_question list \<Rightarrow> timestamp \<Rightarrow> clarification" where
  "new_clarification run questions now = \<lparr>k_run_id = run, k_questions = questions, k_answers = [], k_status = AwaitingAnswers,
     k_asked_at = now, k_answered_at = None, k_answered_by = None, k_posts = []\<rparr>"

definition ask_decision :: "config \<Rightarrow> ident \<Rightarrow> ident \<Rightarrow> plan_question list \<Rightarrow> run_scope \<Rightarrow> timestamp \<Rightarrow> db \<Rightarrow> service_error + plan service_step" where
  "ask_decision cfg i node_id questions rs now d = bindR (breakdown_target d cfg i node_id None) (\<lambda>(p, n).
     Inr (Store (p_revision p) (no_change\<lparr>
       ch_upsert := [n\<lparr>n_generation := Some (new_clarification (rs_run rs) questions now)\<rparr>],
       ch_events := [scoped_event rs ''plan.generation.questions''
         (node_data (p_id p) (n_id n) (rs_run rs) @ [(''questions'', JList (map question_dump questions))])],
       ch_actor := Some planner_actor\<rparr>) id))"

definition ask_questions :: "'f surroundings \<Rightarrow> config \<Rightarrow> ident \<Rightarrow> ident \<Rightarrow> plan_question list \<Rightarrow> run_scope \<Rightarrow> timestamp \<Rightarrow>
    ('f site, raised, plan) action" where
  "ask_questions su cfg i node_id questions rs now = service_retry su i now False (ask_decision cfg i node_id questions rs now)"

section \<open>Posts\<close>

definition settled_clar :: "clarification \<Rightarrow> bool" where
  "settled_clar k = (k_status k = Answered \<or> k_status k = Skipped)"

definition question_of :: "clarification \<Rightarrow> ident \<Rightarrow> plan_question option" where
  "question_of k i = find (\<lambda>q. q_id q = i) (k_questions k)"

definition merge_dict :: "('k \<times> 'v) list \<Rightarrow> ('k \<times> 'v) list \<Rightarrow> ('k \<times> 'v) list" where
  "merge_dict a b = foldl (\<lambda>d (k, v). dict_set k v d) a b"

definition post_decision :: "ident \<Rightarrow> ident \<Rightarrow> ident \<Rightarrow> (string \<times> ident) list \<Rightarrow> db \<Rightarrow> service_error + unit service_step" where
  "post_decision i node_id run posts d =
     bindR (service_get d i) (\<lambda>p.
     bindR (node_in p node_id) (\<lambda>n. case n_generation n of
       None \<Rightarrow> Inr (Keep ())
     | Some k \<Rightarrow>
         if settled_clar k \<or> k_run_id k \<noteq> run then Inr (Keep ())
         else let known = filter (\<lambda>(key, q). question_of k q \<noteq> None) posts in
           if known = [] \<or> list_all (\<lambda>(key, q). map_of (k_posts k) key = Some q) known then Inr (Keep ())
           else Inr (Store (p_revision p) (no_change\<lparr>
             ch_upsert := [n\<lparr>n_generation := Some (k\<lparr>k_posts := merge_dict (k_posts k) known\<rparr>)\<rparr>]\<rparr>) (\<lambda>_. ()))))"

definition record_question_posts :: "'f surroundings \<Rightarrow> ident \<Rightarrow> ident \<Rightarrow> ident \<Rightarrow> (string \<times> ident) list \<Rightarrow> timestamp \<Rightarrow>
    ('f site, raised, unit) action" where
  "record_question_posts su i node_id run posts now = service_retry su i now False (post_decision i node_id run posts)"

section \<open>Answering\<close>

fun status_name :: "clar_status \<Rightarrow> string" where
  "status_name AwaitingAnswers = ''awaiting_answers''"
| "status_name Answered = ''answered''"
| "status_name Skipped = ''skipped''"
| "status_name Withdrawn = ''withdrawn''"

definition waiting_on :: "plan_node \<Rightarrow> service_error + clarification" where
  "waiting_on n = (case n_generation n of
     None \<Rightarrow> Inl (refuse_with 409 ''no_questions'' [(''node_id'', JStr (n_id n))])
   | Some k \<Rightarrow>
       if k_status k \<noteq> AwaitingAnswers
       then Inl (refuse_with 409 ''already_answered'' [(''node_id'', JStr (n_id n)), (''questions_status'', JStr (status_name (k_status k)))])
       else Inr k)"

definition waiting_questions :: "db \<Rightarrow> ident \<Rightarrow> ident \<Rightarrow> service_error + clarification" where
  "waiting_questions d i node_id = bindR (service_get d i) (\<lambda>p. bindR (node_in p node_id) waiting_on)"

definition pending_questions :: "db \<Rightarrow> ident \<Rightarrow> ident \<Rightarrow> clarification option" where
  "pending_questions d i node_id = (case waiting_questions d i node_id of Inl e \<Rightarrow> None | Inr k \<Rightarrow> Some k)"

definition choice_of :: "plan_question \<Rightarrow> string \<Rightarrow> question_choice option" where
  "choice_of q v = find (\<lambda>c. c_value c = v) (q_choices q)"

text \<open>One answer held to the question it answers.  A dictionary of questions keeps the last of an id.\<close>

definition checked_answer :: "plan_question list \<Rightarrow> ident \<Rightarrow> plan_answer \<Rightarrow> service_error + plan_answer" where
  "checked_answer qs i answer = (case find (\<lambda>q. q_id q = i) (rev qs) of
     None \<Rightarrow> Inl invalid_argument
   | Some q \<Rightarrow>
       let v = strip (case a_value answer of None \<Rightarrow> [] | Some x \<Rightarrow> x); text = squash (a_text answer) in
       if v \<noteq> [] \<and> choice_of q v = None then Inl invalid_argument
       else if v = [] \<and> text = [] then Inl invalid_argument
       else if v = [] \<and> \<not> q_allow_free_text q then Inl invalid_argument
       else Inr \<lparr>a_value = (if v = [] then None else Some v), a_text = text\<rparr>)"

definition checked_answers :: "clarification \<Rightarrow> (ident \<times> plan_answer) list \<Rightarrow> service_error + (ident \<times> plan_answer) list" where
  "checked_answers k answers = foldR (\<lambda>checked (i, answer).
     bindR (checked_answer (k_questions k) i answer) (\<lambda>a. Inr (dict_set i a checked))) [] answers"

definition answer_dump :: "plan_answer \<Rightarrow> json" where
  "answer_dump a = JObj ((case a_value a of None \<Rightarrow> [] | Some v \<Rightarrow> [(''value'', JStr v)])
     @ (if a_text a = [] then [] else [(''text'', JStr (a_text a))]))"

definition answered_event :: "ident \<Rightarrow> ident \<Rightarrow> clarification \<Rightarrow> run_scope \<Rightarrow> bool \<Rightarrow> bool \<Rightarrow> plan_event" where
  "answered_event i node_id k rs skip finished =
     (if finished then scoped_event rs ''plan.generation.answered'' (node_data i node_id (k_run_id k) @
        [(''skipped'', JBool skip), (''answers'', JObj (map (\<lambda>(q, a). (q, answer_dump a)) (k_answers k)))])
      else scoped_event rs ''plan.node.changed'' (node_data i node_id (k_run_id k) @ [(''change'', JStr ''answered'')]))"

definition answered_clar :: "clarification \<Rightarrow> (ident \<times> plan_answer) list \<Rightarrow> bool \<Rightarrow> bool \<Rightarrow> timestamp \<Rightarrow> string \<Rightarrow> clarification" where
  "answered_clar k recorded skip finished now who = k\<lparr>k_answers := recorded,
     k_status := (if skip then Skipped else if finished then Answered else AwaitingAnswers),
     k_answered_at := (if finished then Some now else k_answered_at k), k_answered_by := Some who\<rparr>"

text \<open>What a person's answers make of the questions that wait: the answers recorded, and whether they settle them.\<close>

definition taken_answers :: "clarification \<Rightarrow> (ident \<times> plan_answer) list \<Rightarrow> bool \<Rightarrow> bool \<Rightarrow> service_error + (ident \<times> plan_answer) list \<times> bool" where
  "taken_answers k answers skip settle =
     bindR (check (\<not> (skip \<and> answers \<noteq> [])) invalid_argument) (\<lambda>_.
     bindR (checked_answers k answers) (\<lambda>checked.
     let recorded = merge_dict (k_answers k) checked in
     bindR (check (\<not> (settle \<and> \<not> skip \<and> recorded = [])) invalid_argument) (\<lambda>_.
     Inr (recorded, skip \<or> settle \<or> list_all (\<lambda>q. q_id q \<in> fst ` set recorded) (k_questions k)))))"

definition answer_decision :: "ident \<Rightarrow> ident \<Rightarrow> (ident \<times> plan_answer) list \<Rightarrow> bool \<Rightarrow> bool \<Rightarrow> timestamp \<Rightarrow> (string \<times> json) list \<Rightarrow>
    int option \<Rightarrow> ident option \<Rightarrow> ident option \<Rightarrow> ident option \<Rightarrow> db \<Rightarrow> service_error + (plan \<times> clarification) service_step" where
  "answer_decision i node_id answers skip settle now actor expected run item channel d =
     bindR (service_get d i) (\<lambda>p.
     bindR (case expected of None \<Rightarrow> Inr () | Some r \<Rightarrow> check_revision p r) (\<lambda>_.
     bindR (not_archived p) (\<lambda>_.
     bindR (node_in p node_id) (\<lambda>n.
     bindR (waiting_on n) (\<lambda>k.
     bindR (check (run = None \<or> run = Some (k_run_id k)) (refuse_with 409 ''no_questions'' [(''node_id'', JStr (n_id n))])) (\<lambda>_.
     bindR (taken_answers k answers skip settle) (\<lambda>(recorded, finished).
     let k' = answered_clar k recorded skip finished now (who_name actor);
         rs = \<lparr>rs_run = k_run_id k, rs_item = item, rs_channel = channel\<rparr> in
     Inr (Store (p_revision p) (no_change\<lparr>ch_upsert := [n\<lparr>n_generation := Some k'\<rparr>],
       ch_events := [answered_event (p_id p) (n_id n) k' rs skip finished], ch_actor := Some actor\<rparr>) (\<lambda>q. (q, k'))))))))))"

definition answer_questions :: "'f surroundings \<Rightarrow> ident \<Rightarrow> ident \<Rightarrow> (ident \<times> plan_answer) list \<Rightarrow> bool \<Rightarrow> bool \<Rightarrow> timestamp \<Rightarrow>
    (string \<times> json) list \<Rightarrow> int option \<Rightarrow> ident option \<Rightarrow> ident option \<Rightarrow> ident option \<Rightarrow> ('f site, raised, plan \<times> clarification) action" where
  "answer_questions su i node_id answers skip settle now actor expected run item channel =
     service_retry su i now (expected \<noteq> None) (answer_decision i node_id answers skip settle now actor expected run item channel)"

section \<open>Withdrawing\<close>

definition withdraw_decision :: "ident \<Rightarrow> ident \<Rightarrow> string \<Rightarrow> run_scope \<Rightarrow> db \<Rightarrow> service_error + unit service_step" where
  "withdraw_decision i node_id reason rs d = (case store_get d i of
     None \<Rightarrow> Inr (Keep ())
   | Some p \<Rightarrow> (case plan_node_of p node_id of
       None \<Rightarrow> Inr (Keep ())
     | Some n \<Rightarrow> (case n_generation n of
         None \<Rightarrow> Inr (Keep ())
       | Some k \<Rightarrow>
           if k_run_id k \<noteq> rs_run rs \<or> k_status k \<noteq> AwaitingAnswers then Inr (Keep ())
           else Inr (Store (p_revision p) (no_change\<lparr>ch_upsert := [n\<lparr>n_generation := Some (k\<lparr>k_status := Withdrawn\<rparr>)\<rparr>],
             ch_events := [scoped_event rs ''plan.generation.failed'' (node_data (p_id p) (n_id n) (rs_run rs) @ [(''reason'', JStr reason)])],
             ch_actor := Some planner_actor\<rparr>) (\<lambda>_. ())))))"

text \<open>A plan deleted meanwhile, or one that kept changing, ends it quietly: no other error is raised.\<close>

definition withdraw_questions :: "'f surroundings \<Rightarrow> ident \<Rightarrow> ident \<Rightarrow> string \<Rightarrow> run_scope \<Rightarrow> timestamp \<Rightarrow> ('f site, raised, unit) action" where
  "withdraw_questions su i node_id reason rs now =
     handle (service_retry su i now False (withdraw_decision i node_id reason rs)) (\<lambda>_. ret ())"

section \<open>What a decision keeps\<close>

text \<open>The contract: the change decided on the plan read is sound on any plan with the same nodes.  \<open>pre\<close> is
  what it relies on besides.\<close>

locale service_decision =
  fixes pre :: "db \<Rightarrow> bool"
    and i :: ident
    and decide :: "db \<Rightarrow> service_error + 'a service_step"
  assumes sound: "db_wf d \<Longrightarrow> pre d \<Longrightarrow> decide d = Inr (Store r c f) \<Longrightarrow> \<exists>q. store_get d i = Some q \<and> p_revision q = r \<and>
    (\<forall>d' p. db_wf d' \<longrightarrow> pre d' \<longrightarrow> store_get d' i = Some p \<longrightarrow> p_root_id p = p_root_id q \<longrightarrow> set (p_nodes p) = set (p_nodes q) \<longrightarrow>
      fits d' i c \<and> wf_nodes i (p_root_id p) (merge_nodes (p_nodes p) c))"
begin

lemma attempt_wf:
  assumes others: "well_behaved (su_others su)" "\<forall>k d. pre d \<longrightarrow> pre (su_others su k d)"
    and s: "db_wf (st_db s)" "pre (st_db s)" and a: "service_attempt su i now pinned decide s = (r, s')"
  obtains (unwritten) "db_wf (st_db s')" "pre (st_db s')" "st_db s' = st_db s \<or> st_db s' = su_others su (st_tick s) (st_db s)"
    | (stored) q p d' c f x where "decide (st_db s) = Inr (Store (p_revision q) c f)" "store_get (st_db s) i = Some q"
        "d' = su_others su (st_tick s) (st_db s)" "db_wf d'" "pre d'" "store_get d' i = Some p" "set (p_nodes p) = set (p_nodes q)"
        "fits d' i c" "wf_nodes i (p_root_id p) (merge_nodes (p_nodes p) c)" "st_db s' = written d' i now c" "db_wf (st_db s')"
        "store_get (st_db s') i = Some x" "set (p_nodes x) = set (merge_nodes (p_nodes p) c)" "r = Inr (f x)"
proof (cases "decide (st_db s)")
  case (Inl e)
  with a s unwritten show thesis by (simp add: service_attempt_def)
next
  case (Inr step)
  show thesis
  proof (cases step)
    case (Keep x)
    with Inr a s unwritten show thesis by (simp add: service_attempt_def)
  next
    case (Store k c f)
    let ?d = "su_others su (st_tick s) (st_db s)"
    have d: "db_wf ?d" "pre ?d" using others s by (auto simp: well_behaved_def)
    from sound[OF s Inr[unfolded Store]] obtain q where q: "store_get (st_db s) i = Some q" "p_revision q = k"
      and ok: "\<And>d' p. db_wf d' \<Longrightarrow> pre d' \<Longrightarrow> store_get d' i = Some p \<Longrightarrow> p_root_id p = p_root_id q \<Longrightarrow> set (p_nodes p) = set (p_nodes q) \<Longrightarrow>
        fits d' i c \<and> wf_nodes i (p_root_id p) (merge_nodes (p_nodes p) c)" by blast
    show thesis
    proof (cases "store_apply ?d i k now c")
      case (Inl e)
      with a Inr Store d unwritten show thesis by (cases e) (auto simp: service_attempt_def)
    next
      case (Inr dx)
      obtain d' x where dx: "dx = (d', x)" by (cases dx)
      from Inr dx obtain p where p: "store_get ?d i = Some p" "p_revision p = k" "d' = written ?d i now c" "store_get d' i = Some x"
        by (auto elim: store_apply_Inr)
      have same: "p_root_id p = p_root_id q" "set (p_nodes p) = set (p_nodes q)"
        using others(1) s(1) q p(1,2) unfolding well_behaved_def by metis+
      note fw = ok[OF d p(1) same]
      note w = db_wf_written[OF d(1) conjunct1[OF fw] p(1) conjunct2[OF fw]]
      have wf: "db_wf d'" using w(1) p(3) by simp
      have "set (p_nodes x) = set (merge_nodes (p_nodes p) c)"
        using store_get_nodes(1)[OF wf p(4)] w(2) p(3) by simp
      moreover have "r = Inr (f x)" "st_db s' = d'" using a \<open>decide (st_db s) = Inr step\<close> Store Inr dx by (auto simp: service_attempt_def)
      ultimately show thesis
        using stored[of q c f ?d p x] q d p same(2) fw wf \<open>decide (st_db s) = Inr step\<close> Store by simp
    qed
  qed
qed

text \<open>What every write of the decision establishes holds afterwards, when other writers keep it.\<close>

lemma retry_keeps:
  assumes others: "well_behaved (su_others su)" "\<forall>k d. pre d \<longrightarrow> pre (su_others su k d)"
    and kept: "\<And>k d. db_wf d \<Longrightarrow> I d \<Longrightarrow> I (su_others su k d)"
    and step: "\<And>d d' q p c f. db_wf d \<Longrightarrow> I d \<Longrightarrow> db_wf d' \<Longrightarrow> I d' \<Longrightarrow> pre d' \<Longrightarrow> decide d = Inr (Store (p_revision q) c f) \<Longrightarrow> store_get d i = Some q \<Longrightarrow>
      store_get d' i = Some p \<Longrightarrow> set (p_nodes p) = set (p_nodes q) \<Longrightarrow> fits d' i c \<Longrightarrow> wf_nodes i (p_root_id p) (merge_nodes (p_nodes p) c) \<Longrightarrow> I (written d' i now c)"
    and s: "db_wf (st_db s)" "pre (st_db s)" "I (st_db s)"
    and r: "retry_action n (service_attempt su i now pinned decide) lost s = (r, s')"
  shows "db_wf (st_db s') \<and> I (st_db s')"
  using s r
proof (induction n arbitrary: lost s)
  case 0
  then show ?case by auto
next
  case (Suc n)
  obtain r1 s1 where a: "service_attempt su i now pinned decide s = (r1, s1)" by fastforce
  from others Suc.prems(1,2) a show ?case
  proof (cases rule: attempt_wf)
    case unwritten
    then have I: "I (st_db s1)" using Suc.prems(1,3) kept by auto
    show ?thesis
    proof (cases "\<exists>k. r1 = Inl (Stale k)")
      case True
      with I Suc.IH[OF unwritten(1,2)] Suc.prems(4) a show ?thesis by auto
    next
      case False
      then have "s' = s1" using a Suc.prems(4) by (auto split: sum.splits attempt_error.splits)
      with I unwritten show ?thesis by simp
    qed
  next
    case (stored q p d' c f x)
    have "I d'" using stored(3) Suc.prems(1,3) kept by simp
    then have "I (st_db s1)" using step[OF Suc.prems(1,3) stored(4) _ stored(5,1,2,6,7,8,9)] stored(10) by simp
    moreover have "s' = s1" using a stored(14) Suc.prems(4) by auto
    ultimately show ?thesis using stored(11) by simp
  qed
qed

end

text \<open>A property of every node of every plan.\<close>

definition nodes_hold :: "(plan_node \<Rightarrow> bool) \<Rightarrow> db \<Rightarrow> bool" where
  "nodes_hold P d = (\<forall>j p. store_get d j = Some p \<longrightarrow> (\<forall>n\<in>set (p_nodes p). P n))"

lemma nodes_hold_written:
  assumes "db_wf d" and "store_get d i = Some p" and "fits d i c" and "wf_nodes i (p_root_id p) (merge_nodes (p_nodes p) c)"
    and "nodes_hold P d" and "\<And>u. u \<in> set (ch_upsert c) \<Longrightarrow> P u"
  shows "nodes_hold P (written d i now c)"
  unfolding nodes_hold_def
proof (intro allI impI)
  fix j q assume q: "store_get (written d i now c) j = Some q"
  note w = db_wf_written[OF assms(1,3,2,4)]
  show "\<forall>n\<in>set (p_nodes q). P n"
  proof (cases "j = i")
    case True
    then have "set (p_nodes q) = set (merge_nodes (p_nodes p) c)" using store_get_nodes(1)[OF w(1) q] w(2) by simp
    moreover have "\<forall>n\<in>set (p_nodes p). P n" using assms(2,5) by (simp add: nodes_hold_def)
    ultimately show ?thesis using assms(6) by (auto simp: merge_nodes_def)
  next
    case False
    then have "store_get d j = Some q" using q other_plan_written[OF db_wf_keys[OF assms(1)] assms(3)] by simp
    with assms(5) show ?thesis by (simp add: nodes_hold_def)
  qed
qed

lemma service_retry_state: "snd (service_retry su i now pinned decide s) = snd (retry_action tries (service_attempt su i now pinned decide) None s)"
  by (auto simp: service_retry_def split: prod.splits sum.splits attempt_error.splits)

text \<open>A decision that patches one node of the plan it read.\<close>

locale one_node_decision =
  fixes i :: ident
    and decide :: "db \<Rightarrow> service_error + 'a service_step"
  assumes patch_one: "decide d = Inr (Store r c f) \<Longrightarrow> \<exists>q n u. store_get d i = Some q \<and> p_revision q = r \<and> n \<in> set (p_nodes q) \<and> patches c n u"

sublocale one_node_decision \<subseteq> service_decision "\<lambda>_. True" i decide
proof
  fix d r c f
  assume "decide d = Inr (Store r c f)"
  then obtain q n u where q: "store_get d i = Some q" "p_revision q = r" "n \<in> set (p_nodes q)" "patches c n u" using patch_one by blast
  have "fits d' i c \<and> wf_nodes i (p_root_id p) (merge_nodes (p_nodes p) c)"
    if d': "db_wf d'" "store_get d' i = Some p" "set (p_nodes p) = set (p_nodes q)" for d' p
  proof -
    have n: "n \<in> set (p_nodes p)" using q(3) d'(3) by simp
    have "node_ok n" "storable n"
      using wf_planD(4)[OF store_get_nodes(2)[OF d'(1,2)] n] plan_nodes_storable[OF d'(1,2) n] by simp_all
    with n q(4) show ?thesis by (intro patch_sound[OF d'(1,2)]) (auto simp: patches_def)
  qed
  with q(1,2) show "\<exists>q. store_get d i = Some q \<and> p_revision q = r \<and>
    (\<forall>d' p. db_wf d' \<longrightarrow> True \<longrightarrow> store_get d' i = Some p \<longrightarrow> p_root_id p = p_root_id q \<longrightarrow> set (p_nodes p) = set (p_nodes q) \<longrightarrow>
      fits d' i c \<and> wf_nodes i (p_root_id p) (merge_nodes (p_nodes p) c))" by blast
qed

context one_node_decision
begin

lemma retry_keeps_nodes:
  assumes others: "well_behaved (su_others su)" "\<forall>k d. db_wf d \<longrightarrow> nodes_hold P d \<longrightarrow> nodes_hold P (su_others su k d)"
    and step: "\<And>d r c f. nodes_hold P d \<Longrightarrow> decide d = Inr (Store r c f) \<Longrightarrow> \<forall>u\<in>set (ch_upsert c). P u"
  shows "keeps (\<lambda>s. db_wf (st_db s) \<and> nodes_hold P (st_db s)) (service_retry su i now pinned decide)"
  unfolding keeps_def
proof (intro allI impI, elim conjE)
  fix s :: "'b site" assume s: "db_wf (st_db s)" "nodes_hold P (st_db s)"
  obtain r s' where r: "retry_action tries (service_attempt su i now pinned decide) None s = (r, s')" by fastforce
  have "db_wf (st_db s') \<and> nodes_hold P (st_db s')"
  proof (rule retry_keeps[where I = "nodes_hold P", OF others(1) _ _ _ s(1) _ s(2) r])
    fix d d' q p c f
    assume a: "nodes_hold P d" "db_wf d'" "nodes_hold P d'" "decide d = Inr (Store (p_revision q) c f)" "store_get d' i = Some p"
      "fits d' i c" "wf_nodes i (p_root_id p) (merge_nodes (p_nodes p) c)"
    show "nodes_hold P (written d' i now c)"
      by (rule nodes_hold_written[OF a(2,5,6,7,3)]) (use step[OF a(1,4)] in blast)
  qed (use others(2) in auto)
  with r show "db_wf (st_db (snd (service_retry su i now pinned decide s))) \<and> nodes_hold P (st_db (snd (service_retry su i now pinned decide s)))"
    by (simp add: service_retry_state)
qed

end

lemma plan_node_of_Some: "plan_node_of p i = Some n \<Longrightarrow> n \<in> set (p_nodes p) \<and> n_id n = i"
  unfolding plan_node_of_def by (drule find_SomeD) simp

lemma breakdown_target_Inr:
  assumes "breakdown_target d cfg i node_id expected = Inr (p, n)"
  shows "store_get d i = Some p \<and> n \<in> set (p_nodes p) \<and> n_id n = node_id \<and> child_level (n_level n) \<noteq> None"
proof -
  from assms obtain p' n' where p: "store_get d i = Some p'" and n: "plan_node_of p' node_id = Some n'"
    and t: "(case child_level (n_level n') of None \<Rightarrow> Inl (refuse_with 422 ''invalid_argument'' [(''node_id'', JStr (n_id n'))])
      | Some _ \<Rightarrow> if find_repo cfg (n_repository n') = None
         then Inl (refuse_with 409 ''unknown_repository'' [(''repository'', JStr (n_repository n'))])
         else if repository_planning_for cfg (n_repository n') = Unsupported
         then Inl (refuse_with 409 ''planning_unsupported'' [(''repository'', JStr (n_repository n'))])
         else if \<not> replanned p' n' \<and> int (length (occupied p' n')) \<ge> cap cfg n' \<and> \<not> (generation_pending p' \<and> n_id n' = p_root_id p')
         then Inl (refuse_with 409 ''level_full'' [(''node_id'', JStr (n_id n'))]) else Inr (p', n')) = Inr (p, n)"
    unfolding breakdown_target_def bindR_Inr_iff service_reads by blast
  from t have "p = p'" "n = n'" "child_level (n_level n') \<noteq> None" by (auto split: option.splits if_splits)
  with p plan_node_of_Some[OF n] show ?thesis by simp
qed

interpretation asking: one_node_decision i "ask_decision cfg i node_id questions rs now"
proof
  fix d r c f assume "ask_decision cfg i node_id questions rs now d = Inr (Store r c f)"
  then obtain p n where t: "breakdown_target d cfg i node_id None = Inr (p, n)" and "r = p_revision p"
    and c: "ch_upsert c = [n\<lparr>n_generation := Some (new_clarification (rs_run rs) questions now)\<rparr>]" "ch_remove c = []"
    by (auto simp: ask_decision_def no_change_def)
  have "patches c n (n\<lparr>n_generation := Some (new_clarification (rs_run rs) questions now)\<rparr>)"
    using c by (simp add: patches_def same_shape_def node_ok_def storable_def)
  with breakdown_target_Inr[OF t] \<open>r = _\<close>
  show "\<exists>q n u. store_get d i = Some q \<and> p_revision q = r \<and> n \<in> set (p_nodes q) \<and> patches c n u" by blast
qed

lemma post_store:
  assumes "post_decision i node_id run posts d = Inr (Store r c f)"
  obtains p n k known where "store_get d i = Some p" "p_revision p = r" "n \<in> set (p_nodes p)" "n_id n = node_id" "n_generation n = Some k"
    "known = filter (\<lambda>(key, q). question_of k q \<noteq> None) posts" "\<not> settled_clar k" "k_run_id k = run"
    "ch_upsert c = [n\<lparr>n_generation := Some (k\<lparr>k_posts := merge_dict (k_posts k) known\<rparr>)\<rparr>]" "ch_remove c = []"
  using assms that unfolding post_decision_def
  by (auto simp: service_reads no_change_def Let_def dest!: plan_node_of_Some split: option.splits if_splits)

interpretation posting: one_node_decision i "post_decision i node_id run posts"
proof
  fix d r c f assume "post_decision i node_id run posts d = Inr (Store r c f)"
  then show "\<exists>q n u. store_get d i = Some q \<and> p_revision q = r \<and> n \<in> set (p_nodes q) \<and> patches c n u"
  proof (rule post_store)
    fix p n k known assume p: "store_get d i = Some p" "p_revision p = r" "n \<in> set (p_nodes p)"
      "ch_upsert c = [n\<lparr>n_generation := Some (k\<lparr>k_posts := merge_dict (k_posts k) known\<rparr>)\<rparr>]" "ch_remove c = []"
    then have "patches c n (n\<lparr>n_generation := Some (k\<lparr>k_posts := merge_dict (k_posts k) known\<rparr>)\<rparr>)"
      by (simp add: patches_def same_shape_def node_ok_def storable_def)
    with p show ?thesis by blast
  qed
qed

lemma waiting_Inr: "waiting_on n = Inr k \<longleftrightarrow> n_generation n = Some k \<and> k_status k = AwaitingAnswers"
  by (auto simp: waiting_on_def split: option.splits if_splits)

lemma answer_store:
  assumes "answer_decision i node_id answers skip settle now actor expected run item channel d = Inr (Store r c f)"
  obtains p n k recorded finished where "store_get d i = Some p" "p_revision p = r" "n \<in> set (p_nodes p)" "n_id n = node_id"
    "n_generation n = Some k" "k_status k = AwaitingAnswers" "taken_answers k answers skip settle = Inr (recorded, finished)"
    "ch_upsert c = [n\<lparr>n_generation := Some (answered_clar k recorded skip finished now (who_name actor))\<rparr>]" "ch_remove c = []"
  using assms that unfolding answer_decision_def
  by (auto simp: service_reads waiting_Inr no_change_def Let_def dest!: plan_node_of_Some)

interpretation answering: one_node_decision i "answer_decision i node_id answers skip settle now actor expected run item channel"
proof
  fix d r c f assume "answer_decision i node_id answers skip settle now actor expected run item channel d = Inr (Store r c f)"
  then show "\<exists>q n u. store_get d i = Some q \<and> p_revision q = r \<and> n \<in> set (p_nodes q) \<and> patches c n u"
  proof (rule answer_store)
    fix p n k recorded finished assume p: "store_get d i = Some p" "p_revision p = r" "n \<in> set (p_nodes p)"
      "ch_upsert c = [n\<lparr>n_generation := Some (answered_clar k recorded skip finished now (who_name actor))\<rparr>]" "ch_remove c = []"
    then have "patches c n (n\<lparr>n_generation := Some (answered_clar k recorded skip finished now (who_name actor))\<rparr>)"
      by (simp add: patches_def same_shape_def node_ok_def storable_def)
    with p show ?thesis by blast
  qed
qed

lemma withdraw_store:
  assumes "withdraw_decision i node_id reason rs d = Inr (Store r c f)"
  obtains p n k where "store_get d i = Some p" "p_revision p = r" "n \<in> set (p_nodes p)" "n_id n = node_id" "n_generation n = Some k"
    "k_status k = AwaitingAnswers" "ch_upsert c = [n\<lparr>n_generation := Some (k\<lparr>k_status := Withdrawn\<rparr>)\<rparr>]" "ch_remove c = []"
  using assms that unfolding withdraw_decision_def
  by (auto simp: no_change_def dest!: plan_node_of_Some split: option.splits if_splits)

interpretation withdrawing: one_node_decision i "withdraw_decision i node_id reason rs"
proof
  fix d r c f assume "withdraw_decision i node_id reason rs d = Inr (Store r c f)"
  then show "\<exists>q n u. store_get d i = Some q \<and> p_revision q = r \<and> n \<in> set (p_nodes q) \<and> patches c n u"
  proof (rule withdraw_store)
    fix p n k assume p: "store_get d i = Some p" "p_revision p = r" "n \<in> set (p_nodes p)"
      "ch_upsert c = [n\<lparr>n_generation := Some (k\<lparr>k_status := Withdrawn\<rparr>)\<rparr>]" "ch_remove c = []"
    then have "patches c n (n\<lparr>n_generation := Some (k\<lparr>k_status := Withdrawn\<rparr>)\<rparr>)"
      by (simp add: patches_def same_shape_def node_ok_def storable_def)
    with p show ?thesis by blast
  qed
qed

end
