(* ===== verification/Proposals.thy ===== *)
theory Proposals
  imports Questions
begin

text \<open>
  What the planner is asked and may answer (\<open>engine/planning.py\<close>): the shapes of a proposal and of a
  re-plan with the checks their constructors run, the references of \<open>depends_on\<close> resolved, cycles, and
  the problems an answer is sent back with.  A problem is a value naming the rule broken and what broke
  it; the sentence made of it is left out.
\<close>

section \<open>Shapes\<close>

datatype dep_ref = DepName string | DepIndex int

text \<open>A section of prose as an answer gives it: nothing, a text, or a list of items.\<close>

datatype prose = NoProse | Prose string | Bullets "string list"

definition prose_text :: "prose \<Rightarrow> string" where
  "prose_text v = (case v of
     NoProse \<Rightarrow> []
   | Prose t \<Rightarrow> strip t
   | Bullets xs \<Rightarrow> join [newline] (map (\<lambda>x. ''- '' @ squash x) (filter (\<lambda>x. strip x \<noteq> []) xs)))"

record proposed_child =
  px_id :: "string option"
  px_title :: string
  px_goal :: string
  px_context :: string
  px_criteria :: "string list"
  px_kind :: "task_kind option"
  px_profile :: "string option"
  px_commands :: "string list"
  px_depends_on :: "dep_ref list"
  px_non_goals :: string
  px_constraints :: string

record replan_addition = proposed_child +
  px_rationale :: string

record proposed_root =
  pr_title :: string
  pr_goal :: string
  pr_context :: string
  pr_criteria :: "string list"
  pr_non_goals :: string
  pr_constraints :: string

record proposal =
  pp_children :: "proposed_child list"
  pp_root :: "proposed_root option"
  pp_source :: "(string \<times> json) list option"

record replan_change =
  rg_target :: ident
  rg_rationale :: string
  rg_title :: "string option"
  rg_goal :: "string option"
  rg_context :: "string option"
  rg_criteria :: "string list option"
  rg_kind :: "task_kind option"
  rg_profile :: "string option"
  rg_commands :: "string list option"
  rg_depends_on :: "string list option"
  rg_non_goals :: "string option"
  rg_constraints :: "string option"

record replan_close =
  rl_target :: ident
  rl_rationale :: string

record plan_replan =
  rd_add :: "replan_addition list"
  rd_modify :: "replan_change list"
  rd_close :: "replan_close list"

section \<open>What the constructors check\<close>

text \<open>A shape that a constructor refuses raises \<open>ValueError\<close>; \<open>InvalidShape\<close> names the check.\<close>

datatype shape_error = NoTitle | EmptyProposal | RepeatedIds | EmptyChangedTitle | NoReason
  | NoChoiceValue | NoPrompt | RepeatedChoices | ChoiceCount | ReadyAndQuestions | NeitherReadyNorQuestions | RepeatedQuestion

definition strip_items :: "string list \<Rightarrow> string list" where
  "strip_items xs = map strip (filter (\<lambda>x. strip x \<noteq> []) xs)"

definition blank_profile :: "string option \<Rightarrow> string option" where
  "blank_profile v = (let t = strip (case v of None \<Rightarrow> [] | Some x \<Rightarrow> x) in if t = [] then None else Some t)"

definition folded_title :: "string \<Rightarrow> shape_error + string" where
  "folded_title t = (if squash t = [] then Inl NoTitle else Inr (squash t))"

definition make_child :: "string option \<Rightarrow> string \<Rightarrow> prose \<Rightarrow> prose \<Rightarrow> string list \<Rightarrow> task_kind option \<Rightarrow> string option \<Rightarrow>
    string list \<Rightarrow> dep_ref list \<Rightarrow> prose \<Rightarrow> prose \<Rightarrow> shape_error + proposed_child" where
  "make_child i title goal ctx criteria kind prof commands deps non_goals constraints =
     bindR (folded_title title) (\<lambda>t. Inr \<lparr>px_id = i, px_title = t, px_goal = prose_text goal, px_context = prose_text ctx,
       px_criteria = strip_items criteria, px_kind = kind, px_profile = blank_profile prof, px_commands = strip_items commands,
       px_depends_on = deps, px_non_goals = prose_text non_goals, px_constraints = prose_text constraints\<rparr>)"

definition given_ids :: "'a proposed_child_scheme list \<Rightarrow> string list" where
  "given_ids cs = concat (map (\<lambda>c. case px_id c of None \<Rightarrow> [] | Some i \<Rightarrow> if i = [] then [] else [i]) cs)"

definition make_proposal :: "proposed_child list \<Rightarrow> proposed_root option \<Rightarrow> (string \<times> json) list option \<Rightarrow> shape_error + proposal" where
  "make_proposal cs r source =
     (if cs = [] \<and> r = None then Inl EmptyProposal
      else if \<not> distinct (given_ids cs) then Inl RepeatedIds
      else Inr \<lparr>pp_children = cs, pp_root = r, pp_source = source\<rparr>)"

definition changed_title :: "string option \<Rightarrow> shape_error + string option" where
  "changed_title t = (case t of None \<Rightarrow> Inr None | Some x \<Rightarrow> if squash x = [] then Inl EmptyChangedTitle else Inr (Some (squash x)))"

definition close_rationale :: "string \<Rightarrow> shape_error + string" where
  "close_rationale t = (if squash t = [] then Inl NoReason else Inr (squash t))"

definition make_replan :: "replan_addition list \<Rightarrow> replan_change list \<Rightarrow> replan_close list \<Rightarrow> shape_error + plan_replan" where
  "make_replan adds changes close_list = (if distinct (given_ids adds)
     then Inr \<lparr>rd_add = adds, rd_modify = changes, rd_close = close_list\<rparr> else Inl RepeatedIds)"

text \<open>A clarifying answer.\<close>

definition make_choice :: "string \<Rightarrow> string \<Rightarrow> string option \<Rightarrow> shape_error + question_choice" where
  "make_choice v label description =
     (let value = squash v; text = squash label; note = squash (case description of None \<Rightarrow> [] | Some x \<Rightarrow> x) in
      if value = [] then Inl NoChoiceValue
      else Inr \<lparr>c_value = value, c_label = (if text = [] then value else text), c_description = (if note = [] then None else Some note)\<rparr>)"

definition min_choices :: nat where "min_choices = 2"
definition max_choices :: nat where "max_choices = 5"

definition make_question :: "ident \<Rightarrow> string \<Rightarrow> question_choice list \<Rightarrow> bool \<Rightarrow> shape_error + plan_question" where
  "make_question i prompt choices free =
     (if squash prompt = [] then Inl NoPrompt
      else if \<not> distinct (map c_value choices) then Inl RepeatedChoices
      else if \<not> (min_choices \<le> length choices \<and> length choices \<le> max_choices) then Inl ChoiceCount
      else Inr \<lparr>q_id = i, q_prompt = squash prompt, q_choices = choices, q_allow_free_text = free\<rparr>)"

definition named_question :: "nat \<Rightarrow> plan_question \<Rightarrow> plan_question" where
  "named_question k q = q\<lparr>q_id := (let i = squash (q_id q) in if i = [] then ''q'' @ int_str (int k) else i)\<rparr>"

text \<open>\<open>PlanClarification\<close>: ready, or questions, each named.\<close>

definition make_clarification :: "bool \<Rightarrow> plan_question list \<Rightarrow> shape_error + plan_question list" where
  "make_clarification ready questions =
     (let named = map (\<lambda>(k, q). named_question k q) (enumerate 1 questions) in
      if ready \<and> questions \<noteq> [] then Inl ReadyAndQuestions
      else if \<not> ready \<and> questions = [] then Inl NeitherReadyNorQuestions
      else if \<not> distinct (map q_id named) then Inl RepeatedQuestion
      else Inr named)"

section \<open>Cycles\<close>

text \<open>\<open>TopologicalSorter(graph).prepare()\<close>: a cycle is refused.  An entry whose targets are all gone is
  taken away, again and again; what is left at the end holds a cycle.\<close>

definition peel :: "('k \<times> 'k list) list \<Rightarrow> ('k \<times> 'k list) list" where
  "peel g = filter (\<lambda>(k, ds). list_ex (\<lambda>d. d \<in> fst ` set g) ds) g"

definition has_cycle :: "('k \<times> 'k list) list \<Rightarrow> bool" where
  "has_cycle g = ((peel ^^ length g) g \<noteq> [])"

section \<open>Dependencies\<close>

datatype dep_problem = NotSibling nat dep_ref | OnItself nat

datatype dep_error = DepProblems "dep_problem list" | DepCycle | DepNumber string

text \<open>The positions of the additions by their ids: a dictionary keeps the last of an id.\<close>

definition positions_of :: "'a proposed_child_scheme list \<Rightarrow> (string \<times> nat) list" where
  "positions_of cs = rev (concat (map (\<lambda>(k, c). case px_id c of None \<Rightarrow> [] | Some i \<Rightarrow> if i = [] then [] else [(i, k)]) (enumerate 0 cs)))"

definition in_range :: "nat \<Rightarrow> int \<Rightarrow> nat option" where
  "in_range many k = (if 1 \<le> k \<and> k \<le> int many then Some (nat (k - 1)) else None)"

definition resolve_dep :: "dep_ref \<Rightarrow> (string \<times> nat) list \<Rightarrow> nat \<Rightarrow> dep_error + nat option" where
  "resolve_dep ref by_id many = (case ref of
     DepIndex k \<Rightarrow> Inr (in_range many k)
   | DepName t \<Rightarrow> let key = strip t in (case map_of by_id key of
         Some k \<Rightarrow> Inr (Some k)
       | None \<Rightarrow> if key = [] \<or> \<not> list_all is_digit key then Inr None
           else (case py_int key of Inl (BadInt b) \<Rightarrow> Inl (DepNumber b) | Inr k \<Rightarrow> Inr (in_range many k))))"

text \<open>A dependency of an addition: another addition, or a current child.\<close>

datatype dep_target = ToAddition nat | ToChild ident

definition resolve_target :: "ident list \<Rightarrow> dep_ref \<Rightarrow> (string \<times> nat) list \<Rightarrow> nat \<Rightarrow> dep_error + dep_target option" where
  "resolve_target known ref by_id many =
     (case ref of
        DepName t \<Rightarrow> if strip t \<in> set known \<and> strip t \<notin> fst ` set by_id then Inr (Some (ToChild (strip t)))
          else bindR (resolve_dep ref by_id many) (\<lambda>r. Inr (map_option ToAddition r))
      | DepIndex k \<Rightarrow> bindR (resolve_dep ref by_id many) (\<lambda>r. Inr (map_option ToAddition r)))"

definition add_dep :: "ident list \<Rightarrow> (string \<times> nat) list \<Rightarrow> nat \<Rightarrow> nat \<Rightarrow> dep_target list \<times> dep_problem list \<Rightarrow> dep_ref \<Rightarrow>
    dep_error + dep_target list \<times> dep_problem list" where
  "add_dep known by_id many index = (\<lambda>(deps, problems) ref. bindR (resolve_target known ref by_id many) (\<lambda>t. case t of
     None \<Rightarrow> Inr (deps, problems @ [NotSibling index ref])
   | Some t \<Rightarrow> if t = ToAddition index then Inr (deps, problems @ [OnItself index])
       else if t \<in> set deps then Inr (deps, problems) else Inr (deps @ [t], problems)))"

fun deps_of_all :: "ident list \<Rightarrow> (string \<times> nat) list \<Rightarrow> nat \<Rightarrow> (nat \<times> dep_ref list) list \<Rightarrow> dep_error + dep_target list list \<times> dep_problem list" where
  "deps_of_all known by_id many [] = Inr ([], [])"
| "deps_of_all known by_id many ((index, ds) # rest) =
     bindR (foldR (add_dep known by_id many index) ([], []) ds) (\<lambda>(deps, ps).
     bindR (deps_of_all known by_id many rest) (\<lambda>(all, qs). Inr (deps # all, ps @ qs)))"

definition addition_graph :: "dep_target list list \<Rightarrow> (nat \<times> nat list) list" where
  "addition_graph resolved = enumerate 0 (map (\<lambda>deps. concat (map (\<lambda>t. case t of ToAddition k \<Rightarrow> [k] | ToChild i \<Rightarrow> []) deps)) resolved)"

definition add_dependencies :: "ident list \<Rightarrow> 'a proposed_child_scheme list \<Rightarrow> dep_error + dep_target list list" where
  "add_dependencies known cs =
     bindR (deps_of_all known (positions_of cs) (length cs) (enumerate 0 (map px_depends_on cs))) (\<lambda>(resolved, problems).
     if problems \<noteq> [] then Inl (DepProblems problems)
     else if has_cycle (addition_graph resolved) then Inl DepCycle else Inr resolved)"

text \<open>A proposal's dependencies: among its children only.\<close>

definition proposal_dependencies :: "proposed_child list \<Rightarrow> dep_error + nat list list" where
  "proposal_dependencies cs = bindR (add_dependencies [] cs) (\<lambda>resolved. Inr (map snd (addition_graph resolved)))"

section \<open>The brief\<close>

record current_child =
  cc_id :: ident
  cc_title :: string
  cc_state :: node_state
  cc_origin :: origin
  cc_issue :: string
  cc_forge_state :: "forge_state option"
  cc_changeable :: bool
  cc_owned :: bool
  cc_goal :: string
  cc_context :: string
  cc_criteria :: "string list"
  cc_kind :: "task_kind option"
  cc_profile :: "string option"
  cc_commands :: "string list"
  cc_depends_on :: "ident list"
  cc_non_goals :: string
  cc_constraints :: string

record brief =
  bf_replan :: bool
  bf_input :: "(string \<times> json) list"
  bf_generate_root :: bool
  bf_plan_id :: ident
  bf_node_id :: ident
  bf_level :: level
  bf_child_level :: level
  bf_repository :: string
  bf_title :: string
  bf_goal :: string
  bf_context :: string
  bf_criteria :: "string list"
  bf_non_goals :: string
  bf_constraints :: string
  bf_parent :: "plan_node option"
  bf_kept :: "string list"
  bf_room :: int
  bf_cap :: int
  bf_profiles :: "string list"
  bf_repositories :: "string list"
  bf_note :: string
  bf_max_questions :: int
  bf_clarification :: "clarification option"
  bf_current :: "current_child list"

definition clarification_for :: "brief \<Rightarrow> ident \<Rightarrow> clarification option" where
  "clarification_for b run = (case bf_clarification b of None \<Rightarrow> None | Some k \<Rightarrow> if k_run_id k = run then Some k else None)"

definition current_child_of :: "brief \<Rightarrow> ident \<Rightarrow> current_child option" where
  "current_child_of b i = find (\<lambda>c. cc_id c = i) (bf_current b)"

section \<open>Problems\<close>

datatype problem =
    Needs string string
  | Stray string "string list"
  | NeedsKind string
  | WorkloadCommands string
  | NeedsProfile string
  | UnknownProfile string string
  | ProfileOnCode string
  | NeedsCommands string
  | ShellVariable string string
  | LintSays string string
  | NoChildren
  | NeedsRoot
  | TooMany nat int
  | SourceStamped
  | RepeatsKept string string
  | RepeatsChild string string
  | BadDependencies dep_error
  | NoRationale string
  | DependsOnClosed string string
  | RepeatsCurrent string ident
  | CurrentId string ident
  | NoSuchChild string
  | TwiceInDiff string ident
  | NotChangeable string
  | PersonsOwn string
  | NothingToChange string
  | LeftWithout string string
  | DependsOnSelf string
  | DependsOnUnknown string string
  | CurrentCycle
  | TooManyQuestions nat int

definition clarification_problems :: "plan_question list \<Rightarrow> brief \<Rightarrow> problem list" where
  "clarification_problems qs b = (if int (length qs) > bf_max_questions b then [TooManyQuestions (length qs) (bf_max_questions b)] else [])"

definition title_key :: "string \<Rightarrow> string" where
  "title_key t = casefold (squash t)"

text \<open>\<open>_SHELL_VARIABLE\<close>: a dollar before a brace, a parenthesis, a letter or an underscore.\<close>

definition names_variable :: "char \<Rightarrow> bool" where
  "names_variable c = (c = CHR 0x7B \<or> c = CHR 0x28 \<or> c = CHR 0x5F \<or> 65 \<le> ord c \<and> ord c \<le> 90 \<or> 97 \<le> ord c \<and> ord c \<le> 122)"

fun shell_variable :: "string \<Rightarrow> bool" where
  "shell_variable (c # d # s) = (c = CHR 0x24 \<and> names_variable d \<or> shell_variable (d # s))"
| "shell_variable s = False"

text \<open>The lint of verify commands is an argument.\<close>

type_synonym lint = "(string list \<Rightarrow> string list) option"

definition whole_problems :: "'a proposed_child_scheme \<Rightarrow> string \<Rightarrow> problem list" where
  "whole_problems c label = (if blank (px_goal c) then [Needs label ''goal''] else [])
     @ (if blank (px_context c) then [Needs label ''context''] else [])
     @ (if px_criteria c = [] then [Needs label ''acceptance_criteria''] else [])"

definition stray_sections :: "'a proposed_child_scheme \<Rightarrow> string list" where
  "stray_sections c = (if px_kind c \<noteq> None then [''kind''] else []) @ (if px_profile c \<noteq> None then [''workload_profile''] else [])
     @ (if px_commands c \<noteq> [] then [''verify_commands''] else []) @ (if px_depends_on c \<noteq> [] then [''depends_on''] else [])"

definition task_problems :: "'a proposed_child_scheme \<Rightarrow> string \<Rightarrow> string list \<Rightarrow> lint \<Rightarrow> problem list" where
  "task_problems c label profiles lint = (case px_kind c of
     None \<Rightarrow> [NeedsKind label]
   | Some WorkloadTask \<Rightarrow> (if px_commands c \<noteq> [] then [WorkloadCommands label] else [])
       @ (case px_profile c of None \<Rightarrow> [NeedsProfile label]
          | Some prof \<Rightarrow> if prof \<in> set profiles then [] else [UnknownProfile label prof])
   | Some CodeTask \<Rightarrow> (if px_profile c \<noteq> None then [ProfileOnCode label] else [])
       @ (if px_commands c = [] then [NeedsCommands label] else [])
       @ map (ShellVariable label) (filter shell_variable (px_commands c))
       @ (case lint of None \<Rightarrow> [] | Some f \<Rightarrow> map (LintSays label) (f (px_commands c))))"

definition child_problems :: "'a proposed_child_scheme \<Rightarrow> string \<Rightarrow> brief \<Rightarrow> lint \<Rightarrow> bool \<Rightarrow> problem list" where
  "child_problems c label b lint whole = (if whole then whole_problems c label else [])
     @ (if bf_child_level b = Epic then (if stray_sections c = [] then [] else [Stray label (stray_sections c)])
        else task_problems c label (bf_profiles b) lint)"

definition root_problems :: "proposed_root \<Rightarrow> problem list" where
  "root_problems r = map (Needs ''root'') (map fst (filter (\<lambda>(k, v). blank v)
       [(''title'', pr_title r), (''goal'', pr_goal r), (''context'', pr_context r)]))
     @ (if pr_criteria r = [] \<or> list_ex blank (pr_criteria r) then [Needs ''root'' ''acceptance_criteria''] else [])"

text \<open>\<open>child.id or index + 1\<close>, with the title.\<close>

definition child_label :: "string \<Rightarrow> nat \<Rightarrow> 'a proposed_child_scheme \<Rightarrow> string" where
  "child_label what index c = what @ '' '' @ (if truthy (px_id c) then the (px_id c) else int_str (int index + 1)) @ '' ('' @ px_title c @ '')''"

fun children_problems :: "brief \<Rightarrow> lint \<Rightarrow> (string \<times> string) list \<Rightarrow> (string \<times> string) list \<Rightarrow> (nat \<times> proposed_child) list \<Rightarrow> problem list" where
  "children_problems b lint staying found [] = []"
| "children_problems b lint staying found ((index, c) # cs) =
     (let label = child_label (level_name (bf_child_level b)) index c; t = title_key (px_title c) in
      case (map_of staying t, map_of found t) of
        (Some title, _) \<Rightarrow> RepeatsKept label title # child_problems c label b lint True @ children_problems b lint staying found cs
      | (None, Some other) \<Rightarrow> RepeatsChild label other # child_problems c label b lint True @ children_problems b lint staying found cs
      | (None, None) \<Rightarrow> child_problems c label b lint True @ children_problems b lint staying ((t, label) # found) cs)"

definition proposal_problems :: "proposal \<Rightarrow> brief \<Rightarrow> lint \<Rightarrow> problem list" where
  "proposal_problems p b lint =
     (let many = length (pp_children p) in
      (if \<not> bf_generate_root b \<and> many = 0 then [NoChildren] else [])
      @ (if bf_generate_root b then (case pp_root p of None \<Rightarrow> [NeedsRoot] | Some r \<Rightarrow> root_problems r) else [])
      @ (if int many > bf_room b then [TooMany many (bf_room b)] else [])
      @ (if pp_source p \<noteq> None then [SourceStamped] else [])
      @ children_problems b lint (rev (map (\<lambda>t. (title_key t, t)) (bf_kept b))) [] (enumerate 0 (pp_children p))
      @ (case proposal_dependencies (pp_children p) of Inl e \<Rightarrow> [BadDependencies e] | Inr ds \<Rightarrow> []))"

section \<open>The problems of a re-plan\<close>

text \<open>\<open>changes()\<close>: the sections an entry sets, in order.\<close>

definition change_sections :: "replan_change \<Rightarrow> section_edit list" where
  "change_sections g = concat [
     (if rg_title g = None then [] else [STitle (rg_title g)]), (if rg_goal g = None then [] else [SGoal (rg_goal g)]),
     (if rg_context g = None then [] else [SContext (rg_context g)]), (if rg_criteria g = None then [] else [SCriteria (rg_criteria g)]),
     (if rg_kind g = None then [] else [SKind (rg_kind g)]), (if rg_profile g = None then [] else [SProfile (rg_profile g)]),
     (if rg_commands g = None then [] else [SVerify (rg_commands g)]), (if rg_depends_on g = None then [] else [SDepends (rg_depends_on g)]),
     (if rg_non_goals g = None then [] else [SNonGoals (rg_non_goals g)]), (if rg_constraints g = None then [] else [SConstraints (rg_constraints g)])]"

text \<open>The child as a change leaves it.  A kind that changes drops what the other kind had.\<close>

definition merged_child :: "replan_change \<Rightarrow> current_child \<Rightarrow> shape_error + proposed_child" where
  "merged_child g c = make_child (Some (cc_id c)) (if truthy (rg_title g) then the (rg_title g) else cc_title c) (Prose (cc_goal c))
     (Prose (cc_context c)) (or_else (rg_criteria g) (cc_criteria c)) (if rg_kind g = None then cc_kind c else rg_kind g)
     (if rg_profile g = None then cc_profile c else rg_profile g) (or_else (rg_commands g) (cc_commands c)) [] NoProse NoProse"

definition after_kind :: "replan_change \<Rightarrow> proposed_child \<Rightarrow> proposed_child" where
  "after_kind g c =
     (let c1 = (if px_kind c = Some WorkloadTask \<and> rg_commands g = None \<and> rg_kind g \<noteq> None then c\<lparr>px_commands := []\<rparr> else c) in
      if px_kind c1 = Some CodeTask \<and> rg_profile g = None \<and> rg_kind g \<noteq> None then c1\<lparr>px_profile := None\<rparr> else c1)"

definition dep_problems :: "brief \<Rightarrow> string \<Rightarrow> ident \<Rightarrow> string list option \<Rightarrow> problem list" where
  "dep_problems b label i deps = (case deps of None \<Rightarrow> [] | Some ds \<Rightarrow> concat (map (\<lambda>d.
     if d = i then [DependsOnSelf label] else if current_child_of b d = None then [DependsOnUnknown label d] else []) ds))"

definition stray_change :: "replan_change \<Rightarrow> string list" where
  "stray_change g = (if rg_kind g \<noteq> None then [''kind''] else []) @ (if rg_profile g \<noteq> None then [''workload_profile''] else [])
     @ (if rg_commands g \<noteq> None then [''verify_commands''] else []) @ (if rg_depends_on g \<noteq> None then [''depends_on''] else [])"

definition change_problems :: "replan_change \<Rightarrow> current_child \<Rightarrow> brief \<Rightarrow> string \<Rightarrow> lint \<Rightarrow> shape_error + problem list" where
  "change_problems g c b label lint =
     (if \<not> cc_owned c then Inr [PersonsOwn label]
      else if change_sections g = [] then Inr [NothingToChange label]
      else let left = (case rg_goal g of Some t \<Rightarrow> if blank t then [LeftWithout label ''goal''] else [] | None \<Rightarrow> [])
             @ (case rg_context g of Some t \<Rightarrow> if blank t then [LeftWithout label ''context''] else [] | None \<Rightarrow> [])
             @ (if rg_criteria g = Some [] then [LeftWithout label ''acceptance_criteria''] else [])
             @ dep_problems b label (cc_id c) (rg_depends_on g) in
        bindR (merged_child g c) (\<lambda>m.
        if bf_child_level b = Epic then Inr (left @ (if stray_change g = [] then [] else [Stray label (stray_change g)]))
        else Inr (left @ child_problems (after_kind g m) label b (if rg_commands g = None then None else lint) False)))"

definition addition_problems :: "brief \<Rightarrow> lint \<Rightarrow> ident list \<Rightarrow> nat \<times> replan_addition \<Rightarrow> problem list" where
  "addition_problems b lint closing = (\<lambda>(index, c).
     let label = child_label ''addition'' index c in
     (if blank (px_rationale c) then [NoRationale label] else [])
     @ concat (map (\<lambda>ref. case ref of DepName t \<Rightarrow> if strip t \<in> set closing then [DependsOnClosed label (strip t)] else [] | DepIndex k \<Rightarrow> []) (px_depends_on c))
     @ (case find (\<lambda>x. title_key (cc_title x) = title_key (px_title c)) (rev (bf_current b)) of
          None \<Rightarrow> [] | Some same \<Rightarrow> [RepeatsCurrent label (cc_id same)])
     @ (case px_id c of None \<Rightarrow> [] | Some i \<Rightarrow> if i \<noteq> [] \<and> i \<in> set (map cc_id (bf_current b)) then [CurrentId label i] else [])
     @ child_problems c label b lint True)"

datatype diff_entry = Modify replan_change | Close replan_close

fun entry_target :: "diff_entry \<Rightarrow> ident" where
  "entry_target (Modify g) = rg_target g"
| "entry_target (Close l) = rl_target l"

fun entry_label :: "diff_entry \<Rightarrow> string" where
  "entry_label (Modify g) = ''modify '' @ rg_target g"
| "entry_label (Close l) = ''suggest_close '' @ rl_target l"

fun unexplained :: "diff_entry \<Rightarrow> problem list" where
  "unexplained (Modify g) = (if blank (rg_rationale g) then [NoRationale (''modify '' @ rg_target g)] else [])"
| "unexplained (Close l) = []"

fun entry_change_problems :: "brief \<Rightarrow> lint \<Rightarrow> current_child \<Rightarrow> diff_entry \<Rightarrow> shape_error + problem list" where
  "entry_change_problems b lint c (Modify g) = change_problems g c b (''modify '' @ rg_target g) lint"
| "entry_change_problems b lint c (Close l) = Inr []"

fun entries_problems :: "brief \<Rightarrow> lint \<Rightarrow> ident list \<Rightarrow> diff_entry list \<Rightarrow> shape_error + problem list" where
  "entries_problems b lint seen [] = Inr []"
| "entries_problems b lint seen (e # es) = (let t = entry_target e; label = entry_label e in
     case current_child_of b t of
       None \<Rightarrow> bindR (entries_problems b lint seen es) (\<lambda>ps. Inr (NoSuchChild label # ps))
     | Some c \<Rightarrow>
         if t \<in> set seen then bindR (entries_problems b lint seen es) (\<lambda>ps. Inr (TwiceInDiff label t # ps))
         else if \<not> cc_changeable c
         then bindR (entries_problems b lint (t # seen) es) (\<lambda>ps. Inr (unexplained e @ NotChangeable label # ps))
         else bindR (entry_change_problems b lint c e) (\<lambda>qs.
           bindR (entries_problems b lint (t # seen) es) (\<lambda>ps. Inr (unexplained e @ qs @ ps))))"

text \<open>The level's dependencies as the diff leaves them.\<close>

definition current_graph :: "brief \<Rightarrow> (ident \<times> ident list) list" where
  "current_graph b = foldl (\<lambda>g c. dict_set (cc_id c) (cc_depends_on c) g) [] (bf_current b)"

definition diff_graph :: "brief \<Rightarrow> replan_change list \<Rightarrow> (ident \<times> ident list) list" where
  "diff_graph b changes = foldl (\<lambda>g e. case rg_depends_on e of None \<Rightarrow> g
     | Some ds \<Rightarrow> if rg_target e \<in> fst ` set g then dict_set (rg_target e) (filter (\<lambda>d. d \<in> fst ` set g) ds) g else g)
     (current_graph b) changes"

definition replan_problems :: "plan_replan \<Rightarrow> brief \<Rightarrow> lint \<Rightarrow> shape_error + problem list" where
  "replan_problems r b lint =
     bindR (entries_problems b lint [] (map Modify (rd_modify r) @ map Close (rd_close r))) (\<lambda>ps.
     Inr ((if int (length (rd_add r)) > bf_room b then [TooMany (length (rd_add r)) (bf_room b)] else [])
       @ concat (map (addition_problems b lint (map rl_target (rd_close r))) (enumerate 0 (rd_add r)))
       @ (case add_dependencies (map cc_id (bf_current b)) (rd_add r) of Inl e \<Rightarrow> [BadDependencies e] | Inr ds \<Rightarrow> [])
       @ ps
       @ (if has_cycle (diff_graph b (rd_modify r)) then [CurrentCycle] else [])))"

end
