(* ===== verification/Planner.thy ===== *)
theory Planner
  imports Proposals
begin

text \<open>
  The planner's side of the service (\<open>plans/service_planner.py\<close>): the brief a plan run reads, its proposal
  written under the node, its re-plan kept on the node until a person approves or discards it.  Ids the
  code draws are arguments: \<open>ids k\<close> is the \<open>k\<close>-th node made by a call, and so on.
\<close>

fun mapR :: "('a \<Rightarrow> 'e + 'b) \<Rightarrow> 'a list \<Rightarrow> 'e + 'b list" where
  "mapR f [] = Inr []"
| "mapR f (x # xs) = bindR (f x) (\<lambda>y. bindR (mapR f xs) (\<lambda>ys. Inr (y # ys)))"

section \<open>The brief\<close>

definition current_of :: "plan_node \<Rightarrow> current_child" where
  "current_of n = \<lparr>cc_id = n_id n, cc_title = n_title n, cc_state = n_state n, cc_origin = n_origin n,
     cc_issue = (case n_forge n of None \<Rightarrow> [] | Some f \<Rightarrow> where_is (n_repository n) (f_number f)),
     cc_forge_state = (case n_forge n of None \<Rightarrow> None | Some f \<Rightarrow> f_state f), cc_changeable = changeable n,
     cc_owned = (n_origin n \<noteq> FromForge), cc_goal = n_goal n, cc_context = n_context n, cc_criteria = n_acceptance_criteria n,
     cc_kind = n_kind n, cc_profile = n_workload_profile n, cc_commands = n_verify_commands n, cc_depends_on = n_depends_on n,
     cc_non_goals = n_non_goals n, cc_constraints = n_constraints n\<rparr>"

text \<open>The parent is the node above; the line of context made of it is left out.\<close>

definition plan_brief :: "db \<Rightarrow> config \<Rightarrow> ident \<Rightarrow> ident \<Rightarrow> string \<Rightarrow> service_error + brief" where
  "plan_brief d cfg i node_id note = bindR (breakdown_target d cfg i node_id None) (\<lambda>(p, n).
     let again = replanned p n; cs = children p (n_id n); staying = (if again then cs else kept p n) in
     Inr \<lparr>bf_replan = again, bf_input = p_input p, bf_generate_root = (generation_pending p \<and> n_id n = p_root_id p),
       bf_plan_id = p_id p, bf_node_id = n_id n, bf_level = n_level n, bf_child_level = the (child_level (n_level n)),
       bf_repository = n_repository n, bf_title = n_title n, bf_goal = n_goal n, bf_context = n_context n,
       bf_criteria = n_acceptance_criteria n, bf_non_goals = n_non_goals n, bf_constraints = n_constraints n,
       bf_parent = (case n_parent_id n of None \<Rightarrow> None | Some q \<Rightarrow> if q = [] then None else plan_node_of p q),
       bf_kept = (if again then [] else map n_title staying), bf_room = max (room cfg p n) 0, bf_cap = cap cfg n,
       bf_profiles = cf_workloads cfg,
       bf_repositories = sort_key casefold (remdups (filter (\<lambda>r. casefold r \<noteq> casefold (n_repository n)) (map n_repository staying))),
       bf_note = note, bf_max_questions = pc_max_questions (planning_for cfg (n_repository n)), bf_clarification = n_generation n,
       bf_current = (if again then map current_of cs else [])\<rparr>)"

section \<open>A proposal\<close>

definition child_sections :: "level \<Rightarrow> 'a proposed_child_scheme \<Rightarrow> section_edit list" where
  "child_sections l c = [STitle (Some (px_title c)), SGoal (Some (px_goal c)), SContext (Some (px_context c)),
     SCriteria (Some (px_criteria c)), SNonGoals (Some (px_non_goals c)), SConstraints (Some (px_constraints c))]
     @ (if l = Task then [SKind (px_kind c), SProfile (px_profile c), SVerify (Some (px_commands c))] else [])"

definition root_sections :: "proposed_root \<Rightarrow> section_edit list" where
  "root_sections r = [STitle (Some (pr_title r)), SGoal (Some (pr_goal r)), SContext (Some (pr_context r)),
     SCriteria (Some (pr_criteria r)), SNonGoals (Some (pr_non_goals r)), SConstraints (Some (pr_constraints r))]"

text \<open>A proposed child before its sections are set.\<close>

definition planned_node :: "ident \<Rightarrow> ident \<Rightarrow> ident \<Rightarrow> int \<Rightarrow> level \<Rightarrow> string \<Rightarrow> timestamp \<Rightarrow> ident option \<Rightarrow> plan_node" where
  "planned_node i plan_id parent position l repo now proposer =
     (new_node i plan_id (Some parent) position l repo now proposer)\<lparr>n_state := Proposed, n_origin := Planner\<rparr>"

text \<open>The children a proposal replaces, each with what is under it.\<close>

definition replaced_nodes :: "plan \<Rightarrow> plan_node \<Rightarrow> plan_node list" where
  "replaced_nodes p n = (let staying = map n_id (kept p n) in
     concat (map (\<lambda>c. c # descendants p (n_id c)) (filter (\<lambda>c. n_id c \<notin> set staying) (children p (n_id n)))))"

text \<open>The children that stay, numbered from 0, without the dependencies removed.\<close>

definition staying_nodes :: "plan \<Rightarrow> plan_node \<Rightarrow> ident list \<Rightarrow> plan_node list" where
  "staying_nodes p n removed = map (\<lambda>c. c\<lparr>n_depends_on := filter (\<lambda>d. d \<notin> set removed) (n_depends_on c)\<rparr>) (renumber (kept p n))"

definition fresh_child :: "config \<Rightarrow> plan \<Rightarrow> plan_node \<Rightarrow> level \<Rightarrow> string \<Rightarrow> timestamp \<Rightarrow> ident option \<Rightarrow> (nat \<Rightarrow> ident) \<Rightarrow> nat \<Rightarrow>
    nat \<times> proposed_child \<Rightarrow> service_error + plan_node" where
  "fresh_child cfg p n l repo now proposer ids start = (\<lambda>(offset, c).
     with_sections cfg (planned_node (ids offset) (p_id p) (n_id n) (int (start + offset)) l repo now proposer) (child_sections l c) [])"

definition link_fresh :: "plan_node list \<Rightarrow> nat list list \<Rightarrow> plan_node list" where
  "link_fresh fresh order = map (\<lambda>(m, ds). m\<lparr>n_depends_on := map (\<lambda>k. n_id (fresh ! k)) ds\<rparr>) (zip fresh order)"

text \<open>A node that is broken down has a level below (\<open>breakdown_target\<close>).\<close>

definition proposed_children :: "config \<Rightarrow> plan \<Rightarrow> plan_node \<Rightarrow> proposed_child list \<Rightarrow> timestamp \<Rightarrow> ident option \<Rightarrow> (nat \<Rightarrow> ident) \<Rightarrow>
    service_error + plan_node list \<times> ident list" where
  "proposed_children cfg p n cs now proposer ids =
     (let l = the (child_level (n_level n)); going = replaced_nodes p n; removed = map n_id going; stay = staying_nodes p n removed in
      bindR (check (\<not> int (length cs) > room cfg p n) (refuse_with 409 ''level_full'' [(''node_id'', JStr (n_id n))])) (\<lambda>_.
      bindR (check (\<not> list_ex (\<lambda>m. n_state m = Published) going) (refuse_with 409 ''node_published'' [(''node_id'', JStr (n_id n))])) (\<lambda>_.
      bindR (case proposal_dependencies cs of Inl e \<Rightarrow> Inl invalid_argument | Inr order \<Rightarrow> Inr order) (\<lambda>order.
      bindR (child_repository cfg n l None) (\<lambda>repo.
      bindR (mapR (fresh_child cfg p n l repo now proposer ids (length stay)) (enumerate 0 cs)) (\<lambda>fresh.
      let linked = link_fresh fresh order in
      bindR (foldR (\<lambda>_ m. if n_depends_on m = [] then Inr () else check_dependencies m (stay @ filter (\<lambda>x. n_id x \<noteq> n_id m) linked)) () linked) (\<lambda>_.
      Inr (stay @ linked, sort (remdups removed)))))))))"

text \<open>The root a proposal writes for a plan that waits for one.\<close>

definition proposed_root_node :: "config \<Rightarrow> plan \<Rightarrow> plan_node \<Rightarrow> proposal \<Rightarrow> timestamp \<Rightarrow> ident option \<Rightarrow> service_error + plan_node list" where
  "proposed_root_node cfg p n prop now proposer =
     (if \<not> (generation_pending p \<and> n_id n = p_root_id p) then Inr []
      else (case pp_root prop of
          None \<Rightarrow> Inl (refuse 422 ''invalid_proposal'')
        | Some r \<Rightarrow>
            bindR (check (root_problems r = []) (refuse 422 ''invalid_proposal'')) (\<lambda>_.
            bindR (with_sections cfg n (root_sections r) []) (\<lambda>m.
            Inr [m\<lparr>n_origin := Planner, n_state := Proposed, n_proposed_by := proposer, n_updated_at := now\<rparr>]))))"

definition proposal_decision :: "config \<Rightarrow> ident \<Rightarrow> ident \<Rightarrow> proposal \<Rightarrow> run_scope \<Rightarrow> timestamp \<Rightarrow> ident option \<Rightarrow> (nat \<Rightarrow> ident) \<Rightarrow>
    db \<Rightarrow> service_error + (plan \<times> nat) service_step" where
  "proposal_decision cfg i node_id prop rs now proposer ids d =
     bindR (breakdown_target d cfg i node_id None) (\<lambda>(p, n).
     bindR (check (\<not> replanned p n) (refuse_with 409 ''replan_required'' [(''node_id'', JStr (n_id n))])) (\<lambda>_.
     bindR (check (case pp_source prop of None \<Rightarrow> True | Some brief \<Rightarrow> brief = p_input p \<and> generation_pending p) (refuse 409 ''stale_input'')) (\<lambda>_.
     bindR (proposed_children cfg p n (pp_children prop) now proposer ids) (\<lambda>(ups, rem).
     bindR (proposed_root_node cfg p n prop now proposer) (\<lambda>root_part.
     Inr (Store (p_revision p) (no_change\<lparr>ch_upsert := ups @ root_part, ch_remove := rem,
       ch_events := [scoped_event rs ''plan.generation.proposed'' (node_data (p_id p) (n_id n) (rs_run rs)
         @ [(''kind'', JStr ''breakdown''), (''count'', JNum (of_nat (length (pp_children prop))))])],
       ch_actor := Some planner_actor\<rparr>) (\<lambda>q. (q, length (pp_children prop)))))))))"

definition deliver_proposal :: "'f surroundings \<Rightarrow> config \<Rightarrow> ident \<Rightarrow> ident \<Rightarrow> proposal \<Rightarrow> run_scope \<Rightarrow> timestamp \<Rightarrow> ident option \<Rightarrow>
    (nat \<Rightarrow> ident) \<Rightarrow> ('f site, raised, plan \<times> nat) action" where
  "deliver_proposal su cfg i node_id prop rs now proposer ids =
     service_retry su i now False (proposal_decision cfg i node_id prop rs now proposer ids)"

definition generation_event :: "db \<Rightarrow> string \<Rightarrow> ident \<Rightarrow> ident \<Rightarrow> run_scope \<Rightarrow> timestamp \<Rightarrow> (string \<times> json) list \<Rightarrow> db" where
  "generation_event d type i node_id rs now data =
     store_record d [scoped_event rs type (node_data i node_id (rs_run rs) @ data)] now (Some planner_actor)"

section \<open>A re-plan\<close>

text \<open>The ids a re-plan draws: for the children it adds, for its entries, and its own.\<close>

record minting =
  mt_node :: "nat \<Rightarrow> ident"
  mt_entry :: "nat \<Rightarrow> ident"
  mt_replan :: ident

text \<open>A section and its value as an entry holds it.\<close>

fun section_item :: "section_edit \<Rightarrow> string \<times> json" where
  "section_item (STitle v) = (''title'', jopt JStr v)"
| "section_item (SGoal v) = (''goal'', jopt JStr v)"
| "section_item (SContext v) = (''context'', jopt JStr v)"
| "section_item (SCriteria v) = (''acceptance_criteria'', jopt jstrs v)"
| "section_item (SKind v) = (''kind'', jopt (\<lambda>k. JStr (kind_name k)) v)"
| "section_item (SProfile v) = (''workload_profile'', jopt JStr v)"
| "section_item (SVerify v) = (''verify_commands'', jopt jstrs v)"
| "section_item (SDepends v) = (''depends_on'', jopt jstrs v)"
| "section_item (SNonGoals v) = (''non_goals'', jopt JStr v)"
| "section_item (SConstraints v) = (''constraints'', jopt JStr v)"
| "section_item (SUnknown k) = (k, JNull)"

text \<open>The additions kept: one whose title or id a child has is left out, and so is a repeated title.\<close>

fun kept_additions :: "string list \<Rightarrow> ident list \<Rightarrow> (nat \<times> replan_addition) list \<Rightarrow> (nat \<times> replan_addition) list" where
  "kept_additions titles known [] = []"
| "kept_additions titles known ((index, c) # cs) =
     (let t = title_key (px_title c) in
      if t \<in> set titles \<or> (truthy (px_id c) \<and> the (px_id c) \<in> set known) then kept_additions titles known cs
      else (index, c) # kept_additions (t # titles) known cs)"

definition addition_deps :: "(nat \<times> ident) list \<Rightarrow> dep_target list \<Rightarrow> ident list" where
  "addition_deps minted deps = concat (map (\<lambda>t. case t of
     ToChild i \<Rightarrow> [i]
   | ToAddition k \<Rightarrow> (case map_of minted k of None \<Rightarrow> [] | Some i \<Rightarrow> [i])) deps)"

definition check_sections :: "config \<Rightarrow> plan_node \<Rightarrow> level \<Rightarrow> section_edit list \<Rightarrow> service_error + unit" where
  "check_sections cfg parent l ss = bindR (with_sections cfg
       (planned_node ''node_probe'' (n_plan_id parent) (n_id parent) 0 l (n_repository parent) 0 None)
       (filter (\<lambda>s. \<not> names_depends s) ss) []) (\<lambda>_. Inr ())"

definition new_entry :: "ident \<Rightarrow> replan_action \<Rightarrow> ident \<Rightarrow> (string \<times> json) list \<Rightarrow> (string \<times> json) list \<Rightarrow> string \<Rightarrow> string option \<Rightarrow> replan_entry" where
  "new_entry i a node_id ss was why version = \<lparr>e_id = i, e_action = a, e_node_id = node_id, e_sections = ss, e_before = was,
     e_rationale = why, e_error = None, e_forge_version = version\<rparr>"

definition addition_entry :: "config \<Rightarrow> plan_node \<Rightarrow> level \<Rightarrow> minting \<Rightarrow> (nat \<times> ident) list \<Rightarrow> dep_target list list \<Rightarrow>
    replan_entry list \<Rightarrow> nat \<times> replan_addition \<Rightarrow> service_error + replan_entry list" where
  "addition_entry cfg n l mt minted order es = (\<lambda>(index, c).
     let ss = child_sections l c @ (if l = Task then [SDepends (Some (addition_deps minted (order ! index)))] else []) in
     bindR (check_sections cfg n l ss) (\<lambda>_.
     Inr (es @ [new_entry (mt_entry mt (length es)) RAdd (the (map_of minted index)) (map section_item ss) [] (px_rationale c) None])))"

text \<open>The sections a change sets, with what its kind drops, that differ from what the child has.\<close>

definition change_fields :: "plan_node \<Rightarrow> replan_change \<Rightarrow> section_edit list" where
  "change_fields target g = filter (\<lambda>s. map_of (content target) (fst (section_item s)) \<noteq> Some (snd (section_item s)))
     (change_sections g
      @ (if rg_kind g = Some WorkloadTask \<and> rg_commands g = None then [SVerify (Some [])] else [])
      @ (if rg_kind g = Some CodeTask \<and> rg_profile g = None then [SProfile None] else []))"

definition before_of :: "plan_node \<Rightarrow> section_edit list \<Rightarrow> (string \<times> json) list" where
  "before_of target ss = map (\<lambda>s. (fst (section_item s), the (map_of (content target) (fst (section_item s))))) ss"

text \<open>An entry that names no child to change is left out and counted.\<close>

definition change_entry :: "config \<Rightarrow> (json \<Rightarrow> string) \<Rightarrow> plan_node list \<Rightarrow> minting \<Rightarrow> replan_entry list \<times> nat \<Rightarrow> replan_change \<Rightarrow>
    service_error + replan_entry list \<times> nat" where
  "change_entry cfg digest cs mt = (\<lambda>(es, skipped) g. case find (\<lambda>c. n_id c = rg_target g) cs of
     None \<Rightarrow> Inr (es, Suc skipped)
   | Some target \<Rightarrow>
       let ss = change_fields target g in
       if \<not> changeable target \<or> n_origin target = FromForge \<or> ss = [] then Inr (es, Suc skipped)
       else bindR (with_sections cfg target ss (filter (\<lambda>c. n_id c \<noteq> n_id target) cs)) (\<lambda>_.
         Inr (es @ [new_entry (mt_entry mt (length es)) RModify (n_id target) (map section_item ss) (before_of target ss)
           (rg_rationale g) (Some (content_version digest target))], skipped)))"

definition close_entry :: "(json \<Rightarrow> string) \<Rightarrow> plan_node list \<Rightarrow> minting \<Rightarrow> replan_entry list \<times> nat \<Rightarrow> replan_close \<Rightarrow> replan_entry list \<times> nat" where
  "close_entry digest cs mt = (\<lambda>(es, skipped) l. case find (\<lambda>c. n_id c = rl_target l) cs of
     None \<Rightarrow> (es, Suc skipped)
   | Some target \<Rightarrow> if \<not> changeable target then (es, Suc skipped)
       else (es @ [new_entry (mt_entry mt (length es)) RSuggestClose (n_id target) [] [] (rl_rationale l)
         (Some (content_version digest target))], skipped))"

definition counts_of :: "replan_entry list \<Rightarrow> nat \<Rightarrow> (string \<times> json) list" where
  "counts_of es skipped = (let many = \<lambda>a. JNum (of_nat (length (filter (\<lambda>e. e_action e = a) es))) in
     [(''add'', many RAdd), (''modify'', many RModify), (''suggest_close'', many RSuggestClose), (''skipped'', JNum (of_nat skipped))])"

definition replan_entries :: "config \<Rightarrow> (json \<Rightarrow> string) \<Rightarrow> plan \<Rightarrow> plan_node \<Rightarrow> plan_replan \<Rightarrow> ident \<Rightarrow> timestamp \<Rightarrow> minting \<Rightarrow>
    service_error + replan option \<times> (string \<times> json) list" where
  "replan_entries cfg digest p n r run now mt =
     (let l = the (child_level (n_level n)); cs = children p (n_id n);
          added = kept_additions (map (\<lambda>c. title_key (n_title c)) cs) (map n_id cs) (enumerate 0 (rd_add r));
          minted = map (\<lambda>(k, (index, c)). (index, mt_node mt k)) (enumerate 0 added) in
      bindR (case add_dependencies (map n_id cs) (rd_add r) of Inl e \<Rightarrow> Inl invalid_argument | Inr order \<Rightarrow> Inr order) (\<lambda>order.
      bindR (check (\<not> int (length minted) > room cfg p n) (refuse_with 409 ''level_full'' [(''node_id'', JStr (n_id n))])) (\<lambda>_.
      bindR (foldR (addition_entry cfg n l mt minted order) [] added) (\<lambda>es.
      bindR (foldR (change_entry cfg digest cs mt) (es, length (rd_add r) - length added) (rd_modify r)) (\<lambda>acc.
      let (es', skipped) = foldl (close_entry digest cs mt) acc (rd_close r); counts = counts_of es' skipped in
      Inr (if es' = [] then (None, counts)
        else (Some \<lparr>r_id = mt_replan mt, r_run_id = Some (run_public_id run), r_proposed_at = now, r_entries = es', r_proposed_by = None\<rparr>, counts)))))))"

definition replan_decision :: "config \<Rightarrow> (json \<Rightarrow> string) \<Rightarrow> ident \<Rightarrow> ident \<Rightarrow> plan_replan \<Rightarrow> run_scope \<Rightarrow> timestamp \<Rightarrow> ident option \<Rightarrow> minting \<Rightarrow>
    db \<Rightarrow> service_error + (plan \<times> nat) service_step" where
  "replan_decision cfg digest i node_id r rs now proposer mt d =
     bindR (breakdown_target d cfg i node_id None) (\<lambda>(p, n).
     bindR (check (replanned p n) (refuse_with 409 ''replan_unavailable'' [(''node_id'', JStr (n_id n))])) (\<lambda>_.
     bindR (replan_entries cfg digest p n r (rs_run rs) now mt) (\<lambda>(pending, counts).
     let many = (case pending of None \<Rightarrow> 0 | Some x \<Rightarrow> length (r_entries x)) in
     Inr (Store (p_revision p) (no_change\<lparr>
       ch_upsert := [n\<lparr>n_replan := map_option (\<lambda>x. x\<lparr>r_proposed_by := proposer\<rparr>) pending, n_updated_at := now\<rparr>],
       ch_events := [scoped_event rs ''plan.generation.proposed'' (node_data (p_id p) (n_id n) (rs_run rs)
         @ [(''kind'', JStr ''replan''), (''replan_id'', jopt (\<lambda>x. JStr (r_id x)) pending), (''count'', JNum (of_nat many))] @ counts)],
       ch_actor := Some planner_actor\<rparr>) (\<lambda>q. (q, many))))))"

definition deliver_replan :: "'f surroundings \<Rightarrow> config \<Rightarrow> (json \<Rightarrow> string) \<Rightarrow> ident \<Rightarrow> ident \<Rightarrow> plan_replan \<Rightarrow> run_scope \<Rightarrow> timestamp \<Rightarrow>
    ident option \<Rightarrow> minting \<Rightarrow> ('f site, raised, plan \<times> nat) action" where
  "deliver_replan su cfg digest i node_id r rs now proposer mt =
     service_retry su i now False (replan_decision cfg digest i node_id r rs now proposer mt)"

section \<open>Choosing entries\<close>

definition replan_chosen :: "plan_node \<Rightarrow> ident list option \<Rightarrow> service_error + replan_entry list" where
  "replan_chosen n entry_ids = (case n_replan n of
     None \<Rightarrow> Inl (refuse_with 409 ''no_replan'' [(''node_id'', JStr (n_id n))])
   | Some r \<Rightarrow>
       if r_entries r = [] then Inl (refuse_with 409 ''no_replan'' [(''node_id'', JStr (n_id n))])
       else (case entry_ids of
           None \<Rightarrow> Inr (r_entries r)
         | Some xs \<Rightarrow> let unknown = sort (remdups (filter (\<lambda>x. x \<notin> e_id ` set (r_entries r)) xs)) in
             bindR (check (unknown = []) (refuse_with 422 ''invalid_argument'' [(''entry_ids'', jstrs unknown)])) (\<lambda>_.
             Inr (filter (\<lambda>e. e_id e \<in> set xs) (r_entries r)))))"

definition discard_change :: "ident \<Rightarrow> ident list option \<Rightarrow> timestamp \<Rightarrow> (string \<times> json) list \<Rightarrow> plan \<Rightarrow> service_error + change" where
  "discard_change node_id entry_ids now actor p =
     bindR (not_archived p) (\<lambda>_.
     bindR (node_in p node_id) (\<lambda>n.
     bindR (replan_chosen n entry_ids) (\<lambda>chosen.
     let dropped = map e_id chosen;
         left = (\<lambda>r. let es = filter (\<lambda>e. e_id e \<notin> set dropped) (r_entries r) in if es = [] then None else Some (r\<lparr>r_entries := es\<rparr>)) in
     Inr (no_change\<lparr>ch_upsert := [n\<lparr>n_replan := (case n_replan n of None \<Rightarrow> None | Some r \<Rightarrow> left r), n_updated_at := now\<rparr>],
       ch_events := [event_of ''plan.node.changed'' [(''plan_id'', JStr (p_id p)), (''node_id'', JStr (n_id n)),
         (''change'', JStr ''replan_discarded''), (''entry_ids'', jstrs (sort (remdups dropped)))]], ch_actor := Some actor\<rparr>))))"

definition discard_replan :: "db \<Rightarrow> ident \<Rightarrow> ident \<Rightarrow> int \<Rightarrow> ident list option \<Rightarrow> timestamp \<Rightarrow> (string \<times> json) list \<Rightarrow> service_error + db \<times> plan" where
  "discard_replan d i node_id expected entry_ids now actor = guarded_write d i expected now (discard_change node_id entry_ids now actor)"

end
