(* ===== verification/PlannerFacts.thy ===== *)
theory PlannerFacts
  imports Planner
begin

text \<open>
  Facts on the planner's side: the peeling of a graph finds exactly its cycles, the dependencies of a
  proposal are positions that make no cycle, and a proposal's change keeps the plan well formed.
\<close>

section \<open>Cycles\<close>

definition entry_edges :: "('k \<times> 'k list) list \<Rightarrow> ('k \<times> 'k) set" where
  "entry_edges g = {(k, d). \<exists>ds. (k, ds) \<in> set g \<and> d \<in> set ds}"

lemma set_peel: "set (peel g) \<subseteq> set g"
  by (auto simp: peel_def)

lemma set_peels: "set ((peel ^^ n) g) \<subseteq> set g"
  by (induction n) (use set_peel in \<open>fastforce+\<close>)

lemma peel_shorter: "peel g \<noteq> g \<Longrightarrow> length (peel g) < length g"
  unfolding peel_def by (metis filter_id_conv length_filter_less)

lemma peel_settles: "length g \<le> n \<Longrightarrow> peel ((peel ^^ n) g) = (peel ^^ n) g"
proof (induction n arbitrary: g)
  case (Suc n)
  show ?case
  proof (cases "peel g = g")
    case True
    then have "(peel ^^ m) g = g" for m by (induction m) simp_all
    with True show ?thesis by simp
  next
    case False
    then have "length (peel g) \<le> n" using peel_shorter[OF False] Suc.prems by simp
    from Suc.IH[OF this] show ?thesis by (simp add: funpow_swap1)
  qed
qed (simp add: peel_def)

lemma finite_entry_edges: "finite (entry_edges g)"
proof -
  have "entry_edges g \<subseteq> (\<Union>(k, ds)\<in>set g. {k} \<times> set ds)" by (auto simp: entry_edges_def)
  then show ?thesis by (rule finite_subset) auto
qed

lemma settled_has_cycle:
  assumes "peel h = h" and "h \<noteq> []"
  shows "\<not> acyclic (entry_edges h)"
proof
  assume "acyclic (entry_edges h)"
  then have wf: "wf ((entry_edges h)\<inverse>)" using finite_entry_edges by (rule finite_acyclic_wf_converse[rotated])
  obtain k0 where "k0 \<in> fst ` set h" using assms(2) by (cases h) auto
  with wf obtain z where z: "z \<in> fst ` set h" "\<And>y. (y, z) \<in> (entry_edges h)\<inverse> \<Longrightarrow> y \<notin> fst ` set h"
    by (rule wfE_min) blast
  then obtain ds where "(z, ds) \<in> set h" by auto
  then have "(z, ds) \<in> set (peel h)" using assms(1) by simp
  then obtain d where "d \<in> set ds" "d \<in> fst ` set h" by (auto simp: peel_def list_ex_iff)
  with \<open>(z, ds) \<in> set h\<close> z(2)[of d] show False by (auto simp: entry_edges_def)
qed

text \<open>Entries on a cycle are never taken away.\<close>

lemma cyclic_entries_stay:
  assumes "S = {(k, ds) \<in> set g. \<exists>d\<in>set ds. (d, k) \<in> (entry_edges g)\<^sup>*}" and "S \<subseteq> set h"
  shows "S \<subseteq> set (peel h)"
proof
  fix e assume e: "e \<in> S"
  obtain k ds where kd: "e = (k, ds)" by (cases e)
  with e assms(1) obtain d where d: "(k, ds) \<in> set g" "d \<in> set ds" "(d, k) \<in> (entry_edges g)\<^sup>*" by auto
  have kd_edge: "(k, d) \<in> entry_edges g" using d by (auto simp: entry_edges_def)
  have "\<exists>ds'. (d, ds') \<in> S"
  proof (cases "d = k")
    case True with e kd show ?thesis by blast
  next
    case False
    with d(3) obtain m where m: "(d, m) \<in> entry_edges g" "(m, k) \<in> (entry_edges g)\<^sup>*" by (meson converse_rtranclE)
    have "(m, d) \<in> (entry_edges g)\<^sup>*" using m(2) kd_edge by (rule rtrancl_into_rtrancl)
    with m(1) show ?thesis unfolding assms(1) by (auto simp: entry_edges_def)
  qed
  then have "d \<in> fst ` set h" using assms(2) by force
  with e kd d(2) assms(2) show "e \<in> set (peel h)" by (auto simp: peel_def list_ex_iff)
qed

lemma has_cycle_iff: "has_cycle g \<longleftrightarrow> \<not> acyclic (entry_edges g)"
proof
  assume "has_cycle g"
  then have "\<not> acyclic (entry_edges ((peel ^^ length g) g))"
    using settled_has_cycle[OF peel_settles[OF order_refl]] by (simp add: has_cycle_def)
  moreover have "entry_edges ((peel ^^ length g) g) \<subseteq> entry_edges g" using set_peels[of "length g" g] by (auto simp: entry_edges_def)
  ultimately show "\<not> acyclic (entry_edges g)" by (metis acyclic_subset)
next
  assume "\<not> acyclic (entry_edges g)"
  then obtain x where "(x, x) \<in> (entry_edges g)\<^sup>+" by (auto simp: acyclic_def)
  then obtain d where d: "(x, d) \<in> entry_edges g" "(d, x) \<in> (entry_edges g)\<^sup>*" by (meson tranclD)
  define S where "S = {(k, ds) \<in> set g. \<exists>d\<in>set ds. (d, k) \<in> (entry_edges g)\<^sup>*}"
  have stays: "S \<subseteq> set ((peel ^^ n) g)" for n
    by (induction n) (use cyclic_entries_stay[OF S_def] in \<open>auto simp: S_def\<close>)
  have "S \<noteq> {}" using d by (auto simp: S_def entry_edges_def)
  with stays[of "length g"] have "set ((peel ^^ length g) g) \<noteq> {}" by (metis subset_empty)
  then show "has_cycle g" by (simp add: has_cycle_def)
qed

section \<open>The dependencies of additions\<close>

definition target_ok :: "nat \<Rightarrow> nat \<Rightarrow> ident list \<Rightarrow> dep_target \<Rightarrow> bool" where
  "target_ok many index known t = (case t of ToAddition k \<Rightarrow> k < many \<and> k \<noteq> index | ToChild i \<Rightarrow> i \<in> set known)"

lemma positions_below: "map_of (positions_of cs) i = Some k \<Longrightarrow> k < length cs"
  by (auto simp: positions_of_def in_set_enumerate_eq dest!: map_of_SomeD split: option.splits if_splits)

lemma in_range_below: "in_range many k = Some j \<Longrightarrow> j < many"
  by (auto simp: in_range_def split: if_splits)

lemma resolve_dep_below:
  "resolve_dep ref (positions_of cs) (length cs) = Inr (Some k) \<Longrightarrow> k < length cs"
  by (auto simp: resolve_dep_def Let_def dest: positions_below in_range_below
      split: dep_ref.splits option.splits if_splits sum.splits value_error.splits)

lemma resolve_target_ok:
  assumes "resolve_target known ref (positions_of cs) (length cs) = Inr (Some t)"
  shows "(case t of ToAddition k \<Rightarrow> k < length cs | ToChild i \<Rightarrow> i \<in> set known)"
  using assms resolve_dep_below unfolding resolve_target_def
  by (auto split: dep_ref.splits if_splits dest!: bindR_Inr_iff[THEN iffD1] simp: resolve_dep_below)

lemma add_dep_ok:
  assumes "add_dep known (positions_of cs) (length cs) index (deps, ps) ref = Inr (deps', ps')"
    and "\<forall>t\<in>set deps. target_ok (length cs) index known t"
  shows "\<forall>t\<in>set deps'. target_ok (length cs) index known t"
proof -
  from assms(1) obtain r where r: "resolve_target known ref (positions_of cs) (length cs) = Inr r"
    and a: "(case r of None \<Rightarrow> Inr (deps, ps @ [NotSibling index ref])
      | Some t \<Rightarrow> if t = ToAddition index then Inr (deps, ps @ [OnItself index])
          else if t \<in> set deps then Inr (deps, ps) else Inr (deps @ [t], ps)) = (Inr (deps', ps') :: dep_error + _)"
    by (auto simp: add_dep_def)
  show ?thesis
  proof (cases r)
    case None
    with a assms(2) show ?thesis by simp
  next
    case (Some t)
    have "target_ok (length cs) index known t" if "t \<noteq> ToAddition index"
      using resolve_target_ok[OF r[unfolded Some]] that by (cases t) (auto simp: target_ok_def)
    with a Some assms(2) show ?thesis by (cases "t = ToAddition index"; cases "t \<in> set deps") auto
  qed
qed

lemma add_deps_ok:
  assumes "foldR (add_dep known (positions_of cs) (length cs) index) ([], []) ds = Inr (deps, ps)"
  shows "\<forall>t\<in>set deps. target_ok (length cs) index known t"
proof -
  have "\<forall>t\<in>set (fst (deps, ps)). target_ok (length cs) index known t"
  proof (rule foldR_invariant[OF assms])
    fix acc ref acc'
    assume "\<forall>t\<in>set (fst acc). target_ok (length cs) index known t" and "add_dep known (positions_of cs) (length cs) index acc ref = Inr acc'"
    then show "\<forall>t\<in>set (fst acc'). target_ok (length cs) index known t"
      using add_dep_ok[of known cs index "fst acc" "snd acc" ref "fst acc'" "snd acc'"] by simp
  qed simp
  then show ?thesis by simp
qed

lemma deps_of_all_ok:
  assumes "deps_of_all known (positions_of cs) (length cs) rows = Inr (resolved, ps)"
  shows "length resolved = length rows \<and> (\<forall>k<length rows. \<forall>t\<in>set (resolved ! k). target_ok (length cs) (fst (rows ! k)) known t)"
  using assms
proof (induction rows arbitrary: resolved ps)
  case (Cons row rows)
  obtain index ds where row: "row = (index, ds)" by (cases row)
  from Cons.prems row obtain deps ps1 rest qs where a: "foldR (add_dep known (positions_of cs) (length cs) index) ([], []) ds = Inr (deps, ps1)"
    and b: "deps_of_all known (positions_of cs) (length cs) rows = Inr (rest, qs)" and r: "resolved = deps # rest" by auto
  from Cons.IH[OF b] add_deps_ok[OF a] r row show ?case by (auto simp: nth_Cons split: nat.splits)
qed simp

lemma no_deps_of_all:
  assumes "deps_of_all known by_id many rows = Inr (resolved, ps)" and "k < length rows" and "snd (rows ! k) = []"
  shows "resolved ! k = []"
  using assms by (induction rows arbitrary: resolved ps k) (auto simp: nth_Cons split: nat.splits)

lemma edges_enumerate: "entry_edges (enumerate 0 xs) = {(a, b). a < length xs \<and> b \<in> set (xs ! a)}"
  by (auto simp: entry_edges_def in_set_enumerate_eq)

lemma add_dependencies_ok:
  assumes "add_dependencies known cs = Inr resolved"
  shows "length resolved = length cs" and "\<And>k t. k < length cs \<Longrightarrow> t \<in> set (resolved ! k) \<Longrightarrow> target_ok (length cs) k known t"
    and "acyclic (entry_edges (addition_graph resolved))"
proof -
  from assms have d: "deps_of_all known (positions_of cs) (length cs) (enumerate 0 (map px_depends_on cs)) = Inr (resolved, [])"
    and c: "\<not> has_cycle (addition_graph resolved)"
    by (auto simp: add_dependencies_def split: if_splits)
  from deps_of_all_ok[OF d] show "length resolved = length cs" "\<And>k t. k < length cs \<Longrightarrow> t \<in> set (resolved ! k) \<Longrightarrow> target_ok (length cs) k known t"
    by (auto simp: nth_enumerate_eq)
  from c show "acyclic (entry_edges (addition_graph resolved))" by (simp add: has_cycle_iff)
qed

lemma proposal_dependencies_ok:
  assumes "proposal_dependencies cs = Inr order"
  shows "length order = length cs" and "\<And>k j. k < length cs \<Longrightarrow> j \<in> set (order ! k) \<Longrightarrow> j < length cs \<and> j \<noteq> k"
    and "acyclic {(a, b). a < length cs \<and> b \<in> set (order ! a)}"
    and "\<And>k. k < length cs \<Longrightarrow> px_depends_on (cs ! k) = [] \<Longrightarrow> order ! k = []"
proof -
  from assms obtain resolved where r: "add_dependencies [] cs = Inr resolved" and o: "order = map snd (addition_graph resolved)"
    by (auto simp: proposal_dependencies_def)
  note a = add_dependencies_ok[OF r]
  have g: "addition_graph resolved = enumerate 0 order"
    unfolding o by (simp add: addition_graph_def)
  show l: "length order = length cs" using a(1) o by (simp add: addition_graph_def)
  show "j < length cs \<and> j \<noteq> k" if "k < length cs" "j \<in> set (order ! k)" for k j
    using that a(1) a(2)[OF that(1), of "ToAddition j"] unfolding o addition_graph_def
    by (auto simp: target_ok_def split: dep_target.splits)
  show "acyclic {(a, b). a < length cs \<and> b \<in> set (order ! a)}"
    using a(3) unfolding g edges_enumerate l .
  from r obtain ps where d: "deps_of_all [] (positions_of cs) (length cs) (enumerate 0 (map px_depends_on cs)) = Inr (resolved, ps)"
    by (auto simp: add_dependencies_def split: if_splits)
  show "order ! k = []" if "k < length cs" "px_depends_on (cs ! k) = []" for k
    using that a(1) no_deps_of_all[OF d, of k] by (simp add: o addition_graph_def nth_enumerate_eq)
qed

section \<open>A level replaced\<close>

lemma trancl_Un_apart:
  assumes "A \<subseteq> I \<times> I" and "B \<subseteq> J \<times> J" and "I \<inter> J = {}" and "(x, y) \<in> (A \<union> B)\<^sup>+"
  shows "(x, y) \<in> A\<^sup>+ \<and> y \<in> I \<or> (x, y) \<in> B\<^sup>+ \<and> y \<in> J"
  using assms(4)
proof (induction rule: trancl_induct)
  case (base y)
  with assms(1,2) show ?case by auto
next
  case (step y z)
  with assms(1-3) show ?case by (auto intro: trancl_into_trancl)
qed

lemma acyclic_Un_apart:
  assumes "A \<subseteq> I \<times> I" and "B \<subseteq> J \<times> J" and "I \<inter> J = {}" and "acyclic A" and "acyclic B"
  shows "acyclic (A \<union> B)"
  using trancl_Un_apart[OF assms(1-3)] assms(4,5) unfolding acyclic_def by blast

text \<open>Nodes added under one parent, which depend only on each other.\<close>

lemma wf_add_many:
  assumes wf: "wf_nodes i r ns" and s: "set ms = set ns \<union> set fs" and d: "distinct (map n_id ms)"
    and new: "n_id ` set fs \<inter> n_id ` set ns = {}"
    and f: "\<And>f. f \<in> set fs \<Longrightarrow> node_ok f \<and> n_plan_id f = i \<and> set (n_depends_on f) \<subseteq> n_id ` set fs - {n_id f}
      \<and> n_parent_id f = Some (n_id q) \<and> child_level (n_level q) = Some (n_level f)"
    and q: "q \<in> set ns" and ac: "acyclic (dep_edges fs)"
  shows "wf_nodes i r ms"
proof -
  note t = wf_nodesD(1)[OF wf]
  have r: "r \<in> n_id ` set ns" using t by (simp add: tree_ok_def)
  have old: "parent_ok r ms n" if "n \<in> set ns" for n
  proof -
    have "parent_ok r ns n" using t that by (simp add: tree_ok_def)
    with s show ?thesis by (auto simp: parent_ok_def split: option.splits)
  qed
  have fresh: "parent_ok r ms n" if "n \<in> set fs" for n
  proof -
    have "n_id n \<noteq> r" using new r that by auto
    with f[OF that] q s show ?thesis by (auto simp: parent_ok_def)
  qed
  have tree: "tree_ok r ms" using old fresh s d r by (auto simp: tree_ok_def)
  have sib_old: "set (n_depends_on n) \<subseteq> sibling_ids ms n" if "n \<in> set ns" for n
    using wf_nodesD(3)[OF wf] that s by (fastforce simp: deps_ok_def sibling_ids_def)
  have sib_new: "set (n_depends_on n) \<subseteq> sibling_ids ms n" if n: "n \<in> set fs" for n
  proof
    fix x assume "x \<in> set (n_depends_on n)"
    then obtain m where m: "m \<in> set fs" "n_id m = x" "x \<noteq> n_id n" using f[OF n] by auto
    with f[OF n] f[OF m(1)] s show "x \<in> sibling_ids ms n" by (auto simp: sibling_ids_def)
  qed
  have edges: "dep_edges ms = dep_edges ns \<union> dep_edges fs" using s by (auto simp: dep_edges_def)
  have "acyclic (dep_edges ns \<union> dep_edges fs)"
  proof (rule acyclic_Un_apart[of _ "n_id ` set ns" _ "n_id ` set fs"])
    show "dep_edges ns \<subseteq> n_id ` set ns \<times> n_id ` set ns"
      using wf_nodesD(3)[OF wf] by (fastforce simp: deps_ok_def dep_edges_def sibling_ids_def)
    show "dep_edges fs \<subseteq> n_id ` set fs \<times> n_id ` set fs" using f by (fastforce simp: dep_edges_def)
    show "acyclic (dep_edges ns)" using wf_nodesD(3)[OF wf] by (simp add: deps_ok_def)
  qed (use new ac in auto)
  with edges sib_old sib_new s have "deps_ok ms" by (auto simp: deps_ok_def)
  with tree s f wf_nodesD(4,5)[OF wf] show ?thesis by (auto simp: wf_nodes_def)
qed

text \<open>Nodes patched in place and a part of the tree taken away.\<close>

lemma wf_prune:
  assumes wf: "wf_nodes i r ns" and us: "distinct (map n_id us)" "n_id ` set us \<subseteq> n_id ` set ns"
    and shape: "\<And>u n. u \<in> set us \<Longrightarrow> n \<in> set ns \<Longrightarrow> n_id n = n_id u \<Longrightarrow>
      same_shape u n \<and> set (n_depends_on u) \<subseteq> set (n_depends_on n)"
    and ok: "\<And>u. u \<in> set us \<Longrightarrow> node_ok u"
    and c: "ch_upsert c = us" "set (ch_remove c) = R" and apart: "R \<inter> n_id ` set us = {}"
    and closed_down: "\<And>n m. n \<in> set ns \<Longrightarrow> m \<in> set ns \<Longrightarrow> n_parent_id n = Some (n_id m) \<Longrightarrow> n_id m \<in> R \<Longrightarrow> n_id n \<in> R"
    and r: "r \<notin> R"
    and deps: "\<And>n x. n \<in> set ns \<Longrightarrow> n_id n \<notin> R \<Longrightarrow> x \<in> set (n_depends_on (patched us n)) \<Longrightarrow> x \<notin> R"
  shows "wf_nodes i r (merge_nodes ns c)"
proof -
  note d = wf_nodesD(2)[OF wf]
  have s: "set (merge_nodes ns c) = patched us ` {n \<in> set ns. n_id n \<notin> R}"
    using set_merge_nodes[of c ns] us c apart by simp
  have dm: "distinct (map n_id (merge_nodes ns c))" using d us(1) c(1) by (simp add: distinct_merge_nodes)
  have g: "same_shape (patched us n) n \<and> set (n_depends_on (patched us n)) \<subseteq> set (n_depends_on n) \<and> node_ok (patched us n)" if "n \<in> set ns" for n
    using patched_cases[of us n] shape[OF _ that, of "patched us n"] ok wf_nodesD(4)[OF wf that] by (auto simp: same_shape_def)
  have "tree_ok r (merge_nodes ns c)"
  proof (rule tree_ok_map[OF wf_nodesD(1)[OF wf] s dm])
    show "same_shape (patched us n) n" if "n \<in> set ns" for n using g[OF that] by simp
    show "n_id m \<notin> R" if "n \<in> set ns" "n_id n \<notin> R" "m \<in> set ns" "n_parent_id n = Some (n_id m)" for n m
      using closed_down[OF that(1,3,4)] that(2) by blast
  qed (use r in simp)
  moreover have "deps_ok (merge_nodes ns c)"
  proof (rule deps_ok_map[OF wf_nodesD(3)[OF wf] s])
    show "n_id (patched us n) = n_id n \<and> n_parent_id (patched us n) = n_parent_id n \<and> set (n_depends_on (patched us n)) \<subseteq> set (n_depends_on n)"
      if "n \<in> set ns" for n using g[OF that] by (simp add: same_shape_def)
  qed (use deps in blast)
  ultimately show ?thesis using g wf_nodesD(5)[OF wf] s by (auto simp: wf_nodes_def same_shape_def)
qed

lemma mapR_Inr: "mapR f xs = Inr ys \<longleftrightarrow> length ys = length xs \<and> (\<forall>k<length xs. f (xs ! k) = Inr (ys ! k))"
proof (induction xs arbitrary: ys)
  case (Cons x xs)
  show ?case
  proof (cases ys)
    case (Cons y zs)
    then show ?thesis using Cons.IH[of zs] by (auto simp: nth_Cons split: nat.splits) 
  qed auto
qed auto

section \<open>What a proposal replaces\<close>

lemma replaced_nodes_iff:
  assumes t: "tree_ok (p_root_id p) (p_nodes p)"
  shows "m \<in> set (replaced_nodes p n) \<longleftrightarrow> (\<exists>c\<in>set (p_nodes p). n_parent_id c = Some (n_id n) \<and> \<not> stays p c \<and> (m = c \<or> below (p_nodes p) (n_id c) m))"
proof -
  have d: "distinct (map n_id (p_nodes p))" using t by (simp add: tree_ok_def)
  have staying: "n_id c \<notin> set (map n_id (kept p n)) \<longleftrightarrow> \<not> stays p c" if c: "c \<in> set (children p (n_id n))" for c
  proof -
    have "stays p c" if "x \<in> set (kept p n)" "n_id x = n_id c" for x
      using that c same_id_same_node[OF d, of x c] by (auto simp: kept_def children_def children_in_def)
    then show ?thesis using c by (auto simp: kept_def)
  qed
  have "set (replaced_nodes p n) = (\<Union>c\<in>{c \<in> set (children p (n_id n)). \<not> stays p c}. insert c (set (descendants p (n_id c))))"
    unfolding replaced_nodes_def Let_def using staying by auto
  then show ?thesis by (auto simp: children_def children_in_def set_descendants[OF t])
qed

lemma in_kept: "c \<in> set (kept p n) \<longleftrightarrow> c \<in> set (p_nodes p) \<and> n_parent_id c = Some (n_id n) \<and> stays p c"
  by (auto simp: kept_def children_def children_in_def)

lemma staying_ids: "map n_id (staying_nodes p n rem) = map n_id (kept p n)"
  by (simp add: staying_nodes_def comp_def)

lemma in_staying:
  assumes "u \<in> set (staying_nodes p n rem)"
  obtains c k where "c \<in> set (kept p n)" "u = c\<lparr>n_position := k, n_depends_on := filter (\<lambda>d. d \<notin> set rem) (n_depends_on c)\<rparr>"
proof -
  from assms obtain m where m: "m \<in> set (renumber (kept p n))" "u = m\<lparr>n_depends_on := filter (\<lambda>d. d \<notin> set rem) (n_depends_on m)\<rparr>"
    by (auto simp: staying_nodes_def)
  from m(1) obtain c k where "c \<in> set (kept p n)" "m = c\<lparr>n_position := k\<rparr>" by (rule renumberE)
  with m(2) show thesis by (intro that[of c k]) simp_all
qed

text \<open>One proposed child, as it is stored before its dependencies.\<close>

definition planned_from :: "plan \<Rightarrow> plan_node \<Rightarrow> level \<Rightarrow> ident option \<Rightarrow> ident \<Rightarrow> plan_node \<Rightarrow> bool" where
  "planned_from p n l proposer i m = (n_id m = i \<and> n_plan_id m = p_id p \<and> n_parent_id m = Some (n_id n) \<and> n_level m = l
     \<and> n_state m = Proposed \<and> n_origin m = Planner \<and> n_forge m = None \<and> n_approved_by m = None \<and> storable m)"

lemma planned_node_from: "planned_from p n l proposer i (planned_node i (p_id p) (n_id n) position l repo now proposer)"
  by (simp add: planned_from_def planned_node_def new_node_def storable_def)

lemma fresh_child_ok:
  assumes "fresh_child cfg p n l repo now proposer ids start (offset, c) = Inr m"
  shows "planned_from p n l proposer (ids offset) m \<and> node_ok m \<and> n_depends_on m = [] \<and> n_title m = px_title c"
proof -
  let ?b = "planned_node (ids offset) (p_id p) (n_id n) (int (start + offset)) l repo now proposer"
  from assms have w: "with_sections cfg ?b (child_sections l c) [] = Inr m" by (simp add: fresh_child_def)
  note m = with_sections_Inr(1)[OF w]
  have "\<not> list_ex names_depends (child_sections l c)" by (simp add: child_sections_def)
  then have "n_depends_on m = []" using apply_sections_depends[of _ ?b] m by (simp add: planned_node_def new_node_def)
  moreover have "node_ok m"
    by (rule with_sections_node_ok[OF w]) (simp_all add: planned_node_def new_node_def task_fields_clear_def)
  moreover have "planned_from p n l proposer (ids offset) m"
    using planned_node_from[of p n l proposer "ids offset"] storable_cong[of m ?b] unfolding m planned_from_def
    by (simp add: frame)
  moreover have "n_title m = px_title c" unfolding m by (simp add: child_sections_def apply_sections_def or_empty_def)
  ultimately show ?thesis by blast
qed

text \<open>What the children of a proposal are.\<close>

lemma proposed_children_Inr:
  assumes "proposed_children cfg p n cs now proposer ids = Inr (ups, rem)" and "l = the (child_level (n_level n))"
    and "l = Epic \<Longrightarrow> \<forall>c\<in>set cs. px_depends_on c = []" and level: "child_level (n_level n) \<noteq> None"
  obtains stay linked order where "ups = stay @ linked" "stay = staying_nodes p n rem" "set rem = n_id ` set (replaced_nodes p n)"
    "\<forall>m\<in>set (replaced_nodes p n). n_state m \<noteq> Published" "length linked = length cs" "int (length cs) \<le> room cfg p n"
    "\<forall>k<length cs. planned_from p n l proposer (ids k) (linked ! k) \<and> n_title (linked ! k) = px_title (cs ! k)
        \<and> n_depends_on (linked ! k) = map ids (order ! k) \<and> set (order ! k) \<subseteq> {..<length cs} - {k}"
    "acyclic {(a, b). a < length cs \<and> b \<in> set (order ! a)}"
    "\<forall>m\<in>set linked. node_ok m"
proof -
  let ?rem = "map n_id (replaced_nodes p n)"
  let ?stay = "staying_nodes p n ?rem"
  from assms(1)[unfolded proposed_children_def Let_def, folded assms(2)] obtain order repo fresh where
    room: "\<not> int (length cs) > room cfg p n" and unpublished: "\<not> list_ex (\<lambda>m. n_state m = Published) (replaced_nodes p n)"
    and o: "proposal_dependencies cs = Inr order"
    and f: "mapR (fresh_child cfg p n l repo now proposer ids (length ?stay)) (enumerate 0 cs) = Inr fresh"
    and ups: "ups = ?stay @ link_fresh fresh order" and rem: "rem = sort (remdups ?rem)"
    by (auto split: sum.splits)
  note od = proposal_dependencies_ok[OF o]
  from f have lf: "length fresh = length cs" and fk: "\<And>k. k < length cs \<Longrightarrow> fresh_child cfg p n l repo now proposer ids (length ?stay) (k, cs ! k) = Inr (fresh ! k)"
    by (auto simp: mapR_Inr nth_enumerate_eq)
  have ids: "n_id (fresh ! k) = ids k" if "k < length cs" for k
    using fresh_child_ok[OF fk[OF that]] by (simp add: planned_from_def)
  have ll: "length (link_fresh fresh order) = length cs" using lf od(1) by (simp add: link_fresh_def)
  have lk: "link_fresh fresh order ! k = (fresh ! k)\<lparr>n_depends_on := map ids (order ! k)\<rparr>" if k: "k < length cs" for k
    using k lf od(1) od(2)[OF k] ids by (simp add: link_fresh_def)
  have same: "staying_nodes p n rem = ?stay" by (simp add: staying_nodes_def rem)
  show thesis
  proof (rule that[of "staying_nodes p n rem" "link_fresh fresh order" order])
    show "ups = staying_nodes p n rem @ link_fresh fresh order" using ups same by simp
    show "set rem = n_id ` set (replaced_nodes p n)" by (simp add: rem)
    show "\<forall>m\<in>set (replaced_nodes p n). n_state m \<noteq> Published" using unpublished by (auto simp: list_ex_iff)
    show "length (link_fresh fresh order) = length cs" by (rule ll)
    show "int (length cs) \<le> room cfg p n" using room by simp
    show "acyclic {(a, b). a < length cs \<and> b \<in> set (order ! a)}" by (rule od(3))
    show "\<forall>k<length cs. planned_from p n l proposer (ids k) (link_fresh fresh order ! k) \<and> n_title (link_fresh fresh order ! k) = px_title (cs ! k)
        \<and> n_depends_on (link_fresh fresh order ! k) = map ids (order ! k) \<and> set (order ! k) \<subseteq> {..<length cs} - {k}"
    proof (intro allI impI)
      fix k assume k: "k < length cs"
      show "planned_from p n l proposer (ids k) (link_fresh fresh order ! k) \<and> n_title (link_fresh fresh order ! k) = px_title (cs ! k)
        \<and> n_depends_on (link_fresh fresh order ! k) = map ids (order ! k) \<and> set (order ! k) \<subseteq> {..<length cs} - {k}"
        using fresh_child_ok[OF fk[OF k]] od(2)[OF k] unfolding lk[OF k] by (auto simp: planned_from_def storable_def)
    qed
    show "\<forall>m\<in>set (link_fresh fresh order). node_ok m"
    proof
      fix m assume "m \<in> set (link_fresh fresh order)"
      with ll obtain k where k: "k < length cs" "m = link_fresh fresh order ! k" by (metis in_set_conv_nth)
      have f: "node_ok (fresh ! k)" "n_level (fresh ! k) = l" using fresh_child_ok[OF fk[OF k(1)]] by (auto simp: planned_from_def)
      have "order ! k = []" if "l \<noteq> Task"
        using assms(3) that assms(2) level k(1) od(4)[OF k(1)] by (cases "n_level n") auto
      with f k show "node_ok m" by (auto simp: lk node_ok_def)
    qed
  qed (rule refl)
qed

text \<open>What a proposal relies on besides: the ids it draws are new and differ, only tasks depend on each
  other, and a root that waits for its content was never approved.\<close>

definition new_ids_in :: "(nat \<Rightarrow> ident) \<Rightarrow> db \<Rightarrow> bool" where
  "new_ids_in ids d = (inj ids \<and> (\<forall>k. ids k \<notin> x_node_id ` set (db_nodes d)))"

definition proposable :: "proposed_child list \<Rightarrow> ident \<Rightarrow> ident \<Rightarrow> db \<Rightarrow> bool" where
  "proposable cs i node_id d = (\<forall>p n. store_get d i = Some p \<longrightarrow> plan_node_of p node_id = Some n \<longrightarrow>
     (n_level n = Epic \<or> (\<forall>c\<in>set cs. px_depends_on c = [])) \<and> (generation_pending p \<longrightarrow> n_approved_by n = None))"

lemma proposed_root_Inr:
  assumes "proposed_root_node cfg p n prop now proposer = Inr root_part" and "node_ok n" and "storable n"
    and "generation_pending p \<Longrightarrow> n_approved_by n = None" and "n \<in> set (p_nodes p)" and "distinct (map n_id (p_nodes p))"
    and "child_level (n_level n) \<noteq> None"
  shows "root_part = [] \<or> (\<exists>u. root_part = [u] \<and> same_shape u n \<and> n_depends_on u = n_depends_on n \<and> node_ok u \<and> storable u)"
proof (cases "generation_pending p \<and> n_id n = p_root_id p")
  case True
  with assms(1) obtain r m where w: "with_sections cfg n (root_sections r) [] = Inr m"
    and u: "root_part = [m\<lparr>n_origin := Planner, n_state := Proposed, n_proposed_by := proposer, n_updated_at := now\<rparr>]"
    by (auto simp: proposed_root_node_def split: option.splits)
  have m: "m = apply_sections n (root_sections r)" by (rule with_sections_Inr(1)[OF w])
  have "\<not> list_ex names_depends (root_sections r)" by (simp add: root_sections_def)
  then have dep: "n_depends_on m = n_depends_on n" unfolding m by (rule apply_sections_depends)
  have ok: "node_ok m" by (rule with_sections_node_ok[OF w node_ok_task_fields[OF assms(2)]]) (use assms(2) in \<open>auto simp: node_ok_def\<close>)
  have "n_approved_by m = None" using assms(4) True unfolding m by (simp add: frame)
  with ok dep assms(3) have "node_ok (hd root_part)" "storable (hd root_part)"
    unfolding u by (simp_all add: node_ok_def storable_def m frame)
  then show ?thesis using dep unfolding u by (simp add: same_shape_def m frame)
next
  case False
  with assms(1) show ?thesis by (auto simp: proposed_root_node_def split: if_splits)
qed

lemma acyclic_inj_image:
  assumes "inj f" and "acyclic r"
  shows "acyclic (map_prod f f ` r)"
proof -
  have "\<exists>x y. u = f x \<and> v = f y \<and> (x, y) \<in> r\<^sup>+" if "(u, v) \<in> (map_prod f f ` r)\<^sup>+" for u v
    using that
  proof (induction rule: trancl_induct)
    case (step v w)
    then obtain x y y' z where "u = f x" "v = f y" "(x, y) \<in> r\<^sup>+" "v = f y'" "w = f z" "(y', z) \<in> r" by auto
    moreover have "y = y'" using assms(1) \<open>v = f y\<close> \<open>v = f y'\<close> by (simp add: inj_eq)
    ultimately show ?case by (blast intro: trancl_into_trancl)
  qed auto
  then show ?thesis using assms unfolding acyclic_def by (metis inj_eq)
qed

lemma below_trans: "below ns (n_id c) m \<Longrightarrow> below ns i c \<Longrightarrow> below ns i m"
  by (induction rule: below.induct) (auto intro: below.deeper)

text \<open>The nodes a proposal takes away are below its node, with everything below them.\<close>

lemma replaced_below:
  assumes t: "tree_ok (p_root_id p) (p_nodes p)" and n: "n \<in> set (p_nodes p)" and m: "m \<in> set (replaced_nodes p n)"
  shows "m \<in> set (p_nodes p)" and "rank (n_level m) < rank (n_level n)" and "n_parent_id m \<noteq> None"
    and "\<And>x. x \<in> set (p_nodes p) \<Longrightarrow> n_parent_id x = Some (n_id m) \<Longrightarrow> x \<in> set (replaced_nodes p n)"
    and "\<And>x. x \<in> set (p_nodes p) \<Longrightarrow> n_parent_id x = n_parent_id m \<Longrightarrow> x \<in> set (replaced_nodes p n) \<or> x \<in> set (kept p n)"
proof -
  from m obtain c where c: "c \<in> set (p_nodes p)" "n_parent_id c = Some (n_id n)" "\<not> stays p c" "m = c \<or> below (p_nodes p) (n_id c) m"
    by (auto simp: replaced_nodes_iff[OF t])
  have bc: "below (p_nodes p) (n_id n) c" using c(1,2) by (rule below.child)
  then have b: "below (p_nodes p) (n_id n) m" using c(4) below_trans by blast
  show "m \<in> set (p_nodes p)" by (rule below_in[OF b])
  show "rank (n_level m) < rank (n_level n)" by (rule below_rank[OF t n b])
  show "n_parent_id m \<noteq> None" using b by cases auto
  show "x \<in> set (replaced_nodes p n)" if x: "x \<in> set (p_nodes p)" "n_parent_id x = Some (n_id m)" for x
  proof -
    have "below (p_nodes p) (n_id c) x" using c(4)
    proof
      assume "m = c" with x show ?thesis by (auto intro: below.child)
    qed (use x in \<open>auto intro: below.deeper\<close>)
    with c show ?thesis by (auto simp: replaced_nodes_iff[OF t])
  qed
  show "x \<in> set (replaced_nodes p n) \<or> x \<in> set (kept p n)" if x: "x \<in> set (p_nodes p)" "n_parent_id x = n_parent_id m" for x
    using c(4)
  proof
    assume "m = c"
    with x c(2) show ?thesis by (auto simp: replaced_nodes_iff[OF t] in_kept)
  next
    assume "below (p_nodes p) (n_id c) m"
    then have "below (p_nodes p) (n_id c) x"
    proof cases
      case child with x show ?thesis by (auto intro: below.child)
    next
      case (deeper k) with x show ?thesis by (auto intro: below.deeper)
    qed
    with c show ?thesis by (auto simp: replaced_nodes_iff[OF t])
  qed
qed

lemma kept_not_replaced:
  assumes t: "tree_ok (p_root_id p) (p_nodes p)" and n: "n \<in> set (p_nodes p)" and k: "k \<in> set (kept p n)"
  shows "k \<notin> set (replaced_nodes p n)" and "rank (n_level k) < rank (n_level n)"
proof -
  note d = t[unfolded tree_ok_def, THEN conjunct1]
  have lev: "child_level (n_level n) = Some (n_level x)" if "x \<in> set (p_nodes p)" "n_parent_id x = Some (n_id n)" for x
  proof -
    have "parent_ok (p_root_id p) (p_nodes p) x" using t that(1) by (simp add: tree_ok_def)
    with that(2) obtain m where "m \<in> set (p_nodes p)" "n_id m = n_id n" "child_level (n_level m) = Some (n_level x)" by (auto simp: parent_ok_def)
    with same_id_same_node[OF d _ n] show ?thesis by metis
  qed
  show "rank (n_level k) < rank (n_level n)" using k below_rank[OF t n, of k] by (auto simp: in_kept intro: below.child)
  show "k \<notin> set (replaced_nodes p n)"
  proof
    assume "k \<in> set (replaced_nodes p n)"
    then obtain c where c: "c \<in> set (p_nodes p)" "n_parent_id c = Some (n_id n)" "\<not> stays p c" "k = c \<or> below (p_nodes p) (n_id c) k"
      by (auto simp: replaced_nodes_iff[OF t])
    have "n_level k = n_level c" using lev[of k] lev[of c] k c(1,2) by (auto simp: in_kept)
    with c(4) below_rank[OF t c(1)] have "k = c" by (metis less_irrefl)
    with c(3) k show False by (simp add: in_kept)
  qed
qed

lemma distinct_append_one: "distinct xs \<Longrightarrow> x \<notin> set xs \<Longrightarrow> ys = [] \<or> ys = [x] \<Longrightarrow> distinct (xs @ ys)"
  by auto

lemma distinct_middle: "distinct (xs @ zs) \<Longrightarrow> distinct ys \<Longrightarrow> set ys \<inter> S = {} \<Longrightarrow> set (xs @ zs) \<subseteq> S \<Longrightarrow> distinct ((xs @ ys) @ zs)"
  by auto

lemma disjoint_within: "A \<inter> N = {} \<Longrightarrow> M \<subseteq> N \<union> U \<Longrightarrow> U \<subseteq> N \<Longrightarrow> A \<inter> M = {}"
  by blast

text \<open>The part of a proposal's change that patches and removes.\<close>

lemma proposal_prunes:
  assumes wf: "wf_nodes i (p_root_id p) ns" and p: "wf_plan p" "set ns = set (p_nodes p)" and n: "n \<in> set ns"
    and rem: "set rem = n_id ` set (replaced_nodes p n)"
    and rp: "root_part = [] \<or> (\<exists>u. root_part = [u] \<and> same_shape u n \<and> n_depends_on u = n_depends_on n \<and> node_ok u)"
    and us: "us = staying_nodes p n rem @ root_part" and c: "ch_upsert c = us" "ch_remove c = rem"
  shows "wf_nodes i (p_root_id p) (merge_nodes ns c)" and "distinct (map n_id us)" and "n_id ` set us \<subseteq> n_id ` set ns"
    and "n_id n \<notin> set rem" and "same_shape (patched us n) n"
proof -
  note d = wf_nodesD(2)[OF wf] note t = wf_planD(1)[OF p(1)]
  have np: "n \<in> set (p_nodes p)" using n p(2) by simp
  have ids: "m \<in> set (replaced_nodes p n)" if "m \<in> set ns" "n_id m \<in> set rem" for m
    using that rem same_id_same_node[OF d that(1)] replaced_below(1)[OF t np] p(2) by auto
  show nR: "n_id n \<notin> set rem" using ids[OF n] replaced_below(2)[OF t np, of n] by auto
  have root_id: "n_id u = n_id n" if "u \<in> set root_part" for u using rp that by (auto simp: same_shape_def)
  have kept_ids: "n_id k \<noteq> n_id n" if "k \<in> set (kept p n)" for k
    using kept_not_replaced(2)[OF t np that] same_id_same_node[OF d _ n, of k] that p(2) by (auto simp: in_kept)
  have "distinct (map n_id (kept p n))"
    using children_in_distinct[OF wf_planD(2)[OF p(1)]] by (simp add: kept_def children_def distinct_map_filterI)
  then have "distinct (map n_id (staying_nodes p n rem))" by (simp only: staying_ids)
  moreover have "n_id n \<notin> set (map n_id (staying_nodes p n rem))" unfolding staying_ids using kept_ids by (auto dest: sym)
  moreover have "map n_id root_part = [] \<or> map n_id root_part = [n_id n]" using rp by (auto simp: same_shape_def)
  ultimately show du: "distinct (map n_id us)" unfolding us map_append by (rule distinct_append_one)
  have shape: "same_shape u m \<and> set (n_depends_on u) \<subseteq> set (n_depends_on m)" if u: "u \<in> set us" "m \<in> set ns" "n_id m = n_id u" for u m
    using u(1) unfolding us set_append
  proof
    assume "u \<in> set (staying_nodes p n rem)"
    then obtain k x where k: "k \<in> set (kept p n)" "u = k\<lparr>n_position := x, n_depends_on := filter (\<lambda>d. d \<notin> set rem) (n_depends_on k)\<rparr>" by (rule in_staying)
    then have "m = k" using same_id_same_node[OF d u(2), of k] u(3) p(2) by (simp add: in_kept)
    with k(2) show ?thesis by (auto simp: same_shape_def)
  next
    assume "u \<in> set root_part"
    moreover from root_id[OF this] have "m = n" using same_id_same_node[OF d u(2) n] u(3) by simp
    ultimately show ?thesis using rp by auto
  qed
  have in_ns: "n_id u \<in> n_id ` set ns" if u: "u \<in> set us" for u
    using u unfolding us set_append
  proof
    assume "u \<in> set (staying_nodes p n rem)"
    then obtain k x where "k \<in> set (kept p n)" "u = k\<lparr>n_position := x, n_depends_on := filter (\<lambda>d. d \<notin> set rem) (n_depends_on k)\<rparr>" by (rule in_staying)
    then show ?thesis using p(2) by (simp add: in_kept)
  qed (use root_id n in simp)
  then show sub: "n_id ` set us \<subseteq> n_id ` set ns" by blast
  have ok: "node_ok u" if u: "u \<in> set us" for u
    using u unfolding us set_append
  proof
    assume "u \<in> set (staying_nodes p n rem)"
    then obtain k x where k: "k \<in> set (kept p n)" "u = k\<lparr>n_position := x, n_depends_on := filter (\<lambda>d. d \<notin> set rem) (n_depends_on k)\<rparr>" by (rule in_staying)
    then have "node_ok k" using wf_nodesD(4)[OF wf] p(2) by (simp add: in_kept)
    with k(2) show ?thesis by (auto simp: node_ok_def)
  qed (use rp in auto)
  have apart: "set rem \<inter> n_id ` set us = {}"
  proof -
    have "n_id k \<notin> set rem" if "k \<in> set (kept p n)" for k
      using ids[of k] kept_not_replaced(1)[OF t np that] that p(2) by (auto simp: in_kept)
    then show ?thesis using root_id nR unfolding us by (auto elim!: in_staying)
  qed
  show "wf_nodes i (p_root_id p) (merge_nodes ns c)"
  proof (rule wf_prune[OF wf du sub shape ok c(1) _ apart])
    show "set (ch_remove c) = set rem" by (simp add: c(2))
    show "n_id x \<in> set rem" if "x \<in> set ns" "m \<in> set ns" "n_parent_id x = Some (n_id m)" "n_id m \<in> set rem" for x m
      using replaced_below(4)[OF t np ids[OF that(2,4)], of x] that p(2) rem by auto
    show "p_root_id p \<notin> set rem"
    proof
      assume "p_root_id p \<in> set rem"
      then obtain m where m: "m \<in> set (replaced_nodes p n)" "n_id m = p_root_id p" using rem by auto
      have "parent_ok (p_root_id p) (p_nodes p) m" using t replaced_below(1)[OF t np m(1)] by (simp add: tree_ok_def)
      with m(2) replaced_below(3)[OF t np m(1)] show False by (auto simp: parent_ok_def)
    qed
    fix x y assume x: "x \<in> set ns" "n_id x \<notin> set rem" "y \<in> set (n_depends_on (patched us x))"
    show "y \<notin> set rem"
    proof
      assume y: "y \<in> set rem"
      have "y \<in> set (n_depends_on x)"
        using x(3) patched_cases[of us x] shape[of "patched us x" x] x(1) by auto
      then obtain m where m: "m \<in> set ns" "n_id m = y" "n_parent_id m = n_parent_id x"
        using wf_nodesD(3)[OF wf] x(1) by (auto simp: deps_ok_def sibling_ids_def)
      have mr: "m \<in> set (replaced_nodes p n)" using ids m y by simp
      have "x \<in> set (kept p n)" using replaced_below(5)[OF t np mr, of x] x(1,2) m(3) p(2) rem by auto
      then have "n_id x \<in> set (map n_id (staying_nodes p n rem))" by (simp add: staying_ids)
      then obtain u where u: "u \<in> set (staying_nodes p n rem)" "n_id u = n_id x" by auto
      then have "patched us x = u" using du by (intro patched_hit) (auto simp: us)
      with u(1) x(3) y show False by (auto elim!: in_staying)
    qed
  qed
  show "same_shape (patched us n) n"
    using patched_cases[of us n] shape[of "patched us n" n] n by (auto simp: same_shape_def)
qed

lemma proposal_sound:
  assumes wf: "wf_nodes i (p_root_id p) ns" and p: "wf_plan p" "set ns = set (p_nodes p)" "p_id p = i" and n: "n \<in> set ns"
    and lev: "child_level (n_level n) \<noteq> None"
    and pc: "proposed_children cfg p n cs now proposer ids = Inr (ups, rem)"
    and deps: "n_level n = Epic \<or> (\<forall>c\<in>set cs. px_depends_on c = [])" and inj: "inj ids" and new: "\<And>k. ids k \<notin> n_id ` set ns"
    and rp: "root_part = [] \<or> (\<exists>u. root_part = [u] \<and> same_shape u n \<and> n_depends_on u = n_depends_on n \<and> node_ok u \<and> storable u)"
    and c: "ch_upsert c = ups @ root_part" "ch_remove c = rem"
    and sto: "\<And>m. m \<in> set ns \<Longrightarrow> storable m"
  shows "wf_nodes i (p_root_id p) (merge_nodes ns c)" and "distinct (map n_id (ch_upsert c))"
    and "\<And>u. u \<in> set (ch_upsert c) \<Longrightarrow> n_plan_id u = i \<and> storable u \<and> (n_id u \<in> n_id ` set ns \<or> n_id u \<in> range ids)"
proof -
  define l where "l = the (child_level (n_level n))"
  have epic: "\<forall>c\<in>set cs. px_depends_on c = []" if "l = Epic" using deps that lev by (auto simp: l_def)
  obtain stay linked order where u: "ups = stay @ linked" "stay = staying_nodes p n rem"
    and rem: "set rem = n_id ` set (replaced_nodes p n)" and "\<forall>m\<in>set (replaced_nodes p n). n_state m \<noteq> Published"
    and ll: "length linked = length cs" and "int (length cs) \<le> room cfg p n"
    and lk': "\<forall>k<length cs. planned_from p n l proposer (ids k) (linked ! k) \<and> n_title (linked ! k) = px_title (cs ! k)
        \<and> n_depends_on (linked ! k) = map ids (order ! k) \<and> set (order ! k) \<subseteq> {..<length cs} - {k}"
    and ac: "acyclic {(a, b). a < length cs \<and> b \<in> set (order ! a)}" and nk: "\<forall>m\<in>set linked. node_ok m"
    by (rule proposed_children_Inr[OF pc l_def epic lev])
  note lk = lk'[rule_format]
  let ?us = "stay @ root_part" and ?c = "c\<lparr>ch_upsert := stay @ root_part\<rparr>"
  have rp': "root_part = [] \<or> (\<exists>u. root_part = [u] \<and> same_shape u n \<and> n_depends_on u = n_depends_on n \<and> node_ok u)" using rp by blast
  note pr = proposal_prunes[OF wf p(1,2) n rem rp', of ?us ?c, unfolded u(2)[symmetric], OF refl _ _]
  have pr1: "wf_nodes i (p_root_id p) (merge_nodes ns ?c)" "distinct (map n_id ?us)" "n_id ` set ?us \<subseteq> n_id ` set ns" "n_id n \<notin> set rem"
    "same_shape (patched ?us n) n" using pr c(2) by simp_all
  have in_linked: "\<exists>k<length cs. m = linked ! k" if "m \<in> set linked" for m using that ll by (auto simp: in_set_conv_nth)
  have lids: "map n_id linked = map ids [0..<length cs]"
  proof (rule nth_equalityI)
    show "map n_id linked ! k = map ids [0..<length cs] ! k" if "k < length (map n_id linked)" for k
      using lk[of k] that ll by (simp add: planned_from_def)
  qed (simp add: ll)
  have lset: "n_id ` set linked = ids ` {..<length cs}" using arg_cong[OF lids, of set] by (simp add: lessThan_atLeast0)
  have apart: "n_id ` set linked \<inter> n_id ` set ns = {}" using new unfolding lset by auto
  have dl: "distinct (map n_id linked)" unfolding lids distinct_map by (intro conjI distinct_upt inj_on_subset[OF inj] subset_UNIV)
  have us: "set (ch_upsert c) = set ?us \<union> set linked" using c(1) u(1) by auto
  show dist: "distinct (map n_id (ch_upsert c))"
  proof -
    have "distinct (map n_id stay @ map n_id root_part)" "set (map n_id stay @ map n_id root_part) \<subseteq> n_id ` set ns" using pr1(2,3) by (simp_all add: image_Un)
    moreover have "set (map n_id linked) \<inter> n_id ` set ns = {}" using apart by simp
    ultimately show ?thesis unfolding c(1) u(1) map_append by (intro distinct_middle[OF _ dl])
  qed
  have out: "n_id m \<notin> n_id ` set linked" if "m \<in> set ns" for m using apart imageI[OF that, of n_id] by blast
  have merged: "set (merge_nodes ns c) = set (merge_nodes ns ?c) \<union> set linked"
    unfolding merge_nodes_def set_append set_filter us image_Un using out c(2) by auto
  have M: "patched ?us n \<in> set (merge_nodes ns ?c)"
  proof (cases "n_id n \<in> n_id ` set ?us")
    case True
    then obtain v where "v \<in> set ?us" "n_id v = n_id n" by (metis imageE)
    with patched_hit[OF pr1(2)] show ?thesis by (simp add: merge_nodes_def)
  next
    case False
    with n pr1(4) c(2) show ?thesis by (simp add: merge_nodes_def patched_miss)
  qed
  show "wf_nodes i (p_root_id p) (merge_nodes ns c)"
  proof (rule wf_add_many[OF pr1(1) merged _ _ _ M])
    show "distinct (map n_id (merge_nodes ns c))" by (rule distinct_merge_nodes[OF wf_nodesD(2)[OF wf] dist])
    show "n_id ` set linked \<inter> n_id ` set (merge_nodes ns ?c) = {}"
    proof -
      have "n_id ` set (merge_nodes ns ?c) \<subseteq> n_id ` set ns \<union> n_id ` set ?us"
        unfolding merge_nodes_def set_append set_filter image_Un by auto
      then show ?thesis by (rule disjoint_within[OF apart _ pr1(3)])
    qed
    have "dep_edges linked \<subseteq> map_prod ids ids ` {(a, b). a < length cs \<and> b \<in> set (order ! a)}"
    proof
      fix e assume "e \<in> dep_edges linked"
      then obtain m x where e: "e = (n_id m, x)" "m \<in> set linked" "x \<in> set (n_depends_on m)" by (auto simp: dep_edges_def)
      from in_linked[OF e(2)] obtain k where k: "k < length cs" "m = linked ! k" by blast
      with e lk[OF k(1)] obtain b where b: "b \<in> set (order ! k)" "x = ids b" by auto
      have "e = map_prod ids ids (k, b)" using e(1) b(2) k lk[OF k(1)] by (simp add: planned_from_def)
      with k(1) b(1) show "e \<in> map_prod ids ids ` {(a, b). a < length cs \<and> b \<in> set (order ! a)}" by blast
    qed
    then show "acyclic (dep_edges linked)" by (rule acyclic_subset[OF acyclic_inj_image[OF inj ac]])
    fix f assume f: "f \<in> set linked"
    from in_linked[OF f] obtain k where k: "k < length cs" "f = linked ! k" by blast
    have "set (n_depends_on f) \<subseteq> n_id ` set linked - {n_id f}"
      using lk[OF k(1)] inj unfolding lset k(2) by (auto simp: planned_from_def inj_eq)
    with lk[OF k(1)] bspec[OF nk f] p(3) pr1(5) lev show "node_ok f \<and> n_plan_id f = i \<and> set (n_depends_on f) \<subseteq> n_id ` set linked - {n_id f}
      \<and> n_parent_id f = Some (n_id (patched ?us n)) \<and> child_level (n_level (patched ?us n)) = Some (n_level f)"
      unfolding k(2) by (simp add: planned_from_def same_shape_def l_def)
  qed
  fix v assume "v \<in> set (ch_upsert c)"
  then consider (stay) "v \<in> set stay" | (root) "v \<in> set root_part" | (link) "v \<in> set linked" using us by auto
  then show "n_plan_id v = i \<and> storable v \<and> (n_id v \<in> n_id ` set ns \<or> n_id v \<in> range ids)"
  proof cases
    case stay
    then obtain k x where k: "k \<in> set (kept p n)" "v = k\<lparr>n_position := x, n_depends_on := filter (\<lambda>d. d \<notin> set rem) (n_depends_on k)\<rparr>"
      unfolding u(2) by (rule in_staying)
    then have "k \<in> set ns" using p(2) by (simp add: in_kept)
    with k(2) wf_nodesD(5)[OF wf] sto show ?thesis by (auto simp: storable_def)
  next
    case root
    with rp n wf_nodesD(5)[OF wf n] show ?thesis by (auto simp: same_shape_def)
  next
    case link
    from in_linked[OF this] lk p(3) show ?thesis by (auto simp: planned_from_def)
  qed
qed

end
