(* ===== verification/ReplanApply.thy ===== *)
theory ReplanApply
  imports Planner
begin

text \<open>
  Applying a re-plan's approved entries to the forge (\<open>plans/replan.py\<close>, with \<open>approve_replan\<close> of
  \<open>plans/service_planner.py\<close>): changes and closes one by one, then the additions as one narrowed level,
  then the entries that landed leave the diff.  What went wrong with an entry is a value; the sentence
  kept with it is made by an argument, \<open>wording\<close>.
\<close>

section \<open>Results\<close>

datatype entry_failure =
    NotAChild ident
  | NoLongerFollowed ident
  | ChangedSince ident "string list"
  | Unreadable fault
  | ForgeMoved ident
  | KeptChangingDiff
  | RemovedMeanwhile ident
  | ChildExists ident
  | NeverPublished
  | RefusedEdit refusal
  | CallRaised fault
  | PublishSaid node_error

datatype entry_outcome = ECreated | EFound | EUpdated | EClosed | EFailed

datatype entry_note = AlreadyClosed | CommentNotPosted forge_error | PublishNote fault

record entry_result =
  en_entry :: ident
  en_action :: replan_action
  en_outcome :: entry_outcome
  en_node :: ident
  en_number :: "int option"
  en_url :: "string option"
  en_error :: "entry_failure option"
  en_note :: "entry_note option"

record applied =
  ap_plan :: plan
  ap_results :: "entry_result list"

definition applied_ids :: "entry_result list \<Rightarrow> entry_outcome list \<Rightarrow> ident list" where
  "applied_ids rs outcomes = map en_node (filter (\<lambda>r. en_outcome r \<in> set outcomes) rs)"

text \<open>What is raised while entries are applied: a refusal of one entry, or an exception of the service.
  The walk catches a refusal and the exceptions of the forge.\<close>

datatype apply_error = EntryRefused entry_failure | Passed raised

definition entry_caught :: "apply_error \<Rightarrow> entry_failure option" where
  "entry_caught e = (case e of
     EntryRefused f \<Rightarrow> Some f
   | Passed (ForgeRaised f) \<Rightarrow> if is_lantern_error f then Some (CallRaised f) else None
   | Passed (ServiceRaised x) \<Rightarrow> None)"

type_synonym ('f, 'a) applying = "('f site, apply_error, 'a) action"

definition result_of_entry :: "replan_entry \<Rightarrow> entry_outcome \<Rightarrow> forge_ref option \<Rightarrow> entry_failure option \<Rightarrow> entry_note option \<Rightarrow> entry_result" where
  "result_of_entry e outcome f failure note = \<lparr>en_entry = e_id e, en_action = e_action e, en_outcome = outcome, en_node = e_node_id e,
     en_number = map_option f_number f, en_url = map_option f_url f, en_error = failure, en_note = note\<rparr>"

definition failed_entry :: "replan_entry \<Rightarrow> entry_failure \<Rightarrow> entry_result" where
  "failed_entry e why = result_of_entry e EFailed None (Some why) None"

section \<open>Reading and writing\<close>

definition site_clock :: "'f surroundings \<Rightarrow> ('f, timestamp) applying" where
  "site_clock su s = (Inr (su_clock su (st_tick s)), s\<lparr>st_tick := Suc (st_tick s)\<rparr>)"

definition current_plan :: "ident \<Rightarrow> ('f, plan) applying" where
  "current_plan i s = (case store_get (st_db s) i of None \<Rightarrow> (Inl (Passed (ForgeRaised Gone)), s) | Some p \<Rightarrow> (Inr p, s))"

definition apply_attempt :: "'f surroundings \<Rightarrow> ident \<Rightarrow> (string \<times> json) list \<Rightarrow> (plan \<Rightarrow> ('f, plan_node list \<times> plan_event list) applying) \<Rightarrow>
    ('f site, apply_error attempt_error, plan) action" where
  "apply_attempt su i actor change s = (case andthen (current_plan i) (\<lambda>p. andthen (change p) (\<lambda>w. ret (p, w))) s of
     (Inl e, s1) \<Rightarrow> (Inl (Raised e), s1)
   | (Inr (p, ups, evs), s1) \<Rightarrow>
       if ups = [] then (Inr p, s1)
       else let now = su_clock su (st_tick s1);
                s2 = s1\<lparr>st_db := su_others su (st_tick s1) (st_db s1), st_tick := Suc (st_tick s1)\<rparr> in
         (case store_apply (st_db s2) i (p_revision p) now (no_change\<lparr>ch_upsert := ups, ch_events := evs, ch_actor := Some actor\<rparr>) of
            Inl (StaleRevision r) \<Rightarrow> (Inl (Stale r), s2)
          | Inl _ \<Rightarrow> (Inl (Raised (Passed (ForgeRaised Gone))), s2)
          | Inr (d, q) \<Rightarrow> (Inr q, s2\<lparr>st_db := d\<rparr>)))"

definition apply_write :: "'f surroundings \<Rightarrow> ident \<Rightarrow> (string \<times> json) list \<Rightarrow> (plan \<Rightarrow> ('f, plan_node list \<times> plan_event list) applying) \<Rightarrow>
    ('f, plan) applying" where
  "apply_write su i actor change s = (case retry_action tries (apply_attempt su i actor change) None s of
     (Inr q, s') \<Rightarrow> (Inr q, s')
   | (Inl (Raised e), s') \<Rightarrow> (Inl e, s')
   | (Inl _, s') \<Rightarrow> (Inl (EntryRefused KeptChangingDiff), s'))"

definition followed_child :: "ident \<Rightarrow> plan \<Rightarrow> replan_entry \<Rightarrow> ('f, plan_node \<times> forge_ref) applying" where
  "followed_child parent_id p e = (case plan_node_of p (e_node_id e) of
     None \<Rightarrow> raise (EntryRefused (NotAChild (e_node_id e)))
   | Some c \<Rightarrow>
       if n_parent_id c \<noteq> Some parent_id then raise (EntryRefused (NotAChild (e_node_id e)))
       else (case n_forge c of
           None \<Rightarrow> raise (EntryRefused (NoLongerFollowed (n_id c)))
         | Some f \<Rightarrow> if followed c then ret (c, f) else raise (EntryRefused (NoLongerFollowed (n_id c)))))"

text \<open>The sections of the child that are not as they were when the entry was proposed.\<close>

definition moved_sections :: "plan_node \<Rightarrow> replan_entry \<Rightarrow> string list" where
  "moved_sections c e = map fst (filter (\<lambda>(k, v). map_of (content c) k \<noteq> Some v) (e_before e))"

definition unmoved :: "plan_node \<Rightarrow> replan_entry \<Rightarrow> ('f, unit) applying" where
  "unmoved c e = (if moved_sections c e = [] then ret () else raise (EntryRefused (ChangedSince (n_id c) (sort (moved_sections c e)))))"

section \<open>One entry\<close>

definition modify_entry :: "ident \<Rightarrow> ident \<Rightarrow> (replan_entry \<Rightarrow> ('f, plan_node) applying) \<Rightarrow> replan_entry \<Rightarrow> ('f, entry_result) applying" where
  "modify_entry i parent_id edit e =
     andthen (current_plan i) (\<lambda>p.
     andthen (followed_child parent_id p e) (\<lambda>(c, f).
     andthen (unmoved c e) (\<lambda>_.
     andthen (edit e) (\<lambda>w.
     ret (result_of_entry e EUpdated (Some (case n_forge w of None \<Rightarrow> f | Some g \<Rightarrow> g)) None None)))))"

definition actor_name :: "(string \<times> json) list \<Rightarrow> string \<Rightarrow> string" where
  "actor_name actor fallback = (case map_of actor ''display'' of Some (JStr (c # cs)) \<Rightarrow> c # cs
     | _ \<Rightarrow> (case map_of actor ''id'' of Some (JStr (c # cs)) \<Rightarrow> c # cs | _ \<Rightarrow> fallback))"

text \<open>The quotes are code points 147 and 148.\<close>

definition close_comment :: "plan_node \<Rightarrow> plan_node \<Rightarrow> string \<Rightarrow> string \<Rightarrow> string" where
  "close_comment n parent rationale who = join [newline]
     ([''Closed as not planned: a re-plan of the '' @ level_name (n_level parent) @ '' '' @ [char_of (147 :: nat)] @ n_title parent @ [char_of (148 :: nat)]
        @ '' found this '' @ level_name (n_level n) @ '' is no longer needed, and '' @ who @ '' approved closing it.'']
      @ (if blank rationale then [] else [] # map (\<lambda>line. ''> '' @ line) (splitlines (strip rationale)))
      @ [[], ''Reopen it if it is still wanted.''])"

definition closed_change :: "'f surroundings \<Rightarrow> ident \<Rightarrow> forge_ref \<Rightarrow> plan_event \<Rightarrow> plan \<Rightarrow> ('f, plan_node list \<times> plan_event list) applying" where
  "closed_change su node_id f event p = (case plan_node_of p node_id of
     None \<Rightarrow> raise (EntryRefused (RemovedMeanwhile node_id))
   | Some n \<Rightarrow> andthen (site_clock su) (\<lambda>now.
       ret ([n\<lparr>n_updated_at := now, n_forge := Some (f\<lparr>f_state := Some ForgeClosed\<rparr>)\<rparr>], [event])))"

definition forge_call :: "('f, 'a) call \<Rightarrow> ('f, 'a) applying" where
  "forge_call c = failing (\<lambda>f. Passed (ForgeRaised f)) (on_forge c)"

text \<open>Nothing is closed unless the issue still reads as the child did when the diff was proposed.\<close>

definition unchanged_issue :: "(json \<Rightarrow> string) \<Rightarrow> plan \<Rightarrow> plan_node \<Rightarrow> replan_entry \<Rightarrow> seen \<Rightarrow> ('f, unit) applying" where
  "unchanged_issue digest p c e sn =
     (if \<not> truthy (e_forge_version e) then ret ()
      else (case as_forge_has_it p c (sn_title sn) (sn_body sn) of
          Inl x \<Rightarrow> raise (Passed (ForgeRaised x))
        | Inr now_there \<Rightarrow> if Some (content_version digest now_there) \<noteq> e_forge_version e then raise (EntryRefused (ForgeMoved (n_id c))) else ret ()))"

definition close_issue :: "'f surroundings \<Rightarrow> plan \<Rightarrow> plan_node \<Rightarrow> plan_node \<Rightarrow> forge_ref \<Rightarrow> (string \<times> json) list \<Rightarrow> replan_entry \<Rightarrow>
    ('f, entry_result) applying" where
  "close_issue su p parent c f actor e =
     (let finished = result_of_entry e EClosed (Some f) None in
      andthen (forge_call (issue_close (su_ops su) (n_repository c) (f_number f) ''not_planned'')) (\<lambda>_.
      andthen (apply_write su (p_id p) actor (closed_change su (n_id c) f (event_of ''plan.node.changed''
        [(''plan_id'', JStr (p_id p)), (''node_id'', JStr (n_id c)), (''change'', JStr ''closed''), (''via'', JStr ''replan''),
         (''number'', JNum (of_int (f_number f)))]))) (\<lambda>_.
      handle (andthen (forge_call (issue_comment (su_ops su) (n_repository c) (f_number f)
          (close_comment c parent (e_rationale e) (actor_name actor ''a person'')))) (\<lambda>_. ret (finished None)))
        (\<lambda>x. case x of Passed (ForgeRaised (CallFailed fe)) \<Rightarrow> ret (finished (Some (CommentNotPosted fe))) | _ \<Rightarrow> raise x))))"

definition close_child :: "'f surroundings \<Rightarrow> (json \<Rightarrow> string) \<Rightarrow> ident \<Rightarrow> plan_node \<Rightarrow> (string \<times> json) list \<Rightarrow> replan_entry \<Rightarrow>
    ('f, entry_result) applying" where
  "close_child su digest i parent actor e =
     andthen (current_plan i) (\<lambda>p.
     andthen (followed_child (n_id parent) p e) (\<lambda>(c, f).
     andthen (unmoved c e) (\<lambda>_.
     andthen (handle (forge_call (issue_get (su_ops su) (n_repository c) (f_number f)))
       (\<lambda>x. case x of Passed (ForgeRaised fault) \<Rightarrow> raise (EntryRefused (Unreadable fault)) | _ \<Rightarrow> raise x)) (\<lambda>row.
     let sn = seen_of row (n_repository c) (f_number f) in
     if sn_state sn = ForgeClosed then ret (result_of_entry e EClosed (Some f) None (Some AlreadyClosed))
     else andthen (unchanged_issue digest p c e sn) (\<lambda>_. close_issue su p parent c f actor e)))))"

section \<open>The additions\<close>

text \<open>A section of an entry set on a node as it is.\<close>

definition set_entry_section :: "plan_node \<Rightarrow> string \<times> json \<Rightarrow> plan_node" where
  "set_entry_section n = (\<lambda>(k, v).
     if k = ''goal'' then n\<lparr>n_goal := jtext v\<rparr> else if k = ''context'' then n\<lparr>n_context := jtext v\<rparr>
     else if k = ''acceptance_criteria'' then n\<lparr>n_acceptance_criteria := map jtext (jitems v)\<rparr>
     else if k = ''kind'' then n\<lparr>n_kind := (if v = JStr ''code'' then Some CodeTask else if v = JStr ''workload'' then Some WorkloadTask else None)\<rparr>
     else if k = ''workload_profile'' then n\<lparr>n_workload_profile := jstr_opt v\<rparr>
     else if k = ''verify_commands'' then n\<lparr>n_verify_commands := map jtext (jitems v)\<rparr>
     else if k = ''depends_on'' then n\<lparr>n_depends_on := map jtext (jitems v)\<rparr>
     else if k = ''non_goals'' then n\<lparr>n_non_goals := jtext v\<rparr> else if k = ''constraints'' then n\<lparr>n_constraints := jtext v\<rparr> else n)"

definition added_child :: "plan \<Rightarrow> plan_node \<Rightarrow> level \<Rightarrow> int \<Rightarrow> timestamp \<Rightarrow> (string \<times> json) list \<Rightarrow> replan_entry \<Rightarrow> plan_node" where
  "added_child p parent l position now actor e = foldl set_entry_section
     ((new_node (e_node_id e) (p_id p) (Some (n_id parent)) position l (n_repository parent) now
        (case n_replan parent of None \<Rightarrow> None | Some r \<Rightarrow> r_proposed_by r))
      \<lparr>n_state := Approved, n_origin := Planner, n_title := jtext (jget (e_sections e) ''title''), n_approved_by := actor_id (Some actor)\<rparr>)
     (filter (\<lambda>(k, v). k \<noteq> ''title'') (e_sections e))"

text \<open>The additions not made yet: one whose title a child has fails, one an earlier attempt made is left to
  publishing.\<close>

fun new_children :: "plan \<Rightarrow> plan_node \<Rightarrow> level \<Rightarrow> timestamp \<Rightarrow> (string \<times> json) list \<Rightarrow> plan_node list \<Rightarrow> plan_node list \<Rightarrow> entry_result list \<Rightarrow>
    replan_entry list \<Rightarrow> plan_node list \<times> entry_result list" where
  "new_children p parent l now actor sibs fresh rs [] = (fresh, rs)"
| "new_children p parent l now actor sibs fresh rs (e # es) =
     (if plan_node_of p (e_node_id e) \<noteq> None then new_children p parent l now actor sibs fresh rs es
      else let t = title_key (jtext (jget (e_sections e) ''title'')) in
        (case find (\<lambda>c. title_key (n_title c) = t) (rev sibs) of
           Some same \<Rightarrow> new_children p parent l now actor sibs fresh (rs @ [failed_entry e (ChildExists (n_id same))]) es
         | None \<Rightarrow> new_children p parent l now actor sibs
             (fresh @ [added_child p parent l (int (length (children p (n_id parent)) + length fresh)) now actor e]) rs es))"

definition outcome_of :: "outcome \<Rightarrow> entry_outcome" where
  "outcome_of x = (case x of Created \<Rightarrow> ECreated | Found \<Rightarrow> EFound | Failed \<Rightarrow> EFailed)"

definition published_entry :: "level_result \<Rightarrow> replan_entry \<Rightarrow> entry_result" where
  "published_entry lr e = (case find (\<lambda>r. nr_node_id r = e_node_id e) (rev (lr_results lr)) of
     Some r \<Rightarrow> \<lparr>en_entry = e_id e, en_action = e_action e, en_outcome = outcome_of (nr_outcome r), en_node = e_node_id e,
       en_number = nr_number r, en_url = nr_url r, en_error = map_option PublishSaid (nr_error r), en_note = map_option PublishNote (nr_reason r)\<rparr>
   | None \<Rightarrow> (case plan_node_of (lr_plan lr) (e_node_id e) of
       None \<Rightarrow> failed_entry e NeverPublished
     | Some n \<Rightarrow> (case n_forge n of
         None \<Rightarrow> failed_entry e NeverPublished
       | Some f \<Rightarrow> if n_state n = Published then result_of_entry e EFound (Some f) None None else failed_entry e NeverPublished)))"

definition result_for :: "entry_result list \<Rightarrow> replan_entry \<Rightarrow> entry_result option" where
  "result_for rs e = find (\<lambda>r. en_entry r = e_id e) rs"

definition add_children :: "'f surroundings \<Rightarrow> config \<Rightarrow> ident \<Rightarrow> plan_node \<Rightarrow> (string \<times> json) list \<Rightarrow> replan_entry list \<Rightarrow>
    ('f, entry_result list) applying" where
  "add_children su cfg i parent actor es =
     andthen (current_plan i) (\<lambda>p.
     andthen (site_clock su) (\<lambda>now.
     let sibs = filter (\<lambda>c. n_id c \<notin> e_node_id ` set es) (children p (n_id parent));
         (fresh, rs) = new_children p parent (the (child_level (n_level parent))) now actor sibs [] [] es;
         going = filter (\<lambda>e. result_for rs e = None) es in
     andthen (if fresh = [] then ret p else apply_write su i actor (\<lambda>_. ret (fresh, [event_of ''plan.node.changed''
         [(''plan_id'', JStr i), (''node_id'', JStr (n_id parent)), (''change'', JStr ''added''), (''via'', JStr ''replan''),
          (''node_ids'', jstrs (map n_id fresh))]]))) (\<lambda>_.
     andthen (current_plan i) (\<lambda>p'.
     andthen (failing (\<lambda>f. Passed (ForgeRaised f)) (publish_level su cfg p' (n_id parent) (Some actor) (Some (map e_node_id going)))) (\<lambda>lr.
     ret (map (\<lambda>e. case result_for rs e of Some r \<Rightarrow> r | None \<Rightarrow> published_entry lr e) es))))))"

section \<open>The walk\<close>

text \<open>An entry whose failure is caught has failed; any other exception ends the walk.\<close>

definition failing_as :: "replan_entry list \<Rightarrow> ('f, entry_result list) applying \<Rightarrow> ('f, entry_result list) applying" where
  "failing_as es m = handle m (\<lambda>x. case entry_caught x of Some why \<Rightarrow> ret (map (\<lambda>e. failed_entry e why) es) | None \<Rightarrow> raise x)"

definition one_entry :: "'f surroundings \<Rightarrow> (json \<Rightarrow> string) \<Rightarrow> ident \<Rightarrow> plan_node \<Rightarrow> (string \<times> json) list \<Rightarrow> (replan_entry \<Rightarrow> ('f, plan_node) applying) \<Rightarrow>
    replan_entry \<Rightarrow> ('f, entry_result list) applying" where
  "one_entry su digest i parent actor edit e = failing_as [e]
     (andthen (if e_action e = RModify then modify_entry i (n_id parent) edit e else close_child su digest i parent actor e) (\<lambda>r. ret [r]))"

text \<open>The diff without the entries that landed; one that failed keeps why.\<close>

definition left_entries :: "(entry_failure \<Rightarrow> string) \<Rightarrow> entry_result list \<Rightarrow> replan_entry list \<Rightarrow> replan_entry list" where
  "left_entries wording rs es = concat (map (\<lambda>e. case result_for (rev rs) e of
     None \<Rightarrow> [e]
   | Some r \<Rightarrow> if en_outcome r = EFailed then [e\<lparr>e_error := map_option wording (en_error r)\<rparr>] else []) es)"

definition settle_change :: "(entry_failure \<Rightarrow> string) \<Rightarrow> ident \<Rightarrow> entry_result list \<Rightarrow> plan \<Rightarrow> ('f, plan_node list \<times> plan_event list) applying" where
  "settle_change wording node_id rs p = ret (case plan_node_of p node_id of
     None \<Rightarrow> ([], [])
   | Some n \<Rightarrow> (case n_replan n of
       None \<Rightarrow> ([], [])
     | Some r \<Rightarrow> let left = left_entries wording rs (r_entries r) in
         ([n\<lparr>n_replan := (if left = [] then None else Some (r\<lparr>r_entries := left\<rparr>))\<rparr>], [])))"

definition settle_diff :: "'f surroundings \<Rightarrow> (entry_failure \<Rightarrow> string) \<Rightarrow> ident \<Rightarrow> ident \<Rightarrow> (string \<times> json) list \<Rightarrow> entry_result list \<Rightarrow>
    ('f, plan) applying" where
  "settle_diff su wording i node_id actor rs = handle (apply_write su i actor (settle_change wording node_id rs))
     (\<lambda>x. case x of EntryRefused f \<Rightarrow> current_plan i | Passed y \<Rightarrow> raise x)"

definition run_entries :: "'f surroundings \<Rightarrow> config \<Rightarrow> (json \<Rightarrow> string) \<Rightarrow> (entry_failure \<Rightarrow> string) \<Rightarrow> ident \<Rightarrow> ident \<Rightarrow> (string \<times> json) list \<Rightarrow>
    (replan_entry \<Rightarrow> ('f, plan_node) applying) \<Rightarrow> replan_entry list \<Rightarrow> ('f, applied) applying" where
  "run_entries su cfg digest wording i node_id actor edit es =
     andthen (current_plan i) (\<lambda>p. case plan_node_of p node_id of
       None \<Rightarrow> raise (Passed (ForgeRaised Gone))
     | Some parent \<Rightarrow>
         let adds = filter (\<lambda>e. e_action e = RAdd) es in
         andthen (each (one_entry su digest i parent actor edit) (filter (\<lambda>e. e_action e \<noteq> RAdd) es)) (\<lambda>rss.
         andthen (if adds = [] then ret [] else failing_as adds (add_children su cfg i parent actor adds)) (\<lambda>added.
         let rs = concat rss @ added; ordered = concat (map (\<lambda>e. case result_for (rev rs) e of None \<Rightarrow> [] | Some r \<Rightarrow> [r]) es) in
         andthen (settle_diff su wording i node_id actor ordered) (\<lambda>q. ret \<lparr>ap_plan = q, ap_results = ordered\<rparr>))))"

definition apply_replan :: "'f surroundings \<Rightarrow> config \<Rightarrow> (json \<Rightarrow> string) \<Rightarrow> (entry_failure \<Rightarrow> string) \<Rightarrow> plan \<Rightarrow> ident \<Rightarrow> ident list \<Rightarrow>
    (string \<times> json) list \<Rightarrow> (replan_entry \<Rightarrow> ('f, plan_node) applying) \<Rightarrow> ('f, applied) applying" where
  "apply_replan su cfg digest wording p node_id entry_ids actor edit =
     (case plan_node_of p node_id of
        None \<Rightarrow> ret \<lparr>ap_plan = p, ap_results = []\<rparr>
      | Some n \<Rightarrow> (case n_replan n of
          None \<Rightarrow> ret \<lparr>ap_plan = p, ap_results = []\<rparr>
        | Some r \<Rightarrow> run_entries su cfg digest wording (p_id p) node_id actor edit (filter (\<lambda>e. e_id e \<in> set entry_ids) (r_entries r))))"

section \<open>Approving\<close>

text \<open>An entry's sections as the edit of a published node takes them.\<close>

definition edit_of_item :: "string \<times> json \<Rightarrow> section_edit" where
  "edit_of_item = (\<lambda>(k, v).
     if k = ''kind'' then SKind (if v = JStr ''code'' then Some CodeTask else if v = JStr ''workload'' then Some WorkloadTask else None)
     else if k = ''workload_profile'' then SProfile (jstr_opt v)
     else if k = ''verify_commands'' then SVerify (jstr_list (jitems v))
     else if k = ''depends_on'' then SDepends (jstr_list (jitems v)) else section_of_input (k, v))"

definition check_replan_adds :: "config \<Rightarrow> plan \<Rightarrow> plan_node \<Rightarrow> replan_entry list \<Rightarrow> service_error + unit" where
  "check_replan_adds cfg p n adds =
     (let many = int (length (remdups (map n_id (occupied p n) @ map e_node_id adds)));
          missing = (\<lambda>e. filter (\<lambda>d. d \<notin> e_node_id ` set adds \<and> (case plan_node_of p d of None \<Rightarrow> True | Some s \<Rightarrow> n_state s \<noteq> Published))
            (map jtext (jitems (jget (e_sections e) ''depends_on''))));
          named = map e_id (filter (\<lambda>e. missing e \<noteq> []) adds) in
      if adds = [] then Inr ()
      else bindR (check (\<not> many > cap cfg n) (refuse_with 409 ''too_many_children''
             [(''cap'', JNum (of_int (cap cfg n))), (''children'', JNum (of_int many))])) (\<lambda>_.
           check (named = []) (refuse_with 409 ''dependency_unpublished'' [(''entry_ids'', jstrs (sort (remdups named)))])))"

definition check_approve :: "config \<Rightarrow> vcs_kind option \<Rightarrow> ident \<Rightarrow> int \<Rightarrow> ident list option \<Rightarrow> plan \<Rightarrow> service_error + plan_node \<times> replan_entry list" where
  "check_approve cfg forge_kind node_id expected entry_ids p =
     bindR (check_revision p expected) (\<lambda>_.
     bindR (not_archived p) (\<lambda>_.
     bindR (node_in p node_id) (\<lambda>n.
     bindR (replan_chosen n entry_ids) (\<lambda>chosen.
     let targets = concat (map (\<lambda>e. if e_action e = RAdd then [] else (case plan_node_of p (e_node_id e) of None \<Rightarrow> [] | Some t \<Rightarrow> [n_repository t])) chosen) in
     bindR (foldR (\<lambda>_ repo. check_publishable cfg repo forge_kind) () (in_order (n_repository n # targets))) (\<lambda>_.
     bindR (check_replan_adds cfg p n (filter (\<lambda>e. e_action e = RAdd) chosen)) (\<lambda>_.
     Inr (n, chosen)))))))"

text \<open>An approved change, through the write of a direct edit.\<close>

definition refused_edit :: "ident \<Rightarrow> raised \<Rightarrow> apply_error" where
  "refused_edit node_id x = (case x of
     ServiceRaised (Refused r) \<Rightarrow> EntryRefused (if rf_code r = ''forge_changed'' then ForgeMoved node_id else RefusedEdit r)
   | _ \<Rightarrow> Passed x)"

definition approved_edit :: "'f surroundings \<Rightarrow> config \<Rightarrow> (json \<Rightarrow> string) \<Rightarrow> ident \<Rightarrow> (string \<times> json) list \<Rightarrow> replan_entry \<Rightarrow> ('f, plan_node) applying" where
  "approved_edit su cfg digest i actor e =
     andthen (failing Passed (\<lambda>s. lift (service_get (st_db s) i) s)) (\<lambda>latest.
     andthen (failing (refused_edit (e_node_id e)) (write_published su cfg digest latest (e_node_id e)
       (case e_forge_version e of None \<Rightarrow> [] | Some v \<Rightarrow> v) (map edit_of_item (e_sections e)) None actor (Some ''replan''))) (\<lambda>q.
     failing Passed (lift (node_in q (e_node_id e)))))"

text \<open>The plan is read from the forge first; only that it is gone ends the approval.\<close>

definition read_back_quietly :: "'f surroundings \<Rightarrow> config \<Rightarrow> (nat \<Rightarrow> ident) \<Rightarrow> plan \<Rightarrow> (string \<times> json) list \<Rightarrow> ('f site, raised, unit) action" where
  "read_back_quietly su cfg ids p actor = handle
     (andthen (failing ForgeRaised (reconcile_plan su cfg ids p (Some actor))) (\<lambda>_. ret ()))
     (\<lambda>x. if x = ForgeRaised Gone then raise (ServiceRaised not_found) else ret ())"

definition note_replan :: "'f surroundings \<Rightarrow> ident \<Rightarrow> ident \<Rightarrow> (string \<times> json) list \<Rightarrow> entry_result list \<Rightarrow> ('f site, raised, unit) action" where
  "note_replan su i node_id actor rs s =
     (case store_note (st_db s) i (su_clock su (st_tick s)) [event_of ''plan.published'' [(''plan_id'', JStr i), (''node_id'', JStr node_id),
         (''replan'', JBool True), (''published'', jstrs (applied_ids rs [ECreated, EFound])), (''modified'', jstrs (applied_ids rs [EUpdated])),
         (''closed'', jstrs (applied_ids rs [EClosed])), (''failed'', jstrs (applied_ids rs [EFailed]))]] (Some actor) of
        Inl _ \<Rightarrow> (Inl (ForgeRaised Gone), s\<lparr>st_tick := Suc (st_tick s)\<rparr>)
      | Inr d \<Rightarrow> (Inr (), s\<lparr>st_db := d, st_tick := Suc (st_tick s)\<rparr>))"

text \<open>The walk catches every refusal of an entry, so the second case is not met.\<close>

definition escaped :: "apply_error \<Rightarrow> raised" where
  "escaped x = (case x of Passed y \<Rightarrow> y | EntryRefused f \<Rightarrow> refused 500 ''internal'' [])"

definition approve_entries :: "'f surroundings \<Rightarrow> config \<Rightarrow> (json \<Rightarrow> string) \<Rightarrow> (entry_failure \<Rightarrow> string) \<Rightarrow> (nat \<Rightarrow> ident) \<Rightarrow> plan \<Rightarrow> ident \<Rightarrow> ident list \<Rightarrow>
    (string \<times> json) list \<Rightarrow> ('f site, raised, applied) action" where
  "approve_entries su cfg digest wording ids p node_id entry_ids actor =
     andthen (read_back_quietly su cfg ids p actor) (\<lambda>_.
     andthen (\<lambda>s. lift (service_get (st_db s) (p_id p)) s) (\<lambda>p'.
     andthen (failing escaped (apply_replan su cfg digest wording p' node_id entry_ids actor (approved_edit su cfg digest (p_id p) actor))) (\<lambda>result.
     andthen (note_replan su (p_id p) node_id actor (ap_results result)) (\<lambda>_.
     andthen (\<lambda>s. lift (service_get (st_db s) (p_id p)) s) (\<lambda>q.
     ret (result\<lparr>ap_plan := q\<rparr>))))))"

definition approve_replan :: "'f surroundings \<Rightarrow> config \<Rightarrow> (json \<Rightarrow> string) \<Rightarrow> (entry_failure \<Rightarrow> string) \<Rightarrow> (nat \<Rightarrow> ident) \<Rightarrow> connection \<Rightarrow> ident \<Rightarrow> ident \<Rightarrow> int \<Rightarrow>
    ident list option \<Rightarrow> (string \<times> json) list \<Rightarrow> ('f desk, raised, applied) action" where
  "approve_replan su cfg digest wording ids cn i node_id expected entry_ids actor =
     andthen (get_plan i) (\<lambda>p.
     andthen (lift (check_approve cfg (cn_kind cn) node_id expected entry_ids p)) (\<lambda>(n, chosen).
     forge_write (p_id p) expected (\<lambda>p'. andthen (connect cn) (\<lambda>_.
       on_site (approve_entries su cfg digest wording ids p' (n_id n) (map e_id chosen) actor)))))"

end
