(* ===== verification/Spec2Isabelle.thy ===== *)
theory Spec2Isabelle
  imports PlanClaims EpicClaims EpicSpec ForgeClaims ReconcileClaims ServiceClaims PlannerFacts ReplanApply
begin

text \<open>
  Lantern's plans.  Lantern turns issues into delivered changes; its plan service
  (\<open>packages/lantern/src/lantern/plans\<close>) lets a person or a planning agent break an initiative into
  epics and tasks, review and approve them, publish them to a forge (GitHub or GitLab) and run an
  epic's tasks.  This development models that service and the daemon's driver of epic runs.  Paths
  below are relative to \<open>packages/lantern/src/lantern\<close>.

  Parts, in the order they build on each other.

  \<^item> \<open>Prelude\<close>, \<open>PyText\<close>, \<open>TextFacts\<close>: sums for calls that raise (\<open>bindR\<close>), JSON values, a \<open>dict\<close>
    as the list of its items, and Python's string methods on code points below 256.
  \<^item> \<open>PlanModel\<close>, \<open>PlanTree\<close> (\<open>plans/model.py\<close>): plans, nodes, drift, re-plans, reviews; children and
    descendants, with the tree facts behind \<open>Plan.descendants\<close>.
  \<^item> \<open>PlanStore\<close> (\<open>plans/store.py\<close>): the plan tables as a database value, \<open>get\<close>, \<open>create\<close>, \<open>apply\<close>,
    \<open>delete\<close>, events, and the retry of a stale write.  One call is one transaction.  The locale
    \<open>revisioned\<close> states the store's contract and is interpreted on the store.
  \<^item> \<open>PlanConfig\<close> (\<open>config.py\<close>, \<open>plans/hierarchy.py\<close>), \<open>PlanBase\<close> (\<open>plans/service_base.py\<close>),
    \<open>PlanMerge\<close>, \<open>PlanDrafts\<close> (\<open>plans/service_drafts.py\<close>), \<open>PlanSteps\<close>, \<open>PlanEffects\<close>: the settings read,
    the checks every operation runs, and the drafting operations.  \<open>PlanMerge\<close> holds the locale
    \<open>plan_decision\<close> (a change decided on the plan read keeps the database well formed), interpreted on
    every drafting operation; \<open>PlanSteps\<close> the step relation over them.
  \<^item> \<open>EpicRun\<close> (\<open>plans/epicrun.py\<close>), \<open>EpicDriver\<close> (\<open>daemon/epicruns.py\<close>,
    \<open>daemon/controls/intake.py\<close>), \<open>EpicPass\<close>, \<open>EpicState\<close>, \<open>EpicMoves\<close>, \<open>EpicSpec\<close>: readiness and
    dependents, the tables of runs, the driver's pass, tick and controls, and the abstract machine
    of runs the driver refines.
  \<^item> \<open>Checklist\<close> (\<open>vcs/checklist.py\<close>), \<open>Render\<close>, \<open>RenderFacts\<close> (\<open>plans/render.py\<close>): the managed
    children block of a description, issue bodies and their reading back, markers.  The regular
    expressions are written out as scanners that try each position in turn.
  \<^item> \<open>Forge\<close>, \<open>ForgeFacts\<close> (\<open>plans/forgeread.py\<close>, \<open>vcs/protocol.py\<close>, \<open>vcs/github/labels.py\<close>): calls that
    change a state and may raise; the forge as a record of operations over an arbitrary state; one
    read and one write of a plan with other writers in between (\<open>retry_write\<close>); the locale
    \<open>node_patch\<close> of the writes that patch one node.
  \<^item> \<open>Publish\<close>, \<open>PublishFacts\<close> (\<open>plans/publish.py\<close>), \<open>Complete\<close>, \<open>CompleteFacts\<close>
    (\<open>plans/complete.py\<close>): publishing a level with its walk's caches, and closing a finished epic.
  \<^item> \<open>Reconcile\<close>, \<open>ReconcileFacts\<close> (\<open>plans/reconcile.py\<close>): reading a plan's tree from the forge, folding the
    reading into the plan with its drift, and recording it; the tree the walk of the fold keeps.
  \<^item> \<open>ForgeWrites\<close> (\<open>plans/direct.py\<close>, the writes of \<open>plans/service_base.py\<close>), \<open>ForgeService\<close>
    (\<open>plans/service_forge.py\<close>): a person's direct writes, and publishing, opening, reconciling,
    acknowledging drift, editing, attaching and detaching.  A service is a \<open>desk\<close>: the claims its
    operations hold on plans, when each plan was last read, and the database and the forge.  A claim is
    taken before the forge is touched and released however the operation ends.
  \<^item> \<open>Questions\<close> (\<open>plans/service_questions.py\<close>): a plan run's clarifying questions asked, posted,
    answered, skipped and withdrawn.  Each operation is a decision on the plan read, written against its
    revision and taken again while other writes win (\<open>service_retry\<close>); the locale \<open>service_decision\<close>
    states what such a decision promises, \<open>one_node_decision\<close> the ones that patch one node, and both
    are interpreted on the decisions.
  \<^item> \<open>Proposals\<close> (\<open>engine/planning.py\<close>): the shapes the planner may answer with, the checks of their
    constructors, dependencies and cycles, and the problems an answer is sent back with.
  \<^item> \<open>Planner\<close>, \<open>PlannerFacts\<close> (\<open>plans/service_planner.py\<close>): the brief of a plan run, its proposal written
    under the node, its re-plan kept on the node, discarded or chosen from; a proposal leaves a tree.
  \<^item> \<open>ReplanApply\<close> (\<open>plans/replan.py\<close>, the approval of \<open>plans/service_planner.py\<close>): a re-plan's entries
    applied to the forge one by one, the additions as one narrowed level, and the diff without what landed.
  \<^item> \<open>PlanClaims\<close>, \<open>EpicClaims\<close>, \<open>EpicSpec\<close>, \<open>Checklist\<close>, \<open>ForgeClaims\<close>, \<open>ReconcileClaims\<close>,
    \<open>ServiceClaims\<close>: the properties, on the sample plans, runs and the tracker of the \<open>Examples\<close> theories.

  Parameters.  The forge (\<open>issue_ops\<close>), the digest of a JSON value, the clock, new ids, other
  writers of the database, and what the daemon does with a queue item are arguments.  What a
  property needs of the forge is a named law (\<open>lists_issues\<close>, \<open>lists_created\<close>,
  \<open>labels_keep_issues\<close>, \<open>reads_issues\<close>, \<open>keeps_comments\<close>), which the tracker of \<open>ForgeExamples\<close> keeps.  The
  ids of the nodes a reconcile adopts are new and differ (\<open>fresh_ids\<close>).

  Bounds.  \<open>descendants\<close> runs with one more unit of fuel than the plan has nodes, which a tree never
  spends (\<open>descendants_fuel_enough\<close>); the placing of tasks runs the rounds the code runs, which
  settle (\<open>place_rounds_quiet\<close>); the pages of a listing are read up to \<open>su_pages\<close>, and a walk ends
  within the pages that cover the issues (\<open>read_pages_ends\<close>), where the code has no bound; the queue of
  a fold has fuel for a root, its children and theirs (\<open>fold_fuel\<close>: three levels), which it never
  spends (\<open>folding_ends\<close>).

  Choices.  Texts made for people are the values they are made from where nothing reads them back;
  logging is left out; the dash of the summaries is code point 151, the quotes 147 and 148; what is wrong
  with a planner's answer or an entry of a re-plan is a value, and the sentence kept with an entry is made
  by an argument (\<open>wording\<close>); JSON columns hold the value
  their text encodes; legacy spellings of configuration keys are not modelled.

  Not modelled: the HTTP API, the terminal interface and the command line (routes and presentation
  over these services), the run engine, the agents, the worker and the sandboxes (subprocesses and
  prompts), the clients of the forges (the forge is a parameter), the migrations and the
  configuration's parsing.  Of the planner's answers, the parsing and length limits of pydantic, the text of
  the prompts and what starts a planner's run (\<open>plans/generation.py\<close>) are left out.
\<close>

end
